(* ===== verification/Hermes_Prelude.thy ===== *)
theory Hermes_Prelude
  imports Main "HOL-Library.Word"
begin

text \<open>
  Shared vocabulary of the development: the machine integer types of the C++ code, the
  \<open>std::expected\<close> combinators, writes into a byte buffer at a moving pointer, byte orders,
  and the generic facts about them. The target is the one of the repository's Docker
  images, x86-64 Linux: memory is little endian.
\<close>

unbundle bit_operations_syntax

type_synonym u8 = "8 word"
type_synonym u16 = "16 word"
type_synonym u32 = "32 word"
type_synonym u64 = "64 word"
type_synonym i16 = "16 word"
type_synonym i32 = "32 word"
type_synonym bytes = "u8 list"

named_theorems buf_simps "facts about buffer reads and writes"
named_theorems inv_intros "introduction rules of component invariants"

section \<open>std::expected\<close>

text \<open>\<open>Inl\<close> is \<open>std::unexpected\<close>, \<open>Inr\<close> a value.\<close>

type_synonym ('e, 'a) expected = "'e + 'a"

primrec and_then :: "('e, 'a) expected \<Rightarrow> ('a \<Rightarrow> ('e, 'b) expected) \<Rightarrow> ('e, 'b) expected" where
  "and_then (Inl e) f = Inl e"
| "and_then (Inr a) f = f a"

primrec transform :: "('e, 'a) expected \<Rightarrow> ('a \<Rightarrow> 'b) \<Rightarrow> ('e, 'b) expected" where
  "transform (Inl e) f = Inl e"
| "transform (Inr a) f = Inr (f a)"

primrec has_value :: "('e, 'a) expected \<Rightarrow> bool" where
  "has_value (Inl e) = False"
| "has_value (Inr a) = True"

lemma and_then_Inr_iff:
  "and_then r f = Inr b \<longleftrightarrow> (\<exists>a. r = Inr a \<and> f a = Inr b)"
  by (cases r) auto

lemma transform_Inr_iff: "transform r f = Inr b \<longleftrightarrow> (\<exists>a. r = Inr a \<and> b = f a)"
  by (cases r) auto

lemma has_value_iff: "has_value r \<longleftrightarrow> (\<exists>a. r = Inr a)"
  by (cases r) auto

section \<open>Writing into a buffer\<close>

text \<open>\<open>put i bs buf\<close> overwrites the bytes of \<open>buf\<close> from index \<open>i\<close> on.\<close>

definition put :: "nat \<Rightarrow> 'a list \<Rightarrow> 'a list \<Rightarrow> 'a list" where
  "put i bs buf = take i buf @ bs @ drop (i + length bs) buf"

lemma length_put [simp]: "i + length bs \<le> length buf \<Longrightarrow> length (put i bs buf) = length buf"
  by (simp add: put_def)

lemma put_Nil [simp]: "put i [] buf = buf"
  by (simp add: put_def)

lemma put_put_adjacent [buf_simps]:
  assumes "i + length bs + length cs \<le> length buf"
  shows "put (i + length bs) cs (put i bs buf) = put i (bs @ cs) buf"
proof -
  have "take (i + length bs) (put i bs buf) = take i buf @ bs"
    using assms by (cases bs) (auto simp: put_def min_def)
  moreover have "drop (i + length bs + length cs) (put i bs buf) = drop (i + length bs + length cs) buf"
    using assms by (cases bs) (auto simp: put_def min_def ac_simps)
  ultimately show ?thesis
    unfolding put_def [of "i + length bs"] by (simp add: put_def ac_simps)
qed

lemma put_0 [buf_simps]: "put 0 bs buf = bs @ drop (length bs) buf"
  by (simp add: put_def)

lemma take_put_le: "j \<le> i \<Longrightarrow> i \<le> length buf \<Longrightarrow> take j (put i bs buf) = take j buf"
  by (simp add: put_def min_def)

lemma drop_put_ge:
  "i + length bs \<le> j \<Longrightarrow> i + length bs \<le> length buf \<Longrightarrow> drop j (put i bs buf) = drop j buf"
  by (simp add: put_def)

lemma put_segment:
  "i + length bs \<le> length buf \<Longrightarrow> take (length bs) (drop i (put i bs buf)) = bs"
  by (simp add: put_def)

text \<open>\<open>emit\<close> writes at the pointer and advances it, as the serialisers do with \<open>buf_ptr\<close>.\<close>

fun emit :: "'a list \<Rightarrow> nat \<times> 'a list \<Rightarrow> nat \<times> 'a list" where
  "emit bs (p, buf) = (p + length bs, put p bs buf)"

lemma emit_emit [buf_simps]:
  "p + length bs + length cs \<le> length buf \<Longrightarrow> emit cs (emit bs (p, buf)) = emit (bs @ cs) (p, buf)"
  by (simp add: put_put_adjacent)

lemma fold_emit:
  "p + length (concat (map f xs)) \<le> length buf \<Longrightarrow>
   fold (\<lambda>x. emit (f x)) xs (p, buf) = emit (concat (map f xs)) (p, buf)"
proof (induction xs arbitrary: p buf)
  case Nil
  then show ?case by simp
next
  case (Cons x xs)
  have "fold (\<lambda>x. emit (f x)) (x # xs) (p, buf)
      = fold (\<lambda>x. emit (f x)) xs (p + length (f x), put p (f x) buf)"
    by simp
  also have "\<dots> = emit (concat (map f xs)) (p + length (f x), put p (f x) buf)"
    by (rule Cons.IH) (use Cons.prems in simp)
  also have "\<dots> = emit (concat (map f (x # xs))) (p, buf)"
    using Cons.prems by (simp add: put_put_adjacent)
  finally show ?case .
qed

lemma fold_emit_emit [buf_simps]:
  assumes "p + length bs + length (concat (map f xs)) \<le> length buf"
  shows "fold (\<lambda>x. emit (f x)) xs (emit bs (p, buf)) = emit (bs @ concat (map f xs)) (p, buf)"
proof -
  have "fold (\<lambda>x. emit (f x)) xs (emit bs (p, buf)) = emit (concat (map f xs)) (emit bs (p, buf))"
    using assms by (simp add: fold_emit)
  then show ?thesis using assms by (simp only: emit_emit)
qed

lemma snd_emit_0 [buf_simps]: "snd (emit bs (0, buf)) = bs @ drop (length bs) buf"
  by (simp add: put_0)

section \<open>Byte orders\<close>

text \<open>\<open>be16\<close> and \<open>be32\<close> are the bytes that storing \<open>htons x\<close> and \<open>htonl x\<close> leaves in memory;
  \<open>get_be16\<close> and \<open>get_be32\<close> read them back (\<open>ntohs\<close>, \<open>ntohl\<close> of a load).\<close>

definition be16 :: "u16 \<Rightarrow> bytes" where
  "be16 w = [ucast (drop_bit 8 w), ucast w]"

definition be32 :: "u32 \<Rightarrow> bytes" where
  "be32 w = [ucast (drop_bit 24 w), ucast (drop_bit 16 w), ucast (drop_bit 8 w), ucast w]"

definition get_be16 :: "bytes \<Rightarrow> nat \<Rightarrow> u16" where
  "get_be16 b p = push_bit 8 (ucast (b ! p)) OR ucast (b ! (p + 1))"

definition get_be32 :: "bytes \<Rightarrow> nat \<Rightarrow> u32" where
  "get_be32 b p = push_bit 24 (ucast (b ! p)) OR push_bit 16 (ucast (b ! (p + 1)))
     OR push_bit 8 (ucast (b ! (p + 2))) OR ucast (b ! (p + 3))"

lemma length_be16 [simp]: "length (be16 w) = 2"
  by (simp add: be16_def)

lemma length_be32 [simp]: "length (be32 w) = 4"
  by (simp add: be32_def)

lemma length_concat_be32 [simp]: "length (concat (map be32 ws)) = 4 * length ws"
  by (induction ws) auto

lemma be16_join: "push_bit 8 (ucast (ucast (drop_bit 8 w) :: u8)) OR ucast (ucast w :: u8) = (w :: u16)"
  by (rule bit_word_eqI) (auto simp: bit_simps)

lemma be32_join:
  "push_bit 24 (ucast (ucast (drop_bit 24 w) :: u8)) OR push_bit 16 (ucast (ucast (drop_bit 16 w) :: u8))
     OR push_bit 8 (ucast (ucast (drop_bit 8 w) :: u8)) OR ucast (ucast w :: u8) = (w :: u32)" (is "?l = _")
proof (rule bit_word_eqI)
  fix n
  assume "n < LENGTH(32)"
  then consider "n < 8" | "8 \<le> n" "n < 16" | "16 \<le> n" "n < 24" | "24 \<le> n" "n < 32"
    by fastforce
  then show "bit ?l n \<longleftrightarrow> bit w n"
    by cases (auto simp: bit_simps)
qed

lemma bit_u8_high [simp]: "8 \<le> k \<Longrightarrow> bit (b :: u8) (k + n) \<longleftrightarrow> False"
  by (auto dest: bit_imp_le_length)

lemma be16_split: "be16 (push_bit 8 (ucast (a :: u8)) OR ucast (b :: u8)) = [a, b]"
  by (auto simp: be16_def bit_simps intro!: bit_word_eqI)

lemma be32_split:
  "be32 (push_bit 24 (ucast (a :: u8)) OR push_bit 16 (ucast (b :: u8))
     OR push_bit 8 (ucast (c :: u8)) OR ucast (d :: u8)) = [a, b, c, d]"
  by (auto simp: be32_def bit_simps intro!: bit_word_eqI)

section \<open>Signed 16-bit values\<close>

lemma sint_i16_range: "-32768 \<le> sint (x :: i16)" "sint (x :: i16) < 32768"
  using sint_range_size [of x] by (simp_all add: word_size)

lemma sint_of_int_i16: "-32768 \<le> a \<Longrightarrow> a < 32768 \<Longrightarrow> sint (word_of_int a :: i16) = a"
  by (simp add: int_word_sint mod_pos_pos_trivial)

lemma unat_u8_lt [simp]: "unat (b :: u8) < 256"
  by (rule order_less_le_trans [OF unsigned_less]) simp

end
