(* ===== verification/Hermes_Types.thy ===== *)
theory Hermes_Types
  imports Hermes_Prelude
begin

text \<open>
  The shared vocabulary of \<open>core/config/Types.hpp\<close> and the constants of
  \<open>core/config/Config.hpp\<close>: error codes with their underlying values and order, the two
  error structures, the text of a code, the audio format.
\<close>

section \<open>Error codes\<close>

datatype node_error_code =
    Success | Underrun | EndOfStream | FileIOError | FormatError
  | InternalError | InitializationFailed | Critical | NotSupported

datatype app_error =
    AppSuccess | ConfigError | ParseError | NetworkError | FileSystemError
  | LogicError | AppCritical

text \<open>\<open>std::to_underlying\<close> of the two \<open>enum class : std::uint8_t\<close> types.\<close>

primrec node_code_value :: "node_error_code \<Rightarrow> nat" where
  "node_code_value Success = 0"
| "node_code_value Underrun = 1"
| "node_code_value EndOfStream = 2"
| "node_code_value FileIOError = 3"
| "node_code_value FormatError = 4"
| "node_code_value InternalError = 5"
| "node_code_value InitializationFailed = 6"
| "node_code_value Critical = 7"
| "node_code_value NotSupported = 8"

primrec app_code_value :: "app_error \<Rightarrow> nat" where
  "app_code_value AppSuccess = 0"
| "app_code_value ConfigError = 1"
| "app_code_value ParseError = 2"
| "app_code_value NetworkError = 3"
| "app_code_value FileSystemError = 4"
| "app_code_value LogicError = 5"
| "app_code_value AppCritical = 6"

lemma node_code_value_inj: "node_code_value a = node_code_value b \<Longrightarrow> a = b"
  by (cases a; cases b) simp_all

lemma app_code_value_inj: "app_code_value a = app_code_value b \<Longrightarrow> a = b"
  by (cases a; cases b) simp_all

text \<open>Enumerators of one \<open>enum class\<close> compare by their underlying values.\<close>

instantiation node_error_code :: linorder
begin

definition less_eq_node_error_code :: "node_error_code \<Rightarrow> node_error_code \<Rightarrow> bool" where
  "less_eq_node_error_code a b \<longleftrightarrow> node_code_value a \<le> node_code_value b"

definition less_node_error_code :: "node_error_code \<Rightarrow> node_error_code \<Rightarrow> bool" where
  "less_node_error_code a b \<longleftrightarrow> node_code_value a < node_code_value b"

instance
  by standard
    (auto simp: less_eq_node_error_code_def less_node_error_code_def intro: node_code_value_inj)

end

instantiation app_error :: linorder
begin

definition less_eq_app_error :: "app_error \<Rightarrow> app_error \<Rightarrow> bool" where
  "less_eq_app_error a b \<longleftrightarrow> app_code_value a \<le> app_code_value b"

definition less_app_error :: "app_error \<Rightarrow> app_error \<Rightarrow> bool" where
  "less_app_error a b \<longleftrightarrow> app_code_value a < app_code_value b"

instance
  by standard (auto simp: less_eq_app_error_def less_app_error_def intro: app_code_value_inj)

end

section \<open>Error values\<close>

record node_error =
  ne_code :: node_error_code
  ne_message :: string
  ne_node_id :: string

record error_info =
  ei_code :: app_error
  ei_message :: string

definition node_error_From :: "node_error_code \<Rightarrow> string \<Rightarrow> string \<Rightarrow> node_error" where
  "node_error_From code msg node_id = \<lparr>ne_code = code, ne_message = msg, ne_node_id = node_id\<rparr>"

definition error_info_From :: "app_error \<Rightarrow> string \<Rightarrow> error_info" where
  "error_info_From code msg = \<lparr>ei_code = code, ei_message = msg\<rparr>"

lemma ei_code_From [simp]: "ei_code (error_info_From c m) = c"
  by (simp add: error_info_From_def)

lemma ei_message_From [simp]: "ei_message (error_info_From c m) = m"
  by (simp add: error_info_From_def)

lemma ne_code_From [simp]: "ne_code (node_error_From c m i) = c"
  by (simp add: node_error_From_def)

lemma ne_message_From [simp]: "ne_message (node_error_From c m i) = m"
  by (simp add: node_error_From_def)

text \<open>\<open>to_string(NodeErrorCode)\<close>, with the \<open>default\<close> branch that \<open>NotSupported\<close> reaches.\<close>

fun to_string :: "node_error_code \<Rightarrow> string" where
  "to_string Success = ''Success''"
| "to_string Underrun = ''Audio Underrun''"
| "to_string FileIOError = ''File IO Error''"
| "to_string EndOfStream = ''EndOfStream''"
| "to_string FormatError = ''Json Format Error''"
| "to_string Critical = ''Critical Error''"
| "to_string InternalError = ''InternalError''"
| "to_string InitializationFailed = ''InitializationFailed''"
| "to_string _ = ''Unknown Error''"

section \<open>Audio format constants\<close>

definition SAMPLE_RATE :: nat where "SAMPLE_RATE = 8000"
definition CHANNELS :: nat where "CHANNELS = 1"
definition WINDOW_MS :: nat where "WINDOW_MS = 50"
definition FRAME_DURATION :: nat where "FRAME_DURATION = 20"
definition SAMPLES_PER_FRAME :: nat where "SAMPLES_PER_FRAME = 160"
definition BYTES_PER_SAMPLE :: nat where "BYTES_PER_SAMPLE = 2"
definition FRAME_SIZE_BYTES :: nat where
  "FRAME_SIZE_BYTES = SAMPLES_PER_FRAME * BYTES_PER_SAMPLE"
definition BUFFER_SIZE :: nat where "BUFFER_SIZE = 1024 * 128"
definition RTP_HEADER_SIZE :: nat where "RTP_HEADER_SIZE = 12"

lemma FRAME_SIZE_BYTES_eq [simp]: "FRAME_SIZE_BYTES = 320"
  by (simp add: FRAME_SIZE_BYTES_def SAMPLES_PER_FRAME_def BYTES_PER_SAMPLE_def)

lemma BUFFER_SIZE_eq [simp]: "BUFFER_SIZE = 131072"
  by (simp add: BUFFER_SIZE_def)

lemma RTP_HEADER_SIZE_eq [simp]: "RTP_HEADER_SIZE = 12"
  by (simp add: RTP_HEADER_SIZE_def)

datatype session_type = Standard | StandartEncrypted | WebRTC

section \<open>Decimal printing\<close>

text \<open>\<open>std::to_string\<close> and the \<open>{}\<close> of \<open>std::format\<close> on an unsigned number.\<close>

fun show_nat :: "nat \<Rightarrow> string" where
  "show_nat n = (if n < 10 then [char_of (48 + n)] else show_nat (n div 10) @ [char_of (48 + n mod 10)])"

declare show_nat.simps [simp del]

end
