(* ===== verification/Double_Buffer.thy ===== *)
theory Double_Buffer
  imports Hermes_Types
begin

text \<open>
  \<open>infra/audio/DoubleBuffer\<close>: two blocks of \<open>BUFFER_SIZE\<close> bytes, the index of the block the
  consumer reads, the flag that the other block is full. A span is the index of its block: it
  stays on that block when the buffers are swapped later. The path is not used by any operation.
\<close>

record double_buffer =
  back_buffer_ready :: bool
  block0 :: bytes
  block1 :: bytes
  read_index :: nat

definition new_double_buffer :: double_buffer where
  "new_double_buffer = \<lparr>back_buffer_ready = False, block0 = replicate BUFFER_SIZE 0,
     block1 = replicate BUFFER_SIZE 0, read_index = 0\<rparr>"

definition get_read_span :: "double_buffer \<Rightarrow> nat" where
  "get_read_span bf = read_index bf"

definition get_write_span :: "double_buffer \<Rightarrow> nat" where
  "get_write_span bf = 1 - read_index bf"

text \<open>The bytes a span refers to, and a store through a span.\<close>

definition block :: "nat \<Rightarrow> double_buffer \<Rightarrow> bytes" where
  "block k bf = (if k = 0 then block0 bf else block1 bf)"

definition set_block :: "nat \<Rightarrow> bytes \<Rightarrow> double_buffer \<Rightarrow> double_buffer" where
  "set_block k bs bf = (if k = 0 then bf\<lparr>block0 := bs\<rparr> else bf\<lparr>block1 := bs\<rparr>)"

definition set_read_index :: "nat \<Rightarrow> double_buffer \<Rightarrow> double_buffer" where
  "set_read_index value bf = bf\<lparr>read_index := value\<rparr>"

definition swap_blocks :: "double_buffer \<Rightarrow> double_buffer" where
  "swap_blocks bf = bf\<lparr>read_index := 1 - read_index bf\<rparr>"

definition reset_blocks :: "double_buffer \<Rightarrow> double_buffer" where
  "reset_blocks bf =
     (set_read_index 0 bf)\<lparr>back_buffer_ready := False,
        block0 := replicate (length (block0 bf)) 0, block1 := replicate (length (block1 bf)) 0\<rparr>"

definition buffer_inv :: "double_buffer \<Rightarrow> bool" where
  "buffer_inv bf \<longleftrightarrow> read_index bf < 2 \<and> length (block0 bf) = BUFFER_SIZE \<and> length (block1 bf) = BUFFER_SIZE"

lemma buffer_inv_new [inv_intros]: "buffer_inv new_double_buffer"
  by (simp add: buffer_inv_def new_double_buffer_def)

lemma buffer_inv_swap [inv_intros]: "buffer_inv bf \<Longrightarrow> buffer_inv (swap_blocks bf)"
  by (simp add: buffer_inv_def swap_blocks_def)

lemma buffer_inv_reset [inv_intros]: "buffer_inv bf \<Longrightarrow> buffer_inv (reset_blocks bf)"
  by (simp add: buffer_inv_def reset_blocks_def set_read_index_def)

lemma buffer_inv_set_block [inv_intros]:
  "buffer_inv bf \<Longrightarrow> length bs = BUFFER_SIZE \<Longrightarrow> buffer_inv (set_block k bs bf)"
  by (simp add: buffer_inv_def set_block_def)

lemma buffer_inv_ready [inv_intros]: "buffer_inv bf \<Longrightarrow> buffer_inv (bf\<lparr>back_buffer_ready := r\<rparr>)"
  by (simp add: buffer_inv_def)

lemma length_block [simp]: "buffer_inv bf \<Longrightarrow> length (block k bf) = 131072"
  by (simp add: buffer_inv_def block_def)

lemma block_set_block [simp]:
  "block k (set_block k bs bf) = bs"
  "j < 2 \<Longrightarrow> k < 2 \<Longrightarrow> j \<noteq> k \<Longrightarrow> block j (set_block k bs bf) = block j bf"
  by (auto simp: block_def set_block_def)

lemma block_ready [simp]: "block k (bf\<lparr>back_buffer_ready := r\<rparr>) = block k bf"
  by (simp add: block_def)

lemma block_swap [simp]: "block k (swap_blocks bf) = block k bf"
  by (simp add: block_def swap_blocks_def)

lemma set_block_frame [simp]:
  "read_index (set_block k bs bf) = read_index bf"
  "back_buffer_ready (set_block k bs bf) = back_buffer_ready bf"
  by (simp_all add: set_block_def)

lemma swap_frame [simp]:
  "back_buffer_ready (swap_blocks bf) = back_buffer_ready bf"
  "read_index (swap_blocks bf) = 1 - read_index bf"
  by (simp_all add: swap_blocks_def)

lemma spans_distinct: "buffer_inv bf \<Longrightarrow> get_read_span bf \<noteq> get_write_span bf"
  by (cases "read_index bf") (simp_all add: buffer_inv_def get_read_span_def get_write_span_def)

lemma swap_swap: "buffer_inv bf \<Longrightarrow> swap_blocks (swap_blocks bf) = bf"
  by (cases "read_index bf") (auto simp: swap_blocks_def buffer_inv_def)

end
