(* ===== verification/Buffer_Controller.thy ===== *)
theory Buffer_Controller
  imports Double_Buffer
begin

text \<open>
  \<open>infra/io/AsyncBufferController\<close>. A coroutine of the controller is a task that runs to its
  next \<open>co_await\<close>; the model has one event per resumption and one for every effect that the
  awaited fetch callback may have on its span, so that the executor may call \<open>get_frame\<close> at any
  point between them. What the fetch callback does is the parameter of the events; what it
  delivers as a source is the locale \<open>fetch_source\<close>.
\<close>

section \<open>State\<close>

datatype buffer_state = BsIdle | BsInitializing | BsReady | BsUnderrun | BsFaulted | BsEndOfStream

text \<open>Where a coroutine is suspended, with the span it holds: before it runs
  (\<open>Spawned\<close>), in the fetch of a refill, in the first and second fetch of \<open>initialize_buffers\<close>.\<close>

datatype task = Spawned | InRefill nat | InInit1 nat | InInit2 nat

record controller =
  bf :: double_buffer
  in_buffer_processed_frames :: nat
  bstate :: buffer_state
  tasks :: "task list"

definition new_controller :: controller where
  "new_controller = \<lparr>bf = new_double_buffer, in_buffer_processed_frames = 0, bstate = BsIdle, tasks = []\<rparr>"

section \<open>Operations\<close>

definition swap_and_trigger_refill :: "controller \<Rightarrow> controller" where
  "swap_and_trigger_refill c =
     c\<lparr>bf := swap_blocks (bf c), in_buffer_processed_frames := 0, tasks := tasks c @ [Spawned]\<rparr>"

definition underrun_error :: node_error where
  "underrun_error = \<lparr>ne_code = Underrun, ne_message = ''Buffer underrun'', ne_node_id = ''''\<rparr>"

text \<open>\<open>get_frame\<close> returns its result, the output buffer and the controller.\<close>

definition get_frame ::
  "bytes \<Rightarrow> nat \<Rightarrow> controller \<Rightarrow> (node_error, unit) expected \<times> bytes \<times> controller" where
  "get_frame output_buffer offset c =
    (let current_span = get_read_span (bf c);
         buffer_offset = in_buffer_processed_frames c * FRAME_SIZE_BYTES + offset;
         copy = (\<lambda>c span off.
           (Inr (), put 0 (take FRAME_SIZE_BYTES (drop off (block span (bf c)))) output_buffer,
            c\<lparr>in_buffer_processed_frames := in_buffer_processed_frames c + 1\<rparr>))
     in if buffer_offset + FRAME_SIZE_BYTES > length (block current_span (bf c))
        then if \<not> back_buffer_ready (bf c)
             then (Inl underrun_error, replicate (length output_buffer) 0, c\<lparr>bstate := BsUnderrun\<rparr>)
             else let c = swap_and_trigger_refill c in copy c (get_read_span (bf c)) offset
        else copy c current_span buffer_offset)"

definition reset_controller :: "controller \<Rightarrow> controller" where
  "reset_controller c =
     c\<lparr>bf := reset_blocks (bf c), in_buffer_processed_frames := 0, bstate := BsIdle\<rparr>"

text \<open>\<open>initialize_buffers\<close> up to its first \<open>co_await\<close>.\<close>

definition begin_initialize :: "controller \<Rightarrow> controller" where
  "begin_initialize c =
     c\<lparr>bstate := BsInitializing, tasks := tasks c @ [InInit1 (get_write_span (bf c))]\<rparr>"

text \<open>The fetch callback stores into the span it was given.\<close>

definition task_span :: "task \<Rightarrow> nat option" where
  "task_span t = (case t of Spawned \<Rightarrow> None | InRefill k \<Rightarrow> Some k | InInit1 k \<Rightarrow> Some k | InInit2 k \<Rightarrow> Some k)"

definition zero_from :: "nat \<Rightarrow> bytes \<Rightarrow> bytes" where
  "zero_from n bs = take n bs @ replicate (length bs - n) 0"

definition remove_task :: "nat \<Rightarrow> controller \<Rightarrow> controller" where
  "remove_task i c = c\<lparr>tasks := take i (tasks c) @ drop (Suc i) (tasks c)\<rparr>"

text \<open>A spawned refill starts: it takes the write span and awaits the fetch.\<close>

definition begin_refill :: "nat \<Rightarrow> controller \<Rightarrow> controller" where
  "begin_refill i c = c\<lparr>tasks := (tasks c)[i := InRefill (get_write_span (bf c))]\<rparr>"

text \<open>The fetch of task \<open>i\<close> returns \<open>bytes_read\<close>.\<close>

definition finish_fetch :: "nat \<Rightarrow> nat \<Rightarrow> controller \<Rightarrow> controller" where
  "finish_fetch i bytes_read c =
    (case tasks c ! i of
       Spawned \<Rightarrow> c
     | InRefill k \<Rightarrow>
         let c = c\<lparr>bf := set_block k (zero_from bytes_read (block k (bf c))) (bf c)\<rparr>;
             c = (if bytes_read = 0 then c\<lparr>bstate := BsEndOfStream\<rparr> else c)
         in remove_task i (c\<lparr>bf := (bf c)\<lparr>back_buffer_ready := True\<rparr>\<rparr>)
     | InInit1 k \<Rightarrow>
         let b = set_block k (zero_from bytes_read (block k (bf c))) (bf c);
             b = swap_blocks (b\<lparr>back_buffer_ready := True\<rparr>)
         in c\<lparr>bf := b, tasks := (tasks c)[i := InInit2 (get_write_span b)]\<rparr>
     | InInit2 k \<Rightarrow>
         let b = set_block k (zero_from bytes_read (block k (bf c))) (bf c)
         in remove_task i (c\<lparr>bf := b\<lparr>back_buffer_ready := True\<rparr>, bstate := BsReady\<rparr>))"

text \<open>The fetch of task \<open>i\<close> throws: a refill catches, \<open>initialize_buffers\<close> passes it on.\<close>

definition fetch_throws :: "nat \<Rightarrow> controller \<Rightarrow> controller" where
  "fetch_throws i c =
    (case tasks c ! i of InRefill k \<Rightarrow> remove_task i (c\<lparr>bstate := BsFaulted\<rparr>) | _ \<Rightarrow> remove_task i c)"

section \<open>Interleavings\<close>

datatype event =
    GetFrame bytes nat | Reset | BeginInitialize | BeginRefill nat
  | Store nat nat bytes | FetchReturns nat nat | FetchThrows nat

inductive controller_step :: "controller \<Rightarrow> event \<Rightarrow> controller \<Rightarrow> bool" where
  cs_get: "get_frame out off c = (r, out', c') \<Longrightarrow> controller_step c (GetFrame out off) c'"
| cs_reset: "controller_step c Reset (reset_controller c)"
| cs_init: "controller_step c BeginInitialize (begin_initialize c)"
| cs_begin: "i < length (tasks c) \<Longrightarrow> tasks c ! i = Spawned \<Longrightarrow> controller_step c (BeginRefill i) (begin_refill i c)"
| cs_store: "i < length (tasks c) \<Longrightarrow> task_span (tasks c ! i) = Some k \<Longrightarrow> p + length bs \<le> BUFFER_SIZE \<Longrightarrow>
    controller_step c (Store i p bs) (c\<lparr>bf := set_block k (put p bs (block k (bf c))) (bf c)\<rparr>)"
| cs_return: "i < length (tasks c) \<Longrightarrow> task_span (tasks c ! i) \<noteq> None \<Longrightarrow> n \<le> BUFFER_SIZE \<Longrightarrow>
    controller_step c (FetchReturns i n) (finish_fetch i n c)"
| cs_throw: "i < length (tasks c) \<Longrightarrow> task_span (tasks c ! i) \<noteq> None \<Longrightarrow>
    controller_step c (FetchThrows i) (fetch_throws i c)"

inductive_cases controller_stepE: "controller_step c e c'"

inductive controller_run :: "controller \<Rightarrow> event list \<Rightarrow> controller \<Rightarrow> bool" where
  run_nil: "controller_run c [] c"
| run_snoc: "controller_run c es c' \<Longrightarrow> controller_step c' e c'' \<Longrightarrow> controller_run c (es @ [e]) c''"

section \<open>Invariant\<close>

definition task_ok :: "task \<Rightarrow> bool" where
  "task_ok t \<longleftrightarrow> (\<forall>k. task_span t = Some k \<longrightarrow> k < 2)"

definition controller_inv :: "controller \<Rightarrow> bool" where
  "controller_inv c \<longleftrightarrow> buffer_inv (bf c) \<and> list_all task_ok (tasks c)"

lemma get_write_span_lt [simp]: "get_write_span b < 2"
  by (simp add: get_write_span_def)

lemma task_ok_simps [simp]:
  "task_ok Spawned" "task_ok (InRefill k) \<longleftrightarrow> k < 2" "task_ok (InInit1 k) \<longleftrightarrow> k < 2" "task_ok (InInit2 k) \<longleftrightarrow> k < 2"
  by (auto simp: task_ok_def task_span_def)

lemma length_zero_from [simp]: "n \<le> length bs \<Longrightarrow> length (zero_from n bs) = length bs"
  by (simp add: zero_from_def)

lemma tasks_remove_task: "list_all task_ok (tasks c) \<Longrightarrow> list_all task_ok (tasks (remove_task i c))"
  by (auto simp: remove_task_def list_all_iff dest: in_set_takeD in_set_dropD)

lemma tasks_update: "list_all task_ok ts \<Longrightarrow> task_ok t \<Longrightarrow> list_all task_ok (ts[i := t])"
  by (auto simp: list_all_iff dest: set_update_subset_insert [THEN subsetD])

lemma remove_task_frame [simp]:
  "bf (remove_task i c) = bf c" "bstate (remove_task i c) = bstate c"
  "in_buffer_processed_frames (remove_task i c) = in_buffer_processed_frames c"
  by (simp_all add: remove_task_def)

lemma controller_inv_new [inv_intros]: "controller_inv new_controller"
  by (simp add: controller_inv_def new_controller_def inv_intros)

lemma controller_inv_update:
  "controller_inv c \<Longrightarrow> buffer_inv b \<Longrightarrow> controller_inv (c\<lparr>bf := b\<rparr>)"
  by (simp add: controller_inv_def)

lemma controller_inv_get_frame [inv_intros]:
  "controller_inv c \<Longrightarrow> controller_inv (snd (snd (get_frame out off c)))"
  by (auto simp: get_frame_def controller_inv_def Let_def swap_and_trigger_refill_def intro: inv_intros)

lemma controller_inv_zero_from:
  assumes "controller_inv c" and "n \<le> BUFFER_SIZE"
  shows "buffer_inv (set_block k (zero_from n (block k (bf c))) (bf c))"
  using assms by (intro inv_intros) (simp_all add: controller_inv_def)

lemma controller_inv_finish_fetch [inv_intros]:
  assumes "controller_inv c" and "n \<le> BUFFER_SIZE"
  shows "controller_inv (finish_fetch i n c)"
proof (cases "tasks c ! i")
  case Spawned
  then show ?thesis using assms(1) by (simp add: finish_fetch_def)
next
  case (InRefill k)
  then show ?thesis
    using assms controller_inv_zero_from [OF assms, of k]
    by (auto simp: finish_fetch_def Let_def controller_inv_def intro!: inv_intros tasks_remove_task)
next
  case (InInit1 k)
  then show ?thesis
    using assms controller_inv_zero_from [OF assms, of k]
    by (auto simp: finish_fetch_def Let_def controller_inv_def intro!: inv_intros tasks_update)
next
  case (InInit2 k)
  then show ?thesis
    using assms controller_inv_zero_from [OF assms, of k]
    by (auto simp: finish_fetch_def Let_def controller_inv_def intro!: inv_intros tasks_remove_task)
qed

lemma controller_inv_step:
  assumes "controller_step c e c'" and "controller_inv c"
  shows "controller_inv c'"
  using assms
proof (cases rule: controller_step.cases)
  case (cs_get out off r out')
  then show ?thesis using controller_inv_get_frame [OF assms(2), of out off] by simp
next
  case cs_reset
  then show ?thesis
    using assms(2) by (simp add: controller_inv_def reset_controller_def inv_intros)
next
  case cs_init
  then show ?thesis using assms(2) by (simp add: controller_inv_def begin_initialize_def)
next
  case (cs_begin i)
  then show ?thesis using assms(2) by (simp add: controller_inv_def begin_refill_def tasks_update)
next
  case (cs_store i k p bs)
  have "length (put p bs (block k (bf c))) = BUFFER_SIZE"
    using cs_store(5) assms(2) by (simp add: controller_inv_def)
  then show ?thesis
    using cs_store(2) assms(2) by (simp add: controller_inv_def buffer_inv_set_block)
next
  case (cs_return i n)
  then show ?thesis using controller_inv_finish_fetch [OF assms(2)] by simp
next
  case (cs_throw i)
  then show ?thesis
    using assms(2) by (auto simp: controller_inv_def fetch_throws_def intro: tasks_remove_task split: task.split)
qed

lemma controller_inv_run: "controller_run c es c' \<Longrightarrow> controller_inv c \<Longrightarrow> controller_inv c'"
  by (induction rule: controller_run.induct) (auto intro: controller_inv_step)

section \<open>The ready flag\<close>

lemma ready_step:
  assumes "controller_step c e c'" and "e \<noteq> Reset" and "back_buffer_ready (bf c)"
  shows "back_buffer_ready (bf c')"
  using assms
  by (cases rule: controller_step.cases)
    (auto simp: get_frame_def Let_def swap_and_trigger_refill_def begin_initialize_def begin_refill_def
      finish_fetch_def fetch_throws_def split: if_splits task.splits)

lemma ready_run:
  "controller_run c es c' \<Longrightarrow> Reset \<notin> set es \<Longrightarrow> back_buffer_ready (bf c) \<Longrightarrow> back_buffer_ready (bf c')"
  by (induction rule: controller_run.induct) (auto intro: ready_step)

lemma get_frame_ready: "back_buffer_ready (bf c) \<Longrightarrow> fst (get_frame out off c) = Inr ()"
  by (simp add: get_frame_def Let_def)

section \<open>Playing with prompt refills\<close>

text \<open>
  A source is a state and a fetch that fills at most the given number of bytes. \<open>run_task\<close> runs
  the refill at position \<open>i\<close> to its end, \<open>initialize_now\<close> the coroutine \<open>initialize_buffers\<close>.
\<close>

definition finish_with :: "nat \<Rightarrow> bytes \<Rightarrow> controller \<Rightarrow> controller" where
  "finish_with i bs c =
     (case task_span (tasks c ! i) of None \<Rightarrow> c
      | Some k \<Rightarrow> finish_fetch i (length bs) (c\<lparr>bf := set_block k (put 0 bs (block k (bf c))) (bf c)\<rparr>))"

definition run_task :: "('s \<Rightarrow> nat \<Rightarrow> bytes \<times> 's) \<Rightarrow> nat \<Rightarrow> 's \<times> controller \<Rightarrow> 's \<times> controller" where
  "run_task fetch i sc =
     (let (s, c) = sc; c = begin_refill i c; (bs, s) = fetch s BUFFER_SIZE in (s, finish_with i bs c))"

definition initialize_now :: "('s \<Rightarrow> nat \<Rightarrow> bytes \<times> 's) \<Rightarrow> 's \<times> controller \<Rightarrow> 's \<times> controller" where
  "initialize_now fetch sc =
     (let (s, c) = sc; i = length (tasks c); c = begin_initialize c;
          (bs1, s) = fetch s BUFFER_SIZE; c = finish_with i bs1 c;
          (bs2, s) = fetch s BUFFER_SIZE; c = finish_with i bs2 c
      in (s, c))"

text \<open>The refill that a \<open>get_frame\<close> has started, if any, runs to its end.\<close>

definition settle :: "('s \<Rightarrow> nat \<Rightarrow> bytes \<times> 's) \<Rightarrow> 's \<times> controller \<Rightarrow> 's \<times> controller" where
  "settle fetch sc = (if tasks (snd sc) = [] then sc else run_task fetch 0 sc)"

lemma zero_from_put:
  "length bs \<le> length b \<Longrightarrow> zero_from (length bs) (put 0 bs b) = bs @ replicate (length b - length bs) 0"
  by (simp add: zero_from_def put_0)

lemma put_all: "length bs = length b \<Longrightarrow> put 0 bs b = bs"
  by (simp add: put_0)

lemma set_block_twice [simp]: "set_block k y (set_block k x b) = set_block k y b"
  by (simp add: set_block_def)

lemma block_reread [simp]: "k < 2 \<Longrightarrow> block k (b\<lparr>read_index := r\<rparr>) = block k b"
  by (simp add: block_def)

text \<open>
  The contract of a fetch callback: \<open>at k s\<close> says that the source has handed out \<open>k\<close> blocks, and
  the next fetch fills at most the span with what, padded with zeros, is block \<open>blk k\<close>.
\<close>

locale fetch_source =
  fixes fetch :: "'s \<Rightarrow> nat \<Rightarrow> bytes \<times> 's"
    and at :: "nat \<Rightarrow> 's \<Rightarrow> bool"
    and blk :: "nat \<Rightarrow> bytes"
  assumes fetch_fits: "at k s \<Longrightarrow> fetch s BUFFER_SIZE = (bs, s') \<Longrightarrow> length bs \<le> BUFFER_SIZE"
    and fetch_block: "at k s \<Longrightarrow> fetch s BUFFER_SIZE = (bs, s') \<Longrightarrow> bs @ replicate (BUFFER_SIZE - length bs) 0 = blk k"
    and fetch_advances: "at k s \<Longrightarrow> fetch s BUFFER_SIZE = (bs, s') \<Longrightarrow> at (Suc k) s'"

text \<open>The state between two frames: the block being read is the \<open>q\<close>-th of the source, the other
  one the next, and \<open>p\<close> frames of the former are used up.\<close>

definition playing ::
  "(nat \<Rightarrow> 's \<Rightarrow> bool) \<Rightarrow> (nat \<Rightarrow> bytes) \<Rightarrow> nat \<Rightarrow> nat \<Rightarrow> 's \<times> controller \<Rightarrow> bool" where
  "playing at blk q p sc \<longleftrightarrow>
     (let (s, c) = sc in
      at (q + 2) s \<and> tasks c = [] \<and> back_buffer_ready (bf c)
      \<and> in_buffer_processed_frames c = p \<and> p \<le> 409 \<and> buffer_inv (bf c)
      \<and> block (get_read_span (bf c)) (bf c) = blk q
      \<and> block (get_write_span (bf c)) (bf c) = blk (q + 1))"

text \<open>The state after a swap until the refill that it spawned has run: the block being read is the \<open>q\<close>-th, the
  other one is used up.\<close>

definition awaiting ::
  "(nat \<Rightarrow> 's \<Rightarrow> bool) \<Rightarrow> (nat \<Rightarrow> bytes) \<Rightarrow> nat \<Rightarrow> nat \<Rightarrow> 's \<times> controller \<Rightarrow> bool" where
  "awaiting at blk q p sc \<longleftrightarrow>
     (let (s, c) = sc in
      at (q + 1) s \<and> tasks c = [Spawned] \<and> back_buffer_ready (bf c)
      \<and> in_buffer_processed_frames c = p \<and> 1 \<le> p \<and> p \<le> 409 \<and> buffer_inv (bf c)
      \<and> block (get_read_span (bf c)) (bf c) = blk q)"

text \<open>The frame that is due in that state.\<close>

definition due_frame :: "(nat \<Rightarrow> bytes) \<Rightarrow> nat \<Rightarrow> nat \<Rightarrow> bytes" where
  "due_frame blk q p = (if p < 409 then take 320 (drop (p * 320) (blk q)) else take 320 (blk (q + 1)))"

lemma due_frame_nth:
  assumes "p \<le> 409"
  shows "due_frame blk q p = take 320 (drop ((q * 409 + p) mod 409 * 320) (blk ((q * 409 + p) div 409)))"
  using assms by (cases "p < 409") (auto simp: due_frame_def)

context fetch_source
begin

lemma initialize_playing:
  assumes "at 0 s" and "controller_inv c" and "tasks c = []" and "in_buffer_processed_frames c = p" and "p \<le> 409"
  shows "playing at blk 0 p (initialize_now fetch (s, c))"
proof -
  have b: "buffer_inv (bf c)" using assms(2) by (simp add: controller_inv_def)
  have r: "read_index (bf c) = 0 \<or> read_index (bf c) = 1"
    using b by (auto simp: buffer_inv_def)
  obtain bs1 s1 where f1: "fetch s 131072 = (bs1, s1)" by fastforce
  then have 1: "length bs1 \<le> 131072" "bs1 @ replicate (131072 - length bs1) 0 = blk 0" "at (Suc 0) s1"
    using fetch_fits [OF assms(1)] fetch_block [OF assms(1)] fetch_advances [OF assms(1)] by simp_all
  obtain bs2 s2 where f2: "fetch s1 131072 = (bs2, s2)" by fastforce
  then have 2: "length bs2 \<le> 131072" "bs2 @ replicate (131072 - length bs2) 0 = blk (Suc 0)" "at (Suc (Suc 0)) s2"
    using fetch_fits [OF 1(3)] fetch_block [OF 1(3)] fetch_advances [OF 1(3)] by simp_all
  have len: "length (blk 0) = 131072" "length (blk (Suc 0)) = 131072"
    using 1(1) 2(1) by (simp_all flip: 1(2) 2(2))
  show ?thesis
    using r
    by (elim disjE)
      (simp_all add: playing_def initialize_now_def begin_initialize_def finish_with_def f1 f2 assms(3-)
        task_span_def finish_fetch_def Let_def get_write_span_def get_read_span_def remove_task_def
        zero_from_put b 1 2 len inv_intros)
qed

lemma get_frame_same_block:
  assumes "in_buffer_processed_frames c = p" and "p < 409" and "buffer_inv (bf c)" and "block (get_read_span (bf c)) (bf c) = blk q"
  shows "get_frame (replicate 320 0) 0 c = (Inr (), due_frame blk q p, c\<lparr>in_buffer_processed_frames := p + 1\<rparr>)"
proof -
  have "length (blk q) = 131072"
    using assms(3) unfolding assms(4) [symmetric] by (auto simp: buffer_inv_def block_def get_read_span_def)
  moreover have "p * 320 + 320 \<le> (131072 :: nat)" using assms(2) by simp
  ultimately show ?thesis
    using assms by (simp add: get_frame_def Let_def put_all due_frame_def)
qed

text \<open>The frame at which the blocks are swapped: from then on a refill is awaited.\<close>

lemma get_frame_swaps:
  assumes "playing at blk q 409 (s, c)" and "at (q + 2) s'" and "get_frame (replicate 320 0) 0 c = (r, out, c')"
  shows "r = Inr () \<and> out = due_frame blk q 409 \<and> awaiting at blk (q + 1) 1 (s', c')"
proof -
  have st: "tasks c = []" "back_buffer_ready (bf c)" "in_buffer_processed_frames c = 409" "buffer_inv (bf c)"
    "block (read_index (bf c)) (bf c) = blk q" "block (Suc 0 - read_index (bf c)) (bf c) = blk (Suc q)"
    using assms(1) by (simp_all add: playing_def get_read_span_def get_write_span_def)
  have r: "read_index (bf c) = 0 \<or> read_index (bf c) = 1" using st(4) by (auto simp: buffer_inv_def)
  have len: "length (blk q) = 131072" "length (blk (Suc q)) = 131072"
    using st(4) r unfolding st(5,6) [symmetric] by (auto simp: buffer_inv_def block_def)
  have "r = Inr ()" "out = due_frame blk q 409"
      "c' = c\<lparr>bf := swap_blocks (bf c), in_buffer_processed_frames := 1, tasks := [Spawned]\<rparr>"
    using r st assms(3) len
    by (auto simp: get_frame_def Let_def put_all swap_and_trigger_refill_def get_read_span_def due_frame_def)
  then show ?thesis
    using r st assms(2) by (elim disjE) (simp_all add: awaiting_def get_read_span_def inv_intros)
qed

text \<open>The refill, whenever it comes before the block is used up, restores the state.\<close>

lemma settle_awaiting:
  assumes "awaiting at blk q p (s, c)"
  shows "playing at blk q p (settle fetch (s, c))"
proof -
  have st: "at (q + 1) s" "tasks c = [Spawned]" "back_buffer_ready (bf c)" "in_buffer_processed_frames c = p" "p \<le> 409" "buffer_inv (bf c)"
    "block (read_index (bf c)) (bf c) = blk q"
    using assms by (simp_all add: awaiting_def get_read_span_def)
  have r: "read_index (bf c) = 0 \<or> read_index (bf c) = 1" using st(6) by (auto simp: buffer_inv_def)
  obtain bs t where f: "fetch s 131072 = (bs, t)" by fastforce
  have l: "length bs \<le> 131072" and src: "blk (Suc q) = bs @ replicate (131072 - length bs) 0" and t: "at (Suc (Suc q)) t"
    using fetch_fits [OF st(1)] fetch_block [OF st(1)] fetch_advances [OF st(1)] f by simp_all
  have len: "length (block 0 (bf c)) = 131072" "length (block 1 (bf c)) = 131072" using st(6) by (auto simp: buffer_inv_def block_def)
  show ?thesis
    using r st
    by (elim disjE)
      (simp_all add: playing_def settle_def run_task_def begin_refill_def f finish_with_def task_span_def
        finish_fetch_def get_read_span_def get_write_span_def remove_task_def zero_from_put Let_def len [simplified] l src t inv_intros)
qed

lemma get_frame_awaiting:
  assumes "awaiting at blk q p (s, c)" and "p < 409" and "at (q + 1) s'" and "get_frame (replicate 320 0) 0 c = (r, out, c')"
  shows "r = Inr () \<and> out = due_frame blk q p \<and> awaiting at blk q (p + 1) (s', c')"
  using assms get_frame_same_block [of c p q] by (auto simp: awaiting_def get_read_span_def)

lemma get_frame_plays:
  assumes "playing at blk q p (s, c)" and "p < 409" and "at (q + 2) s'" and "get_frame (replicate 320 0) 0 c = (r, out, c')"
  shows "r = Inr () \<and> out = due_frame blk q p \<and> playing at blk q (p + 1) (s', c')"
  using assms get_frame_same_block [of c p q] by (auto simp: playing_def get_read_span_def get_write_span_def)

text \<open>With the refill run at once.\<close>

lemma get_frame_playing:
  assumes "playing at blk q p (s, c)" and "at (q + 2) s'" and "get_frame (replicate 320 0) 0 c = (r, out, c')"
  shows "r = Inr () \<and> out = due_frame blk q p
    \<and> playing at blk (if p < 409 then q else q + 1) (if p < 409 then p + 1 else 1) (settle fetch (s', c'))"
proof (cases "p < 409")
  case True
  note step = get_frame_plays [OF assms(1) True assms(2,3)]
  then have "settle fetch (s', c') = (s', c')" by (simp add: playing_def settle_def)
  then show ?thesis using step True by simp
next
  case False
  then have "p = 409" using assms(1) by (simp add: playing_def)
  then show ?thesis using get_frame_swaps [of q s c s' r out c'] assms settle_awaiting by simp
qed

end

section \<open>Playing with a stalled refill\<close>

text \<open>Only \<open>get_frame\<close> runs; the refills it spawns stay suspended.\<close>

primrec after_gets :: "nat \<Rightarrow> controller \<Rightarrow> controller" where
  "after_gets 0 c = c"
| "after_gets (Suc n) c = snd (snd (get_frame (replicate FRAME_SIZE_BYTES 0) 0 (after_gets n c)))"

definition stalled :: "double_buffer \<Rightarrow> nat \<Rightarrow> nat \<Rightarrow> controller \<Rightarrow> bool" where
  "stalled b q p c \<longleftrightarrow> bf c = (if even q then b else swap_blocks b) \<and> in_buffer_processed_frames c = p \<and> p \<le> 409"

lemma stalled_get_frame:
  assumes "buffer_inv b" and "back_buffer_ready b" and "stalled b q p c"
  defines "r \<equiv> get_frame (replicate 320 0) 0 c"
    and "src \<equiv> \<lambda>j. block (if even j then get_read_span b else get_write_span b) b"
  shows "fst r = Inr ()
    \<and> fst (snd r) = (if p < 409 then take 320 (drop (p * 320) (src q)) else take 320 (src (q + 1)))
    \<and> stalled b (if p < 409 then q else q + 1) (if p < 409 then p + 1 else 1) (snd (snd r))"
proof (cases "p < 409")
  case True
  then have "\<not> p * 320 + 320 > (131072 :: nat)" by simp
  then show ?thesis
    using assms(1-3) True unfolding r_def src_def
    by (simp add: get_frame_def Let_def stalled_def put_all get_read_span_def get_write_span_def)
next
  case False
  then have p: "p = 409" using assms(3) by (simp add: stalled_def)
  show ?thesis
    using assms(1-3) unfolding r_def src_def p
    by (simp add: get_frame_def Let_def stalled_def put_all get_read_span_def get_write_span_def
        swap_and_trigger_refill_def swap_swap)
qed

lemma after_gets_stalled:
  assumes "buffer_inv (bf c)" and "back_buffer_ready (bf c)" and "in_buffer_processed_frames c = 0"
  shows "\<exists>q p. stalled (bf c) q p (after_gets n c) \<and> n = q * 409 + p"
proof (induction n)
  case 0
  then show ?case using assms(3) by (auto simp: stalled_def intro!: exI [of _ 0])
next
  case (Suc n)
  then obtain q p where st: "stalled (bf c) q p (after_gets n c)" and n: "n = q * 409 + p"
    by blast
  have "p \<le> 409" using st by (simp add: stalled_def)
  then have "Suc n = (if p < 409 then q else q + 1) * 409 + (if p < 409 then p + 1 else 1)"
    using n by auto
  moreover have "stalled (bf c) (if p < 409 then q else q + 1) (if p < 409 then p + 1 else 1) (after_gets (Suc n) c)"
    using stalled_get_frame [OF assms(1,2) st] by simp
  ultimately show ?case by blast
qed

section \<open>Properties\<close>

text \<open>Once \<open>initialize_buffers\<close> has set the flag, and until a reset, \<open>get_frame\<close> never reports an
  underrun, whatever the refills do: no operation clears \<open>back_buffer_ready\<close> at a swap.\<close>

theorem underrun_never_reported:
  assumes "back_buffer_ready (bf c)" and "controller_run c es c'" and "Reset \<notin> set es"
  shows "fst (get_frame out off c') = Inr ()"
  using get_frame_ready ready_run [OF assms(2,3,1)] by simp

lemma underrun_never_reported_witness:
  "\<exists>c'. controller_run (new_controller\<lparr>bf := (bf new_controller)\<lparr>back_buffer_ready := True\<rparr>\<rparr>) [BeginInitialize] c'
    \<and> fst (get_frame [] 131072 c') = Inr ()"
proof -
  let ?c = "new_controller\<lparr>bf := (bf new_controller)\<lparr>back_buffer_ready := True\<rparr>\<rparr>"
  have run: "controller_run ?c [BeginInitialize] (begin_initialize ?c)"
    using controller_run.run_snoc [OF controller_run.run_nil cs_init] by simp
  have "fst (get_frame [] 131072 (begin_initialize ?c)) = Inr ()"
    by (rule underrun_never_reported [OF _ run]) simp_all
  then show ?thesis using run by blast
qed

text \<open>When no refill makes progress, the frames keep coming, with success, from the two blocks
  that \<open>initialize_buffers\<close> filled, in turn: the \<open>n\<close>-th frame is that of \<open>818\<close> frames before.\<close>

theorem stalled_refill_replays:
  assumes "buffer_inv (bf c)" and "back_buffer_ready (bf c)" and "in_buffer_processed_frames c = 0"
  shows "fst (get_frame (replicate 320 0) 0 (after_gets n c)) = Inr ()
    \<and> fst (snd (get_frame (replicate 320 0) 0 (after_gets n c))) =
        take 320 (drop (n mod 409 * 320)
          (block (if even (n div 409) then get_read_span (bf c) else get_write_span (bf c)) (bf c)))"
proof -
  obtain q p where st: "stalled (bf c) q p (after_gets n c)" and n: "n = q * 409 + p"
    using after_gets_stalled [OF assms] by blast
  have "p \<le> 409" using st by (simp add: stalled_def)
  then consider "p < 409" "n div 409 = q" "n mod 409 = p" | "p = 409" "n div 409 = q + 1" "n mod 409 = 0"
    using n by (cases "p < 409") auto
  then show ?thesis
    using stalled_get_frame [OF assms(1,2) st] by cases simp_all
qed

lemma stalled_refill_replays_witness:
  "fst (get_frame (replicate 320 0) 0 (after_gets 1000
      (new_controller\<lparr>bf := (bf new_controller)\<lparr>back_buffer_ready := True, block0 := replicate 131072 7\<rparr>\<rparr>))) = Inr ()"
proof -
  let ?c = "new_controller\<lparr>bf := (bf new_controller)\<lparr>back_buffer_ready := True, block0 := replicate 131072 7\<rparr>\<rparr>"
  have "buffer_inv (bf ?c)" "back_buffer_ready (bf ?c)" "in_buffer_processed_frames ?c = 0"
    by (simp_all add: buffer_inv_def new_controller_def new_double_buffer_def)
  then show ?thesis using stalled_refill_replays [of ?c 1000] by simp
qed

end
