(* ===== verification/Wav.thy ===== *)
theory Wav
  imports Hermes_Types
begin

text \<open>
  \<open>infra/audio/WavUtils.hpp\<close>: where the audio data of a WAV file starts. \<open>size_t\<close> has 64 bits
  and a chunk size 32, so \<open>next_pos < pos\<close> never holds; it is kept in the condition.
\<close>

definition str_bytes :: "string \<Rightarrow> bytes" where
  "str_bytes s = map (\<lambda>c. of_nat (of_char c)) s"

text \<open>\<open>memcmp (buffer + pos, s, 4) == 0\<close>.\<close>

definition bytes_at :: "bytes \<Rightarrow> nat \<Rightarrow> string \<Rightarrow> bool" where
  "bytes_at buffer pos s \<longleftrightarrow> take (length s) (drop pos buffer) = str_bytes s"

definition le32_at :: "bytes \<Rightarrow> nat \<Rightarrow> nat" where
  "le32_at b p = unat (b ! p) + 256 * unat (b ! (p + 1)) + 65536 * unat (b ! (p + 2)) + 16777216 * unat (b ! (p + 3))"

function scan_chunks :: "bytes \<Rightarrow> nat \<Rightarrow> nat" where
  "scan_chunks buffer pos =
     (if pos + 8 < length buffer
      then if bytes_at buffer pos ''data'' then pos + 8
           else let next_pos = pos + 8 + le32_at buffer (pos + 4)
                in if next_pos > length buffer \<or> next_pos < pos then 44 else scan_chunks buffer next_pos
      else 44)"
  by pat_completeness auto
termination
  by (relation "measure (\<lambda>(buffer, pos). length buffer - pos)") auto

declare scan_chunks.simps [simp del]

definition get_audio_data_offset :: "bytes \<Rightarrow> nat" where
  "get_audio_data_offset buffer =
     (if length buffer < 44 then 44
      else if \<not> bytes_at buffer 0 ''RIFF'' then 0
      else scan_chunks buffer 12)"

section \<open>Well-formed headers\<close>

text \<open>A chunk is its identifier and its body; \<open>chunk_bytes\<close> lays it out as RIFF does, with a pad byte
  after a body of odd length. The code looks for no pad byte: it finds its way over the chunks that have none (\<open>chunk_ok\<close>).\<close>

definition le32_of :: "nat \<Rightarrow> bytes" where
  "le32_of n = [of_nat n, of_nat (n div 256), of_nat (n div 65536), of_nat (n div 16777216)]"

definition chunk_bytes :: "string \<times> bytes \<Rightarrow> bytes" where
  "chunk_bytes c = str_bytes (fst c) @ le32_of (length (snd c)) @ snd c @ (if even (length (snd c)) then [] else [0])"

definition chunk_ok :: "string \<times> bytes \<Rightarrow> bool" where
  "chunk_ok c \<longleftrightarrow> length (fst c) = 4 \<and> fst c \<noteq> ''data'' \<and> length (snd c) < 2 ^ 32 \<and> even (length (snd c))"

lemma length_str_bytes [simp]: "length (str_bytes s) = length s"
  by (simp add: str_bytes_def)

lemma length_le32_of [simp]: "length (le32_of n) = 4"
  by (simp add: le32_of_def)

lemma length_chunk_bytes [simp]: "length (chunk_bytes c) = length (fst c) + 4 + length (snd c) + length (snd c) mod 2"
  by (simp add: chunk_bytes_def odd_iff_mod_2_eq_one)

lemma str_bytes_inj: "str_bytes s = str_bytes t \<Longrightarrow> s = t"
proof -
  have "inj (\<lambda>c :: char. of_nat (of_char c) :: u8)"
  proof (rule injI)
    fix c d :: char
    assume "(of_nat (of_char c) :: u8) = of_nat (of_char d)"
    then have "unat (of_nat (of_char c) :: u8) = unat (of_nat (of_char d) :: u8)" by simp
    then have "(of_char c :: nat) = of_char d"
      by (simp add: unsigned_of_nat take_bit_nat_eq_self)
    then show "c = d" by simp
  qed
  then show "str_bytes s = str_bytes t \<Longrightarrow> s = t"
    unfolding str_bytes_def by (rule map_injective [rotated])
qed

lemma le32_join:
  fixes n :: nat
  assumes "n < 2 ^ 32"
  shows "n mod 256 + 256 * (n div 256 mod 256) + 65536 * (n div 65536 mod 256) + 16777216 * (n div 16777216 mod 256) = n"
proof -
  have 1: "n div 256 = n div 256 mod 256 + 256 * (n div 65536)" using mod_mult_div_eq [of "n div 256" 256] by (simp flip: div_mult2_eq)
  have 2: "n div 65536 = n div 65536 mod 256 + 256 * (n div 16777216)" using mod_mult_div_eq [of "n div 65536" 256] by (simp flip: div_mult2_eq)
  have 3: "n div 16777216 mod 256 = n div 16777216" using assms by (intro mod_less) simp
  have "n = n mod 256 + 256 * (n div 256)" by simp
  then show ?thesis using 1 2 3 by linarith
qed

lemma le32_at_of:
  assumes "n < 2 ^ 32"
  shows "le32_at (xs @ le32_of n @ ys) (length xs) = n"
  using le32_join [OF assms] assms
  by (simp add: le32_at_def le32_of_def nth_append unsigned_of_nat take_bit_eq_mod)

lemma bytes_at_chunk:
  "length s = length t \<Longrightarrow> bytes_at (xs @ str_bytes s @ ys) (length xs) t \<longleftrightarrow> s = t"
  by (auto simp: bytes_at_def dest: str_bytes_inj)

lemma scan_chunk:
  assumes "chunk_ok c"
  shows "scan_chunks (xs @ chunk_bytes c @ y # ys) (length xs)
    = scan_chunks (xs @ chunk_bytes c @ y # ys) (length xs + 8 + length (snd c))"
proof -
  let ?b = "xs @ chunk_bytes c @ y # ys"
  have "\<not> bytes_at ?b (length xs) ''data''"
    using assms bytes_at_chunk [of "fst c" "''data''" xs "le32_of (length (snd c)) @ snd c @ y # ys"]
    by (simp add: chunk_bytes_def chunk_ok_def)
  moreover have "le32_at ?b (length xs + 4) = length (snd c)"
    using assms le32_at_of [of "length (snd c)" "xs @ str_bytes (fst c)" "snd c @ y # ys"]
    by (simp add: chunk_bytes_def chunk_ok_def)
  ultimately show ?thesis
    using assms by (subst scan_chunks.simps) (simp add: chunk_ok_def)
qed

lemma scan_data:
  "scan_chunks (xs @ str_bytes ''data'' @ sz @ y # ys) (length xs) = length xs + 8" if "length sz = 4"
  using bytes_at_chunk [of "''data''" "''data''" xs "sz @ y # ys"] that
  by (subst scan_chunks.simps) simp

lemma scan_all_chunks:
  "list_all chunk_ok cs \<Longrightarrow> length sz = 4 \<Longrightarrow>
   scan_chunks (xs @ concat (map chunk_bytes cs) @ str_bytes ''data'' @ sz @ y # ys) (length xs)
     = length xs + length (concat (map chunk_bytes cs)) + 8"
proof (induction cs arbitrary: xs)
  case Nil
  then show ?case by (simp add: scan_data)
next
  case (Cons c cs)
  let ?rest = "concat (map chunk_bytes cs) @ str_bytes ''data'' @ sz @ y # ys"
  obtain z zs where rest: "?rest = z # zs" by (cases ?rest) auto
  have c: "chunk_ok c" and len: "length (fst c) = 4" using Cons.prems(1) by (simp_all add: chunk_ok_def)
  have "scan_chunks (xs @ chunk_bytes c @ ?rest) (length xs)
      = scan_chunks ((xs @ chunk_bytes c) @ ?rest) (length (xs @ chunk_bytes c))"
    using scan_chunk [OF c, of xs z zs] len c by (simp add: rest add.assoc chunk_ok_def even_iff_mod_2_eq_zero)
  also have "\<dots> = length (xs @ chunk_bytes c) + length (concat (map chunk_bytes cs)) + 8"
    using Cons.IH [of "xs @ chunk_bytes c"] Cons.prems by simp
  finally show ?case by simp
qed

section \<open>Properties\<close>

text \<open>C38: In a buffer of at least 44 bytes that starts with a RIFF header, any chunks of even length, shorter than \<open>2 ^ 32\<close> bytes,
  and a \<open>data\<close> chunk with at least one byte of audio in the buffer, the offset is that of the
  first byte of audio. Chunks of odd length, which RIFF pads, are left out: the code does not find its way over them.\<close>

theorem audio_data_offset_found:
  assumes "length riff_size = 4" and "length wave = 4" and "length sz = 4"
    and "list_all chunk_ok cs" and "audio \<noteq> []"
    and "buffer = str_bytes ''RIFF'' @ riff_size @ wave @ concat (map chunk_bytes cs) @ str_bytes ''data'' @ sz @ audio"
    and "44 \<le> length buffer"
  shows "drop (get_audio_data_offset buffer) buffer = audio"
proof -
  obtain y ys where audio: "audio = y # ys" using assms(5) by (cases audio) auto
  let ?xs = "str_bytes ''RIFF'' @ riff_size @ wave"
  have "bytes_at buffer 0 ''RIFF''" by (simp add: bytes_at_def assms(6))
  then have "get_audio_data_offset buffer = scan_chunks buffer 12"
    using assms(7) by (simp add: get_audio_data_offset_def)
  also have "\<dots> = 12 + length (concat (map chunk_bytes cs)) + 8"
    using scan_all_chunks [OF assms(4,3), of ?xs y ys] assms(1,2) by (simp add: assms(6) audio)
  finally show ?thesis using assms(1-3) by (simp add: assms(6))
qed

lemma audio_data_offset_found_witness:
  "drop (get_audio_data_offset (str_bytes ''RIFF'' @ [0, 0, 0, 0] @ str_bytes ''WAVE''
      @ concat (map chunk_bytes [(''fmt '', replicate 16 1)]) @ str_bytes ''data'' @ [2, 0, 0, 0] @ [7, 9]))
    (str_bytes ''RIFF'' @ [0, 0, 0, 0] @ str_bytes ''WAVE''
      @ concat (map chunk_bytes [(''fmt '', replicate 16 1)]) @ str_bytes ''data'' @ [2, 0, 0, 0] @ [7, 9]) = [7, 9]"
  by (rule audio_data_offset_found [OF _ _ _ _ _ refl]) (simp_all add: chunk_ok_def)

text \<open>The pad byte after a chunk of odd length is not skipped: a file that has one before its
  \<open>data\<close> chunk, as RIFF prescribes, is read from offset 44, inside the headers.\<close>

theorem padded_chunk_missed:
  "get_audio_data_offset (str_bytes ''RIFF'' @ [74, 0, 0, 0] @ str_bytes ''WAVE''
      @ chunk_bytes (''fmt '', [1, 0, 1, 0, 64, 31, 0, 0, 128, 62, 0, 0, 2, 0, 16, 0])
      @ chunk_bytes (''LIST'', str_bytes ''INFOabc'')
      @ str_bytes ''data'' @ [2, 0, 0, 0] @ [7, 9]) = 44
   \<and> length (str_bytes ''RIFF'' @ [74, 0, 0, 0] @ str_bytes ''WAVE''
      @ chunk_bytes (''fmt '', [1, 0, 1, 0, 64, 31, 0, 0, 128, 62, 0, 0, 2, 0, 16, 0])
      @ chunk_bytes (''LIST'', str_bytes ''INFOabc'') @ str_bytes ''data'' @ [2, 0, 0, 0]) = 60"
proof -
  show ?thesis
    by (simp add: get_audio_data_offset_def chunk_bytes_def str_bytes_def le32_of_def bytes_at_def
        scan_chunks.simps le32_at_def)
qed

end
