(* ===== verification/Alaw.thy ===== *)
theory Alaw
  imports Hermes_Types
begin

text \<open>
  \<open>infra/audio/Alaw.cpp\<close>: the G.711 A-law codec. The two table builders are loops over all
  samples (all code bytes); \<open>alaw_of_sample\<close> and \<open>sample_of_alaw\<close> are their loop bodies.
\<close>

section \<open>Encoder table\<close>

definition VALUE_COUNT_16BIT :: nat where "VALUE_COUNT_16BIT = 65536"
definition VALUE_COUNT_U8BIT :: nat where "VALUE_COUNT_U8BIT = 256"
definition BASE_ALAW_MASK :: u8 where "BASE_ALAW_MASK = 0x55"
definition QUANT_MASK :: u8 where "QUANT_MASK = 0x0F"
definition SIGN_BIT_MASK :: u8 where "SIGN_BIT_MASK = 0x80"

definition SEGMENT_EDGES :: "int list" where
  "SEGMENT_EDGES = [0xFF, 0x1FF, 0x3FF, 0x7FF, 0xFFF, 0x1FFF, 0x3FFF, 0x7FFF]"

definition get_encode_table_idx :: "i16 \<Rightarrow> u16" where
  "get_encode_table_idx pcm_sample = pcm_sample + 32768"

text \<open>The search loop: the first edge that is not below the sample, else the edge count.\<close>

fun search_segment :: "int \<Rightarrow> int list \<Rightarrow> nat \<Rightarrow> nat" where
  "search_segment n [] segment_idx = segment_idx"
| "search_segment n (edge # edges) segment_idx =
     (if n \<le> edge then segment_idx else search_segment n edges (segment_idx + 1))"

definition normalized_pcm :: "i16 \<Rightarrow> i16" where
  "normalized_pcm pcm_sample = (if sint pcm_sample \<ge> 0 then pcm_sample else - pcm_sample - 8)"

definition alaw_of_sample :: "i16 \<Rightarrow> u8" where
  "alaw_of_sample pcm_sample =
    (let alaw_mask = (if sint pcm_sample \<ge> 0 then BASE_ALAW_MASK OR SIGN_BIT_MASK else BASE_ALAW_MASK);
         normalized_pcm_sample = normalized_pcm pcm_sample;
         segment_idx = search_segment (sint normalized_pcm_sample) SEGMENT_EDGES 0;
         unmasked_alaw_sample =
           (if segment_idx = 8 then 0x7F
            else let pcm_shift = (if segment_idx = 0 then 4 else 3 + segment_idx);
                     shifted_pcm = (ucast (signed_drop_bit pcm_shift normalized_pcm_sample) :: u8) AND QUANT_MASK;
                     shifted_segment = push_bit 4 (of_nat segment_idx)
                 in shifted_pcm OR shifted_segment)
     in unmasked_alaw_sample XOR alaw_mask)"

definition wide_samples :: "int list" where "wide_samples = [- 32768..32767]"

lemma set_wide_samples: "set wide_samples = {- 32768..32767}"
  unfolding wide_samples_def by (rule set_upto)

lemma distinct_wide_samples: "distinct wide_samples"
  unfolding wide_samples_def by (rule distinct_upto)

text \<open>The table starts with unspecified contents, here the parameter \<open>garbage\<close>.\<close>

definition make_encode_table :: "bytes \<Rightarrow> bytes" where
  "make_encode_table garbage =
     fold (\<lambda>wide_pcm_sample encode_table.
             let pcm_sample = word_of_int wide_pcm_sample :: i16
             in encode_table[unat (get_encode_table_idx pcm_sample) := alaw_of_sample pcm_sample])
          wide_samples garbage"

definition encode_table :: bytes where
  "encode_table = make_encode_table (replicate VALUE_COUNT_16BIT 0)"

text \<open>The output span is returned as it is left; it is untouched when it is too small.\<close>

definition encode_alaw :: "i16 list \<Rightarrow> bytes \<Rightarrow> bytes" where
  "encode_alaw pcm alawOut =
     (if length pcm > length alawOut then alawOut
      else fold (\<lambda>i out. out[i := encode_table ! unat (get_encode_table_idx (pcm ! i))])
                [0..<length pcm] alawOut)"

section \<open>Decoder table\<close>

definition sample_of_alaw :: "u8 \<Rightarrow> i16" where
  "sample_of_alaw alaw_sample =
    (let masked_alaw_sample = alaw_sample XOR BASE_ALAW_MASK;
         pcm_sample = push_bit 4 (ucast (masked_alaw_sample AND QUANT_MASK)) :: i16;
         segment_idx = unat (drop_bit 4 (masked_alaw_sample AND 0x70));
         pcm_sample = (if segment_idx = 0 then pcm_sample + 0x008 else pcm_sample + 0x108);
         pcm_sample = (if segment_idx > 1 then push_bit (segment_idx - 1) pcm_sample else pcm_sample);
         alaw_sign_bit = (masked_alaw_sample AND SIGN_BIT_MASK \<noteq> 0)
     in if \<not> alaw_sign_bit then - pcm_sample else pcm_sample)"

definition make_decode_table :: "i16 list" where
  "make_decode_table =
     fold (\<lambda>wide_alaw_sample decode_table.
             let alaw_sample = word_of_nat wide_alaw_sample :: u8
             in decode_table[unat alaw_sample := sample_of_alaw alaw_sample])
          [0..<VALUE_COUNT_U8BIT] (replicate VALUE_COUNT_U8BIT 0)"

definition decode_alaw :: "bytes \<Rightarrow> i16 list \<Rightarrow> i16 list" where
  "decode_alaw alaw pcmOut =
     (if length alaw > length pcmOut then pcmOut
      else fold (\<lambda>i out. out[i := make_decode_table ! unat (alaw ! i)]) [0..<length alaw] pcmOut)"

section \<open>The tables hold their loop bodies\<close>

text \<open>A loop that writes each index once leaves the written values.\<close>

lemma length_fold_update [simp]:
  "length (fold (\<lambda>x t. t[ix x := v x]) xs t) = length t"
  by (induction xs arbitrary: t) auto

lemma fold_update_other:
  "j \<notin> ix ` set xs \<Longrightarrow> fold (\<lambda>x t. t[ix x := v x]) xs t ! j = t ! j"
  by (induction xs arbitrary: t) auto

lemma fold_update_nth:
  assumes "distinct (map ix xs)" and "x \<in> set xs" and "ix x < length t"
  shows "fold (\<lambda>x t. t[ix x := v x]) xs t ! ix x = v x"
  using assms
proof (induction xs arbitrary: t)
  case Nil
  then show ?case by simp
next
  case (Cons y ys)
  show ?case
  proof (cases "x \<in> set ys")
    case True
    with Cons show ?thesis by auto
  next
    case False
    with Cons.prems have "x = y" "ix x \<notin> ix ` set ys" by auto
    with Cons.prems show ?thesis by (simp add: fold_update_other)
  qed
qed

lemma fold_update_upto:
  assumes "n \<le> length t"
  shows "fold (\<lambda>i t. t[i := v i]) [0..<n] t = map v [0..<n] @ drop n t"
proof (rule nth_equalityI)
  show "length (fold (\<lambda>i t. t[i := v i]) [0..<n] t) = length (map v [0..<n] @ drop n t)"
    using assms length_fold_update [of "\<lambda>i. i" v "[0..<n]" t] by simp
next
  fix j
  assume "j < length (fold (\<lambda>i t. t[i := v i]) [0..<n] t)"
  then have j: "j < length t"
    using length_fold_update [of "\<lambda>i. i" v "[0..<n]" t] by simp
  show "fold (\<lambda>i t. t[i := v i]) [0..<n] t ! j = (map v [0..<n] @ drop n t) ! j"
  proof (cases "j < n")
    case True
    then show ?thesis
      using fold_update_nth [of "\<lambda>i. i" "[0..<n]" j t v] j by (simp add: nth_append)
  next
    case False
    then show ?thesis
      using fold_update_other [of j "\<lambda>i. i" "[0..<n]" v t] j assms by (simp add: nth_append)
  qed
qed

lemma unat_encode_idx: "unat (get_encode_table_idx x) = nat (sint x + 32768)"
proof -
  have "get_encode_table_idx x = word_of_int (sint x + 32768)"
    by (simp add: get_encode_table_idx_def)
  then have "uint (get_encode_table_idx x) = (sint x + 32768) mod 65536"
    by (simp only: uint_word_of_int) simp
  also have "\<dots> = sint x + 32768"
    using sint_i16_range [of x] by (simp add: mod_pos_pos_trivial)
  finally show ?thesis by (simp only: unat_eq_nat_uint)
qed

lemma encode_idx_inj: "inj get_encode_table_idx"
  by (rule injI) (simp add: get_encode_table_idx_def)

abbreviation wide_idx :: "int \<Rightarrow> nat" where
  "wide_idx w \<equiv> unat (get_encode_table_idx (word_of_int w))"

lemma wide_idx_inj:
  assumes "a \<in> set wide_samples" and "b \<in> set wide_samples" and "wide_idx a = wide_idx b"
  shows "a = b"
proof -
  have "(word_of_int a :: i16) = word_of_int b"
    using assms(3) by (simp only: word_unat_eq_iff [symmetric] inj_eq [OF encode_idx_inj])
  then have "sint (word_of_int a :: i16) = sint (word_of_int b :: i16)"
    by (rule arg_cong)
  moreover have "sint (word_of_int a :: i16) = a"
    using assms(1) by (simp add: set_wide_samples sint_of_int_i16)
  moreover have "sint (word_of_int b :: i16) = b"
    using assms(2) by (simp add: set_wide_samples sint_of_int_i16)
  ultimately show ?thesis by argo
qed

lemma distinct_wide_idx: "distinct (map wide_idx wide_samples)"
  by (intro distinct_map [THEN iffD2] conjI distinct_wide_samples inj_onI) (rule wide_idx_inj)

lemma sint_in_wide_samples: "sint (x :: i16) \<in> set wide_samples"
  using sint_i16_range [where x = x] by (simp add: set_wide_samples)

lemma make_encode_table_nth:
  assumes "length garbage = VALUE_COUNT_16BIT"
  shows "make_encode_table garbage ! unat (get_encode_table_idx x) = alaw_of_sample x"
proof -
  have "wide_idx (sint x) < length garbage"
    unfolding assms of_int_sint unat_encode_idx VALUE_COUNT_16BIT_def
    using sint_i16_range [where x = x] by simp
  from fold_update_nth [where ix = wide_idx and v = "\<lambda>w. alaw_of_sample (word_of_int w)",
      OF distinct_wide_idx sint_in_wide_samples [of x] this]
  show ?thesis
    by (simp only: make_encode_table_def Let_def of_int_sint scast_id)
qed

lemma make_decode_table_nth: "make_decode_table ! unat b = sample_of_alaw b"
proof -
  let ?ix = "\<lambda>w. unat (word_of_nat w :: u8)" and ?v = "\<lambda>w. sample_of_alaw (word_of_nat w :: u8)"
  have ix: "?ix w = w" if "w < 256" for w
    using that by (simp add: unat_of_nat)
  have "distinct (map ?ix [0..<256])"
    by (simp add: distinct_map inj_on_def ix)
  moreover have "unat b < 256"
    by simp
  ultimately have "fold (\<lambda>w t. t[?ix w := ?v w]) [0..<256] (replicate 256 0) ! ?ix (unat b) = ?v (unat b)"
    by (intro fold_update_nth) auto
  then show ?thesis
    by (simp add: make_decode_table_def VALUE_COUNT_U8BIT_def Let_def)
qed

lemma encode_table_nth: "encode_table ! unat (get_encode_table_idx x) = alaw_of_sample x"
  by (simp add: encode_table_def make_encode_table_nth)

lemma encode_alaw_eq:
  "encode_alaw pcm out =
     (if length out < length pcm then out else map alaw_of_sample pcm @ drop (length pcm) out)"
proof (cases "length out < length pcm")
  case False
  then have "encode_alaw pcm out
      = map (\<lambda>i. encode_table ! unat (get_encode_table_idx (pcm ! i))) [0..<length pcm] @ drop (length pcm) out"
    by (simp add: encode_alaw_def fold_update_upto)
  also have "map (\<lambda>i. encode_table ! unat (get_encode_table_idx (pcm ! i))) [0..<length pcm]
      = map alaw_of_sample pcm"
    by (rule nth_equalityI) (auto simp: encode_table_nth)
  finally show ?thesis using False by simp
qed (simp add: encode_alaw_def)

lemma decode_alaw_eq:
  "decode_alaw alaw out =
     (if length out < length alaw then out else map sample_of_alaw alaw @ drop (length alaw) out)"
proof (cases "length out < length alaw")
  case False
  then have "decode_alaw alaw out
      = map (\<lambda>i. make_decode_table ! unat (alaw ! i)) [0..<length alaw] @ drop (length alaw) out"
    by (simp add: decode_alaw_def fold_update_upto)
  also have "map (\<lambda>i. make_decode_table ! unat (alaw ! i)) [0..<length alaw] = map sample_of_alaw alaw"
    by (rule nth_equalityI) (auto simp: make_decode_table_nth)
  finally show ?thesis using False by simp
qed (simp add: decode_alaw_def)

section \<open>Segment and quantisation of a code byte\<close>

text \<open>A code byte is a segment and a quantisation nibble under a sign mask; \<open>code_magnitude\<close> is
  the sample it decodes to. The finite tables are checked exhaustively by the kernel.\<close>

definition code_magnitude :: "nat \<Rightarrow> nat \<Rightarrow> int" where
  "code_magnitude s q = (if s = 0 then 16 * int q + 8 else (16 * int q + 264) * 2 ^ (s - 1))"

definition assemble :: "nat \<Rightarrow> nat \<Rightarrow> u8" where
  "assemble s q = of_nat q OR push_bit 4 (of_nat s)"

lemma decode_assemble_all:
  "list_all (\<lambda>s. list_all (\<lambda>q.
      sint (sample_of_alaw (assemble s q XOR 0xD5)) = code_magnitude s q \<and>
      sint (sample_of_alaw (assemble s q XOR 0x55)) = - code_magnitude s q) [0..<16]) [0..<8]"
  by code_simp

lemma decode_assemble:
  assumes "s < 8" and "q < 16"
  shows "sint (sample_of_alaw (assemble s q XOR 0xD5)) = code_magnitude s q"
    and "sint (sample_of_alaw (assemble s q XOR 0x55)) = - code_magnitude s q"
  using decode_assemble_all assms unfolding list_all_iff set_upt by auto

lemma quant_bits:
  "(ucast (signed_drop_bit k (w :: i16)) :: u8) AND QUANT_MASK = of_nat (nat (sint w div 2 ^ k mod 16))"
proof (rule word_uint_eqI)
  have "uint ((ucast (signed_drop_bit k w) :: u8) AND QUANT_MASK)
      = take_bit 4 (uint (ucast (signed_drop_bit k w) :: u8))"
    by (simp add: QUANT_MASK_def take_bit_eq_mask mask_eq_exp_minus_1 uint_and)
  also have "\<dots> = take_bit 4 (uint (signed_drop_bit k w))"
    by (simp add: unsigned_ucast_eq)
  also have "\<dots> = take_bit 4 (sint (signed_drop_bit k w))"
    by (simp add: uint_sint)
  also have "\<dots> = sint w div 2 ^ k mod 16"
    by (simp add: sint_signed_drop_bit_eq take_bit_eq_mod drop_bit_eq_div)
  also have "\<dots> = uint (of_nat (nat (sint w div 2 ^ k mod 16)) :: u8)"
    using pos_mod_bound [of 16 "sint w div 2 ^ k"] pos_mod_sign [of 16 "sint w div 2 ^ k"]
    by (simp add: uint_word_of_int mod_pos_pos_trivial del: pos_mod_bound pos_mod_sign)
  finally show "uint ((ucast (signed_drop_bit k w) :: u8) AND QUANT_MASK)
      = uint (of_nat (nat (sint w div 2 ^ k mod 16)) :: u8)" .
qed

definition segment_of :: "int \<Rightarrow> nat" where "segment_of n = search_segment n SEGMENT_EDGES 0"

lemma segment_cases:
  assumes "0 \<le> n" "n < 32768"
  obtains (linear) "segment_of n = 0" "n \<le> 255"
    | (chord) s where "segment_of n = s" "1 \<le> s" "s < 8" "2 ^ (s + 7) \<le> n" "n < 2 ^ (s + 8)"
proof -
  have "segment_of n = 0 \<and> n \<le> 255 \<or>
     (\<exists>s\<in>{1,2,3,4,5,6,7}. segment_of n = s \<and> 2 ^ (s + 7) \<le> n \<and> n < 2 ^ (s + 8))"
    using assms by (auto simp: segment_of_def SEGMENT_EDGES_def)
  then show ?thesis by (auto intro: that)
qed


definition pcm_shift_of :: "nat \<Rightarrow> nat" where
  "pcm_shift_of s = (if s = 0 then 4 else 3 + s)"

lemma alaw_of_sample_assemble:
  assumes "0 \<le> sint (normalized_pcm x)" and "s = segment_of (sint (normalized_pcm x))"
  shows "alaw_of_sample x =
     assemble s (nat (sint (normalized_pcm x) div 2 ^ pcm_shift_of s mod 16))
       XOR (if 0 \<le> sint x then 0xD5 else 0x55)"
proof -
  have "sint (normalized_pcm x) < 32768" by (rule sint_i16_range)
  then have "s < 8"
    using assms by (auto elim: segment_cases)
  then show ?thesis
    using assms by (simp add: alaw_of_sample_def Let_def quant_bits assemble_def segment_of_def
        pcm_shift_of_def BASE_ALAW_MASK_def SIGN_BIT_MASK_def)
qed

lemma encode_magnitude_all:
  "list_all (\<lambda>s. list_all (\<lambda>q.
      list_all (\<lambda>n. segment_of n = s \<and> n div 2 ^ pcm_shift_of s mod 16 = int q)
        [code_magnitude s q, code_magnitude s q - 8]) [0..<16]) [0..<8]"
  by code_simp

lemma byte_assemble_all:
  "list_all (\<lambda>n. let w = (of_nat n :: u8) XOR 0x55 in
      (of_nat n :: u8) = assemble (unat (drop_bit 4 w AND 7)) (unat (w AND 15)) XOR (if w AND 0x80 = 0 then 0x55 else 0xD5)) [0..<256]"
  by code_simp

lemma unat_and_lt: "unat ((w :: u8) AND 7) < 8" "unat (w AND 15) < 16"
  by (rule order_le_less_trans [OF word_and_le1 [THEN word_le_nat_alt [THEN iffD1]]], simp)+

lemma byte_assemble:
  obtains s q where "s < 8" "q < 16" "b = assemble s q XOR 0xD5"
    | s q where "s < 8" "q < 16" "b = assemble s q XOR 0x55"
proof -
  have "unat b \<in> set [0..<256]" by simp
  then have "b = assemble (unat (drop_bit 4 (b XOR 0x55) AND 7)) (unat ((b XOR 0x55) AND 15))
      XOR (if (b XOR 0x55) AND 0x80 = 0 then 0x55 else 0xD5)"
    using byte_assemble_all [unfolded list_all_iff Let_def, THEN bspec, of "unat b"]
    by (simp only: of_nat_unat ucast_id)
  then show ?thesis using that(1) [OF unat_and_lt] that(2) [OF unat_and_lt]
    by (cases "(b XOR 0x55) AND 0x80 = 0") auto
qed

lemma encode_magnitude:
  assumes "s < 8" "q < 16" "n = code_magnitude s q \<or> n = code_magnitude s q - 8"
  shows "segment_of n = s" "n div 2 ^ pcm_shift_of s mod 16 = int q"
  using encode_magnitude_all [unfolded list_all_iff, THEN bspec, of s, THEN bspec, of q, THEN bspec, of n] assms
  by simp_all

lemma code_magnitude_bounds: "s < 8 \<Longrightarrow> q < 16 \<Longrightarrow> 8 \<le> code_magnitude s q \<and> code_magnitude s q < 32768"
proof -
  have "list_all (\<lambda>s. list_all (\<lambda>q. 8 \<le> code_magnitude s q \<and> code_magnitude s q < 32768) [0..<16]) [0..<8]"
    by code_simp
  then show "s < 8 \<Longrightarrow> q < 16 \<Longrightarrow> 8 \<le> code_magnitude s q \<and> code_magnitude s q < 32768"
    unfolding list_all_iff by simp
qed

lemma sint_normalized_pcm:
  "sint (normalized_pcm x) = (if 0 \<le> sint x then sint x else - sint x - 8)"
proof (cases "0 \<le> sint x")
  case False
  have "- x - 8 = word_of_int (- sint x - 8)" by simp
  then show ?thesis
    using False sint_i16_range [of x] by (simp only: normalized_pcm_def if_False sint_of_int_i16)
qed (simp add: normalized_pcm_def)

lemma alaw_of_sample_of_alaw: "alaw_of_sample (sample_of_alaw b) = b"
proof (cases b rule: byte_assemble)
  case (1 s q)
  then have x: "sint (sample_of_alaw b) = code_magnitude s q"
    by (simp add: decode_assemble)
  with 1 code_magnitude_bounds [of s q] show ?thesis
    by (simp add: alaw_of_sample_assemble [OF _ refl] sint_normalized_pcm encode_magnitude)
next
  case (2 s q)
  then have x: "sint (sample_of_alaw b) = - code_magnitude s q"
    by (simp add: decode_assemble)
  with 2 code_magnitude_bounds [of s q] show ?thesis
    by (simp add: alaw_of_sample_assemble [OF _ refl] sint_normalized_pcm encode_magnitude)
qed

lemma quantised_magnitude:
  assumes "0 \<le> n" "n < 32768" "s = segment_of n"
  defines "q \<equiv> nat (n div 2 ^ pcm_shift_of s mod 16)"
  shows "s < 8 \<and> q < 16 \<and> code_magnitude s q = n div 2 ^ pcm_shift_of s * 2 ^ pcm_shift_of s + 2 ^ (pcm_shift_of s - 1)"
  using assms(1,2)
proof (cases rule: segment_cases)
  case linear
  with assms(1) have "n div 16 < 16" "0 \<le> n div 16" by simp_all
  with assms linear show ?thesis
    by (simp add: code_magnitude_def pcm_shift_of_def)
next
  case (chord s')
  then have s': "s' = s" using assms by simp
  have "16 \<le> n div 2 ^ (3 + s) \<and> n div 2 ^ (3 + s) < 32"
  proof -
    have "s \<in> {1,2,3,4,5,6,7}" using chord s' by auto
    then show ?thesis using chord s' by auto
  qed
  then have q: "q < 16" "int q = n div 2 ^ (3 + s) - 16"
    using chord s' mod_pos_pos_trivial [of "n div 2 ^ (3 + s) - 16" 16]
    by (auto simp: q_def pcm_shift_of_def mod_diff_right_eq [symmetric, of _ 16])
  from q(2) have nd: "n div 2 ^ (3 + s) = int q + 16" by simp
  obtain t where "s = Suc t" using chord s' by (cases s) auto
  then show ?thesis
    using chord(1,2,3) s' q(1) nd by (simp add: code_magnitude_def pcm_shift_of_def power_add algebra_simps)
qed

lemma magnitude_error:
  assumes "0 \<le> n" "n < 32768" "s = segment_of n"
  defines "m \<equiv> code_magnitude s (nat (n div 2 ^ pcm_shift_of s mod 16))"
  shows "8 \<le> m" and "16 * \<bar>m - n\<bar> \<le> max 128 n" and "16 * \<bar>m - (n + 8)\<bar> \<le> max 240 n"
proof -
  let ?P = "2 ^ pcm_shift_of s :: int"
  have m: "m = n div ?P * ?P + 2 ^ (pcm_shift_of s - 1)"
    using quantised_magnitude [OF assms(1-3)] by (simp add: m_def)
  have d: "n div ?P * ?P \<le> n" "n < n div ?P * ?P + ?P" "0 \<le> n div ?P * ?P"
    using assms(1) by (auto simp: minus_mod_eq_div_mult [symmetric] pos_mod_bound pos_mod_sign zmod_le_nonneg_dividend)
  from assms(1,2) have "?P = 16 \<and> 2 ^ (pcm_shift_of s - 1) = (8 :: int) \<or>
     (\<exists>h. ?P = 2 * h \<and> 2 ^ (pcm_shift_of s - 1) = h \<and> 8 \<le> h \<and> 32 * h \<le> n)"
  proof (cases rule: segment_cases)
    case linear
    then show ?thesis using assms(3) by (simp add: pcm_shift_of_def)
  next
    case (chord s')
    then have "s \<in> {1,2,3,4,5,6,7}" "2 ^ (s + 7) \<le> n" using assms(3) by auto
    then show ?thesis by (auto simp: pcm_shift_of_def)
  qed
  then consider (linear) "?P = 16" "2 ^ (pcm_shift_of s - 1) = (8 :: int)"
    | (chord) h where "?P = 2 * h" "2 ^ (pcm_shift_of s - 1) = h" "8 \<le> h" "32 * h \<le> n"
    by blast
  then have "8 \<le> m \<and> 16 * \<bar>m - n\<bar> \<le> max 128 n \<and> 16 * \<bar>m - (n + 8)\<bar> \<le> max 240 n"
  proof cases
    case linear
    then have "8 \<le> m" "\<bar>m - n\<bar> \<le> 8" "\<bar>m - (n + 8)\<bar> \<le> 15"
      using m d unfolding linear abs_le_iff by linarith+
    then show ?thesis by (auto simp: max_def)
  next
    case chord
    then have "8 \<le> m" "\<bar>m - n\<bar> \<le> h" "\<bar>m - (n + 8)\<bar> \<le> h + 7"
      using m d unfolding chord(1,2) abs_le_iff by linarith+
    with chord show ?thesis by (auto simp: max_def)
  qed
  then show "8 \<le> m" "16 * \<bar>m - n\<bar> \<le> max 128 n" "16 * \<bar>m - (n + 8)\<bar> \<le> max 240 n"
    by blast+
qed

lemma decode_encode_sample:
  assumes "sint x \<notin> {- 7..- 1}"
  defines "n \<equiv> sint (normalized_pcm x)"
  defines "m \<equiv> code_magnitude (segment_of n) (nat (n div 2 ^ pcm_shift_of (segment_of n) mod 16))"
  shows "0 \<le> n \<and> n < 32768 \<and> sint (sample_of_alaw (alaw_of_sample x)) = (if 0 \<le> sint x then m else - m)"
proof -
  have n: "0 \<le> n" "n < 32768"
    using assms(1) sint_i16_range [of x] by (auto simp: n_def sint_normalized_pcm)
  have q: "segment_of n < 8" "nat (n div 2 ^ pcm_shift_of (segment_of n) mod 16) < 16"
    using quantised_magnitude [OF n refl] by blast+
  have "alaw_of_sample x = assemble (segment_of n) (nat (n div 2 ^ pcm_shift_of (segment_of n) mod 16))
      XOR (if 0 \<le> sint x then 0xD5 else 0x55)"
    using alaw_of_sample_assemble [of x, OF _ refl] n(1) by (simp only: n_def)
  then show ?thesis
    using n decode_assemble [OF q] unfolding m_def by (cases "0 \<le> sint x") (simp_all only: if_True if_False simp_thms)
qed

lemma alaw_sample_error:
  assumes "sint x \<notin> {- 7..- 1}"
  shows "16 * \<bar>sint (sample_of_alaw (alaw_of_sample x)) - sint x\<bar> \<le> max 255 \<bar>sint x\<bar>
     \<and> (0 \<le> sint x \<longleftrightarrow> 0 < sint (sample_of_alaw (alaw_of_sample x)))"
proof -
  note de = decode_encode_sample [OF assms] and n = sint_normalized_pcm [of x]
  note err = magnitude_error [OF conjunct1 [OF de] conjunct1 [OF conjunct2 [OF de]] refl]
  obtain m where y: "sint (sample_of_alaw (alaw_of_sample x)) = (if 0 \<le> sint x then m else - m)"
    and m: "8 \<le> m" "16 * \<bar>m - sint (normalized_pcm x)\<bar> \<le> max 128 (sint (normalized_pcm x))"
      "16 * \<bar>m - (sint (normalized_pcm x) + 8)\<bar> \<le> max 240 (sint (normalized_pcm x))"
    using de err by blast
  show ?thesis
  proof (cases "0 \<le> sint x")
    case True
    with n have "sint (normalized_pcm x) = sint x" by simp
    with True y m(1,2) show ?thesis by (simp add: max_def split: if_splits)
  next
    case False
    with n have "sint (normalized_pcm x) = - sint x - 8" by simp
    with False y m(1,3) show ?thesis by (simp add: max_def abs_if split: if_splits)
  qed
qed

lemma alaw_small_negative_sample:
  assumes "- 7 \<le> sint x" "sint x \<le> - 1"
  shows "sint (sample_of_alaw (alaw_of_sample x)) = - 248"
proof -
  have x: "x = word_of_int (sint x)" by simp
  have "sint x \<in> {-7,-6,-5,-4,-3,-2,-1}" using assms by auto
  moreover have "list_all (\<lambda>k. sint (sample_of_alaw (alaw_of_sample (word_of_int k))) = - 248) [-7,-6,-5,-4,-3,-2,-1]"
    by code_simp
  ultimately show ?thesis by (subst x) (auto simp del: of_int_sint)
qed
section \<open>Properties\<close>

text \<open>
  C32: Every A-law code byte survives a decode followed by an encode: whatever the two output
  spans held, decoding a buffer of code bytes and encoding the samples gives the same bytes back.
\<close>

theorem alaw_codes_roundtrip:
  assumes "length alaw \<le> length pcmOut" and "length alaw \<le> length alawOut"
  shows "take (length alaw) (encode_alaw (take (length alaw) (decode_alaw alaw pcmOut)) alawOut) = alaw"
  using assms by (simp add: encode_alaw_eq decode_alaw_eq alaw_of_sample_of_alaw comp_def)

theorem alaw_codes_roundtrip_witness:
  "take 3 (encode_alaw (take 3 (decode_alaw [0x55, 0xD5, 0x2A] [1, 1, 1, 1])) [9, 9, 9]) = [0x55, 0xD5, 0x2A]"
  using alaw_codes_roundtrip [of "[0x55, 0xD5, 0x2A]" "[1, 1, 1, 1]" "[9, 9, 9]"] by (simp add: eval_nat_numeral)

text \<open>
  C33: The quantisation error of the codec, for every sample but -7 to -1: encoding a buffer and
  decoding it moves a sample of magnitude 255 or more by at most a sixteenth of its magnitude, and a smaller one by at most
  15; zero and the positive samples become positive, the negative ones negative.
\<close>

theorem alaw_quantisation_error:
  assumes "length pcm \<le> length alawOut" and "length pcm \<le> length pcmOut"
    and "i < length pcm" and "sint (pcm ! i) \<notin> {- 7..- 1}"
  defines "y \<equiv> decode_alaw (take (length pcm) (encode_alaw pcm alawOut)) pcmOut ! i"
  shows "16 * \<bar>sint y - sint (pcm ! i)\<bar> \<le> max 255 \<bar>sint (pcm ! i)\<bar>
     \<and> (0 \<le> sint (pcm ! i) \<longleftrightarrow> 0 < sint y)"
proof -
  have "y = sample_of_alaw (alaw_of_sample (pcm ! i))"
    using assms(1-3) by (simp add: y_def encode_alaw_eq decode_alaw_eq nth_append)
  then show ?thesis using alaw_sample_error [OF assms(4)] by simp
qed

theorem alaw_quantisation_error_witness:
  "16 * \<bar>sint (decode_alaw (take 1 (encode_alaw [1000] [0])) [0] ! 0) - sint (1000 :: i16)\<bar>
     \<le> max 255 \<bar>sint (1000 :: i16)\<bar>"
  using alaw_quantisation_error [of "[1000]" "[0]" "[0]" 0] by simp

text \<open>
  The seven samples just below zero are coded into the wrong quantisation step: for them the
  normalised sample is itself negative, its shifted low bits are all ones, and the byte decodes
  to -248 (the code's comment promises the step of the sample's own magnitude, -8).
\<close>

theorem alaw_small_negative:
  assumes "- 7 \<le> sint x" and "sint x \<le> - 1"
  shows "map sint (decode_alaw (encode_alaw [x] [a]) [b]) = [- 248]"
  using alaw_small_negative_sample [OF assms] by (simp add: encode_alaw_eq decode_alaw_eq)

theorem alaw_small_negative_witness:
  "map sint (decode_alaw (encode_alaw [- 1] [0]) [0]) = [- 248]"
  using alaw_small_negative [of "- 1" 0 0] by simp


end
