(* ===== verification/Pcm.thy ===== *)
theory Pcm
  imports Alaw
begin

text \<open>
  Byte buffers as PCM: \<open>infra/audio/PcmCast.hpp\<close> (samples are stored little endian on the
  target) and the codec interface of \<open>infra/audio/CodecStrategy.hpp\<close> with its A-law instance.
\<close>

section \<open>Samples in byte buffers\<close>

definition le16 :: "i16 \<Rightarrow> bytes" where
  "le16 w = [ucast w, ucast (drop_bit 8 w)]"

definition read_sample :: "bytes \<Rightarrow> nat \<Rightarrow> i16" where
  "read_sample data sample_index =
     push_bit 8 (ucast (data ! (sample_index * 2 + 1))) OR ucast (data ! (sample_index * 2))"

definition write_sample :: "bytes \<Rightarrow> nat \<Rightarrow> i16 \<Rightarrow> bytes" where
  "write_sample data sample_index value = put (sample_index * 2) (le16 value) data"

text \<open>\<open>as_samples\<close>: the view of a byte span as \<open>size / 2\<close> samples.\<close>

definition as_samples :: "bytes \<Rightarrow> i16 list" where
  "as_samples data = map (read_sample data) [0..<length data div 2]"

lemma length_as_samples [simp]: "length (as_samples data) = length data div 2"
  by (simp add: as_samples_def)

lemma le16_read: "Suc (2 * i) < length b \<Longrightarrow> le16 (read_sample b i) = [b ! (2 * i), b ! (2 * i + 1)]"
  using be16_split [of "b ! (2 * i + 1)" "b ! (2 * i)"]
  by (simp add: le16_def read_sample_def be16_def mult.commute)

lemma read_write_same:
  "2 * i + 2 \<le> length b \<Longrightarrow> read_sample (write_sample b i v) i = v"
  using be16_join [of v]
  by (simp add: read_sample_def write_sample_def put_def le16_def nth_append mult.commute min_def)

lemma length_write_sample [simp]: "2 * i + 2 \<le> length b \<Longrightarrow> length (write_sample b i v) = length b"
  by (simp add: write_sample_def le16_def mult.commute)

lemma nth_put_other:
  "j < i \<or> i + length bs \<le> j \<Longrightarrow> i + length bs \<le> length b \<Longrightarrow> put i bs b ! j = b ! j"
  by (cases bs) (auto simp: put_def nth_append min_def)

lemma read_write_other:
  "2 * i + 2 \<le> length b \<Longrightarrow> j \<noteq> i \<Longrightarrow> read_sample (write_sample b i v) j = read_sample b j"
  by (simp add: read_sample_def write_sample_def)
    (subst (1 2) nth_put_other, auto simp: le16_def)

section \<open>The codec interface\<close>

text \<open>
  \<open>ICodecStrategy\<close>: \<open>encode\<close> takes the PCM bytes and the output span and returns the number of
  bytes written with the span as it leaves it. The laws are what \<open>packet_to_rtp\<close> relies on when
  it takes \<open>payload_buffer.first(encoded_size)\<close>.
\<close>

locale codec_strategy =
  fixes encode :: "bytes \<Rightarrow> bytes \<Rightarrow> nat \<times> bytes"
  assumes encode_fits: "encode pcm out = (n, out') \<Longrightarrow> n \<le> length out"
    and encode_keeps_length: "encode pcm out = (n, out') \<Longrightarrow> length out' = length out"
    and encode_keeps_tail: "encode pcm out = (n, out') \<Longrightarrow> drop n out' = drop n out"

definition alaw_encode :: "bytes \<Rightarrow> bytes \<Rightarrow> nat \<times> bytes" where
  "alaw_encode pcm out_buffer =
     (let sample_count = length pcm div 2
      in if length out_buffer < sample_count then (0, out_buffer)
         else (sample_count, encode_alaw (as_samples pcm) out_buffer))"

definition alaw_payload_type :: u8 where "alaw_payload_type = 8"

definition alaw_timestamp_increment :: "nat \<Rightarrow> u32" where
  "alaw_timestamp_increment pcm_byte_size = of_nat (pcm_byte_size div 2)"

lemma alaw_encode_eq:
  "alaw_encode pcm out =
     (if length out < length pcm div 2 then (0, out)
      else (length pcm div 2, map alaw_of_sample (as_samples pcm) @ drop (length pcm div 2) out))"
  by (simp add: alaw_encode_def encode_alaw_eq Let_def)

interpretation alaw: codec_strategy alaw_encode
  by unfold_locales (auto simp: alaw_encode_eq split: if_splits)

end
