(* ===== verification/Float_Ops.thy ===== *)
theory Float_Ops
  imports Hermes_Types "HOL-Library.Monad_Syntax" Complex_Main
begin

text \<open>
  \<open>float\<close> arithmetic. A \<open>float\<close> is the rational it denotes; every operation of the code rounds
  its exact result with \<open>rnd\<close>, a parameter. What the development uses of \<open>rnd\<close> is in
  \<open>rnd_ok\<close>, which rounding to binary32 satisfies: it is monotone and leaves the numbers that
  have at most 24 significant bits (and an exponent in range) alone.
\<close>

definition rnd_ok :: "(rat \<Rightarrow> rat) \<Rightarrow> bool" where
  "rnd_ok rnd \<longleftrightarrow> mono rnd
     \<and> (\<forall>n k. \<bar>n\<bar> \<le> 16777216 \<longrightarrow> k \<le> 100 \<longrightarrow> rnd (of_int (n * 2 ^ k)) = of_int (n * 2 ^ k))
     \<and> (\<forall>n k. \<bar>n\<bar> \<le> 16777216 \<longrightarrow> k \<le> 100 \<longrightarrow> rnd (of_int n / 2 ^ k) = of_int n / 2 ^ k)"

lemma rnd_ok_id: "rnd_ok (\<lambda>x. x)"
  by (simp add: rnd_ok_def mono_def)

lemma rnd_scaled:
  "rnd_ok rnd \<Longrightarrow> \<bar>n\<bar> \<le> 16777216 \<Longrightarrow> k \<le> 100 \<Longrightarrow> rnd (of_int (n * 2 ^ k)) = of_int (n * 2 ^ k)"
  by (simp only: rnd_ok_def)

lemma rnd_dyadic:
  "rnd_ok rnd \<Longrightarrow> \<bar>n\<bar> \<le> 16777216 \<Longrightarrow> k \<le> 100 \<Longrightarrow> rnd (of_int n / 2 ^ k) = of_int n / 2 ^ k"
  by (simp only: rnd_ok_def)

lemma rnd_mono: "rnd_ok rnd \<Longrightarrow> x \<le> y \<Longrightarrow> rnd x \<le> rnd y"
  by (simp add: rnd_ok_def monoD)

lemma rnd_int: "rnd_ok rnd \<Longrightarrow> \<bar>n\<bar> \<le> 16777216 \<Longrightarrow> rnd (of_int n) = of_int n"
  using rnd_scaled [of rnd n 0] by simp

lemma rnd_nat: "rnd_ok rnd \<Longrightarrow> n \<le> 16777216 \<Longrightarrow> rnd (of_nat n) = of_nat n"
  using rnd_int [of rnd "int n"] by simp

lemma rnd_le: "rnd_ok rnd \<Longrightarrow> x \<le> of_int n \<Longrightarrow> \<bar>n\<bar> \<le> 16777216 \<Longrightarrow> rnd x \<le> of_int n"
  by (metis rnd_mono rnd_int)

lemma rnd_ge: "rnd_ok rnd \<Longrightarrow> of_int n \<le> x \<Longrightarrow> \<bar>n\<bar> \<le> 16777216 \<Longrightarrow> of_int n \<le> rnd x"
  by (metis rnd_mono rnd_int)

lemma rnd_between:
  "rnd_ok rnd \<Longrightarrow> of_int a \<le> x \<Longrightarrow> x \<le> of_int b \<Longrightarrow> \<bar>a\<bar> \<le> 16777216 \<Longrightarrow> \<bar>b\<bar> \<le> 16777216 \<Longrightarrow>
   of_int a \<le> rnd x \<and> rnd x \<le> of_int b"
  by (simp add: rnd_le rnd_ge)

lemma rnd_0 [simp]: "rnd_ok rnd \<Longrightarrow> rnd 0 = 0"
  using rnd_int [of rnd 0] by simp

lemma rnd_1 [simp]: "rnd_ok rnd \<Longrightarrow> rnd 1 = 1"
  using rnd_int [of rnd 1] by simp

lemma rnd_unit: "rnd_ok rnd \<Longrightarrow> 0 \<le> x \<Longrightarrow> x \<le> 1 \<Longrightarrow> 0 \<le> rnd x \<and> rnd x \<le> 1"
  using rnd_between [of rnd 0 x 1] by simp

text \<open>\<open>static_cast\<close> from \<open>float\<close> to a 32-bit \<open>int\<close> truncates; out of range it is undefined.\<close>

definition truncate_rat :: "rat \<Rightarrow> int" where
  "truncate_rat x = (if x < 0 then - \<lfloor>- x\<rfloor> else \<lfloor>x\<rfloor>)"

definition cast_i32 :: "rat \<Rightarrow> int option" where
  "cast_i32 x = (let n = truncate_rat x in if -2147483648 \<le> n \<and> n \<le> 2147483647 then Some n else None)"

definition clamp :: "int \<Rightarrow> int \<Rightarrow> int \<Rightarrow> int" where
  "clamp v lo hi = (if v < lo then lo else if hi < v then hi else v)"

lemma clamp_bounds: "lo \<le> hi \<Longrightarrow> lo \<le> clamp v lo hi \<and> clamp v lo hi \<le> hi"
  by (simp add: clamp_def)

lemma truncate_rat_of_int [simp]: "truncate_rat (of_int n) = n"
  by (simp add: truncate_rat_def flip: of_int_minus)

lemma truncate_rat_bounds:
  "of_int a \<le> x \<Longrightarrow> x \<le> of_int b \<Longrightarrow> a \<le> truncate_rat x \<and> truncate_rat x \<le> b"
  unfolding truncate_rat_def by (auto; linarith)

lemma cast_i32_Some:
  "of_int a \<le> x \<Longrightarrow> x \<le> of_int b \<Longrightarrow> -2147483648 \<le> a \<Longrightarrow> b \<le> 2147483647 \<Longrightarrow> cast_i32 x = Some (truncate_rat x)"
  using truncate_rat_bounds [of a x b] by (simp add: cast_i32_def Let_def)

lemma truncate_rat_gt: "of_int b + 1 \<le> x \<Longrightarrow> 0 \<le> b \<Longrightarrow> b < truncate_rat x"
  unfolding truncate_rat_def by (auto; linarith)

text \<open>An access of a \<open>std::vector\<close>: out of range is undefined.\<close>

definition at_index :: "'a list \<Rightarrow> nat \<Rightarrow> 'a option" where
  "at_index xs i = (if i < length xs then Some (xs ! i) else None)"

lemma at_index_Some [simp]: "i < length xs \<Longrightarrow> at_index xs i = Some (xs ! i)"
  by (simp add: at_index_def)

end
