(* ===== verification/Audio_Math.thy ===== *)
theory Audio_Math
  imports Pcm Float_Ops
begin

text \<open>
  \<open>infra/audio/AudioMath.hpp\<close>: mixing into 32-bit accumulators and the soft clipping back to 16
  bits, and the gain loop of \<open>FileInputNode::apply_effects\<close>. \<open>tanhf\<close> stands for \<open>std::tanh\<close>
  on \<open>float\<close>. \<open>None\<close> is undefined behaviour: a cast out of range, an access out of bounds.
\<close>

section \<open>Mixing\<close>

text \<open>\<open>acc[i] += input[i]\<close> up to the end of the shorter one.\<close>

fun sum_buffers :: "i32 list \<Rightarrow> i16 list \<Rightarrow> i32 list" where
  "sum_buffers (a # acc) (x # input) = (a + scast x) # sum_buffers acc input"
| "sum_buffers acc input = acc"

definition cast_i16 :: "rat \<Rightarrow> i16 option" where
  "cast_i16 x = (let n = truncate_rat x in if -32768 \<le> n \<and> n \<le> 32767 then Some (word_of_int n) else None)"

definition CLIP_LIMIT :: int where "CLIP_LIMIT = 30000"

definition soft_clip :: "(rat \<Rightarrow> rat) \<Rightarrow> (rat \<Rightarrow> rat) \<Rightarrow> i32 \<Rightarrow> i16 option" where
  "soft_clip rnd tanhf sample =
     (if sint sample > CLIP_LIMIT \<or> sint sample < - CLIP_LIMIT
      then cast_i16 (rnd (tanhf (rnd (rnd (of_int (sint sample)) / 32767)) * 32767))
      else Some (scast sample))"

fun export_samples :: "(rat \<Rightarrow> rat) \<Rightarrow> (rat \<Rightarrow> rat) \<Rightarrow> i32 list \<Rightarrow> nat list \<Rightarrow> bytes \<Rightarrow> bytes option" where
  "export_samples rnd tanhf accumulator [] output_bytes = Some output_bytes"
| "export_samples rnd tanhf accumulator (i # is) output_bytes =
     do {
       a \<leftarrow> at_index accumulator i;
       s \<leftarrow> soft_clip rnd tanhf a;
       export_samples rnd tanhf accumulator is (write_sample output_bytes i s)
     }"

definition compress_and_export :: "(rat \<Rightarrow> rat) \<Rightarrow> (rat \<Rightarrow> rat) \<Rightarrow> i32 list \<Rightarrow> bytes \<Rightarrow> bytes option" where
  "compress_and_export rnd tanhf accumulator output_bytes =
     export_samples rnd tanhf accumulator [0..<length output_bytes div 2] output_bytes"

section \<open>Gain\<close>

fun apply_gain :: "(rat \<Rightarrow> rat) \<Rightarrow> rat \<Rightarrow> i16 list \<Rightarrow> i16 list option" where
  "apply_gain rnd gain [] = Some []"
| "apply_gain rnd gain (x # xs) =
     do {
       boosted \<leftarrow> cast_i32 (rnd (rnd (of_int (sint x)) * gain));
       ys \<leftarrow> apply_gain rnd gain xs;
       Some (word_of_int (clamp boosted (-32768) 32767) # ys)
     }"

section \<open>Facts\<close>

lemma length_sum_buffers [simp]: "length (sum_buffers acc input) = length acc"
  by (induction acc input rule: sum_buffers.induct) auto

lemma sum_buffers_nth:
  "i < length acc \<Longrightarrow> i < length input \<Longrightarrow> sum_buffers acc input ! i = acc ! i + scast (input ! i)"
proof (induction acc input arbitrary: i rule: sum_buffers.induct)
  case (1 a acc x input)
  then show ?case by (cases i) auto
qed auto

lemma sint_of_int_i32: "-2147483648 \<le> n \<Longrightarrow> n \<le> 2147483647 \<Longrightarrow> sint (word_of_int n :: i32) = n"
  by (simp add: int_word_sint mod_pos_pos_trivial)

lemma sint_add_i32:
  assumes "-2147483648 \<le> sint (a :: i32) + sint b" and "sint a + sint b \<le> 2147483647"
  shows "sint (a + b) = sint a + sint b"
proof -
  have "a + b = word_of_int (sint a + sint b)" by simp
  then show ?thesis using sint_of_int_i32 [OF assms] by simp
qed

lemma sint_scast_up [simp]: "sint (scast (x :: i16) :: i32) = sint x"
proof -
  have "sint (word_of_int (sint x) :: i32) = sint x"
  proof (rule sint_of_int_i32)
    show "- 2147483648 \<le> sint x" using sint_i16_range (1) [of x] by linarith
    show "sint x \<le> 2147483647" using sint_i16_range (2) [of x] by linarith
  qed
  then show ?thesis by (simp only: scast_eq)
qed

lemma sint_scast_down:
  "-32768 \<le> sint (x :: i32) \<Longrightarrow> sint x \<le> 32767 \<Longrightarrow> sint (scast x :: i16) = sint x"
  by (subst scast_eq) (rule sint_of_int_i16; linarith)

text \<open>The accumulator of a frame holds the exact sums, as long as fewer than 65536 inputs are mixed.\<close>

lemma mix_exact:
  assumes "length xss \<le> 65535" and "\<forall>xs\<in>set xss. length xs = n" and "i < n"
  shows "sint (fold (\<lambda>xs acc. sum_buffers acc xs) xss (replicate n 0) ! i) = (\<Sum>xs\<leftarrow>xss. sint (xs ! i))
    \<and> length (fold (\<lambda>xs acc. sum_buffers acc xs) xss (replicate n 0)) = n
    \<and> \<bar>\<Sum>xs\<leftarrow>xss. sint (xs ! i)\<bar> \<le> 32768 * int (length xss)"
  using assms
proof (induction xss rule: rev_induct)
  case Nil
  then show ?case by simp
next
  case (snoc xs xss)
  let ?acc = "fold (\<lambda>xs acc. sum_buffers acc xs) xss (replicate n 0)"
  let ?s = "\<Sum>xs\<leftarrow>xss. sint (xs ! i)"
  have ih: "sint (?acc ! i) = ?s" "length ?acc = n" "\<bar>?s\<bar> \<le> 32768 * int (length xss)"
    using snoc by simp_all
  have x: "-32768 \<le> sint (xs ! i)" "sint (xs ! i) \<le> 32767"
    using sint_i16_range [of "xs ! i"] by simp_all
  have "int (length xss) \<le> 65534" using snoc.prems(1) by simp
  then have "-2147483648 \<le> ?s + sint (xs ! i)" "?s + sint (xs ! i) \<le> 2147483647"
    using ih(3) x by linarith+
  then have "sint (?acc ! i + scast (xs ! i)) = ?s + sint (xs ! i)"
    using sint_add_i32 [of "?acc ! i" "scast (xs ! i)"] ih(1) by simp
  then show ?case
    using ih x snoc.prems by (simp add: sum_buffers_nth)
qed

lemma soft_clip_linear:
  "\<bar>sint s\<bar> \<le> 30000 \<Longrightarrow> soft_clip rnd tanhf s = Some (scast s)"
  by (auto simp: soft_clip_def CLIP_LIMIT_def abs_le_iff)

lemma soft_clip_total:
  assumes "rnd_ok rnd" and "\<And>x. -1 \<le> tanhf x \<and> tanhf x \<le> 1"
  shows "\<exists>y. soft_clip rnd tanhf s = Some y"
proof -
  let ?t = "tanhf (rnd (rnd (of_int (sint s)) / 32767))"
  have "-32767 \<le> ?t * 32767 \<and> ?t * 32767 \<le> 32767"
    using assms(2) [of "rnd (rnd (of_int (sint s)) / 32767)"] by linarith
  then have "of_int (-32767) \<le> rnd (?t * 32767) \<and> rnd (?t * 32767) \<le> of_int 32767"
    using rnd_between [of rnd "-32767" "?t * 32767" 32767] assms(1) by simp
  then have "-32767 \<le> truncate_rat (rnd (?t * 32767)) \<and> truncate_rat (rnd (?t * 32767)) \<le> 32767"
    by (intro truncate_rat_bounds) simp_all
  then show ?thesis by (auto simp: soft_clip_def cast_i16_def Let_def)
qed

lemma export_samples_total:
  assumes "\<And>j. j \<in> set is \<Longrightarrow> j < length acc \<and> soft_clip rnd tanhf (acc ! j) = Some (f j)"
    and "\<And>j. j \<in> set is \<Longrightarrow> 2 * j + 2 \<le> length out" and "distinct is"
  shows "\<exists>out'. export_samples rnd tanhf acc is out = Some out' \<and> length out' = length out
    \<and> (\<forall>j. 2 * j + 2 \<le> length out \<longrightarrow> read_sample out' j = (if j \<in> set is then f j else read_sample out j))"
  using assms
proof (induction "is" arbitrary: out)
  case Nil
  then show ?case by simp
next
  case (Cons i "is")
  let ?out = "write_sample out i (f i)"
  have i: "2 * i + 2 \<le> length out" using Cons.prems(2) by simp
  then have len: "length ?out = length out" by simp
  obtain out' where out': "export_samples rnd tanhf acc is ?out = Some out'" "length out' = length ?out"
    "\<forall>j. 2 * j + 2 \<le> length ?out \<longrightarrow> read_sample out' j = (if j \<in> set is then f j else read_sample ?out j)"
    using Cons.IH [of ?out] Cons.prems len by auto
  have "export_samples rnd tanhf acc (i # is) out = Some out'"
    using Cons.prems(1) [of i] out'(1) by simp
  moreover have "read_sample ?out j = (if j = i then f i else read_sample out j)" for j
    using read_write_same [OF i] read_write_other [OF i] by simp
  ultimately show ?case
    using out'(2,3) len Cons.prems(3) by (auto simp del: export_samples.simps)
qed

lemma compress_and_export_total:
  assumes "rnd_ok rnd" and "\<And>x. -1 \<le> tanhf x \<and> tanhf x \<le> 1" and "length out div 2 \<le> length acc"
  shows "\<exists>out'. compress_and_export rnd tanhf acc out = Some out' \<and> length out' = length out
    \<and> (\<forall>j < length out div 2. read_sample out' j = the (soft_clip rnd tanhf (acc ! j)))"
proof -
  have "\<exists>out'. export_samples rnd tanhf acc [0..<length out div 2] out = Some out' \<and> length out' = length out
    \<and> (\<forall>j. 2 * j + 2 \<le> length out \<longrightarrow> read_sample out' j =
        (if j \<in> set [0..<length out div 2] then the (soft_clip rnd tanhf (acc ! j)) else read_sample out j))"
    using assms(3) soft_clip_total [OF assms(1,2)]
    by (intro export_samples_total) (auto simp: option.the_def split: option.splits)
  then show ?thesis unfolding compress_and_export_def by fastforce
qed

lemma exp_two_bound: "exp 2 \<le> (8 :: real)"
proof -
  have "exp (1 / 16) \<le> (1 + 1 / 16 + (1 / 16)\<^sup>2 :: real)" by (rule exp_bound) simp_all
  then have "exp (1 / 16) ^ 32 \<le> (273 / 256 :: real) ^ 32" by (intro power_mono) (simp_all add: power2_eq_square)
  moreover have "exp (1 / 16 :: real) ^ 32 = exp 2" using exp_of_nat_mult [of 32 "1 / 16 :: real"] by simp
  moreover have "(273 / 256 :: real) ^ 32 \<le> 8" by (simp add: power_divide)
  ultimately show ?thesis by linarith
qed

lemma tanh_one_bound: "tanh (1 :: real) \<le> 78 / 100"
proof -
  have "tanh (1 :: real) = (1 - exp (- 2)) / (1 + exp (- 2))" by (simp add: tanh_real_altdef)
  moreover have "exp (- 2) \<ge> (1 / 8 :: real)"
    using exp_two_bound by (simp add: exp_minus field_simps)
  ultimately show ?thesis by (simp add: divide_le_eq add_pos_pos)
qed

lemma apply_gain_eq:
  assumes "rnd_ok rnd" and "\<bar>gain\<bar> \<le> 65535"
  shows "apply_gain rnd gain xs =
    Some (map (\<lambda>x. word_of_int (clamp (truncate_rat (rnd (of_int (sint x) * gain))) (-32768) 32767)) xs)"
proof (induction xs)
  case Nil
  then show ?case by simp
next
  case (Cons x xs)
  define n where "n = sint x"
  have n: "-32768 \<le> n" "n \<le> 32767" using sint_i16_range [of x] by (simp_all add: n_def)
  then have r: "rnd (of_int n) = of_int n" using rnd_int [of rnd n] assms(1) by simp
  have "\<bar>of_int n * gain\<bar> \<le> 32768 * 65535"
    unfolding abs_mult using n assms(2) by (intro mult_mono) (simp_all add: abs_le_iff)
  then have "of_int (-65535 * 2 ^ 15) \<le> of_int n * gain" "of_int n * gain \<le> of_int (65535 * 2 ^ 15)"
    by (simp_all add: abs_le_iff)
  then have "of_int (-65535 * 2 ^ 15) \<le> rnd (of_int n * gain)" "rnd (of_int n * gain) \<le> of_int (65535 * 2 ^ 15)"
    using rnd_mono [OF assms(1)] rnd_scaled [OF assms(1), of "-65535" 15] rnd_scaled [OF assms(1), of 65535 15] by fastforce+
  then have "cast_i32 (rnd (of_int n * gain)) = Some (truncate_rat (rnd (of_int n * gain)))"
    by (rule cast_i32_Some) simp_all
  then show ?case using Cons.IH r unfolding n_def [symmetric] apply_gain.simps by (simp add: n_def [symmetric] del: of_int_sint)
qed

section \<open>Properties\<close>

text \<open>Mixing frames of 160 samples gives, at every sample whose exact sum lies within the clip
  limit, exactly that sum; the accumulation does not overflow for any number of inputs below
  65536, and no cast or access is undefined.\<close>

theorem mix_within_limit:
  assumes "rnd_ok rnd" and "\<And>x. -1 \<le> tanhf x \<and> tanhf x \<le> 1"
    and "length xss \<le> 65535" and "\<forall>xs\<in>set xss. length xs = 160" and "length frame_buffer = 320"
  shows "\<exists>out. compress_and_export rnd tanhf (fold (\<lambda>xs acc. sum_buffers acc xs) xss (replicate 160 0)) frame_buffer = Some out
    \<and> length out = 320
    \<and> (\<forall>i < 160. \<bar>\<Sum>xs\<leftarrow>xss. sint (xs ! i)\<bar> \<le> 30000 \<longrightarrow> sint (as_samples out ! i) = (\<Sum>xs\<leftarrow>xss. sint (xs ! i)))"
proof -
  let ?acc = "fold (\<lambda>xs acc. sum_buffers acc xs) xss (replicate 160 0)"
  have len: "length frame_buffer div 2 \<le> length ?acc"
    using mix_exact [OF assms(3,4), of 0] assms(5) by simp
  obtain out where out: "compress_and_export rnd tanhf ?acc frame_buffer = Some out" "length out = 320"
    "\<forall>j < 160. read_sample out j = the (soft_clip rnd tanhf (?acc ! j))"
    using compress_and_export_total [of rnd tanhf frame_buffer ?acc, OF assms(1) _ len] assms(2,5) by auto
  have "sint (as_samples out ! i) = (\<Sum>xs\<leftarrow>xss. sint (xs ! i))"
    if "i < 160" and small: "\<bar>\<Sum>xs\<leftarrow>xss. sint (xs ! i)\<bar> \<le> 30000" for i
  proof -
    have a: "sint (?acc ! i) = (\<Sum>xs\<leftarrow>xss. sint (xs ! i))"
      using mix_exact [OF assms(3,4) that(1)] by simp
    then have "sint (scast (?acc ! i) :: i16) = sint (?acc ! i)"
      using small by (intro sint_scast_down) linarith+
    then show ?thesis
      using out(2,3) that a soft_clip_linear [of "?acc ! i" rnd tanhf] by (simp add: as_samples_def)
  qed
  then show ?thesis using out(1,2) by blast
qed

lemma mix_within_limit_witness:
  "\<exists>out. compress_and_export (\<lambda>x. x) (\<lambda>x. if x < 0 then - 1 / 2 else 1 / 2)
      (fold (\<lambda>xs acc. sum_buffers acc xs) [replicate 160 1000, replicate 160 (- 300)] (replicate 160 0)) (replicate 320 0) = Some out
    \<and> sint (as_samples out ! 3) = 700"
proof -
  have "\<exists>out. compress_and_export (\<lambda>x. x) (\<lambda>x. if x < 0 then - 1 / 2 else 1 / 2)
      (fold (\<lambda>xs acc. sum_buffers acc xs) [replicate 160 1000, replicate 160 (- 300)] (replicate 160 0)) (replicate 320 0) = Some out
    \<and> length out = 320
    \<and> (\<forall>i < 160. \<bar>\<Sum>xs\<leftarrow>[replicate 160 1000, replicate 160 (- 300)]. sint ((xs :: i16 list) ! i)\<bar> \<le> 30000
        \<longrightarrow> sint (as_samples out ! i) = (\<Sum>xs\<leftarrow>[replicate 160 1000, replicate 160 (- 300)]. sint ((xs :: i16 list) ! i)))"
    by (rule mix_within_limit) (simp_all add: rnd_ok_id)
  then show ?thesis by fastforce
qed

text \<open>The gain loop is defined for every gain of magnitude at most 65535, and gives the truncated
  product clamped to 16 bits.\<close>

theorem gain_clamps:
  assumes "rnd_ok rnd" and "\<bar>gain\<bar> \<le> 65535"
  shows "apply_gain rnd gain xs =
    Some (map (\<lambda>x. word_of_int (clamp (truncate_rat (rnd (of_int (sint x) * gain))) (-32768) 32767)) xs)"
  using assms by (rule apply_gain_eq)

lemma gain_clamps_witness: "apply_gain (\<lambda>x. x) 2 [20000, - 20000, 3] = Some [32767, - 32768, 6]"
proof -
  have "map (\<lambda>x. word_of_int (clamp (truncate_rat (of_int (sint (x :: i16)) * 2)) (-32768) 32767)) [20000, - 20000, 3]
      = [32767, - 32768, 6 :: i16]"
    by code_simp
  then show ?thesis
    using gain_clamps [of "\<lambda>x. x" 2 "[20000, - 20000, 3]"] rnd_ok_id by (simp only:)
qed

text \<open>A gain of 70000 makes the cast of the boosted sample undefined for a full-scale sample:
  the clamp comes after the cast.\<close>

theorem gain_cast_overflows:
  assumes "rnd_ok rnd" and "70000 \<le> gain"
  shows "apply_gain rnd gain [32767] = None"
proof -
  have "2293690000 \<le> 32767 * gain" using assms(2) by simp
  then have "(2147483648 :: rat) \<le> 32767 * gain" by linarith
  then have "rnd (of_int (1 * 2 ^ 31)) \<le> rnd (32767 * gain)"
    using rnd_mono [OF assms(1)] by simp
  then have "2147483648 \<le> rnd (32767 * gain)"
    using rnd_scaled [OF assms(1), of 1 31] by simp
  then have "2147483647 < truncate_rat (rnd (32767 * gain))"
    by (intro truncate_rat_gt) simp_all
  moreover have "rnd 32767 = 32767" using rnd_int [OF assms(1), of 32767] by simp
  ultimately show ?thesis by (simp add: cast_i32_def Let_def)
qed

lemma gain_cast_overflows_witness: "apply_gain (\<lambda>x. x) 70000 [32767] = None"
  by (rule gain_cast_overflows) (simp_all add: rnd_ok_id)

text \<open>The soft clipping is not monotone: 30000 is kept and 30001, where it sets in, becomes at most
  26000, for every \<open>tanh\<close> accurate to one thousandth.\<close>

theorem soft_clip_drops:
  assumes "rnd_ok rnd" and "\<And>x. \<bar>of_rat (tanhf x) - tanh (of_rat x)\<bar> \<le> (1 / 1000 :: real)"
  shows "soft_clip rnd tanhf 30000 = Some 30000 \<and> (\<exists>y. soft_clip rnd tanhf 30001 = Some y \<and> sint y \<le> 26000)"
proof -
  let ?a = "rnd (30001 / 32767)"
  have a: "0 \<le> ?a \<and> ?a \<le> 1" using rnd_unit [of rnd "30001 / 32767"] assms(1) by simp
  have "of_rat (tanhf ?a) \<le> tanh (of_rat ?a) + (1 / 1000 :: real)" "tanh (of_rat ?a) - (1 / 1000 :: real) \<le> of_rat (tanhf ?a)"
    using assms(2) [of ?a] by linarith+
  moreover have "tanh (of_rat ?a :: real) \<le> tanh 1" "0 \<le> tanh (of_rat ?a :: real)"
    using a by (simp_all add: tanh_real_le_iff)
  ultimately have "of_rat (tanhf ?a) \<le> (79 / 100 :: real)" "(- 1 / 1000 :: real) \<le> of_rat (tanhf ?a)"
    using tanh_one_bound by linarith+
  then have "of_rat (tanhf ?a) \<le> (of_rat (79 / 100) :: real)" "(of_rat (- 1 / 1000) :: real) \<le> of_rat (tanhf ?a)"
    by (simp_all add: of_rat_divide of_rat_minus)
  then have "tanhf ?a \<le> 79 / 100" "- 1 / 1000 \<le> tanhf ?a"
    unfolding of_rat_less_eq by simp_all
  then have "of_int (-33) \<le> tanhf ?a * 32767" "tanhf ?a * 32767 \<le> of_int 26000" by simp_all
  then have "of_int (-33) \<le> rnd (tanhf ?a * 32767) \<and> rnd (tanhf ?a * 32767) \<le> of_int 26000"
    using assms(1) by (intro rnd_between) simp_all
  then have t: "-33 \<le> truncate_rat (rnd (tanhf ?a * 32767))" "truncate_rat (rnd (tanhf ?a * 32767)) \<le> 26000"
    using truncate_rat_bounds by blast+
  have s: "sint (30001 :: i32) = 30001" "sint (30000 :: i32) = 30000" by simp_all
  have r: "rnd 30001 = 30001" using rnd_int [OF assms(1), of 30001] by simp
  have "soft_clip rnd tanhf 30001 = Some (word_of_int (truncate_rat (rnd (tanhf ?a * 32767))))"
    using t r by (simp add: soft_clip_def s CLIP_LIMIT_def cast_i16_def Let_def)
  moreover have "sint (word_of_int (truncate_rat (rnd (tanhf ?a * 32767))) :: i16) \<le> 26000"
    using t by (subst sint_of_int_i16) simp_all
  ultimately show ?thesis by (simp add: soft_clip_def s CLIP_LIMIT_def)
qed

lemma soft_clip_drops_witness:
  "\<exists>y. soft_clip (\<lambda>x. x) (\<lambda>x. of_int \<lfloor>2000 * tanh (of_rat x :: real)\<rfloor> / 2000) 30001 = Some y \<and> sint y \<le> 26000"
proof -
  have "\<bar>of_rat (of_int \<lfloor>2000 * tanh (of_rat x :: real)\<rfloor> / 2000) - tanh (of_rat x)\<bar> \<le> (1 / 1000 :: real)" for x
  proof -
    define t where "t = tanh (of_rat x :: real)"
    have "real_of_int \<lfloor>2000 * t\<rfloor> \<le> 2000 * t" "2000 * t \<le> real_of_int \<lfloor>2000 * t\<rfloor> + 1" by linarith+
    then have "\<bar>real_of_int \<lfloor>2000 * t\<rfloor> / 2000 - t\<bar> \<le> 1 / 1000" by linarith
    then show ?thesis by (simp add: of_rat_divide t_def)
  qed
  from soft_clip_drops [of "\<lambda>x. x" "\<lambda>x. of_int \<lfloor>2000 * tanh (of_rat x :: real)\<rfloor> / 2000", OF rnd_ok_id this]
  show ?thesis by (rule conjunct2)
qed

end
