(* ===== verification/Pitch_Shifter.thy ===== *)
theory Pitch_Shifter
  imports Float_Ops
begin

text \<open>
  \<open>infra/audio/PitchShifter\<close>: the delay line with two read heads. \<open>None\<close> is a run that does not
  return or that has undefined behaviour (an access outside the delay line, a cast out of range).
  \<open>powf\<close> stands for \<open>std::pow\<close>.
\<close>

record pitch_shifter =
  channels :: nat
  max_delay_samples :: nat
  buffer_size :: nat
  delay_buffer :: "rat list"
  write_ptr :: nat
  phase :: rat

definition new_pitch_shifter :: "nat \<Rightarrow> nat \<Rightarrow> nat \<Rightarrow> pitch_shifter" where
  "new_pitch_shifter sample_rate ch window_ms =
     (let m = sample_rate * window_ms div 1000
      in \<lparr>channels = ch, max_delay_samples = m, buffer_size = m * 2,
          delay_buffer = replicate (m * 2 * ch) 0, write_ptr = 0, phase = 0\<rparr>)"

text \<open>The default arguments: 8 kHz, mono, a window of 50 ms.\<close>

definition default_pitch_shifter :: pitch_shifter where
  "default_pitch_shifter = new_pitch_shifter 8000 1 50"

definition reset_pitch_shifter :: "pitch_shifter \<Rightarrow> pitch_shifter" where
  "reset_pitch_shifter ps =
     ps\<lparr>write_ptr := 0, phase := 0, delay_buffer := replicate (length (delay_buffer ps)) 0\<rparr>"

section \<open>The wrap-around loops\<close>

text \<open>\<open>while (x < 0) x += d\<close> and \<open>while (x >= b) x -= d\<close> on floats.\<close>

partial_function (option) raise_loop :: "(rat \<Rightarrow> rat) \<Rightarrow> rat \<Rightarrow> rat \<Rightarrow> rat option" where
  "raise_loop rnd d x = (if x < 0 then raise_loop rnd d (rnd (x + d)) else Some x)"

partial_function (option) lower_loop :: "(rat \<Rightarrow> rat) \<Rightarrow> rat \<Rightarrow> rat \<Rightarrow> rat option" where
  "lower_loop rnd d x = (if x \<ge> d then lower_loop rnd d (rnd (x - d)) else Some x)"

section \<open>Operations\<close>

definition read_interpolated :: "(rat \<Rightarrow> rat) \<Rightarrow> pitch_shifter \<Rightarrow> rat \<Rightarrow> nat \<Rightarrow> rat option" where
  "read_interpolated rnd ps delay_frames channel =
     do {
       let size = rnd (of_nat (buffer_size ps));
       read_pos \<leftarrow> raise_loop rnd size (rnd (rnd (of_nat (write_ptr ps)) - delay_frames));
       read_pos \<leftarrow> lower_loop rnd size read_pos;
       let idx1 = nat \<lfloor>read_pos\<rfloor>;
       let idx1 = (if idx1 \<ge> buffer_size ps then buffer_size ps - 1 else idx1);
       let idx2 = (idx1 + 1) mod buffer_size ps;
       let frac = rnd (read_pos - rnd (of_nat idx1));
       val1 \<leftarrow> at_index (delay_buffer ps) (idx1 * channels ps + channel);
       val2 \<leftarrow> at_index (delay_buffer ps) (idx2 * channels ps + channel);
       Some (rnd (val1 + rnd (frac * rnd (val2 - val1))))
     }"

definition get_crossfade_weight :: "(rat \<Rightarrow> rat) \<Rightarrow> rat \<Rightarrow> rat" where
  "get_crossfade_weight rnd p = rnd (1 - \<bar>rnd (rnd (2 * p) - 1)\<bar>)"

definition calculate_crossfade_parameters ::
  "(rat \<Rightarrow> rat) \<Rightarrow> pitch_shifter \<Rightarrow> rat \<times> rat \<times> rat \<times> rat" where
  "calculate_crossfade_parameters rnd ps =
     (let m = rnd (of_nat (max_delay_samples ps));
          phase2 = rnd (phase ps + 1 / 2);
          phase2 = (if phase2 \<ge> 1 then rnd (phase2 - 1) else phase2)
      in (rnd (phase ps * m), get_crossfade_weight rnd (phase ps),
          rnd (phase2 * m), get_crossfade_weight rnd phase2))"

definition process_channel ::
  "(rat \<Rightarrow> rat) \<Rightarrow> rat \<times> rat \<times> rat \<times> rat \<Rightarrow> nat \<Rightarrow> pitch_shifter \<times> i16 list
     \<Rightarrow> (pitch_shifter \<times> i16 list) option" where
  "process_channel rnd params c st =
     (let (ps, frame) = st; (delay1, weight1, delay2, weight2) = params in
      do {
        sample \<leftarrow> at_index frame c;
        _ \<leftarrow> at_index (delay_buffer ps) (write_ptr ps * channels ps + c);
        let ps = ps\<lparr>delay_buffer := (delay_buffer ps)[write_ptr ps * channels ps + c := rnd (of_int (sint sample))]\<rparr>;
        out1 \<leftarrow> read_interpolated rnd ps delay1 c;
        out2 \<leftarrow> read_interpolated rnd ps delay2 c;
        let mixed_out = rnd (rnd (out1 * weight1) + rnd (out2 * weight2));
        n \<leftarrow> cast_i32 mixed_out;
        Some (ps, frame[c := word_of_int (clamp n (-32768) 32767)])
      })"

text \<open>The loop of \<open>process_frame_channels\<close> over the channels from \<open>c\<close> on.\<close>

fun process_channels ::
  "(rat \<Rightarrow> rat) \<Rightarrow> rat \<times> rat \<times> rat \<times> rat \<Rightarrow> nat list \<Rightarrow> pitch_shifter \<times> i16 list
     \<Rightarrow> (pitch_shifter \<times> i16 list) option" where
  "process_channels rnd params [] st = Some st"
| "process_channels rnd params (c # cs) st =
     Option.bind (process_channel rnd params c st) (process_channels rnd params cs)"

definition process_frame_channels ::
  "(rat \<Rightarrow> rat) \<Rightarrow> rat \<times> rat \<times> rat \<times> rat \<Rightarrow> pitch_shifter \<times> i16 list
     \<Rightarrow> (pitch_shifter \<times> i16 list) option" where
  "process_frame_channels rnd params st = process_channels rnd params [0..<channels (fst st)] st"

definition advance_pointers :: "(rat \<Rightarrow> rat) \<Rightarrow> rat \<Rightarrow> rat \<Rightarrow> pitch_shifter \<Rightarrow> pitch_shifter option" where
  "advance_pointers rnd delay_change_rate phase_increment ps =
     (let ps = ps\<lparr>write_ptr := (write_ptr ps + 1) mod buffer_size ps\<rparr>
      in if delay_change_rate < 0
         then map_option (\<lambda>p. ps\<lparr>phase := p\<rparr>) (raise_loop rnd 1 (rnd (phase ps - phase_increment)))
         else map_option (\<lambda>p. ps\<lparr>phase := p\<rparr>) (lower_loop rnd 1 (rnd (phase ps + phase_increment))))"

text \<open>The frames of a buffer, each \<open>channels\<close> samples long; a shorter rest is left alone.\<close>

fun process_frames ::
  "(rat \<Rightarrow> rat) \<Rightarrow> rat \<Rightarrow> rat \<Rightarrow> nat \<Rightarrow> pitch_shifter \<Rightarrow> i16 list \<Rightarrow> (pitch_shifter \<times> i16 list) option" where
  "process_frames rnd rate inc 0 ps buffer = Some (ps, buffer)"
| "process_frames rnd rate inc (Suc f) ps buffer =
     do {
       let params = calculate_crossfade_parameters rnd ps;
       (ps, frame) \<leftarrow> process_frame_channels rnd params (ps, take (channels ps) buffer);
       ps' \<leftarrow> advance_pointers rnd rate inc ps;
       (ps'', rest) \<leftarrow> process_frames rnd rate inc f ps' (drop (channels ps) buffer);
       Some (ps'', frame @ rest)
     }"

definition process_pitch ::
  "(rat \<Rightarrow> rat) \<Rightarrow> (rat \<Rightarrow> rat) \<Rightarrow> pitch_shifter \<Rightarrow> i16 list \<Rightarrow> rat \<Rightarrow> (pitch_shifter \<times> i16 list) option" where
  "process_pitch rnd powf ps buffer semitones =
     (if semitones = 0 then Some (ps, buffer)
      else
        let pitch_ratio = powf (rnd (semitones / 12));
            delay_change_rate = rnd (1 - pitch_ratio);
            phase_increment = rnd (\<bar>delay_change_rate\<bar> / rnd (of_nat (max_delay_samples ps)))
        in process_frames rnd delay_change_rate phase_increment (length buffer div channels ps) ps buffer)"

section \<open>The loops end\<close>


lemma lower_loop_done: "x < d \<Longrightarrow> lower_loop rnd d x = Some x"
  by (subst lower_loop.simps) simp

lemma raise_loop_done: "0 \<le> x \<Longrightarrow> raise_loop rnd d x = Some x"
  by (subst raise_loop.simps) simp

lemma raise_loop_step: "x < 0 \<Longrightarrow> raise_loop rnd d x = raise_loop rnd d (rnd (x + d))"
  by (subst raise_loop.simps) simp

lemma lower_loop_step: "d \<le> x \<Longrightarrow> lower_loop rnd d x = lower_loop rnd d (rnd (x - d))"
  by (subst lower_loop.simps) simp

text \<open>One wrap is enough from just below zero, two from at most \<open>2 * d\<close>.\<close>

lemma raise_loop_wrap:
  assumes "rnd_ok rnd" and "- of_int n \<le> x" and "x \<le> of_int n" and "0 < n" and "n \<le> 8388608"
  shows "\<exists>y. raise_loop rnd (of_int n) x = Some y \<and> 0 \<le> y \<and> y \<le> of_int n"
proof (cases "x < 0")
  case True
  have "0 \<le> rnd (x + of_int n) \<and> rnd (x + of_int n) \<le> of_int n"
    using rnd_between [of rnd 0 "x + of_int n" n] assms True by simp
  then show ?thesis
    using True by (simp add: raise_loop_step raise_loop_done)
next
  case False
  then show ?thesis using assms(3) by (simp add: raise_loop_done)
qed

lemma lower_loop_wrap:
  assumes "rnd_ok rnd" and "0 \<le> x" and "x \<le> 2 * of_int n" and "0 < n" and "n \<le> 8388608"
  shows "\<exists>y. lower_loop rnd (of_int n) x = Some y \<and> 0 \<le> y \<and> y < of_int n"
proof (cases "x < of_int n")
  case True
  then show ?thesis using assms(2) by (simp add: lower_loop_done)
next
  case False
  let ?y = "rnd (x - of_int n)"
  have y: "0 \<le> ?y \<and> ?y \<le> of_int n"
    using rnd_between [of rnd 0 "x - of_int n" n] assms False by simp
  show ?thesis
  proof (cases "?y < of_int n")
    case True
    then show ?thesis using False y by (simp add: lower_loop_step lower_loop_done)
  next
    case one: False
    then have "?y = of_int n" using y by simp
    then show ?thesis
      using False assms(1,4) by (simp add: lower_loop_step lower_loop_done)
  qed
qed

definition pcm_float :: "rat \<Rightarrow> bool" where
  "pcm_float v \<longleftrightarrow> (\<exists>n. v = of_int n \<and> -32768 \<le> n \<and> n \<le> 32767)"

definition shifter_inv :: "pitch_shifter \<Rightarrow> bool" where
  "shifter_inv ps \<longleftrightarrow> channels ps = 1 \<and> max_delay_samples ps = 400 \<and> buffer_size ps = 800
     \<and> length (delay_buffer ps) = 800 \<and> write_ptr ps < 800 \<and> 0 \<le> phase ps \<and> phase ps \<le> 1
     \<and> list_all pcm_float (delay_buffer ps)"

lemma pcm_float_0 [simp]: "pcm_float 0"
  by (auto simp: pcm_float_def intro!: exI [of _ 0])

lemma shifter_inv_new [inv_intros]: "shifter_inv default_pitch_shifter"
  by (simp add: shifter_inv_def default_pitch_shifter_def new_pitch_shifter_def list_all_length)

lemma shifter_inv_reset [inv_intros]: "shifter_inv ps \<Longrightarrow> shifter_inv (reset_pitch_shifter ps)"
  by (simp add: shifter_inv_def reset_pitch_shifter_def list_all_length)

lemma interpolate_between:
  assumes "rnd_ok rnd" and "pcm_float a" and "pcm_float b" and "0 \<le> t" and "t \<le> 1"
  shows "-32768 \<le> rnd (a + rnd (t * rnd (b - a))) \<and> rnd (a + rnd (t * rnd (b - a))) \<le> 32767"
proof -
  obtain m n where m: "a = of_int m" "-32768 \<le> m" "m \<le> 32767" and n: "b = of_int n" "-32768 \<le> n" "n \<le> 32767"
    using assms(2,3) by (auto simp: pcm_float_def)
  have d: "rnd (b - a) = of_int (n - m)"
    using rnd_int [of rnd "n - m"] assms(1) m n by simp
  have "of_int (min 0 (n - m)) \<le> t * of_int (n - m)" "t * of_int (n - m) \<le> of_int (max 0 (n - m))"
    using assms(4,5) by (auto simp: min_def max_def mult_nonneg_nonpos mult_left_le_one_le
          mult_le_cancel_right1 mult_le_cancel_right2)
  then have "of_int (min 0 (n - m)) \<le> rnd (t * of_int (n - m)) \<and> rnd (t * of_int (n - m)) \<le> of_int (max 0 (n - m))"
    using assms(1) m n by (intro rnd_between) auto
  then have "of_int (-32768) \<le> a + rnd (t * rnd (b - a)) \<and> a + rnd (t * rnd (b - a)) \<le> of_int 32767"
    using m n d by (auto simp: min_def max_def split: if_splits)
  then show ?thesis
    using rnd_between [of rnd "-32768" "a + rnd (t * rnd (b - a))" 32767] assms(1) by simp
qed

lemma read_interpolated_total:
  assumes "rnd_ok rnd" and "shifter_inv ps" and "0 \<le> delay" and "delay \<le> 400"
  shows "\<exists>v. read_interpolated rnd ps delay 0 = Some v \<and> -32768 \<le> v \<and> v \<le> 32767"
proof -
  note inv = assms(2) [unfolded shifter_inv_def]
  have size: "rnd (of_nat (buffer_size ps)) = of_int 800" and w: "rnd (of_nat (write_ptr ps)) = of_nat (write_ptr ps)"
    using rnd_nat [of rnd 800] rnd_nat [of rnd "write_ptr ps"] assms(1) inv by simp_all
  have "of_nat (write_ptr ps) \<le> (of_nat 799 :: rat)" using inv by (intro of_nat_mono) simp
  then have wlt: "(of_nat (write_ptr ps) :: rat) \<le> 799" by simp
  let ?x = "rnd (of_nat (write_ptr ps) - delay)"
  have x: "- of_int 400 \<le> ?x \<and> ?x \<le> of_int 799"
    using rnd_between [of rnd "-400" "of_nat (write_ptr ps) - delay" 799] assms wlt by simp
  obtain y where y: "raise_loop rnd (of_int 800) ?x = Some y" "0 \<le> y" "y \<le> of_int 800"
    using raise_loop_wrap [of rnd 800 ?x] assms(1) x by auto
  obtain z where z: "lower_loop rnd (of_int 800) y = Some z" "0 \<le> z" "z < of_int 800"
    using lower_loop_wrap [of rnd y 800] assms(1) y by auto
  define i where "i = nat \<lfloor>z\<rfloor>"
  have i: "i < 800" "of_nat i \<le> z" "z \<le> of_nat i + 1"
    using z(2,3) by (auto simp: i_def) linarith+
  have ri: "rnd (of_nat i) = of_nat i" using rnd_nat [of rnd i] assms(1) i(1) by simp
  have t: "0 \<le> rnd (z - of_nat i) \<and> rnd (z - of_nat i) \<le> 1"
    using rnd_unit [of rnd "z - of_nat i"] assms(1) i by simp
  have pcm: "pcm_float (delay_buffer ps ! j)" if "j < 800" for j
    using inv that by (simp add: list_all_length)
  show ?thesis
    using interpolate_between [OF assms(1) pcm [OF i(1)] pcm [of "(i + 1) mod 800"] t [THEN conjunct1] t [THEN conjunct2]]
      inv size w y(1) z(1) i(1) ri
    by (simp add: read_interpolated_def i_def [symmetric])
qed


lemma crossfade_weight_unit:
  assumes "rnd_ok rnd" and "0 \<le> p" and "p \<le> 1"
  shows "0 \<le> get_crossfade_weight rnd p \<and> get_crossfade_weight rnd p \<le> 1"
proof -
  have "0 \<le> rnd (2 * p) \<and> rnd (2 * p) \<le> 2"
    using rnd_between [of rnd 0 "2 * p" 2] assms by simp
  then have "-1 \<le> rnd (rnd (2 * p) - 1) \<and> rnd (rnd (2 * p) - 1) \<le> 1"
    using rnd_between [of rnd "-1" "rnd (2 * p) - 1" 1] assms(1) by simp
  then show ?thesis
    using rnd_unit [of rnd "1 - \<bar>rnd (rnd (2 * p) - 1)\<bar>"] assms(1) by (simp add: get_crossfade_weight_def abs_le_iff)
qed

definition params_ok :: "rat \<times> rat \<times> rat \<times> rat \<Rightarrow> bool" where
  "params_ok params = (case params of (d1, w1, d2, w2) \<Rightarrow>
     0 \<le> d1 \<and> d1 \<le> 400 \<and> 0 \<le> d2 \<and> d2 \<le> 400 \<and> 0 \<le> w1 \<and> w1 \<le> 1 \<and> 0 \<le> w2 \<and> w2 \<le> 1)"

lemma params_ok_crossfade:
  assumes "rnd_ok rnd" and "shifter_inv ps"
  shows "params_ok (calculate_crossfade_parameters rnd ps)"
proof -
  note inv = assms(2) [unfolded shifter_inv_def]
  let ?a = "rnd (phase ps + 1 / 2)"
  let ?b = "if ?a \<ge> 1 then rnd (?a - 1) else ?a"
  have a: "0 \<le> ?a \<and> ?a \<le> 2"
    using rnd_between [of rnd 0 "phase ps + 1 / 2" 2] assms(1) inv by simp
  have b: "0 \<le> ?b \<and> ?b \<le> 1"
    using a rnd_unit [of rnd "?a - 1"] assms(1) by auto
  have m: "rnd (of_nat (max_delay_samples ps)) = 400"
    using rnd_nat [of rnd 400] assms(1) inv by simp
  have d: "0 \<le> rnd (p * 400) \<and> rnd (p * 400) \<le> 400" if "0 \<le> p" "p \<le> 1" for p
    using rnd_between [of rnd 0 "p * 400" 400] assms(1) that by simp
  show ?thesis
    using b d [of ?b] d [of "phase ps"] inv crossfade_weight_unit [OF assms(1), of ?b]
      crossfade_weight_unit [OF assms(1), of "phase ps"]
    unfolding calculate_crossfade_parameters_def Let_def m params_ok_def prod.case by blast
qed

lemma scaled_between:
  assumes "rnd_ok rnd" and "-32768 \<le> v" and "v \<le> 32767" and "0 \<le> w" and "w \<le> 1"
  shows "-32768 \<le> rnd (v * w) \<and> rnd (v * w) \<le> 32767"
proof -
  have "-32768 * 1 \<le> v * w"
    using assms by (cases "0 \<le> v") (auto intro: order_trans [OF _ mult_nonneg_nonneg] order_trans [OF _ mult_left_mono_neg [of w 1 v]] )
  moreover have "v * w \<le> 32767"
    using assms by (cases "0 \<le> v") (auto intro: order_trans [OF mult_left_mono [of w 1 v]] order_trans [OF mult_nonpos_nonneg])
  ultimately show ?thesis
    using rnd_between [of rnd "-32768" "v * w" 32767] assms(1) by simp
qed

lemma process_channel_total:
  assumes "rnd_ok rnd" and "shifter_inv ps" and "params_ok params" and "length frame = 1"
  shows "\<exists>ps' frame'. process_channel rnd params 0 (ps, frame) = Some (ps', frame')
    \<and> shifter_inv ps' \<and> length frame' = 1 \<and> phase ps' = phase ps"
proof -
  obtain d1 w1 d2 w2 where params: "params = (d1, w1, d2, w2)" by (cases params) auto
  let ?v = "rnd (of_int (sint (frame ! 0)))"
  let ?ps = "ps\<lparr>delay_buffer := (delay_buffer ps)[write_ptr ps := ?v]\<rparr>"
  have "?v = of_int (sint (frame ! 0))"
    using rnd_int [of rnd "sint (frame ! 0)"] assms(1) sint_i16_range [of "frame ! 0"] by simp
  then have v: "pcm_float ?v"
    using sint_i16_range [of "frame ! 0"] unfolding pcm_float_def by (intro exI [of _ "sint (frame ! 0)"]) simp
  have inv: "shifter_inv ?ps"
    using assms(2) v by (simp add: shifter_inv_def list_all_length nth_list_update)
  obtain o1 where o1: "read_interpolated rnd ?ps d1 0 = Some o1" "-32768 \<le> o1" "o1 \<le> 32767"
    using read_interpolated_total [OF assms(1) inv, of d1] assms(3) by (auto simp: params_ok_def params)
  obtain o2 where o2: "read_interpolated rnd ?ps d2 0 = Some o2" "-32768 \<le> o2" "o2 \<le> 32767"
    using read_interpolated_total [OF assms(1) inv, of d2] assms(3) by (auto simp: params_ok_def params)
  let ?m = "rnd (rnd (o1 * w1) + rnd (o2 * w2))"
  have "of_int (-65536) \<le> ?m \<and> ?m \<le> of_int 65534"
    using scaled_between [OF assms(1) o1(2,3), of w1] scaled_between [OF assms(1) o2(2,3), of w2]
      rnd_between [of rnd "-65536" "rnd (o1 * w1) + rnd (o2 * w2)" 65534] assms(1,3)
    by (simp add: params_ok_def params)
  then have c: "cast_i32 ?m = Some (truncate_rat ?m)"
    by (intro cast_i32_Some [of "-65536" _ 65534]) simp_all
  show ?thesis
    using inv o1(1) o2(1) c assms(2,4)
    by (simp add: process_channel_def params shifter_inv_def)
qed

lemma advance_pointers_total:
  assumes "rnd_ok rnd" and "shifter_inv ps" and "0 \<le> inc" and "inc \<le> 1"
  shows "\<exists>ps'. advance_pointers rnd rate inc ps = Some ps' \<and> shifter_inv ps'"
proof -
  note inv = assms(2) [unfolded shifter_inv_def]
  have "- of_int 1 \<le> rnd (phase ps - inc) \<and> rnd (phase ps - inc) \<le> of_int 1"
    using rnd_between [of rnd "-1" "phase ps - inc" 1] assms inv by simp
  then obtain y where y: "raise_loop rnd 1 (rnd (phase ps - inc)) = Some y" "0 \<le> y" "y \<le> 1"
    using raise_loop_wrap [of rnd 1 "rnd (phase ps - inc)"] assms(1) by auto
  have "0 \<le> rnd (phase ps + inc) \<and> rnd (phase ps + inc) \<le> 2 * of_int 1"
    using rnd_between [of rnd 0 "phase ps + inc" 2] assms inv by simp
  then obtain z where z: "lower_loop rnd 1 (rnd (phase ps + inc)) = Some z" "0 \<le> z" "z < 1"
    using lower_loop_wrap [of rnd "rnd (phase ps + inc)" 1] assms(1) by auto
  show ?thesis
    using inv y z by (cases "rate < 0") (simp_all add: advance_pointers_def shifter_inv_def Let_def)
qed

lemma process_frames_total:
  assumes "rnd_ok rnd" and "0 \<le> inc" and "inc \<le> 1"
  shows "shifter_inv ps \<Longrightarrow> n \<le> length buffer \<Longrightarrow>
    \<exists>ps' out. process_frames rnd rate inc n ps buffer = Some (ps', out) \<and> shifter_inv ps' \<and> length out = length buffer"
proof (induction n arbitrary: ps buffer)
  case 0
  then show ?case by simp
next
  case (Suc n)
  have ch: "channels ps = 1" using Suc.prems(1) by (simp add: shifter_inv_def)
  have "length (take 1 buffer) = 1" using Suc.prems(2) by simp
  then obtain ps1 fr where 1: "process_channel rnd (calculate_crossfade_parameters rnd ps) 0 (ps, take 1 buffer) = Some (ps1, fr)"
    "shifter_inv ps1" "length fr = 1"
    using process_channel_total [OF assms(1) Suc.prems(1) params_ok_crossfade [OF assms(1) Suc.prems(1)]] by blast
  have ch1: "channels ps1 = 1" using 1(2) by (simp add: shifter_inv_def)
  obtain ps2 where 2: "advance_pointers rnd rate inc ps1 = Some ps2" "shifter_inv ps2"
    using advance_pointers_total [OF assms(1) 1(2) assms(2,3)] by blast
  have le: "n \<le> length (drop 1 buffer)" using Suc.prems(2) by simp
  obtain ps3 out where 3: "process_frames rnd rate inc n ps2 (drop 1 buffer) = Some (ps3, out)" "shifter_inv ps3"
    "length out = length (drop 1 buffer)"
    using Suc.IH [OF 2(2) le] by blast
  show ?case
    using 1 2 3 ch ch1 Suc.prems(2) by (simp add: process_frame_channels_def)
qed

lemma raise_loop_stuck:
  assumes "x < 0" and "rnd (x + d) = x"
  shows "raise_loop rnd d x = None"
proof -
  have "raise_loop rnd d x \<noteq> Some y" for y
  proof
    assume y: "raise_loop rnd d x = Some y"
    have main: "r = rnd \<longrightarrow> e = d \<longrightarrow> z \<noteq> x"
      if ih: "\<And>r e z y. loop r e z = Some (y :: rat) \<Longrightarrow> r = rnd \<longrightarrow> e = d \<longrightarrow> z \<noteq> x"
        and step: "(if z < 0 then loop r e (r (z + e)) else Some z) = Some y" for loop r e z y
    proof (intro impI notI)
      assume eqs: "r = rnd" "e = d" "z = x"
      have "loop rnd d x = Some y" using step assms unfolding eqs by simp
      then show False using ih [of rnd d x y] by simp
    qed
    have "rnd = rnd \<longrightarrow> d = d \<longrightarrow> x \<noteq> x"
      by (rule raise_loop.raw_induct
          [of "\<lambda>r e z y. r = rnd \<longrightarrow> e = d \<longrightarrow> z \<noteq> x" "((rnd, d), x)" y, unfolded prod.case, OF main y])
    then show False by simp
  qed
  then show ?thesis by (cases "raise_loop rnd d x") auto
qed

lemma process_pitch_total:
  assumes "rnd_ok rnd" and "shifter_inv ps"
    and "0 \<le> powf (rnd (semitones / 12))" and "powf (rnd (semitones / 12)) \<le> 401"
  shows "\<exists>ps' out. process_pitch rnd powf ps buffer semitones = Some (ps', out)
    \<and> shifter_inv ps' \<and> length out = length buffer"
proof (cases "semitones = 0")
  case True
  then show ?thesis using assms(2) by (simp add: process_pitch_def)
next
  case False
  note inv = assms(2) [unfolded shifter_inv_def]
  let ?rate = "rnd (1 - powf (rnd (semitones / 12)))"
  have m: "rnd (of_nat (max_delay_samples ps)) = 400"
    using rnd_nat [of rnd 400] assms(1) inv by simp
  have "-400 \<le> ?rate \<and> ?rate \<le> 1"
    using rnd_between [of rnd "-400" "1 - powf (rnd (semitones / 12))" 1] assms by simp
  then have "\<bar>?rate\<bar> \<le> 400" by linarith
  then have "0 \<le> rnd (\<bar>?rate\<bar> / 400) \<and> rnd (\<bar>?rate\<bar> / 400) \<le> 1"
    using rnd_unit [of rnd "\<bar>?rate\<bar> / 400"] assms(1) by simp
  then show ?thesis
    using process_frames_total [OF assms(1) _ _ assms(2), of "rnd (\<bar>?rate\<bar> / 400)" "length buffer" buffer ?rate]
      inv m False by (simp add: process_pitch_def Let_def)
qed

section \<open>Properties\<close>

text \<open>C34: With a pitch ratio of at most 401 (a shift of up to 103 semitones up, any shift down) every
  run over a buffer returns, accesses the delay line in range, casts in range, keeps the length
  of the buffer and leaves the shifter in its invariant, for every correctly rounding float
  arithmetic.\<close>

theorem pitch_shift_total:
  assumes "rnd_ok rnd" and "shifter_inv ps"
    and "0 \<le> powf (rnd (semitones / 12))" and "powf (rnd (semitones / 12)) \<le> 401"
  shows "\<exists>ps' out. process_pitch rnd powf ps buffer semitones = Some (ps', out)
    \<and> shifter_inv ps' \<and> length out = length buffer"
  using assms by (rule process_pitch_total)

lemma pitch_shift_total_witness:
  "\<exists>ps' out. process_pitch (\<lambda>x. x) (\<lambda>x. 2) default_pitch_shifter [5, -7] 12 = Some (ps', out) \<and> length out = 2"
  using pitch_shift_total [of "\<lambda>x. x" default_pitch_shifter "\<lambda>x. 2" 12 "[5, -7]"] rnd_ok_id shifter_inv_new
  by auto

text \<open>When the pitch ratio is so large that the phase lands where adding one is lost in rounding,
  the wrap-around loop, and with it the processing of the frame, never ends.\<close>

theorem pitch_shift_stuck:
  assumes "rnd_ok rnd" and "shifter_inv ps" and "semitones \<noteq> 0" and "buffer \<noteq> []"
    and "rate = rnd (1 - powf (rnd (semitones / 12)))" and "rate < 0"
    and "x = rnd (phase ps - rnd (\<bar>rate\<bar> / 400))" and "x < 0" and "rnd (x + 1) = x"
  shows "process_pitch rnd powf ps buffer semitones = None"
proof -
  note inv = assms(2) [unfolded shifter_inv_def]
  have m: "rnd (of_nat (max_delay_samples ps)) = 400"
    using rnd_nat [of rnd 400] assms(1) inv by simp
  obtain n where n: "length buffer = Suc n" using assms(4) by (cases buffer) auto
  have "length (take 1 buffer) = 1" using n by simp
  then obtain ps1 fr where 1: "process_channel rnd (calculate_crossfade_parameters rnd ps) 0 (ps, take 1 buffer) = Some (ps1, fr)"
    "phase ps1 = phase ps"
    using process_channel_total [OF assms(1,2) params_ok_crossfade [OF assms(1,2)]] by blast
  have "advance_pointers rnd rate (rnd (\<bar>rate\<bar> / 400)) ps1 = None"
    using raise_loop_stuck [of x rnd 1] assms(6-9) 1(2) by (simp add: advance_pointers_def Let_def)
  then have "process_frames rnd rate (rnd (\<bar>rate\<bar> / 400)) (Suc n) ps buffer = None"
    using 1 inv by (simp add: process_frame_channels_def)
  then show ?thesis
    using inv m n assms(3,5) by (simp add: process_pitch_def Let_def)
qed

lemma stuck_floor: "\<lfloor>- (33554431 / 2) :: rat\<rfloor> = - 16777216"
  by (rule floor_unique) simp_all

lemma pitch_shift_stuck_witness:
  "process_pitch (\<lambda>x. if x < -16777216 then 2 * of_int \<lfloor>x / 2\<rfloor> else x) (\<lambda>_. 13421772801) default_pitch_shifter [5] 407 = None"
proof (rule pitch_shift_stuck [where rate = "-13421772800" and x = "-33554432"])
  let ?r = "\<lambda>x. if x < -16777216 then 2 * of_int \<lfloor>x / 2\<rfloor> else x :: rat"
  show "rnd_ok ?r"
  proof -
    have "?r x \<le> ?r y" if "x \<le> y" for x y
    proof -
      have "x / 2 \<le> y / 2" using that by simp
      then have "of_int \<lfloor>x / 2\<rfloor> \<le> (of_int \<lfloor>y / 2\<rfloor> :: rat)" using floor_mono of_int_le_iff by blast
      moreover have "2 * of_int \<lfloor>x / 2\<rfloor> \<le> x" by linarith
      ultimately show ?thesis using that by auto
    qed
    moreover have "?r (of_int (n * 2 ^ k)) = of_int (n * 2 ^ k)" if "\<bar>n\<bar> \<le> 16777216" for n :: int and k :: nat
    proof (cases k)
      case 0
      then have "\<not> (of_int (n * 2 ^ k) :: rat) < -16777216" using that by simp
      then show ?thesis by simp
    next
      case (Suc j)
      have "(of_int (n * 2 ^ k) :: rat) / 2 = of_int (n * 2 ^ j)" by (simp add: Suc)
      then have "\<lfloor>(of_int (n * 2 ^ k) :: rat) / 2\<rfloor> = n * 2 ^ j" by (metis floor_of_int)
      then show ?thesis by (simp add: Suc)
    qed
    moreover have "?r (of_int n / 2 ^ k) = of_int n / 2 ^ k" if "\<bar>n\<bar> \<le> 16777216" for n :: int and k :: nat
    proof -
      have "-16777216 * 2 ^ k \<le> (-16777216 :: rat)" using one_le_power [of "2 :: rat" k] by simp
      also have "\<dots> \<le> of_int n" using that by linarith
      finally have "-16777216 \<le> of_int n / (2 ^ k :: rat)" by (simp add: le_divide_eq)
      then show ?thesis by simp
    qed
    ultimately show ?thesis unfolding rnd_ok_def mono_def by blast
  qed
  show "shifter_inv default_pitch_shifter" by (rule shifter_inv_new)
qed (simp_all add: default_pitch_shifter_def new_pitch_shifter_def stuck_floor)

end
