(* ===== verification/Nodes.thy ===== *)
theory Nodes
  imports Buffer_Controller Wav Audio_Math Pitch_Shifter
begin

text \<open>
  The counters of a node are \<open>int\<close>s: they are integers here, and \<open>next_count\<close> is their \<open>++\<close>, which has no
  result where the C++ one overflows.

  The audio graph: \<open>core/graph/Node\<close>, \<open>core/graph/nodes/BasicNodes.hpp\<close>, \<open>MixerNode\<close> and
  \<open>FileInputNode\<close>. The nodes of a graph live in a heap, a list indexed by \<open>Node*\<close>; \<open>None\<close> is
  \<open>nullptr\<close>. A virtual call is a case split on the node's body. What the operating system answers
  to the file operations of a node is its \<open>file_io\<close>, a parameter.
\<close>

section \<open>Nodes\<close>

datatype node_kind = KFileInput | KMixer | KDelay | KClients | KFileOptions

record client_config =
  cc_ip :: string
  cc_port :: u16
  cc_packet_loss_ratio :: rat

record file_handle =
  fh_open :: bool
  fh_pos :: nat

record file_input =
  fi_file_name :: string
  fi_file_path :: string
  fi_handle :: file_handle
  fi_options :: "nat option"
  fi_pitch_shifter :: pitch_shifter
  fi_controller :: controller
  fi_spawned_inits :: nat

datatype node_body =
    FileInput file_input
  | Mixer "nat list"
  | Delay rat
  | Clients "client_config list"
  | FileOptions (gain: rat) (pitch_shift: rat)

record node =
  n_id :: string
  n_target :: "nat option"
  n_processed_frames :: int
  n_total_frames :: int
  n_in_buffer_processed_frames :: int
  n_in_loop :: bool
  n_body :: node_body

type_synonym heap = "node list"

definition new_node :: "node_body \<Rightarrow> node" where
  "new_node b = \<lparr>n_id = '''', n_target = None, n_processed_frames = 0, n_total_frames = 0,
     n_in_buffer_processed_frames = 0, n_in_loop = False, n_body = b\<rparr>"

fun kind :: "node \<Rightarrow> node_kind" where
  "kind nd = (case n_body nd of FileInput f \<Rightarrow> KFileInput | Mixer is \<Rightarrow> KMixer | Delay d \<Rightarrow> KDelay
     | Clients cs \<Rightarrow> KClients | FileOptions g p \<Rightarrow> KFileOptions)"

definition new_file_input :: "string \<Rightarrow> string \<Rightarrow> node" where
  "new_file_input name path = new_node (FileInput
     \<lparr>fi_file_name = name, fi_file_path = path, fi_handle = \<lparr>fh_open = False, fh_pos = 0\<rparr>,
      fi_options = None, fi_pitch_shifter = default_pitch_shifter,
      fi_controller = new_controller, fi_spawned_inits = 0\<rparr>)"

definition new_mixer :: node where "new_mixer = new_node (Mixer [])"

definition new_clients :: node where "new_clients = new_node (Clients [])"

definition new_file_options :: node where "new_file_options = new_node (FileOptions 1 1)"

text \<open>\<open>DelayNode(size_t ms_delay)\<close>. \<open>None\<close> is the undefined \<open>static_cast<int>\<close> of \<open>2 ^ 31\<close> frames or more.\<close>

definition new_delay :: "(rat \<Rightarrow> rat) \<Rightarrow> nat \<Rightarrow> node option" where
  "new_delay rnd ms_delay =
     do {
       let delay_ms = rnd (of_nat ms_delay);
       frames \<leftarrow> cast_i32 (rnd (delay_ms / rnd (of_nat FRAME_DURATION)));
       Some ((new_node (Delay delay_ms))\<lparr>n_total_frames := frames\<rparr>)
     }"

definition clients_add_client :: "string \<Rightarrow> u16 \<Rightarrow> rat \<Rightarrow> client_config list \<Rightarrow> client_config list" where
  "clients_add_client ip port loss clients =
     clients @ [\<lparr>cc_ip = ip, cc_port = port, cc_packet_loss_ratio = loss\<rparr>]"

definition is_complete :: "node \<Rightarrow> bool" where
  "is_complete nd \<longleftrightarrow> n_total_frames nd > 0 \<and> n_processed_frames nd \<ge> n_total_frames nd"

definition set_next :: "nat option \<Rightarrow> node \<Rightarrow> node" where
  "set_next target nd = nd\<lparr>n_target := target\<rparr>"

definition reset_state :: "node \<Rightarrow> node" where
  "reset_state nd = nd\<lparr>n_processed_frames := 0, n_in_buffer_processed_frames := 0\<rparr>"

definition fail_node :: "node_error_code \<Rightarrow> string \<Rightarrow> node \<Rightarrow> (node_error, 'a) expected" where
  "fail_node code msg nd = Inl \<lparr>ne_code = code, ne_message = msg, ne_node_id = n_id nd\<rparr>"

text \<open>\<open>++\<close> on an \<open>int\<close>: \<open>None\<close> is the undefined overflow.\<close>

definition next_count :: "int \<Rightarrow> int option" where
  "next_count n = (if n < 2 ^ 31 - 1 then Some (n + 1) else None)"

text \<open>The two counters that delays and mixers count a frame in.\<close>

definition count_frame :: "node \<Rightarrow> node option" where
  "count_frame nd =
     do {
       in_buffer \<leftarrow> next_count (n_in_buffer_processed_frames nd);
       processed \<leftarrow> next_count (n_processed_frames nd);
       Some (nd\<lparr>n_in_buffer_processed_frames := in_buffer, n_processed_frames := processed\<rparr>)
     }"

definition upd :: "nat \<Rightarrow> (node \<Rightarrow> node) \<Rightarrow> heap \<Rightarrow> heap" where
  "upd p f h = h[p := f (h ! p)]"

section \<open>Wiring\<close>

definition wire_standard :: "nat \<Rightarrow> nat \<Rightarrow> heap \<Rightarrow> heap" where
  "wire_standard self source h = upd source (set_next (Some self)) h"

definition set_options :: "nat \<Rightarrow> node \<Rightarrow> node" where
  "set_options options_node nd =
     (case n_body nd of FileInput f \<Rightarrow> nd\<lparr>n_body := FileInput (f\<lparr>fi_options := Some options_node\<rparr>)\<rparr> | _ \<Rightarrow> nd)"

text \<open>\<open>connect_input\<close> of each class; \<open>self\<close> is the node that the edge enters.\<close>

definition file_connect_input :: "nat \<Rightarrow> nat \<Rightarrow> heap \<Rightarrow> (node_error, unit) expected \<times> heap" where
  "file_connect_input self source h =
    (let nd = h ! self; k = kind (h ! source) in
     if k = KMixer then (fail_node FormatError ''FileInput cannot receive input from Mixer.'' nd, h)
     else if k = KFileOptions then (Inr (), upd self (set_options source) h)
     else if k = KDelay then (Inr (), wire_standard self source h)
     else (fail_node FormatError ''FileInput only accepts Delay or FileOptions.'' nd, h))"

definition mixer_connect_input :: "nat list \<Rightarrow> nat \<Rightarrow> nat \<Rightarrow> heap \<Rightarrow> (node_error, unit) expected \<times> heap" where
  "mixer_connect_input inputs self source h =
    (let nd = h ! self; k = kind (h ! source) in
     if k = KMixer then (fail_node FormatError ''Mixer cannot connect to another Mixer.'' nd, h)
     else if k = KClients then (fail_node FormatError ''Mixer cannot accept ClientsNode as input.'' nd, h)
     else if \<not> (k = KDelay \<or> k = KFileInput)
     then (fail_node FormatError ''Mixer only accepts Delay or FileInput nodes.'' nd, h)
     else let h = (if k = KFileInput then upd self (\<lambda>nd. nd\<lparr>n_body := Mixer (inputs @ [source])\<rparr>) h else h)
          in (Inr (), wire_standard self source h))"

definition delay_connect_input :: "nat \<Rightarrow> nat \<Rightarrow> heap \<Rightarrow> (node_error, unit) expected \<times> heap" where
  "delay_connect_input self source h =
    (if kind (h ! source) = KClients
     then (fail_node FormatError ''DelayNode cannot accept ClientsNode.'' (h ! self), h)
     else (Inr (), wire_standard self source h))"

definition clients_connect_input :: "nat \<Rightarrow> nat \<Rightarrow> heap \<Rightarrow> (node_error, unit) expected \<times> heap" where
  "clients_connect_input self source h = (Inr (), h)"

definition base_connect_input :: "nat \<Rightarrow> nat \<Rightarrow> heap \<Rightarrow> (node_error, unit) expected \<times> heap" where
  "base_connect_input self source h =
    (fail_node FormatError (''Node type '' @ n_id (h ! self) @ '' does not accept inputs.'') (h ! self), h)"

text \<open>The virtual call.\<close>

definition connect_input :: "nat \<Rightarrow> nat \<Rightarrow> heap \<Rightarrow> (node_error, unit) expected \<times> heap" where
  "connect_input self source h =
    (case n_body (h ! self) of
       FileInput f \<Rightarrow> file_connect_input self source h
     | Mixer inputs \<Rightarrow> mixer_connect_input inputs self source h
     | Delay d \<Rightarrow> delay_connect_input self source h
     | Clients cs \<Rightarrow> clients_connect_input self source h
     | FileOptions g p \<Rightarrow> base_connect_input self source h)"

lemmas connect_input_defs = connect_input_def file_connect_input_def mixer_connect_input_def
  delay_connect_input_def clients_connect_input_def base_connect_input_def

section \<open>Loops and totals\<close>

text \<open>\<open>set_in_loop\<close>: a mixer passes the flag on to its inputs.\<close>

fun set_in_loop_fuel :: "nat \<Rightarrow> bool \<Rightarrow> nat \<Rightarrow> heap \<Rightarrow> heap" where
  "set_in_loop_fuel fuel val p h =
    (let h = upd p (\<lambda>nd. nd\<lparr>n_in_loop := val\<rparr>) h
     in case n_body (h ! p) of
          Mixer inputs \<Rightarrow> (case fuel of 0 \<Rightarrow> h | Suc k \<Rightarrow> fold (set_in_loop_fuel k val) inputs h)
        | _ \<Rightarrow> h)"

text \<open>The inputs of a mixer are file inputs, so one level is the whole recursion.\<close>

definition set_in_loop :: "bool \<Rightarrow> nat \<Rightarrow> heap \<Rightarrow> heap" where
  "set_in_loop val p h = set_in_loop_fuel 1 val p h"

definition set_max_frames :: "nat \<Rightarrow> heap \<Rightarrow> heap" where
  "set_max_frames p h =
     (case n_body (h ! p) of
        Mixer inputs \<Rightarrow> upd p (\<lambda>nd. nd\<lparr>n_total_frames := fold (\<lambda>s m. max m (n_total_frames (h ! s))) inputs 0\<rparr>) h
      | _ \<Rightarrow> h)"

section \<open>File access\<close>

text \<open>
  The answers of the operating system for the file of one node: the error of the \<open>k\<close>-th attempt
  to open it, its bytes, what the read of the header gives (\<open>None\<close> is an error), whether the
  seek past the header and the seek back fail, whether asking the size fails, the error of closing
  it, and for the \<open>k\<close>-th attempt of a block read the number of bytes it moved before it failed
  (\<open>None\<close>: it read to the end of the span or of the file).
\<close>

record file_io =
  io_open_ec :: "nat \<Rightarrow> string option"
  io_content :: bytes
  io_header :: "nat option"
  io_seek_fails :: bool
  io_rewind_fails :: bool
  io_size_fails :: bool
  io_close_ec :: "string option"
  io_read_fails :: "nat \<Rightarrow> nat option"

definition MAX_RETRIES :: nat where "MAX_RETRIES = 3"

definition HEADER_BUF_SIZE :: nat where "HEADER_BUF_SIZE = 256"

definition header_bytes :: "file_io \<Rightarrow> nat" where
  "header_bytes io =
     (case io_header io of None \<Rightarrow> 0 | Some n \<Rightarrow> min n (min HEADER_BUF_SIZE (length (io_content io))))"

definition open_success :: "file_io \<Rightarrow> node \<Rightarrow> file_input \<Rightarrow> node" where
  "open_success io nd f =
     (let bytes_read = header_bytes io;
          offset = (if bytes_read > 0 then get_audio_data_offset (take bytes_read (io_content io)) else 0);
          (offset, pos) = (if \<not> io_seek_fails io then (offset, offset)
                           else (0, if io_rewind_fails io then bytes_read else 0));
          file_size = (if io_size_fails io then 0 else length (io_content io));
          frames = (if file_size > offset then file_size - offset else 0) div FRAME_SIZE_BYTES
      in nd\<lparr>n_total_frames := sint (of_nat frames :: i32),
            n_body := FileInput (f\<lparr>fi_handle := \<lparr>fh_open = True, fh_pos = pos\<rparr>\<rparr>)\<rparr>)"

text \<open>The loop of \<open>open\<close> with the attempts that are left.\<close>

fun open_loop :: "file_io \<Rightarrow> nat \<Rightarrow> nat \<Rightarrow> node \<Rightarrow> file_input \<Rightarrow> (node_error, unit) expected \<times> node" where
  "open_loop io attempt 0 nd f =
     (fail_node FileIOError (''Failed to open file '' @ fi_file_name f @ '' ('' @ fi_file_path f @ '') after 3 attempts.'') nd,
      nd\<lparr>n_total_frames := 0\<rparr>)"
| "open_loop io attempt (Suc left) nd f =
     (case io_open_ec io attempt of
        None \<Rightarrow> (Inr (), open_success io nd f)
      | Some ec \<Rightarrow> open_loop io (attempt + 1) left nd f)"

definition open_file :: "(string \<Rightarrow> file_io) \<Rightarrow> node \<Rightarrow> (node_error, unit) expected \<times> node" where
  "open_file env nd =
     (case n_body nd of FileInput f \<Rightarrow> open_loop (env (fi_file_path f)) 0 MAX_RETRIES nd f
      | _ \<Rightarrow> (Inr (), nd))"

text \<open>The read loop of \<open>fetch_bytes\<close>: the bytes that the last attempt put at the start of the span
  and the position of the file. What a failed attempt stored is overwritten or zeroed later.\<close>

fun read_loop :: "file_io \<Rightarrow> nat \<Rightarrow> nat \<Rightarrow> nat \<Rightarrow> nat \<Rightarrow> bytes \<times> nat" where
  "read_loop io want attempt 0 pos = ([], pos)"
| "read_loop io want attempt (Suc left) pos =
     (let data = take want (drop pos (io_content io)) in
      case io_read_fails io attempt of
        None \<Rightarrow> (data, pos + length data)
      | Some n \<Rightarrow> read_loop io want (attempt + 1) left (pos + min n (length data)))"

definition fetch_bytes :: "(string \<Rightarrow> file_io) \<Rightarrow> node \<Rightarrow> nat \<Rightarrow> bytes \<times> node" where
  "fetch_bytes env nd want =
    (case n_body nd of
       FileInput f \<Rightarrow>
         let (result, nd) = (if fh_open (fi_handle f) then (Inr (), nd) else open_file env nd) in
         (case result of
            Inl e \<Rightarrow> ([], nd)
          | Inr u \<Rightarrow>
              (case n_body nd of
                 FileInput f \<Rightarrow>
                   let (data, pos) = read_loop (env (fi_file_path f)) want 0 MAX_RETRIES (fh_pos (fi_handle f))
                   in (data, nd\<lparr>n_body := FileInput (f\<lparr>fi_handle := (fi_handle f)\<lparr>fh_pos := pos\<rparr>\<rparr>)\<rparr>)
               | _ \<Rightarrow> ([], nd)))
     | _ \<Rightarrow> ([], nd))"

text \<open>\<open>FileInputNode::close\<close>. In a loop it spawns a refill of the buffers.\<close>

definition close_file_input :: "(string \<Rightarrow> file_io) \<Rightarrow> node \<Rightarrow> file_input \<Rightarrow> (node_error, unit) expected \<times> node" where
  "close_file_input env nd f =
    (let f' = f\<lparr>fi_handle := \<lparr>fh_open = False, fh_pos = 0\<rparr>\<rparr> in
     case (if fh_open (fi_handle f) then io_close_ec (env (fi_file_path f)) else None) of
       Some ec \<Rightarrow>
         (fail_node FileIOError (''Failed to close file '' @ fi_file_name f @ '' '' @ fi_file_path f @ '': '' @ ec) nd,
          nd\<lparr>n_body := FileInput f'\<rparr>)
     | None \<Rightarrow>
         (Inr (),
          nd\<lparr>n_processed_frames := 0,
             n_body := FileInput (f'\<lparr>fi_pitch_shifter := reset_pitch_shifter (fi_pitch_shifter f),
               fi_controller := reset_controller (fi_controller f),
               fi_spawned_inits := fi_spawned_inits f + (if n_in_loop nd then 1 else 0)\<rparr>)\<rparr>))"

definition delay_close :: "nat \<Rightarrow> heap \<Rightarrow> (node_error, unit) expected \<times> heap" where
  "delay_close p h = (Inr (), upd p (\<lambda>nd. nd\<lparr>n_processed_frames := 0, n_in_buffer_processed_frames := 0\<rparr>) h)"

lemma delay_close_reset [simp]: "delay_close p h = (Inr (), upd p reset_state h)"
  by (simp add: delay_close_def upd_def reset_state_def)

fun close_fuel :: "(string \<Rightarrow> file_io) \<Rightarrow> nat \<Rightarrow> nat \<Rightarrow> heap \<Rightarrow> (node_error, unit) expected \<times> heap" where
  "close_fuel env fuel p h =
    (let nd = h ! p in
     case n_body nd of
       FileInput f \<Rightarrow> (let (r, nd) = close_file_input env nd f in (r, h[p := nd]))
     | Delay d \<Rightarrow> delay_close p h
     | Mixer inputs \<Rightarrow>
         (case fuel of
            0 \<Rightarrow> (Inr (), h)
          | Suc k \<Rightarrow>
              let (r, h) = fold (\<lambda>s (r, h). if has_value r then close_fuel env k s h else (r, h)) inputs (Inr (), h)
              in if has_value r then (Inr (), upd p reset_state h) else (r, h))
     | _ \<Rightarrow> (Inr (), h))"

definition close :: "(string \<Rightarrow> file_io) \<Rightarrow> nat \<Rightarrow> heap \<Rightarrow> (node_error, unit) expected \<times> heap" where
  "close env p h = close_fuel env 1 p h"

section \<open>Processing a frame\<close>

record float_env =
  e_rnd :: "rat \<Rightarrow> rat"
  e_powf :: "rat \<Rightarrow> rat"
  e_tanhf :: "rat \<Rightarrow> rat"

definition store_samples :: "i16 list \<Rightarrow> bytes \<Rightarrow> bytes" where
  "store_samples samples frame_buffer = put 0 (concat (map le16 samples)) frame_buffer"

definition apply_effects :: "float_env \<Rightarrow> heap \<Rightarrow> file_input \<Rightarrow> bytes \<Rightarrow> (file_input \<times> bytes) option" where
  "apply_effects e h f frame_buffer =
    (case fi_options f of
       None \<Rightarrow> Some (f, frame_buffer)
     | Some p \<Rightarrow>
         (case n_body (h ! p) of
            FileOptions g shift \<Rightarrow>
              do {
                let samples = as_samples frame_buffer;
                samples \<leftarrow> (if g \<noteq> 1 then apply_gain (e_rnd e) (e_rnd e g) samples else Some samples);
                (ps, samples) \<leftarrow> (if shift \<noteq> 0
                   then process_pitch (e_rnd e) (e_powf e) (fi_pitch_shifter f) samples (e_rnd e shift)
                   else Some (fi_pitch_shifter f, samples));
                Some (f\<lparr>fi_pitch_shifter := ps\<rparr>, store_samples samples frame_buffer)
              }
          | _ \<Rightarrow> Some (f, frame_buffer)))"

definition file_process_frame ::
  "float_env \<Rightarrow> nat \<Rightarrow> file_input \<Rightarrow> heap \<Rightarrow> bytes \<Rightarrow> ((node_error, unit) expected \<times> bytes \<times> heap) option" where
  "file_process_frame e p f h buffer =
    (let nd = h ! p in
     if n_processed_frames nd \<ge> n_total_frames nd \<and> n_total_frames nd > 0
     then Some (fail_node EndOfStream (''End of stream for '' @ n_id nd) nd, replicate (length buffer) 0, h)
     else
       let (result, buffer, c) = get_frame buffer 0 (fi_controller f);
           f = f\<lparr>fi_controller := c\<rparr>
       in case result of
            Inl err \<Rightarrow> Some (Inl err, buffer, h[p := nd\<lparr>n_body := FileInput f\<rparr>])
          | Inr u \<Rightarrow>
              do {
                (f, buffer) \<leftarrow> apply_effects e h f buffer;
                processed \<leftarrow> next_count (n_processed_frames nd);
                Some (Inr (), buffer, h[p := nd\<lparr>n_body := FileInput f, n_processed_frames := processed\<rparr>])
              })"

text \<open>The loop of the mixer over its inputs, with the accumulator and \<open>has_active_inputs\<close>.\<close>

fun mix_inputs ::
  "(nat \<Rightarrow> heap \<Rightarrow> bytes \<Rightarrow> ((node_error, unit) expected \<times> bytes \<times> heap) option) \<Rightarrow> nat list
     \<Rightarrow> i32 list \<Rightarrow> bool \<Rightarrow> heap \<Rightarrow> bytes \<Rightarrow> ((node_error, i32 list \<times> bool) expected \<times> heap) option" where
  "mix_inputs process [] acc active h temp = Some (Inr (acc, active), h)"
| "mix_inputs process (s # ss) acc active h temp =
     do {
       (result, temp, h) \<leftarrow> process s h temp;
       (case result of
          Inl err \<Rightarrow> if ne_code err = Critical then Some (Inl err, h)
                     else mix_inputs process ss acc active h temp
        | Inr u \<Rightarrow> mix_inputs process ss (sum_buffers acc (as_samples temp)) True h temp)
     }"

text \<open>\<open>process_frame\<close>; \<open>None\<close> is undefined behaviour, a run that does not return or, with the fuel
  at its end, mixers nested in mixers.\<close>

definition delay_process_frame :: "nat \<Rightarrow> heap \<Rightarrow> bytes \<Rightarrow> ((node_error, unit) expected \<times> bytes \<times> heap) option" where
  "delay_process_frame p h buffer =
     do { nd \<leftarrow> count_frame (h ! p); Some (Inr (), replicate (length buffer) 0, h[p := nd]) }"

fun process_frame_fuel ::
  "float_env \<Rightarrow> nat \<Rightarrow> nat \<Rightarrow> heap \<Rightarrow> bytes \<Rightarrow> ((node_error, unit) expected \<times> bytes \<times> heap) option" where
  "process_frame_fuel e fuel p h buffer =
    (let nd = h ! p in
     case n_body nd of
       FileInput f \<Rightarrow> file_process_frame e p f h buffer
     | Delay d \<Rightarrow> delay_process_frame p h buffer
     | Mixer inputs \<Rightarrow>
         (case fuel of
            0 \<Rightarrow> None
          | Suc k \<Rightarrow>
              do {
                (result, h) \<leftarrow> mix_inputs (process_frame_fuel e k) inputs
                    (replicate SAMPLES_PER_FRAME 0) False h (replicate FRAME_SIZE_BYTES 0);
                (case result of
                   Inl err \<Rightarrow> Some (Inl err, buffer, h)
                 | Inr (acc, active) \<Rightarrow>
                     if \<not> active
                     then Some (fail_node EndOfStream ''Mixer stream ended (no active inputs)'' nd,
                                replicate (length buffer) 0, h)
                     else
                       do {
                         buffer \<leftarrow> compress_and_export (e_rnd e) (e_tanhf e) acc buffer;
                         nd \<leftarrow> count_frame (h ! p);
                         Some (Inr (), buffer, h[p := nd])
                       })
              })
     | _ \<Rightarrow> Some (fail_node NotSupported ''Not an audio processor'' nd, buffer, h))"

definition process_frame ::
  "float_env \<Rightarrow> nat \<Rightarrow> heap \<Rightarrow> bytes \<Rightarrow> ((node_error, unit) expected \<times> bytes \<times> heap) option" where
  "process_frame e p h buffer = process_frame_fuel e 1 p h buffer"

section \<open>Buffers of a node\<close>

text \<open>\<open>initialize_buffers\<close> run to its end, and the spawned coroutines of a node run to their ends.\<close>

definition set_controller :: "controller \<Rightarrow> node \<Rightarrow> node" where
  "set_controller c nd =
     (case n_body nd of FileInput f \<Rightarrow> nd\<lparr>n_body := FileInput (f\<lparr>fi_controller := c\<rparr>)\<rparr> | _ \<Rightarrow> nd)"

definition initialize_buffers :: "(string \<Rightarrow> file_io) \<Rightarrow> node \<Rightarrow> node" where
  "initialize_buffers env nd =
     (case n_body nd of
        FileInput f \<Rightarrow>
          (let (nd, c) = initialize_now (fetch_bytes env) (nd, fi_controller f) in set_controller c nd)
      | _ \<Rightarrow> nd)"

text \<open>The coroutine that \<open>close\<close> spawned in a loop, run to its end.\<close>

definition spawned_init :: "node \<Rightarrow> bool" where
  "spawned_init nd = (case n_body nd of FileInput f \<Rightarrow> fi_spawned_inits f > 0 | _ \<Rightarrow> False)"

definition reinitialize_buffers :: "(string \<Rightarrow> file_io) \<Rightarrow> node \<Rightarrow> node" where
  "reinitialize_buffers env nd =
     (case n_body nd of
        FileInput f \<Rightarrow> initialize_buffers env (nd\<lparr>n_body := FileInput (f\<lparr>fi_spawned_inits := fi_spawned_inits f - 1\<rparr>)\<rparr>)
      | _ \<Rightarrow> nd)"

definition run_refills :: "(string \<Rightarrow> file_io) \<Rightarrow> node \<Rightarrow> node" where
  "run_refills env nd =
     (case n_body nd of
        FileInput f \<Rightarrow>
          (let (nd, c) = settle (fetch_bytes env) (nd, fi_controller f) in set_controller c nd)
      | _ \<Rightarrow> nd)"

end
