(* ===== verification/Executor.thy ===== *)
theory Executor
  imports Nodes
begin

text \<open>
  \<open>core/graph/AudioExecutor\<close>: preparing a graph, finding and flagging the loop it runs into, and
  pulling the next frame from the current node. A graph is its nodes in order with the lists of
  pointers that the parser collects.
\<close>

section \<open>State\<close>

record graph =
  g_nodes :: heap
  g_start_node :: "nat option"
  g_file_nodes :: "nat list"
  g_mixer_nodes :: "nat list"
  g_clients_node :: "nat option"

record session_stats =
  st_session_id :: string
  st_current_node_id :: string
  st_total_bytes_sent :: u64
  st_packets_sent :: u64
  st_underruns :: u64

record executor =
  x_graph :: graph
  x_current_node :: "nat option"
  x_stats :: session_stats

abbreviation x_heap :: "executor \<Rightarrow> heap" where "x_heap x \<equiv> g_nodes (x_graph x)"

definition set_heap :: "heap \<Rightarrow> executor \<Rightarrow> executor" where
  "set_heap h x = x\<lparr>x_graph := (x_graph x)\<lparr>g_nodes := h\<rparr>\<rparr>"

definition empty_stats :: session_stats where
  "empty_stats = \<lparr>st_session_id = '''', st_current_node_id = '''', st_total_bytes_sent = 0, st_packets_sent = 0, st_underruns = 0\<rparr>"

definition executor_create :: "graph \<Rightarrow> (error_info, executor) expected" where
  "executor_create g =
     (if g_start_node g = None then Inl (error_info_From LogicError ''Invalid graph: missing start node.'')
      else Inr \<lparr>x_graph = g, x_current_node = g_start_node g, x_stats = empty_stats\<rparr>)"

section \<open>Loops\<close>

text \<open>The walk along \<open>next()\<close> with the visited set: the first node met twice. A pointer outside
  the heap ends the walk; graphs have none.\<close>

function find_cycle :: "heap \<Rightarrow> nat list \<Rightarrow> nat option \<Rightarrow> nat option" where
  "find_cycle h visited None = None"
| "find_cycle h visited (Some p) =
     (if p \<in> set visited then Some p
      else if p < length h then find_cycle h (p # visited) (n_target (h ! p)) else None)"
  by pat_completeness auto
termination
proof (relation "measure (\<lambda>(h, visited, curr). card ({..<length h} - set visited))")
  fix h :: heap and visited p
  assume "p \<notin> set visited" and "p < length h"
  then have "{..<length h} - set (p # visited) \<subset> {..<length h} - set visited" by auto
  then have "card ({..<length h} - set (p # visited)) < card ({..<length h} - set visited)"
    by (intro psubset_card_mono) simp_all
  then show "((h, p # visited, n_target (h ! p)), h, visited, Some p)
      \<in> measure (\<lambda>(h, visited, curr). card ({..<length h} - set visited))" by simp
qed simp

text \<open>The \<open>do \<dots> while\<close> that flags the nodes from \<open>p\<close> until it is back at \<open>start\<close>: \<open>None\<close> is a run
  that does not end or dereferences \<open>nullptr\<close>.\<close>

partial_function (option) flag_loop :: "nat \<Rightarrow> nat \<Rightarrow> heap \<Rightarrow> heap option" where
  "flag_loop start p h =
     (let h = set_in_loop True p h in
      case n_target (h ! p) of
        None \<Rightarrow> None
      | Some q \<Rightarrow> if q = start then Some h else flag_loop start q h)"

definition detect_and_flag_loops :: "nat option \<Rightarrow> heap \<Rightarrow> heap option" where
  "detect_and_flag_loops start_node h =
     (case find_cycle h [] start_node of None \<Rightarrow> Some h | Some c \<Rightarrow> flag_loop c c h)"

section \<open>Preparing\<close>

text \<open>
  \<open>await_all_dynamic\<close> waits for as many results as it started tasks; the parameter is what the
  channel delivers, in the order of completion: \<open>None\<close> an error of the channel itself.
\<close>

fun collect_results :: "(error_info, unit) expected \<Rightarrow> (error_info, unit) expected option list \<Rightarrow> (error_info, unit) expected" where
  "collect_results final [] = final"
| "collect_results final (None # rs) =
     collect_results (if has_value final then Inl (error_info_From NetworkError ''Channel sync error'') else final) rs"
| "collect_results final (Some res # rs) =
     collect_results (if \<not> has_value res \<and> has_value final then res else final) rs"

definition await_all_dynamic :: "nat list \<Rightarrow> (error_info, unit) expected option list \<Rightarrow> (error_info, unit) expected" where
  "await_all_dynamic items received =
     (if items = [] then Inr () else collect_results (Inr ()) (take (length items) received))"

definition initialize_nodes :: "(string \<Rightarrow> file_io) \<Rightarrow> heap \<Rightarrow> heap" where
  "initialize_nodes env h = map (initialize_buffers env) h"

definition update_mixers :: "nat list \<Rightarrow> heap \<Rightarrow> heap" where
  "update_mixers mixers h = fold set_max_frames mixers h"

definition prepare ::
  "(string \<Rightarrow> file_io) \<Rightarrow> (error_info, unit) expected option list \<Rightarrow> executor
     \<Rightarrow> ((error_info, unit) expected \<times> executor) option" where
  "prepare env received x =
    (if x_current_node x = None
     then Some (Inl (error_info_From LogicError ''Invalid Graph: No start node''), x)
     else case await_all_dynamic (g_file_nodes (x_graph x)) received of
       Inl e \<Rightarrow> Some (Inl e, x)
     | Inr u \<Rightarrow>
         let h = update_mixers (g_mixer_nodes (x_graph x)) (initialize_nodes env (x_heap x)) in
         (case detect_and_flag_loops (g_start_node (x_graph x)) h of
            None \<Rightarrow> None
          | Some h \<Rightarrow>
              (case g_start_node (x_graph x) of
                 None \<Rightarrow> None
               | Some s \<Rightarrow>
                   Some (Inr (), (set_heap h x)\<lparr>x_current_node := Some s,
                     x_stats := (x_stats x)\<lparr>st_current_node_id := n_id (h ! s), st_total_bytes_sent := 0\<rparr>\<rparr>))))"

section \<open>The next frame\<close>

definition advance_to_next_node :: "(string \<Rightarrow> file_io) \<Rightarrow> nat \<Rightarrow> executor \<Rightarrow> (node_error, unit) expected \<times> executor" where
  "advance_to_next_node env p x =
    (let (r, h) = close env p (x_heap x); x = set_heap h x in
     case r of
       Inl e \<Rightarrow> (Inl e, x)
     | Inr u \<Rightarrow>
         let x = x\<lparr>x_current_node := n_target (h ! p)\<rparr> in
         (Inr (), case n_target (h ! p) of
            None \<Rightarrow> x
          | Some q \<Rightarrow> x\<lparr>x_stats := (x_stats x)\<lparr>st_current_node_id := n_id (h ! q)\<rparr>\<rparr>))"

definition no_error :: node_error where
  "no_error = \<lparr>ne_code = Success, ne_message = '''', ne_node_id = ''''\<rparr>"

definition get_next_frame ::
  "float_env \<Rightarrow> (string \<Rightarrow> file_io) \<Rightarrow> bytes \<Rightarrow> executor \<Rightarrow> ((bool \<times> node_error) \<times> bytes \<times> executor) option" where
  "get_next_frame e env output_buffer x =
    (case x_current_node x of
       None \<Rightarrow> Some ((False, \<lparr>ne_code = FormatError, ne_message = ''Invalid state or buffer'', ne_node_id = ''''\<rparr>), output_buffer, x)
     | Some p \<Rightarrow>
         if output_buffer = []
         then Some ((False, \<lparr>ne_code = FormatError, ne_message = ''Invalid state or buffer'', ne_node_id = ''''\<rparr>), output_buffer, x)
         else
           (case process_frame e p (x_heap x) (replicate (length output_buffer) 0) of
              None \<Rightarrow> None
            | Some (result, output_buffer, h) \<Rightarrow>
                let x = set_heap h x;
                    ended = (\<lambda>x. let (t, x) = advance_to_next_node env p x in
                      case t of Inl e \<Rightarrow> ((False, e), output_buffer, x)
                      | Inr u \<Rightarrow> ((x_current_node x \<noteq> None, no_error), output_buffer,
                          x\<lparr>x_stats := (x_stats x)\<lparr>st_total_bytes_sent := st_total_bytes_sent (x_stats x) + of_nat FRAME_SIZE_BYTES\<rparr>\<rparr>))
                in Some (case result of
                     Inl err \<Rightarrow>
                       if ne_code err = NotSupported then ((False, no_error), output_buffer, x)
                       else if ne_code err \<noteq> EndOfStream then ((ne_code err = Underrun, err), output_buffer, x)
                       else ended x
                   | Inr u \<Rightarrow>
                       if is_complete (h ! p) then ended x
                       else ((True, no_error), output_buffer,
                          x\<lparr>x_stats := (x_stats x)\<lparr>st_total_bytes_sent := st_total_bytes_sent (x_stats x) + of_nat FRAME_SIZE_BYTES\<rparr>\<rparr>))))"

section \<open>Loops: the functional graph of the targets\<close>

definition nxt :: "heap \<Rightarrow> nat option \<Rightarrow> nat option" where
  "nxt h c = (case c of None \<Rightarrow> None | Some p \<Rightarrow> n_target (h ! p))"

definition wf_targets :: "heap \<Rightarrow> bool" where
  "wf_targets h \<longleftrightarrow> (\<forall>p < length h. \<forall>q. n_target (h ! p) = Some q \<longrightarrow> q < length h)"

definition on_cycle :: "heap \<Rightarrow> nat \<Rightarrow> nat \<Rightarrow> bool" where
  "on_cycle h s c \<longleftrightarrow> (\<exists>j. (nxt h ^^ j) (Some s) = Some c) \<and> (\<exists>k > 0. (nxt h ^^ k) (Some c) = Some c)"

lemma nxt_simps [simp]: "nxt h None = None" "nxt h (Some p) = n_target (h ! p)"
  by (simp_all add: nxt_def)

lemma nxt_None [simp]: "(nxt h ^^ k) None = None"
  by (induction k) auto

lemma funpow_later: "(f ^^ i) x = y \<Longrightarrow> i \<le> j \<Longrightarrow> (f ^^ j) x = (f ^^ (j - i)) y"
  by (metis funpow_add comp_apply le_add_diff_inverse2)

lemma funpow_period: "(f ^^ k) x = x \<Longrightarrow> (f ^^ (m * k)) x = x"
  by (induction m) (simp_all add: funpow_add)

lemma find_cycle_Some:
  assumes "find_cycle h visited cur = Some c" and "cur = (nxt h ^^ k) (Some s)"
    and "\<forall>x\<in>set visited. \<exists>i < k. (nxt h ^^ i) (Some s) = Some x"
  shows "on_cycle h s c"
  using assms
proof (induction h visited cur arbitrary: k rule: find_cycle.induct)
  case (2 h visited p)
  show ?case
  proof (cases "p \<in> set visited")
    case True
    then obtain i where i: "i < k" "(nxt h ^^ i) (Some s) = Some p" using "2.prems"(3) by blast
    have "(nxt h ^^ (k - i)) (Some p) = Some p"
      using funpow_later [OF i(2), of k] i(1) unfolding "2.prems"(2) [symmetric] by simp
    moreover have "c = p" using True "2.prems"(1) by simp
    ultimately show ?thesis
      using i unfolding on_cycle_def by (intro conjI exI [of _ i] exI [of _ "k - i"]) simp_all
  next
    case False
    then have p: "p < length h" and f: "find_cycle h (p # visited) (n_target (h ! p)) = Some c"
      using "2.prems"(1) by (auto split: if_splits)
    have "(nxt h ^^ Suc k) (Some s) = nxt h (Some p)"
      unfolding funpow.simps comp_apply "2.prems"(2) [symmetric] ..
    then have "n_target (h ! p) = (nxt h ^^ Suc k) (Some s)" unfolding nxt_simps by (rule sym)
    moreover have "\<forall>x\<in>set (p # visited). \<exists>i < Suc k. (nxt h ^^ i) (Some s) = Some x"
    proof
      fix x
      assume "x \<in> set (p # visited)"
      then consider "x = p" | "x \<in> set visited" by auto
      then show "\<exists>i < Suc k. (nxt h ^^ i) (Some s) = Some x"
      proof cases
        case 1
        show ?thesis unfolding 1 by (intro exI [of _ k] conjI lessI "2.prems"(2) [symmetric])
      next
        case 2
        then show ?thesis using "2.prems"(3) less_SucI by blast
      qed
    qed
    ultimately show ?thesis by (rule "2.IH" [OF False p f])
  qed
qed simp

lemma find_cycle_None:
  assumes "find_cycle h visited cur = None" and "wf_targets h" and "\<forall>p. cur = Some p \<longrightarrow> p < length h"
  shows "\<exists>j. (nxt h ^^ j) cur = None"
  using assms
proof (induction h visited cur rule: find_cycle.induct)
  case (2 h visited p)
  then have p: "p \<notin> set visited" "p < length h" "find_cycle h (p # visited) (n_target (h ! p)) = None"
    by (auto split: if_splits)
  have "\<forall>q. n_target (h ! p) = Some q \<longrightarrow> q < length h" using "2.prems"(2) p(2) by (simp add: wf_targets_def)
  then obtain j where "(nxt h ^^ j) (n_target (h ! p)) = None" using "2.IH" p "2.prems"(2) by blast
  then have "(nxt h ^^ Suc j) (Some p) = None" by (simp add: funpow_Suc_right del: funpow.simps)
  then show ?case by blast
qed (auto intro: exI [of _ 0])

lemma ends_no_cycle:
  assumes "(nxt h ^^ j) (Some s) = None"
  shows "\<not> on_cycle h s c"
proof
  assume "on_cycle h s c"
  then obtain i k where i: "(nxt h ^^ i) (Some s) = Some c" and k: "k > 0" "(nxt h ^^ k) (Some c) = Some c"
    by (auto simp: on_cycle_def)
  have "(nxt h ^^ (i + j * k)) (Some s) = Some c"
    using funpow_later [OF i, of "i + j * k"] funpow_period [OF k(2), of j] by simp
  moreover have "j \<le> i + j * k" using k(1) by (simp add: trans_le_add2)
  ultimately show False using funpow_later [OF assms, of "i + j * k"] by simp
qed

lemma cycle_orbit:
  assumes "on_cycle h s c" and "(nxt h ^^ k) (Some c) = Some c" and "0 < k"
  shows "on_cycle h s y \<longleftrightarrow> (\<exists>i < k. (nxt h ^^ i) (Some c) = Some y)"
proof
  obtain a where a: "(nxt h ^^ a) (Some s) = Some c" using assms(1) by (auto simp: on_cycle_def)
  assume "on_cycle h s y"
  then obtain j l where j: "(nxt h ^^ j) (Some s) = Some y" and l: "l > 0" "(nxt h ^^ l) (Some y) = Some y"
    by (auto simp: on_cycle_def)
  have "(nxt h ^^ (j + a * l)) (Some s) = Some y"
    using funpow_later [OF j, of "j + a * l"] funpow_period [OF l(2), of a] by simp
  moreover have "a \<le> j + a * l" using l(1) by (simp add: trans_le_add2)
  ultimately have y: "(nxt h ^^ (j + a * l - a)) (Some c) = Some y"
    using funpow_later [OF a, of "j + a * l"] by simp
  have "(nxt h ^^ ((j + a * l - a) mod k)) (Some c) = Some y"
    using y funpow_mod_eq [OF assms(2)] by metis
  then show "\<exists>i < k. (nxt h ^^ i) (Some c) = Some y" using assms(3) by (meson mod_less_divisor)
next
  obtain a where a: "(nxt h ^^ a) (Some s) = Some c" using assms(1) by (auto simp: on_cycle_def)
  assume "\<exists>i < k. (nxt h ^^ i) (Some c) = Some y"
  then obtain i where i: "i < k" "(nxt h ^^ i) (Some c) = Some y" by blast
  have "(nxt h ^^ (a + i)) (Some s) = Some y"
    using a i(2) by (simp add: funpow_add add.commute [of a])
  moreover have "(nxt h ^^ k) (Some y) = Some y"
    using i(2) assms(2) by (metis funpow_add comp_apply add.commute)
  ultimately show "on_cycle h s y" using assms(3) by (auto simp: on_cycle_def)
qed

section \<open>Flagging\<close>

text \<open>What \<open>set_in_loop\<close> reaches from \<open>p\<close>, and that it changes nothing else.\<close>

definition affected :: "heap \<Rightarrow> nat \<Rightarrow> nat set" where
  "affected h p = insert p (case n_body (h ! p) of Mixer inputs \<Rightarrow> set inputs | _ \<Rightarrow> {})"

definition flagged :: "nat set \<Rightarrow> heap \<Rightarrow> heap \<Rightarrow> bool" where
  "flagged S h h' \<longleftrightarrow> length h' = length h
     \<and> (\<forall>x < length h. h' ! x = (h ! x)\<lparr>n_in_loop := n_in_loop (h ! x) \<or> x \<in> S\<rparr>)"

lemma flagged_trans:
  "flagged S h h' \<Longrightarrow> flagged T h' h'' \<Longrightarrow> flagged (S \<union> T) h h''"
  by (auto simp: flagged_def)

lemma in_loop_same: "(nd :: node)\<lparr>n_in_loop := n_in_loop nd\<rparr> = nd"
  by (cases nd) simp

declare set_in_loop_fuel.simps [simp del]

lemma flagged_upd: "flagged {p} h (upd p (\<lambda>nd. nd\<lparr>n_in_loop := True\<rparr>) h)"
  by (cases "p < length h") (auto simp: flagged_def upd_def nth_list_update in_loop_same)

lemma flagged_empty: "flagged {} h h"
  by (simp add: flagged_def)

lemma set_in_loop_0: "flagged {p} h (set_in_loop_fuel 0 True p h)"
  using flagged_upd [of p h] by (simp add: set_in_loop_fuel.simps [of 0] Let_def split: node_body.split)

lemma fold_set_in_loop: "flagged (set ps) h (fold (set_in_loop_fuel 0 True) ps h)"
proof (induction ps arbitrary: h)
  case (Cons p ps)
  show ?case
    using flagged_trans [OF set_in_loop_0 Cons.IH, of p h] by simp
qed (simp add: flagged_empty)

lemma flagged_fields:
  "flagged S h h' \<Longrightarrow> p < length h \<Longrightarrow> n_body (h' ! p) = n_body (h ! p) \<and> n_target (h' ! p) = n_target (h ! p)"
  by (simp add: flagged_def)

lemma set_in_loop_flags:
  assumes "p < length h"
  shows "flagged (affected h p) h (set_in_loop True p h)"
proof -
  let ?h = "upd p (\<lambda>nd. nd\<lparr>n_in_loop := True\<rparr>) h"
  have b: "n_body (?h ! p) = n_body (h ! p)" using assms by (simp add: upd_def)
  show ?thesis
  proof (cases "n_body (h ! p)")
    case (Mixer inputs)
    then have "set_in_loop True p h = fold (set_in_loop_fuel 0 True) inputs ?h"
      using b by (simp add: set_in_loop_def set_in_loop_fuel.simps [of "Suc 0"] Let_def)
    then show ?thesis
      using flagged_trans [OF flagged_upd [of p h] fold_set_in_loop [of inputs]] Mixer
      by (simp add: affected_def)
  qed (use b flagged_upd [of p h] in \<open>simp_all add: set_in_loop_def set_in_loop_fuel.simps [of "Suc 0"] Let_def affected_def\<close>)
qed

lemma flagged_nxt:
  assumes "flagged S h h'" and "wf_targets h" and "p < length h"
  shows "(nxt h' ^^ i) (Some p) = (nxt h ^^ i) (Some p) \<and> (\<forall>q. (nxt h ^^ i) (Some p) = Some q \<longrightarrow> q < length h)"
proof (induction i)
  case (Suc i)
  show ?case
  proof (cases "(nxt h ^^ i) (Some p)")
    case (Some q)
    then show ?thesis
      using Suc assms flagged_fields [OF assms(1), of q] by (auto simp: wf_targets_def)
  qed (use Suc in simp)
qed (use assms(3) in simp)

lemma flag_loop_spec:
  assumes "wf_targets h" and "p < length h" and "0 < m" and "(nxt h ^^ m) (Some p) = Some start"
    and "\<forall>i. 0 < i \<longrightarrow> i < m \<longrightarrow> (nxt h ^^ i) (Some p) \<noteq> Some start"
  shows "\<exists>h'. flag_loop start p h = Some h'
    \<and> flagged (\<Union>y\<in>{y. \<exists>i < m. (nxt h ^^ i) (Some p) = Some y}. affected h y) h h'"
  using assms
proof (induction m arbitrary: p h)
  case (Suc m)
  let ?h = "set_in_loop True p h"
  have fl: "flagged (affected h p) h ?h" by (rule set_in_loop_flags [OF Suc.prems(2)])
  have tgt: "n_target (?h ! p) = nxt h (Some p)"
    using flagged_fields [OF fl Suc.prems(2)] by simp
  have orbit: "{y. \<exists>i < Suc m. (nxt h ^^ i) (Some p) = Some y}
      = insert p {y. \<exists>i < m. (nxt h ^^ i) (nxt h (Some p)) = Some y}"
    by (auto simp: less_Suc_eq_0_disj funpow_Suc_right simp del: funpow.simps) 
  show ?case
  proof (cases m)
    case 0
    then have "nxt h (Some p) = Some start" using Suc.prems(4) by simp
    then have "flag_loop start p h = Some ?h" using tgt by (subst flag_loop.simps) (simp add: Let_def)
    then show ?thesis using fl 0 by (auto simp: orbit)
  next
    case (Suc k)
    have "nxt h (Some p) \<noteq> None"
    proof
      assume "nxt h (Some p) = None"
      then have "(nxt h ^^ Suc m) (Some p) = None"
        by (simp only: funpow_Suc_right comp_apply nxt_None)
      then show False using Suc.prems(4) by simp
    qed
    then obtain q where q: "nxt h (Some p) = Some q" by blast
    have ql: "q < length h" using q Suc.prems(1,2) by (auto simp: wf_targets_def)
    have "q \<noteq> start" using Suc.prems(5) [rule_format, of 1] q Suc by auto
    then have step: "flag_loop start p h = flag_loop start q ?h"
      using tgt q by (subst flag_loop.simps) (simp add: Let_def)
    have wf: "wf_targets ?h" using Suc.prems(1) flagged_fields [OF fl] fl by (auto simp: wf_targets_def flagged_def)
    have pow: "(nxt ?h ^^ i) (Some q) = (nxt h ^^ Suc i) (Some p)" for i
      using flagged_nxt [OF fl Suc.prems(1) ql, of i] q by (simp add: funpow_Suc_right del: funpow.simps)
    have "\<exists>h'. flag_loop start q ?h = Some h'
      \<and> flagged (\<Union>y\<in>{y. \<exists>i < m. (nxt ?h ^^ i) (Some q) = Some y}. affected ?h y) ?h h'"
    proof (rule Suc.IH)
      show "q < length ?h" using ql fl by (simp add: flagged_def)
      show "0 < m" using Suc by simp
      show "(nxt ?h ^^ m) (Some q) = Some start" unfolding pow by (rule Suc.prems(4))
      show "\<forall>i. 0 < i \<longrightarrow> i < m \<longrightarrow> (nxt ?h ^^ i) (Some q) \<noteq> Some start"
        unfolding pow using Suc.prems(5) by (metis Suc_less_eq zero_less_Suc)
    qed (rule wf)
    moreover have "(\<Union>y\<in>{y. \<exists>i < m. (nxt ?h ^^ i) (Some q) = Some y}. affected ?h y)
        = (\<Union>y\<in>{y. \<exists>i < m. (nxt h ^^ i) (nxt h (Some p)) = Some y}. affected h y)"
    proof -
      have "affected ?h y = affected h y" if "(nxt h ^^ i) (Some q) = Some y" for i y
        using flagged_nxt [OF fl Suc.prems(1) ql, of i] that flagged_fields [OF fl] by (simp add: affected_def)
      then show ?thesis using flagged_nxt [OF fl Suc.prems(1) ql] q by auto
    qed
    ultimately obtain h' where "flag_loop start q ?h = Some h'"
      "flagged (\<Union>y\<in>{y. \<exists>i < m. (nxt h ^^ i) (nxt h (Some p)) = Some y}. affected h y) ?h h'" by auto
    then show ?thesis
      using flagged_trans [OF fl] step by (auto simp: orbit)
  qed
qed simp

lemma detect_and_flag_spec:
  assumes "wf_targets h" and "s < length h"
  shows "\<exists>h'. detect_and_flag_loops (Some s) h = Some h' \<and> length h' = length h
    \<and> (\<forall>x < length h. h' ! x = (h ! x)\<lparr>n_in_loop := n_in_loop (h ! x)
        \<or> (\<exists>y. on_cycle h s y \<and> (x = y \<or> (\<exists>inputs. n_body (h ! y) = Mixer inputs \<and> x \<in> set inputs)))\<rparr>)"
proof (cases "find_cycle h [] (Some s)")
  case None
  then obtain j where "(nxt h ^^ j) (Some s) = None" using find_cycle_None assms by blast
  then have "\<not> on_cycle h s y" for y by (rule ends_no_cycle)
  then show ?thesis using None by (simp add: detect_and_flag_loops_def)
next
  case (Some c)
  then have c: "on_cycle h s c" using find_cycle_Some [of h "[]" "Some s" c 0 s] by simp
  define k where "k = (LEAST k. 0 < k \<and> (nxt h ^^ k) (Some c) = Some c)"
  have "\<exists>k. 0 < k \<and> (nxt h ^^ k) (Some c) = Some c" using c by (auto simp: on_cycle_def)
  then have k: "0 < k" "(nxt h ^^ k) (Some c) = Some c"
    unfolding k_def by (metis (mono_tags, lifting) LeastI)+
  have least: "\<forall>i. 0 < i \<longrightarrow> i < k \<longrightarrow> (nxt h ^^ i) (Some c) \<noteq> Some c"
    unfolding k_def using not_less_Least by blast
  obtain j where "(nxt h ^^ j) (Some s) = Some c" using c by (auto simp: on_cycle_def)
  then have "c < length h" using flagged_nxt [OF flagged_empty assms, of j] by blast
  then obtain h' where h': "flag_loop c c h = Some h'"
    "flagged (\<Union>y\<in>{y. \<exists>i < k. (nxt h ^^ i) (Some c) = Some y}. affected h y) h h'"
    using flag_loop_spec [OF assms(1) _ k least] by blast
  have "(\<Union>y\<in>{y. \<exists>i < k. (nxt h ^^ i) (Some c) = Some y}. affected h y)
      = {x. \<exists>y. on_cycle h s y \<and> (x = y \<or> (\<exists>inputs. n_body (h ! y) = Mixer inputs \<and> x \<in> set inputs))}"
    by (auto simp: affected_def cycle_orbit [OF c k(2,1)] split: node_body.splits)
  then show ?thesis
    using h' Some by (simp add: detect_and_flag_loops_def flagged_def)
qed

section \<open>Properties\<close>

text \<open>C19: \<open>detect_and_flag_loops\<close> ends, and flags exactly the nodes of the cycle that the start node
  runs into and the inputs of the mixers on it; it changes nothing else.\<close>

theorem loops_flagged:
  assumes "wf_targets h" and "s < length h"
  shows "\<exists>h'. detect_and_flag_loops (Some s) h = Some h' \<and> length h' = length h
    \<and> (\<forall>x < length h. h' ! x = (h ! x)\<lparr>n_in_loop := n_in_loop (h ! x)
        \<or> (\<exists>y. on_cycle h s y \<and> (x = y \<or> (\<exists>inputs. n_body (h ! y) = Mixer inputs \<and> x \<in> set inputs)))\<rparr>)"
  using assms by (rule detect_and_flag_spec)

lemma loops_flagged_witness:
  "\<exists>h'. detect_and_flag_loops (Some 0) [set_next (Some 1) new_mixer, set_next (Some 2) new_mixer, set_next (Some 1) new_mixer] = Some h'
    \<and> n_in_loop (h' ! 1) \<and> n_in_loop (h' ! 2)"
proof -
  let ?h = "[set_next (Some 1) new_mixer, set_next (Some 2) new_mixer, set_next (Some 1) new_mixer]"
  have "wf_targets ?h"
    by (auto simp: wf_targets_def set_next_def new_mixer_def new_node_def nth_Cons split: nat.splits)
  moreover have "on_cycle ?h 0 1" "on_cycle ?h 0 2"
    unfolding on_cycle_def
    by (intro conjI exI [of _ 1] exI [of _ 2], simp_all add: set_next_def numeral_2_eq_2)+
  ultimately show ?thesis using loops_flagged [of ?h 0] by fastforce
qed

end
