(* ===== verification/File_Input.thy ===== *)
theory File_Input
  imports Nodes
begin

text \<open>
  What a \<open>FileInputNode\<close> plays: its \<open>fetch_bytes\<close> is a \<open>fetch_source\<close> of the blocks of audio of its
  file, from which the frames it delivers follow.
\<close>


section \<open>A file as a source of blocks\<close>

definition file_ok :: "file_io \<Rightarrow> bool" where
  "file_ok io \<longleftrightarrow> (\<forall>k. io_open_ec io k = None \<and> io_read_fails io k = None) \<and> io_header io = Some 256
     \<and> \<not> io_seek_fails io \<and> \<not> io_size_fails io \<and> length (io_content io) < 2 ^ 31"

definition audio_offset :: "file_io \<Rightarrow> nat" where
  "audio_offset io = (if io_content io = [] then 0 else get_audio_data_offset (take 256 (io_content io)))"

definition audio :: "file_io \<Rightarrow> bytes" where
  "audio io = drop (audio_offset io) (io_content io)"

definition audio_block :: "file_io \<Rightarrow> nat \<Rightarrow> bytes" where
  "audio_block io k = (let bs = take BUFFER_SIZE (drop (k * BUFFER_SIZE) (audio io))
     in bs @ replicate (BUFFER_SIZE - length bs) 0)"

definition file_at :: "(string \<Rightarrow> file_io) \<Rightarrow> string \<Rightarrow> nat \<Rightarrow> node \<Rightarrow> bool" where
  "file_at env path k nd \<longleftrightarrow> file_ok (env path) \<and>
     (case n_body nd of
        FileInput f \<Rightarrow> fi_file_path f = path \<and>
          (if k = 0 then \<not> fh_open (fi_handle f)
           else fh_open (fi_handle f) \<and> drop (fh_pos (fi_handle f)) (io_content (env path)) = drop (k * BUFFER_SIZE) (audio (env path))
             \<and> n_total_frames nd = int (length (audio (env path)) div 320))
      | _ \<Rightarrow> False)"

lemma header_bytes_ok: "file_ok io \<Longrightarrow> header_bytes io = min 256 (length (io_content io))"
  by (simp add: file_ok_def header_bytes_def HEADER_BUF_SIZE_def)

lemma sint_of_nat_i32: "n < 2 ^ 31 \<Longrightarrow> sint (of_nat n :: i32) = int n"
  using sint_of_int_i32 [of "int n"] by simp

lemma audio_frames_bound: "file_ok io \<Longrightarrow> length (audio io) div 320 < 2 ^ 31"
  by (auto simp: file_ok_def audio_def intro: order_le_less_trans [OF div_le_dividend])

lemma open_success_ok:
  assumes "file_ok io"
  shows "open_success io nd f = nd\<lparr>n_total_frames := int (length (audio io) div 320),
     n_body := FileInput (f\<lparr>fi_handle := \<lparr>fh_open = True, fh_pos = audio_offset io\<rparr>\<rparr>)\<rparr>"
proof -
  have 1: "(if header_bytes io > 0 then get_audio_data_offset (take (header_bytes io) (io_content io)) else 0) = audio_offset io"
    using assms by (simp add: header_bytes_ok audio_offset_def min_def)
  have 2: "(if length (io_content io) > audio_offset io then length (io_content io) - audio_offset io else 0) = length (audio io)"
    by (simp add: audio_def)
  have 3: "sint (of_nat (length (audio io) div 320) :: i32) = int (length (audio io) div 320)"
    by (rule sint_of_nat_i32 [OF audio_frames_bound [OF assms]])
  have "\<not> io_seek_fails io" "\<not> io_size_fails io" using assms by (simp_all add: file_ok_def)
  then show ?thesis
    unfolding open_success_def Let_def 1 by (simp only: if_True if_False prod.case 2 FRAME_SIZE_BYTES_eq not_False_eq_True 3)
qed

lemma open_file_ok:
  assumes "file_ok (env (fi_file_path f))" and "n_body nd = FileInput f"
  shows "open_file env nd = (Inr (), open_success (env (fi_file_path f)) nd f)"
proof -
  have "io_open_ec (env (fi_file_path f)) 0 = None" using assms(1) by (simp add: file_ok_def)
  then show ?thesis using assms(2) by (simp add: open_file_def MAX_RETRIES_def numeral_3_eq_3)
qed

lemma read_loop_ok:
  "file_ok io \<Longrightarrow> read_loop io n 0 MAX_RETRIES pos = (take n (drop pos (io_content io)), pos + length (take n (drop pos (io_content io))))"
  by (simp add: file_ok_def MAX_RETRIES_def numeral_3_eq_3 Let_def)

lemma drop_taken: "drop (pos + length (take n (drop pos xs))) xs = drop n (drop pos xs)"
  by (simp add: min_def add.commute)

lemma drop_moved: "drop p xs = ys \<Longrightarrow> drop (p + min (length ys) n) xs = drop n ys"
  using drop_taken [of p n xs] by auto

lemma drop_audio: "drop (audio_offset io + min (length (audio io)) n) (io_content io) = drop n (audio io)"
  using drop_taken [of "audio_offset io" n "io_content io"] by (simp add: audio_def)

lemma fetch_bytes_file:
  assumes "file_at env path k nd" and "fetch_bytes env nd BUFFER_SIZE = (bs, nd')"
  shows "bs = take BUFFER_SIZE (drop (k * BUFFER_SIZE) (audio (env path))) \<and> file_at env path (Suc k) nd'"
proof -
  obtain f where f: "n_body nd = FileInput f" "fi_file_path f = path" and ok: "file_ok (env path)"
    using assms(1) by (auto simp: file_at_def split: node_body.splits)
  show ?thesis
  proof (cases k)
    case 0
    then have "\<not> fh_open (fi_handle f)" using assms(1) f by (simp add: file_at_def)
    then show ?thesis
      using assms(2) f ok 0
      by (auto simp: fetch_bytes_def open_file_ok open_success_ok read_loop_ok file_at_def drop_audio audio_def [symmetric])
  next
    case (Suc j)
    then have "fh_open (fi_handle f)" "drop (fh_pos (fi_handle f)) (io_content (env path)) = drop (k * BUFFER_SIZE) (audio (env path))"
      "n_total_frames nd = int (length (audio (env path)) div 320)"
      using assms(1) f by (simp_all add: file_at_def)
    then show ?thesis
      using assms(2) f ok Suc drop_moved [of "fh_pos (fi_handle f)" "io_content (env path)" _ BUFFER_SIZE]
      by (auto simp: fetch_bytes_def read_loop_ok file_at_def)
  qed
qed

interpretation file_source: fetch_source "fetch_bytes env" "file_at env path" "audio_block (env path)" for env path
proof
  fix k nd bs nd'
  assume a: "file_at env path k nd" "fetch_bytes env nd BUFFER_SIZE = (bs, nd')"
  show "length bs \<le> BUFFER_SIZE" using fetch_bytes_file [OF a] by simp
  show "bs @ replicate (BUFFER_SIZE - length bs) 0 = audio_block (env path) k"
    using fetch_bytes_file [OF a] by (simp add: audio_block_def Let_def)
  show "file_at env path (Suc k) nd'" using fetch_bytes_file [OF a] by simp
qed

lemma length_audio_block [simp]: "length (audio_block io k) = 131072"
  by (simp add: audio_block_def Let_def)

lemma audio_block_frame:
  assumes "m < 409"
  shows "take 320 (drop (m * 320) (audio_block io k)) = take 320 (drop (k * 131072 + m * 320) (audio io) @ replicate 320 0)"
proof -
  have m: "m * 320 + 320 \<le> 131072" using assms by simp
  show ?thesis
    using m by (auto simp: audio_block_def Let_def take_drop min_def add.commute intro!: nth_equalityI)
qed


section \<open>What fetching leaves alone\<close>

definition same_but_file :: "node \<Rightarrow> node \<Rightarrow> bool" where
  "same_but_file nd nd' \<longleftrightarrow> n_id nd' = n_id nd \<and> n_target nd' = n_target nd
     \<and> n_processed_frames nd' = n_processed_frames nd \<and> n_in_buffer_processed_frames nd' = n_in_buffer_processed_frames nd
     \<and> n_in_loop nd' = n_in_loop nd
     \<and> (case n_body nd of
          FileInput f \<Rightarrow> (\<exists>f'. n_body nd' = FileInput f' \<and> fi_options f' = fi_options f
            \<and> fi_file_path f' = fi_file_path f \<and> fi_pitch_shifter f' = fi_pitch_shifter f
            \<and> fi_controller f' = fi_controller f \<and> fi_spawned_inits f' = fi_spawned_inits f)
        | b \<Rightarrow> n_body nd' = b)"

lemma same_but_file_refl [simp]: "same_but_file nd nd"
  by (simp add: same_but_file_def split: node_body.split)

lemma same_but_file_trans: "same_but_file a b \<Longrightarrow> same_but_file b c \<Longrightarrow> same_but_file a c"
  by (auto simp: same_but_file_def split: node_body.splits)

lemma open_loop_same:
  "n_body nd = FileInput f \<Longrightarrow> same_but_file nd (snd (open_loop io k left nd f))"
  by (induction io k left nd f rule: open_loop.induct)
    (auto simp: same_but_file_def open_success_def Let_def split: option.split prod.split)

lemma open_file_same: "same_but_file nd (snd (open_file env nd))"
  by (auto simp: open_file_def open_loop_same split: node_body.split)

lemma fetch_bytes_same: "same_but_file nd (snd (fetch_bytes env nd n))"
proof (cases "n_body nd")
  case (FileInput f)
  obtain r nd1 where o: "(if fh_open (fi_handle f) then (Inr (), nd) else open_file env nd) = (r, nd1)"
    by fastforce
  then have same: "same_but_file nd nd1"
    using open_file_same [of nd env] by (auto split: if_splits)
  then obtain f1 where f1: "n_body nd1 = FileInput f1" using FileInput by (auto simp: same_but_file_def)
  have "same_but_file nd1 (snd (fetch_bytes env nd n))"
    using FileInput o f1
    by (auto simp: fetch_bytes_def Let_def same_but_file_def split: sum.split prod.split)
  then show ?thesis using same by (rule same_but_file_trans [rotated])
qed (simp_all add: fetch_bytes_def)

lemma settle_same: "same_but_file nd (fst (settle (fetch_bytes env) (nd, c)))"
proof -
  obtain b nd' where "fetch_bytes env nd BUFFER_SIZE = (b, nd')" by fastforce
  then show ?thesis
    using fetch_bytes_same [of nd env BUFFER_SIZE] by (simp add: settle_def run_task_def Let_def)
qed

lemma initialize_now_same: "same_but_file nd (fst (initialize_now (fetch_bytes env) (nd, c)))"
proof -
  obtain b1 nd1 where 1: "fetch_bytes env nd BUFFER_SIZE = (b1, nd1)" by fastforce
  obtain b2 nd2 where 2: "fetch_bytes env nd1 BUFFER_SIZE = (b2, nd2)" by fastforce
  have "same_but_file nd nd1" "same_but_file nd1 nd2"
    using fetch_bytes_same [of nd env BUFFER_SIZE] fetch_bytes_same [of nd1 env BUFFER_SIZE] 1 2 by simp_all
  then show ?thesis using 1 2 by (simp add: initialize_now_def Let_def) (rule same_but_file_trans)
qed

section \<open>A file input on its own\<close>

text \<open>One frame of the node at \<open>p\<close>, with the refill it started run to its end.\<close>

definition frame_step ::
  "float_env \<Rightarrow> (string \<Rightarrow> file_io) \<Rightarrow> nat \<Rightarrow> heap \<Rightarrow> ((node_error, unit) expected \<times> bytes \<times> heap) option" where
  "frame_step e env p h =
     do {
       (r, out, h) \<leftarrow> process_frame e p h (replicate FRAME_SIZE_BYTES 0);
       Some (r, out, upd p (run_refills env) h)
     }"

primrec play :: "float_env \<Rightarrow> (string \<Rightarrow> file_io) \<Rightarrow> nat \<Rightarrow> nat \<Rightarrow> heap \<Rightarrow> heap option" where
  "play e env p 0 h = Some h"
| "play e env p (Suc n) h = do { h \<leftarrow> play e env p n h; (r, out, h) \<leftarrow> frame_step e env p h; Some h }"

definition node_playing :: "(string \<Rightarrow> file_io) \<Rightarrow> string \<Rightarrow> nat \<Rightarrow> nat \<Rightarrow> int \<Rightarrow> node \<Rightarrow> bool" where
  "node_playing env path q k n nd \<longleftrightarrow> n_processed_frames nd = n \<and>
     (\<exists>f. n_body nd = FileInput f \<and> fi_options f = None \<and> fi_file_path f = path
       \<and> playing (file_at env path) (audio_block (env path)) q k (nd, fi_controller f))"

lemma file_at_cong:
  assumes "n_total_frames nd' = n_total_frames nd" and "n_body nd = FileInput f" and "n_body nd' = FileInput f'"
    and "fi_handle f' = fi_handle f" and "fi_file_path f' = fi_file_path f"
  shows "file_at env path k nd' = file_at env path k nd"
  using assms by (simp add: file_at_def)

lemma playing_set_controller:
  assumes "playing (file_at env path) blk q k (nd, c)" and "n_body nd = FileInput f"
  shows "playing (file_at env path) blk q k (set_controller c nd, c)"
  using assms file_at_cong [of "set_controller c nd" nd f "f\<lparr>fi_controller := c\<rparr>"]
  by (simp add: playing_def set_controller_def)

lemma node_playing_total:
  "node_playing env path q k n nd \<Longrightarrow> n_total_frames nd = int (length (audio (env path)) div 320)"
  by (auto simp: node_playing_def playing_def file_at_def)

lemma node_playing_count:
  assumes "node_playing env path q k n nd" and "n < int (length (audio (env path)) div 320)"
  shows "next_count (n_processed_frames nd) = Some (n + 1)"
proof -
  have "file_ok (env path)" using assms(1) by (auto simp: node_playing_def playing_def file_at_def)
  then have "int (length (audio (env path)) div 320) < 2 ^ 31" using audio_frames_bound by fastforce
  then show ?thesis using assms by (simp add: node_playing_def next_count_def)
qed

lemma frame_step_playing:
  assumes "node_playing env path q k n (h ! p)" and "p < length h"
    and "n < int (length (audio (env path)) div 320)"
  shows "\<exists>h'. frame_step e env p h = Some (Inr (), due_frame (audio_block (env path)) q k, h')
    \<and> node_playing env path (if k < 409 then q else q + 1) (if k < 409 then k + 1 else 1) (n + 1) (h' ! p)
    \<and> length h' = length h"
proof -
  let ?nd = "h ! p"
  obtain f where f: "n_body ?nd = FileInput f" "fi_options f = None" "fi_file_path f = path"
    "playing (file_at env path) (audio_block (env path)) q k (?nd, fi_controller f)" "n_processed_frames ?nd = n"
    using assms(1) by (auto simp: node_playing_def)
  obtain r out c where g: "get_frame (replicate 320 0) 0 (fi_controller f) = (r, out, c)" by (metis prod_cases3)
  define nd1 where "nd1 = ?nd\<lparr>n_body := FileInput (f\<lparr>fi_controller := c\<rparr>), n_processed_frames := n + 1\<rparr>"
  have at: "file_at env path (q + 2) nd1"
    using f file_at_cong [of nd1 ?nd f "f\<lparr>fi_controller := c\<rparr>"] by (simp add: playing_def nd1_def)
  have res: "r = Inr () \<and> out = due_frame (audio_block (env path)) q k
      \<and> playing (file_at env path) (audio_block (env path)) (if k < 409 then q else q + 1) (if k < 409 then k + 1 else 1)
          (settle (fetch_bytes env) (nd1, c))"
    using file_source.get_frame_playing [OF f(4) at g] by simp
  have "process_frame e p h (replicate 320 0) = Some (Inr (), out, h[p := nd1])"
    using f assms(3) node_playing_total [OF assms(1)] node_playing_count [OF assms(1,3)] g res
    by (simp add: process_frame_def file_process_frame_def apply_effects_def nd1_def)
  then have step: "frame_step e env p h = Some (Inr (), out, h[p := run_refills env nd1])"
    using assms(2) by (simp add: frame_step_def upd_def)
  obtain nd2 c2 where s: "settle (fetch_bytes env) (nd1, c) = (nd2, c2)" by fastforce
  then have "same_but_file nd1 nd2" using settle_same [of nd1 env c] by simp
  then obtain f2 where f2: "n_body nd2 = FileInput f2" "fi_options f2 = None" "fi_file_path f2 = path" "n_processed_frames nd2 = n + 1"
    using f by (auto simp: same_but_file_def nd1_def)
  have "run_refills env nd1 = set_controller c2 nd2"
    using s by (simp add: run_refills_def nd1_def)
  then have "node_playing env path (if k < 409 then q else q + 1) (if k < 409 then k + 1 else 1) (n + 1) (run_refills env nd1)"
    using res s f2 playing_set_controller [OF _ f2(1)]
    by (auto simp: node_playing_def set_controller_def)
  then show ?thesis using step res assms(2) by simp
qed

definition fresh_file_input :: "string \<Rightarrow> nat \<Rightarrow> node \<Rightarrow> bool" where
  "fresh_file_input path k nd \<longleftrightarrow> n_processed_frames nd = int k \<and>
     (\<exists>f. n_body nd = FileInput f \<and> fi_options f = None \<and> fi_file_path f = path \<and> \<not> fh_open (fi_handle f)
       \<and> controller_inv (fi_controller f) \<and> tasks (fi_controller f) = [] \<and> in_buffer_processed_frames (fi_controller f) = k)"

lemma fresh_new_file_input: "fresh_file_input path 0 (new_file_input name path)"
proof -
  have "tasks new_controller = []" "in_buffer_processed_frames new_controller = 0"
    by (simp_all add: new_controller_def)
  then show ?thesis
    by (simp add: fresh_file_input_def new_file_input_def new_node_def inv_intros)
qed

lemma initialize_buffers_playing:
  assumes "fresh_file_input path k nd" and "file_ok (env path)" and "k \<le> 409"
  shows "node_playing env path 0 k (int k) (initialize_buffers env nd)"
proof -
  obtain f where f: "n_body nd = FileInput f" "fi_options f = None" "fi_file_path f = path" "\<not> fh_open (fi_handle f)"
    "controller_inv (fi_controller f)" "tasks (fi_controller f) = []" "in_buffer_processed_frames (fi_controller f) = k"
    "n_processed_frames nd = int k"
    using assms(1) by (auto simp: fresh_file_input_def)
  have at: "file_at env path 0 nd" using f assms(2) by (simp add: file_at_def)
  obtain nd1 c where i: "initialize_now (fetch_bytes env) (nd, fi_controller f) = (nd1, c)" by fastforce
  then have pl: "playing (file_at env path) (audio_block (env path)) 0 k (nd1, c)"
    using file_source.initialize_playing [OF at f(5,6,7) assms(3)] by simp
  have "same_but_file nd nd1" using initialize_now_same [of nd env "fi_controller f"] i by simp
  then obtain f1 where f1: "n_body nd1 = FileInput f1" "fi_options f1 = None" "fi_file_path f1 = path" "n_processed_frames nd1 = int k"
    using f by (auto simp: same_but_file_def)
  have "initialize_buffers env nd = set_controller c nd1"
    using f(1) i by (simp add: initialize_buffers_def)
  then show ?thesis
    using playing_set_controller [OF pl f1(1)] f1 by (simp add: node_playing_def set_controller_def)
qed

lemma due_frame_audio:
  assumes "k \<le> 409"
  shows "due_frame (audio_block io) q k = take 320 (drop ((q * 409 + k) div 409 * 131072 + (q * 409 + k) mod 409 * 320) (audio io) @ replicate 320 0)"
  using due_frame_nth [OF assms, of "audio_block io" q] audio_block_frame [of "(q * 409 + k) mod 409" io "(q * 409 + k) div 409"]
  by simp

lemma play_playing:
  assumes "node_playing env path 0 0 0 (h ! p)" and "p < length h" and "n \<le> length (audio (env path)) div 320"
  shows "\<exists>h' q k. play e env p n h = Some h' \<and> node_playing env path q k (int n) (h' ! p) \<and> length h' = length h
    \<and> n = q * 409 + k"
  using assms(3)
proof (induction n)
  case 0
  then show ?case using assms(1) by auto
next
  case (Suc n)
  then obtain h' q k where h': "play e env p n h = Some h'" "node_playing env path q k (int n) (h' ! p)"
    "length h' = length h" "n = q * 409 + k" by auto
  obtain h'' where h'': "frame_step e env p h' = Some (Inr (), due_frame (audio_block (env path)) q k, h'')"
    "node_playing env path (if k < 409 then q else q + 1) (if k < 409 then k + 1 else 1) (int n + 1) (h'' ! p)" "length h'' = length h'"
    using frame_step_playing [OF h'(2)] assms(2) h'(3) Suc.prems by force
  have "k \<le> 409" using h'(2) by (auto simp: node_playing_def playing_def)
  then have "Suc n = (if k < 409 then q else q + 1) * 409 + (if k < 409 then k + 1 else 1)"
    using h'(4) by auto
  moreover have "play e env p (Suc n) h = Some h''" using h'(1) h''(1) by simp
  ultimately show ?case using h'' h'(3) by (metis of_nat_Suc add.commute)
qed

section \<open>After a reset\<close>

lemma after_gets_reset:
  assumes "controller_inv c" and "tasks c = []" and "k \<le> 409"
  shows "after_gets k (reset_controller c) = (reset_controller c)\<lparr>in_buffer_processed_frames := k\<rparr>
    \<and> (k < 409 \<longrightarrow> fst (get_frame (replicate 320 0) 0 (after_gets k (reset_controller c))) = Inr ()
        \<and> fst (snd (get_frame (replicate 320 0) 0 (after_gets k (reset_controller c)))) = replicate 320 0)"
proof -
  let ?c = "reset_controller c"
  have inv: "buffer_inv (bf ?c)"
    using assms(1) by (simp add: reset_controller_def controller_inv_def inv_intros)
  have zero: "block (get_read_span (bf ?c)) (bf ?c) = replicate 131072 0"
    using assms(1)
    by (simp add: reset_controller_def reset_blocks_def set_read_index_def get_read_span_def block_def
        controller_inv_def buffer_inv_def)
  have get: "get_frame (replicate 320 0) 0 (?c\<lparr>in_buffer_processed_frames := j\<rparr>)
      = (Inr (), replicate 320 0, ?c\<lparr>in_buffer_processed_frames := Suc j\<rparr>)" if "j < 409" for j
  proof -
    have "j * 320 + 320 \<le> (131072 :: nat)" using that by simp
    then show ?thesis by (simp add: get_frame_def Let_def zero put_all min_def)
  qed
  have "after_gets k ?c = ?c\<lparr>in_buffer_processed_frames := k\<rparr>"
    using assms(3)
  proof (induction k)
    case 0
    then show ?case by (simp add: reset_controller_def)
  next
    case (Suc k)
    then show ?case using get [of k] by simp
  qed
  then show ?thesis using get by simp
qed

section \<open>Properties\<close>

text \<open>C12: What a file input without options really plays of a readable file, when each refill completes before the next frame
  is asked for. Its \<open>n\<close>-th frame is the 320 bytes of audio at \<open>(n div 409) * 131072 + (n mod 409) * 320\<close>,
  padded with silence: of every block of 131072 bytes the last 192 are skipped. After \<open>size div 320\<close> frames it reports the
  end of the stream.\<close>

theorem file_stream:
  assumes "file_ok (env path)" and "p < length h" and "h ! p = initialize_buffers env (new_file_input name path)"
    and "n \<le> length (audio (env path)) div 320" and "0 < length (audio (env path)) div 320"
  shows "\<exists>h' h''. play e env p n h = Some h' \<and>
    (if n < length (audio (env path)) div 320
     then frame_step e env p h' = Some (Inr (),
       take 320 (drop (n div 409 * 131072 + n mod 409 * 320) (audio (env path)) @ replicate 320 0), h'')
     else \<exists>err. frame_step e env p h' = Some (Inl err, replicate 320 0, h'') \<and> ne_code err = EndOfStream)"
proof -
  have "node_playing env path 0 0 0 (h ! p)"
    using initialize_buffers_playing [of path 0 _ env, OF fresh_new_file_input assms(1)] assms(3) by simp
  then obtain h' q k where h': "play e env p n h = Some h'" "node_playing env path q k (int n) (h' ! p)"
    "length h' = length h" "n = q * 409 + k"
    using play_playing assms(2,4) by blast
  have k: "k \<le> 409" using h'(2) by (auto simp: node_playing_def playing_def)
  show ?thesis
  proof (cases "n < length (audio (env path)) div 320")
    case True
    then show ?thesis
      using frame_step_playing [OF h'(2), of e] h' assms(2) due_frame_audio [OF k, of "env path" q] by force
  next
    case False
    obtain f where f: "n_body (h' ! p) = FileInput f" "n_processed_frames (h' ! p) = int n"
      using h'(2) by (auto simp: node_playing_def)
    have "process_frame e p h' (replicate 320 0)
        = Some (fail_node EndOfStream (''End of stream for '' @ n_id (h' ! p)) (h' ! p), replicate 320 0, h')"
      using f False assms(4,5) node_playing_total [OF h'(2)]
      by (simp add: process_frame_def file_process_frame_def Let_def)
    then show ?thesis using h'(1) False by (simp add: frame_step_def fail_node_def)
  qed
qed

text \<open>The file of the examples: \<open>n\<close> bytes of headerless audio.\<close>

definition plain_file :: "nat \<Rightarrow> file_io" where
  "plain_file n = \<lparr>io_open_ec = \<lambda>_. None, io_content = replicate n 85, io_header = Some 256,
     io_seek_fails = False, io_rewind_fails = False, io_size_fails = False, io_close_ec = None, io_read_fails = \<lambda>_. None\<rparr>"

definition ideal_float :: float_env where
  "ideal_float = \<lparr>e_rnd = \<lambda>x. x, e_powf = \<lambda>x. 1, e_tanhf = \<lambda>x. 0\<rparr>"

lemma plain_file:
  assumes "256 \<le> n" and "n < 2 ^ 31"
  shows "file_ok (plain_file n)" and "audio (plain_file n) = replicate n 85"
proof -
  show "file_ok (plain_file n)" using assms by (simp add: file_ok_def plain_file_def)
  have "\<not> bytes_at (replicate 256 85) 0 ''RIFF''"
    by code_simp
  then show "audio (plain_file n) = replicate n 85"
    using assms by (simp add: audio_def audio_offset_def plain_file_def get_audio_data_offset_def min_def)
qed

lemma file_stream_witness:
  "\<exists>h' h''. play ideal_float (\<lambda>_. plain_file 1000) 0 2 [initialize_buffers (\<lambda>_. plain_file 1000) (new_file_input ''a'' ''a.wav'')] = Some h'
    \<and> frame_step ideal_float (\<lambda>_. plain_file 1000) 0 h' = Some (Inr (), replicate 320 85, h'')"
  using file_stream [of "\<lambda>_. plain_file 1000" "''a.wav''" 0
      "[initialize_buffers (\<lambda>_. plain_file 1000) (new_file_input ''a'' ''a.wav'')]" "''a''" 2 ideal_float]
    plain_file [of 1000] by (simp add: min_def)

text \<open>Because 192 bytes of every block are skipped, the stream runs ahead of the file and its last
  frames are silence: of ten blocks of audio, which count as 4096 frames, the last six are zeros
  whatever the file holds.\<close>

theorem last_frames_silent:
  assumes "file_ok (env path)" and "p < length h" and "h ! p = initialize_buffers env (new_file_input name path)"
    and "length (audio (env path)) = 10 * BUFFER_SIZE" and "4090 \<le> n" and "n < 4096"
  shows "\<exists>h' h''. play e env p n h = Some h' \<and> frame_step e env p h' = Some (Inr (), replicate 320 0, h'')"
proof -
  have "node_playing env path 0 0 0 (h ! p)"
    using initialize_buffers_playing [of path 0 _ env, OF fresh_new_file_input assms(1)] assms(3) by simp
  moreover have "n \<le> length (audio (env path)) div 320" using assms(4,6) by simp
  ultimately obtain h' q k where h': "play e env p n h = Some h'" "node_playing env path q k (int n) (h' ! p)"
    "length h' = length h" "n = q * 409 + k"
    using play_playing assms(2) by blast
  have k: "k \<le> 409" using h'(2) by (auto simp: node_playing_def playing_def)
  have "10 \<le> n div 409" using assms(5) by linarith
  then have "drop (n div 409 * 131072 + n mod 409 * 320) (audio (env path)) = []" using assms(4) by simp
  then have "due_frame (audio_block (env path)) q k = replicate 320 0"
    using due_frame_audio [OF k, of "env path" q] h'(4) by simp
  then show ?thesis
    using frame_step_playing [OF h'(2), of e] h' assms(2,4,6) by fastforce
qed

lemma last_frames_silent_witness:
  "\<exists>h' h''. play ideal_float (\<lambda>_. plain_file 1310720) 0 4095
       [initialize_buffers (\<lambda>_. plain_file 1310720) (new_file_input ''a'' ''a.wav'')] = Some h'
    \<and> frame_step ideal_float (\<lambda>_. plain_file 1310720) 0 h' = Some (Inr (), replicate 320 0, h'')"
  by (rule last_frames_silent [of _ "''a.wav''" _ _ "''a''"]) (simp_all add: plain_file)

text \<open>A file input in a loop that is pulled \<open>k\<close> times between its \<open>close\<close> and the completion of the
  refill it spawned gives \<open>k\<close> frames of silence and then goes on at the \<open>k\<close>-th frame of the file:
  the first \<open>k\<close> frames are lost.\<close>

theorem loop_restart_skips:
  assumes "file_ok (env path)" and "p < length h" and "controller_inv c" and "tasks c = []"
    and "n_body (h ! p) = FileInput f" and "fi_file_path f = path" and "fi_options f = None" and "\<not> fh_open (fi_handle f)"
    and "fi_controller f = after_gets k (reset_controller c)" and "n_processed_frames (h ! p) = int k"
    and "k < 409" and "k < length (audio (env path)) div 320"
  shows "(\<forall>j < k. fst (snd (get_frame (replicate 320 0) 0 (after_gets j (reset_controller c)))) = replicate 320 0)
    \<and> (\<exists>h'. frame_step e env p (upd p (initialize_buffers env) h) =
         Some (Inr (), take 320 (drop (k * 320) (audio (env path)) @ replicate 320 0), h'))"
proof -
  have "fi_controller f = (reset_controller c)\<lparr>in_buffer_processed_frames := k\<rparr>"
    using after_gets_reset [OF assms(3,4), of k] assms(9,11) by simp
  moreover have "controller_inv ((reset_controller c)\<lparr>in_buffer_processed_frames := k\<rparr>)"
    using assms(3) by (simp add: reset_controller_def controller_inv_def inv_intros)
  ultimately have "fresh_file_input path k (h ! p)"
    using assms(4-8,10) by (simp add: fresh_file_input_def reset_controller_def)
  then have "node_playing env path 0 k (int k) (upd p (initialize_buffers env) h ! p)"
    using initialize_buffers_playing [of path k "h ! p" env] assms(1,2,11) by (simp add: upd_def)
  then have "\<exists>h'. frame_step e env p (upd p (initialize_buffers env) h) =
         Some (Inr (), due_frame (audio_block (env path)) 0 k, h')"
    using frame_step_playing [of env path 0 k "int k" "upd p (initialize_buffers env) h" p e] assms(2,12)
    by (auto simp: upd_def)
  then have "\<exists>h'. frame_step e env p (upd p (initialize_buffers env) h) =
         Some (Inr (), take 320 (drop (k * 320) (audio (env path)) @ replicate 320 0), h')"
    using due_frame_audio [of k "env path" 0] assms(11) by simp
  moreover have "\<forall>j < k. fst (snd (get_frame (replicate 320 0) 0 (after_gets j (reset_controller c)))) = replicate 320 0"
  proof (intro allI impI)
    fix j
    assume "j < k"
    then show "fst (snd (get_frame (replicate 320 0) 0 (after_gets j (reset_controller c)))) = replicate 320 0"
      using after_gets_reset [OF assms(3,4), of j] assms(11) by linarith
  qed
  ultimately show ?thesis by blast
qed

lemma loop_restart_skips_witness:
  "\<exists>h'. frame_step ideal_float (\<lambda>_. plain_file 1000) 0
      (upd 0 (initialize_buffers (\<lambda>_. plain_file 1000))
        [(new_file_input ''a'' ''a.wav'')\<lparr>n_processed_frames := 2,
           n_body := FileInput \<lparr>fi_file_name = ''a'', fi_file_path = ''a.wav'', fi_handle = \<lparr>fh_open = False, fh_pos = 0\<rparr>,
             fi_options = None, fi_pitch_shifter = default_pitch_shifter,
             fi_controller = after_gets 2 (reset_controller new_controller), fi_spawned_inits = 0\<rparr>\<rparr>])
    = Some (Inr (), replicate 320 85, h')"
proof -
  have t: "tasks new_controller = []" by (simp add: new_controller_def)
  show ?thesis
    using loop_restart_skips [of "\<lambda>_. plain_file 1000" "''a.wav''" 0
        "[(new_file_input ''a'' ''a.wav'')\<lparr>n_processed_frames := 2,
           n_body := FileInput \<lparr>fi_file_name = ''a'', fi_file_path = ''a.wav'', fi_handle = \<lparr>fh_open = False, fh_pos = 0\<rparr>,
             fi_options = None, fi_pitch_shifter = default_pitch_shifter,
             fi_controller = after_gets 2 (reset_controller new_controller), fi_spawned_inits = 0\<rparr>\<rparr>]"
        new_controller _ 2 ideal_float]
      plain_file [of 1000] t controller_inv_new by (simp add: min_def)
qed

end
