(* ===== verification/Graph_Safety.thy ===== *)
theory Graph_Safety
  imports Executor File_Input
begin

text \<open>
  The invariant of a graph in play: targets and inputs are nodes of the graph, mixers mix file
  inputs, options belong to their kind and are in range. Wiring establishes it, processing a frame
  keeps it and, under it, returns without undefined behaviour.
\<close>

section \<open>The invariant\<close>

definition float_ok :: "float_env \<Rightarrow> bool" where
  "float_ok e \<longleftrightarrow> rnd_ok (e_rnd e) \<and> (\<forall>x. -1 \<le> e_tanhf e x \<and> e_tanhf e x \<le> 1)"

definition options_ok :: "float_env \<Rightarrow> rat \<Rightarrow> rat \<Rightarrow> bool" where
  "options_ok e g shift \<longleftrightarrow> \<bar>e_rnd e g\<bar> \<le> 65535
     \<and> 0 \<le> e_powf e (e_rnd e (e_rnd e shift / 12)) \<and> e_powf e (e_rnd e (e_rnd e shift / 12)) \<le> 401"

fun is_file :: "node \<Rightarrow> bool" where
  "is_file nd = (case n_body nd of FileInput f \<Rightarrow> True | _ \<Rightarrow> False)"

lemma is_file_iff: "is_file nd \<longleftrightarrow> (\<exists>f. n_body nd = FileInput f)"
  by (cases "n_body nd") simp_all

definition body_ok :: "float_env \<Rightarrow> heap \<Rightarrow> node_body \<Rightarrow> bool" where
  "body_ok e h b = (case b of
     FileInput f \<Rightarrow> controller_inv (fi_controller f) \<and> shifter_inv (fi_pitch_shifter f)
       \<and> (\<forall>p. fi_options f = Some p \<longrightarrow> p < length h \<and> (\<exists>g s. n_body (h ! p) = FileOptions g s \<and> options_ok e g s))
   | Mixer inputs \<Rightarrow> length inputs \<le> 65535 \<and> (\<forall>i\<in>set inputs. i < length h \<and> is_file (h ! i))
   | _ \<Rightarrow> True)"

definition wf_heap :: "float_env \<Rightarrow> heap \<Rightarrow> bool" where
  "wf_heap e h \<longleftrightarrow> wf_targets h \<and> (\<forall>nd\<in>set h. body_ok e h (n_body nd))"

text \<open>Two heaps of the same wiring: nothing but counters, flags and the insides of file inputs differ.\<close>

definition same_kind :: "node_body \<Rightarrow> node_body \<Rightarrow> bool" where
  "same_kind b b' = (case b of FileInput f \<Rightarrow> (\<exists>f'. b' = FileInput f') | _ \<Rightarrow> b' = b)"

definition same_wiring :: "heap \<Rightarrow> heap \<Rightarrow> bool" where
  "same_wiring h h' \<longleftrightarrow> length h' = length h
     \<and> (\<forall>p < length h. n_target (h' ! p) = n_target (h ! p) \<and> n_id (h' ! p) = n_id (h ! p)
          \<and> same_kind (n_body (h ! p)) (n_body (h' ! p)))"

lemma same_kind_refl [simp]: "same_kind b b"
  by (simp add: same_kind_def split: node_body.split)

lemma same_kind_trans: "same_kind a b \<Longrightarrow> same_kind b c \<Longrightarrow> same_kind a c"
  by (cases a; cases b) (simp_all add: same_kind_def)

lemma same_wiring_refl [simp]: "same_wiring h h"
  by (simp add: same_wiring_def)

lemma same_wiring_trans: "same_wiring h h' \<Longrightarrow> same_wiring h' h'' \<Longrightarrow> same_wiring h h''"
  unfolding same_wiring_def by (metis same_kind_trans)

lemma same_wiring_upd:
  assumes "p < length h" and "n_target nd = n_target (h ! p)" and "n_id nd = n_id (h ! p)"
    and "same_kind (n_body (h ! p)) (n_body nd)"
  shows "same_wiring h (h[p := nd])"
  using assms by (auto simp: same_wiring_def nth_list_update)

lemma same_wiring_options:
  "same_wiring h h' \<Longrightarrow> p < length h \<Longrightarrow> n_body (h ! p) = FileOptions g s \<Longrightarrow> n_body (h' ! p) = FileOptions g s"
  by (auto simp: same_wiring_def same_kind_def)

lemma same_wiring_is_file: "same_wiring h h' \<Longrightarrow> p < length h \<Longrightarrow> is_file (h ! p) \<Longrightarrow> is_file (h' ! p)"
  by (force simp: is_file_iff same_wiring_def same_kind_def simp del: is_file.simps)

lemma body_ok_wiring:
  assumes "same_wiring h h'" and "body_ok e h b"
  shows "body_ok e h' b"
proof -
  have len: "length h' = length h" using assms(1) by (simp add: same_wiring_def)
  show ?thesis
  proof (cases b)
    case (FileInput f)
    then show ?thesis
      using assms(2) len same_wiring_options [OF assms(1)] by (simp add: body_ok_def) blast
  next
    case (Mixer inputs)
    then show ?thesis
      using assms(2) len same_wiring_is_file [OF assms(1)] by (simp add: body_ok_def del: is_file.simps)
  qed (simp_all add: body_ok_def)
qed

lemma wf_heap_upd:
  assumes "wf_heap e h" and "p < length h" and "n_target nd = n_target (h ! p)" and "n_id nd = n_id (h ! p)"
    and "same_kind (n_body (h ! p)) (n_body nd)" and "body_ok e h (n_body nd)"
  shows "wf_heap e (h[p := nd])"
proof -
  have w: "same_wiring h (h[p := nd])" using assms(2-5) by (rule same_wiring_upd)
  have "wf_targets (h[p := nd])"
    using assms(1-3) by (auto simp: wf_heap_def wf_targets_def nth_list_update)
  moreover have "body_ok e (h[p := nd]) (n_body nd')" if "nd' \<in> set (h[p := nd])" for nd'
    using that assms(1,6) body_ok_wiring [OF w]
    by (auto simp: wf_heap_def dest!: set_update_subset_insert [THEN subsetD])
  ultimately show ?thesis by (simp add: wf_heap_def)
qed

lemma wf_heap_nth: "wf_heap e h \<Longrightarrow> p < length h \<Longrightarrow> body_ok e h (n_body (h ! p))"
  by (simp add: wf_heap_def)

section \<open>Room in the counters\<close>

text \<open>
  The counters of the nodes are \<open>int\<close>s that nothing bounds: a node that never ends, as a delay of zero frames,
  counts until \<open>++\<close> overflows. \<open>room k h\<close>: no counter of \<open>h\<close> overflows within \<open>k\<close> increments.
\<close>

definition has_room :: "nat \<Rightarrow> node \<Rightarrow> bool" where
  "has_room k nd \<longleftrightarrow> n_processed_frames nd + int k < 2 ^ 31 \<and> n_in_buffer_processed_frames nd + int k < 2 ^ 31"

definition room :: "nat \<Rightarrow> heap \<Rightarrow> bool" where
  "room k h \<longleftrightarrow> k < 2 ^ 31 \<and> (\<forall>nd\<in>set h. has_room k nd)"

text \<open>How often a pull of the node at \<open>p\<close> counts at most, in any one counter.\<close>

definition pulls :: "heap \<Rightarrow> nat \<Rightarrow> nat" where
  "pulls h p = (case n_body (h ! p) of Mixer inputs \<Rightarrow> Suc (length inputs) | _ \<Rightarrow> 1)"

text \<open>\<open>n\<close> more frames can be pulled, from whichever nodes, of which none counts more than \<open>m\<close> times a frame.\<close>

definition frames_left :: "nat \<Rightarrow> nat \<Rightarrow> heap \<Rightarrow> bool" where
  "frames_left m n h \<longleftrightarrow> room (m * n) h \<and> (\<forall>p < length h. pulls h p \<le> m)"

text \<open>Nothing has been counted since, but counters may have been reset.\<close>

definition calmer :: "heap \<Rightarrow> heap \<Rightarrow> bool" where
  "calmer = list_all2 (\<lambda>nd nd'. n_processed_frames nd' \<in> {0, n_processed_frames nd}
     \<and> n_in_buffer_processed_frames nd' \<in> {0, n_in_buffer_processed_frames nd})"

lemma room_mono: "room k h \<Longrightarrow> j \<le> k \<Longrightarrow> room j h"
  by (force simp: room_def has_room_def)

lemma room_nth: "room k h \<Longrightarrow> p < length h \<Longrightarrow> has_room k (h ! p)"
  by (simp add: room_def)

lemma room_upd: "room k h \<Longrightarrow> has_room k nd \<Longrightarrow> room k (h[p := nd])"
  by (auto simp: room_def dest!: set_update_subset_insert [THEN subsetD])

lemma calmer_refl [simp]: "calmer h h"
  by (simp add: calmer_def list_all2_refl)

lemma calmer_trans: "calmer h h' \<Longrightarrow> calmer h' h'' \<Longrightarrow> calmer h h''"
  unfolding calmer_def by (erule (1) list_all2_trans [rotated]) auto

lemma calmer_nth:
  assumes "length h' = length h"
    and "\<And>p. p < length h \<Longrightarrow> n_processed_frames (h' ! p) \<in> {0, n_processed_frames (h ! p)}
           \<and> n_in_buffer_processed_frames (h' ! p) \<in> {0, n_in_buffer_processed_frames (h ! p)}"
  shows "calmer h h'"
  using assms by (simp add: calmer_def list_all2_conv_all_nth)

lemma calmer_upd:
  assumes "n_processed_frames nd \<in> {0, n_processed_frames (h ! p)}"
    and "n_in_buffer_processed_frames nd \<in> {0, n_in_buffer_processed_frames (h ! p)}"
  shows "calmer h (h[p := nd])"
proof (rule calmer_nth)
  fix i
  assume "i < length h"
  then show "n_processed_frames (h[p := nd] ! i) \<in> {0, n_processed_frames (h ! i)}
      \<and> n_in_buffer_processed_frames (h[p := nd] ! i) \<in> {0, n_in_buffer_processed_frames (h ! i)}"
    using assms by (cases "i = p") simp_all
qed simp

lemma calmer_room: "calmer h h' \<Longrightarrow> room k h \<Longrightarrow> room k h'"
  unfolding calmer_def room_def has_room_def
  by (auto simp: list_all2_conv_all_nth in_set_conv_nth) (metis add_0 nth_mem of_nat_less_iff of_nat_numeral of_nat_power)+

lemma same_wiring_pulls: "same_wiring h h' \<Longrightarrow> p < length h \<Longrightarrow> pulls h' p = pulls h p"
  by (cases "n_body (h ! p)") (auto simp: same_wiring_def same_kind_def pulls_def split: node_body.splits)

lemma frames_left_calmer: "frames_left m n h \<Longrightarrow> same_wiring h h' \<Longrightarrow> calmer h h' \<Longrightarrow> frames_left m n h'"
  using calmer_room same_wiring_pulls by (auto simp: frames_left_def same_wiring_def)

lemma frames_left_mono: "frames_left m n h \<Longrightarrow> k \<le> n \<Longrightarrow> frames_left m k h"
  using room_mono by (auto simp: frames_left_def)

lemma next_count_cases: "case next_count n of None \<Rightarrow> 2 ^ 31 - 1 \<le> n | Some m \<Rightarrow> m = n + 1"
  by (simp add: next_count_def)

lemma count_frame_cases:
  "case count_frame nd of None \<Rightarrow> \<not> has_room 1 nd
   | Some nd' \<Rightarrow> n_body nd' = n_body nd \<and> n_target nd' = n_target nd \<and> n_id nd' = n_id nd
       \<and> n_total_frames nd' = n_total_frames nd \<and> (\<forall>k. has_room (Suc k) nd \<longrightarrow> has_room k nd')"
  by (auto simp: count_frame_def next_count_def has_room_def split: option.split)

section \<open>Processing a frame\<close>

lemma get_frame_length:
  assumes "controller_inv c" and "length out = 320" and "get_frame out 0 c = (r, out', c')"
  shows "length out' = 320"
proof -
  have "buffer_inv (bf c)" "buffer_inv (swap_blocks (bf c))" using assms(1) by (simp_all add: controller_inv_def inv_intros)
  then show ?thesis
    using assms(2,3)
    by (auto simp: get_frame_def Let_def swap_and_trigger_refill_def split: if_splits)
qed

lemma length_concat_le16 [simp]: "length (concat (map le16 xs)) = 2 * length xs"
  by (induction xs) (simp_all add: le16_def)

lemma length_store_samples [simp]: "2 * length xs \<le> length b \<Longrightarrow> length (store_samples xs b) = length b"
  by (simp add: store_samples_def)

lemma apply_effects_total:
  assumes "float_ok e" and "body_ok e h (FileInput f)" and "length buffer = 320"
  shows "\<exists>f' out. apply_effects e h f buffer = Some (f', out) \<and> length out = 320
    \<and> f' = f\<lparr>fi_pitch_shifter := fi_pitch_shifter f'\<rparr> \<and> shifter_inv (fi_pitch_shifter f')"
proof (cases "fi_options f")
  case None
  then show ?thesis using assms(2,3) by (simp add: apply_effects_def body_ok_def)
next
  case (Some p)
  then obtain g s where p: "n_body (h ! p) = FileOptions g s" and o: "options_ok e g s"
    using assms(2) by (auto simp: body_ok_def)
  have ps: "shifter_inv (fi_pitch_shifter f)" using assms(2) by (simp add: body_ok_def)
  obtain ys where ys: "(if g \<noteq> 1 then apply_gain (e_rnd e) (e_rnd e g) (as_samples buffer) else Some (as_samples buffer)) = Some ys"
    "length ys = 160"
    using assms(1,3) o apply_gain_eq [of "e_rnd e" "e_rnd e g" "as_samples buffer"]
    by (cases "g = 1") (auto simp: float_ok_def options_ok_def)
  obtain ps' zs where zs: "(if s \<noteq> 0 then process_pitch (e_rnd e) (e_powf e) (fi_pitch_shifter f) ys (e_rnd e s)
      else Some (fi_pitch_shifter f, ys)) = Some (ps', zs)" "shifter_inv ps'" "length zs = 160"
    using assms(1) o ps ys(2) process_pitch_total [of "e_rnd e" "fi_pitch_shifter f" "e_powf e" "e_rnd e s" ys]
    by (cases "s = 0") (auto simp: float_ok_def options_ok_def)
  show ?thesis
    using Some p ys zs assms(3) by (simp add: apply_effects_def)
qed

text \<open>
  What processing a frame gives: no result only if a counter has no room for \<open>n\<close> increments, and otherwise a
  full buffer and a well-formed graph of the same wiring whose counters have used at most \<open>n\<close>.
\<close>

definition frame_outcome ::
  "float_env \<Rightarrow> nat \<Rightarrow> heap \<Rightarrow> ((node_error, unit) expected \<times> bytes \<times> heap) option \<Rightarrow> bool" where
  "frame_outcome e n h result = (case result of None \<Rightarrow> \<not> room n h
     | Some (r, out, h') \<Rightarrow> length out = 320 \<and> wf_heap e h' \<and> same_wiring h h' \<and> (\<forall>k. room (n + k) h \<longrightarrow> room k h'))"

lemma frame_outcome_None [simp]: "frame_outcome e n h None \<longleftrightarrow> \<not> room n h"
  by (simp add: frame_outcome_def)

lemma frame_outcome_same: "wf_heap e h \<Longrightarrow> length out = 320 \<Longrightarrow> frame_outcome e n h (Some (r, out, h))"
  by (auto simp: frame_outcome_def intro: room_mono)

lemma frame_outcome_upd:
  assumes "wf_heap e h" and "p < length h" and "n_target nd = n_target (h ! p)" and "n_id nd = n_id (h ! p)"
    and "same_kind (n_body (h ! p)) (n_body nd)" and "body_ok e h (n_body nd)" and "length out = 320"
    and "\<And>k. has_room (n + k) (h ! p) \<Longrightarrow> has_room k nd"
  shows "frame_outcome e n h (Some (r, out, h[p := nd]))"
proof -
  have "room k (h[p := nd])" if "room (n + k) h" for k
    using room_upd [OF room_mono [OF that], of k nd p] assms(8) [OF room_nth [OF that assms(2)]] by simp
  then show ?thesis
    using wf_heap_upd [OF assms(1-6)] same_wiring_upd [OF assms(2-5)] assms(7) by (simp add: frame_outcome_def)
qed

lemma file_process_frame_outcome:
  assumes "float_ok e" and "wf_heap e h" and "p < length h" and "n_body (h ! p) = FileInput f" and "length buffer = 320"
  shows "frame_outcome e 1 h (file_process_frame e p f h buffer)"
proof (cases "n_processed_frames (h ! p) \<ge> n_total_frames (h ! p) \<and> n_total_frames (h ! p) > 0")
  case True
  then show ?thesis using assms(2,5) by (simp add: file_process_frame_def Let_def frame_outcome_same)
next
  case False
  have ok: "body_ok e h (FileInput f)" using wf_heap_nth [OF assms(2,3)] assms(4) by simp
  then have c: "controller_inv (fi_controller f)" by (simp add: body_ok_def)
  obtain r out c' where g: "get_frame buffer 0 (fi_controller f) = (r, out, c')" by (metis prod_cases3)
  have c': "controller_inv c'" using controller_inv_get_frame [OF c, of buffer 0] g by simp
  have out: "length out = 320" by (rule get_frame_length [OF c assms(5) g])
  have ok': "body_ok e h (FileInput (f\<lparr>fi_controller := c'\<rparr>))"
    using ok c' by (simp add: body_ok_def)
  have k: "same_kind (n_body (h ! p)) (FileInput f')" for f' using assms(4) by (simp add: same_kind_def)
  show ?thesis
  proof (cases r)
    case (Inl err)
    have "frame_outcome e 1 h (Some (Inl err, out, h[p := (h ! p)\<lparr>n_body := FileInput (f\<lparr>fi_controller := c'\<rparr>)\<rparr>]))"
      using k ok' out by (intro frame_outcome_upd [OF assms(2,3)]) (simp_all add: has_room_def)
    moreover have "file_process_frame e p f h buffer
        = Some (Inl err, out, h[p := (h ! p)\<lparr>n_body := FileInput (f\<lparr>fi_controller := c'\<rparr>)\<rparr>])"
      using False g Inl by (auto simp: file_process_frame_def Let_def)
    ultimately show ?thesis by simp
  next
    case (Inr u)
    obtain f' out' where e: "apply_effects e h (f\<lparr>fi_controller := c'\<rparr>) out = Some (f', out')" "length out' = 320"
      "f' = f\<lparr>fi_controller := c', fi_pitch_shifter := fi_pitch_shifter f'\<rparr>" "shifter_inv (fi_pitch_shifter f')"
      using apply_effects_total [OF assms(1) ok' out] by auto
    have "fi_controller f' = c'" "fi_options f' = fi_options f"
      using arg_cong [OF e(3), of fi_controller] arg_cong [OF e(3), of fi_options] by simp_all
    then have b: "body_ok e h (FileInput f')" using ok c' e(4) by (simp add: body_ok_def)
    have step: "file_process_frame e p f h buffer = (case next_count (n_processed_frames (h ! p)) of None \<Rightarrow> None
        | Some n \<Rightarrow> Some (Inr (), out', h[p := (h ! p)\<lparr>n_body := FileInput f', n_processed_frames := n\<rparr>]))"
      using False g Inr e(1) by (auto simp: file_process_frame_def Let_def split: option.split)
    show ?thesis
    proof (cases "next_count (n_processed_frames (h ! p))")
      case None
      then have "\<not> has_room 1 (h ! p)" by (simp add: next_count_def has_room_def split: if_splits)
      then show ?thesis using step None room_nth [OF _ assms(3)] by auto
    next
      case (Some n)
      then have "n = n_processed_frames (h ! p) + 1" by (simp add: next_count_def split: if_splits)
      then have "frame_outcome e 1 h (Some (Inr (), out', h[p := (h ! p)\<lparr>n_body := FileInput f', n_processed_frames := n\<rparr>]))"
        using k b e(2) by (intro frame_outcome_upd [OF assms(2,3)]) (simp_all add: has_room_def)
      then show ?thesis using step Some by simp
    qed
  qed
qed

lemma mix_inputs_outcome:
  assumes "float_ok e"
    and process: "\<And>s h temp. wf_heap e h \<Longrightarrow> s < length h \<Longrightarrow> is_file (h ! s) \<Longrightarrow> length temp = 320 \<Longrightarrow>
      frame_outcome e 1 h (process s h temp)"
  shows "wf_heap e h \<Longrightarrow> \<forall>s\<in>set ss. s < length h \<and> is_file (h ! s) \<Longrightarrow> length temp = 320 \<Longrightarrow>
    case mix_inputs process ss acc active h temp of None \<Rightarrow> \<not> room (length ss) h
    | Some (r, h') \<Rightarrow> wf_heap e h' \<and> same_wiring h h' \<and> (\<forall>k. room (length ss + k) h \<longrightarrow> room k h')
      \<and> (\<forall>acc' act. r = Inr (acc', act) \<longrightarrow> length acc' = length acc)"
proof (induction ss arbitrary: acc active h temp)
  case Nil
  then show ?case by simp
next
  case (Cons s ss)
  note step = process [OF Cons.prems(1) _ _ Cons.prems(3), of s]
  show ?case
  proof (cases "process s h temp")
    case None
    then have "\<not> room 1 h" using step Cons.prems(2) by simp
    then have "\<not> room (length (s # ss)) h" using room_mono [of "length (s # ss)" h 1] by auto
    then show ?thesis using None by simp
  next
    case (Some res)
    obtain r out h1 where res: "res = (r, out, h1)" by (metis prod_cases3)
    then have 1: "length out = 320" "wf_heap e h1" "same_wiring h h1" "\<forall>k. room (Suc k) h \<longrightarrow> room k h1"
      using step Some Cons.prems(2) by (simp_all add: frame_outcome_def)
    have ss: "\<forall>s\<in>set ss. s < length h1 \<and> is_file (h1 ! s)"
      using Cons.prems(2) 1(3) same_wiring_is_file [OF 1(3)] by (auto simp: same_wiring_def simp del: is_file.simps)
    note ih = Cons.IH [OF 1(2) ss 1(1)]
    have next1: "case mix_inputs process ss acc' active' h1 out of None \<Rightarrow> \<not> room (length (s # ss)) h
      | Some (r, h') \<Rightarrow> wf_heap e h' \<and> same_wiring h h' \<and> (\<forall>k. room (length (s # ss) + k) h \<longrightarrow> room k h')
        \<and> (\<forall>acc'' act. r = Inr (acc'', act) \<longrightarrow> length acc'' = length acc')" for acc' active'
    proof (cases "mix_inputs process ss acc' active' h1 out")
      case None
      then have "\<not> room (length ss) h1" using ih [of acc' active'] by simp
      then show ?thesis using None 1(4) by auto
    next
      case (Some res)
      obtain r' h' where "res = (r', h')" by fastforce
      then show ?thesis
        using ih [of acc' active'] Some 1(4) same_wiring_trans [OF 1(3), of h'] by auto
    qed
    have out: "case Some (r, h1) of None \<Rightarrow> \<not> room (length (s # ss)) h
      | Some (r, h') \<Rightarrow> wf_heap e h' \<and> same_wiring h h' \<and> (\<forall>k. room (length (s # ss) + k) h \<longrightarrow> room k h')" for r :: "(node_error, i32 list \<times> bool) expected"
      using 1 room_mono by force
    show ?thesis
    proof (cases r)
      case (Inl err)
      then show ?thesis using Some res next1 [of acc active] out by simp
    next
      case (Inr u)
      then show ?thesis using Some res next1 [of "sum_buffers acc (as_samples out)" True, unfolded length_sum_buffers] by simp
    qed
  qed
qed

lemma file_fuel_outcome:
  assumes "float_ok e" and "wf_heap e h" and "s < length h" and "is_file (h ! s)" and "length temp = 320"
  shows "frame_outcome e 1 h (process_frame_fuel e k s h temp)"
proof -
  obtain f where f: "n_body (h ! s) = FileInput f" using assms(4) unfolding is_file_iff by blast
  then show ?thesis using file_process_frame_outcome [OF assms(1-3) f assms(5)]
    by (subst process_frame_fuel.simps) (simp add: Let_def)
qed

declare process_frame_fuel.simps [simp del]

lemma count_frame_outcome:
  assumes "wf_heap e h" and "p < length h" and "length out = 320" and "\<not> is_file (h ! p)"
  shows "frame_outcome e 1 h (do { nd \<leftarrow> count_frame (h ! p); Some (r, out, h[p := nd]) })"
proof (cases "count_frame (h ! p)")
  case None
  then have "\<not> has_room 1 (h ! p)" using count_frame_cases [of "h ! p"] by simp
  then show ?thesis using None room_nth [OF _ assms(2)] by auto
next
  case (Some nd)
  then show ?thesis
    using count_frame_cases [of "h ! p"] wf_heap_nth [OF assms(1,2)] assms(3) frame_outcome_upd [OF assms(1,2), of nd out 1 r]
    by simp
qed

lemma process_frame_outcome:
  assumes "float_ok e" and "wf_heap e h" and "p < length h" and "length buffer = 320"
  shows "frame_outcome e (pulls h p) h (process_frame e p h buffer)"
proof (cases "n_body (h ! p)")
  case (FileInput f)
  then show ?thesis
    using file_fuel_outcome [OF assms(1-3) _ assms(4)] by (simp add: process_frame_def pulls_def)
next
  case (Delay d)
  then show ?thesis
    using count_frame_outcome [OF assms(2,3)] assms(4)
    by (simp add: process_frame_def process_frame_fuel.simps Let_def delay_process_frame_def pulls_def)
next
  case (Clients cs)
  then show ?thesis using assms by (simp add: process_frame_def process_frame_fuel.simps Let_def frame_outcome_same)
next
  case (FileOptions g s)
  then show ?thesis using assms by (simp add: process_frame_def process_frame_fuel.simps Let_def frame_outcome_same)
next
  case (Mixer inputs)
  have in_ok: "\<forall>s\<in>set inputs. s < length h \<and> is_file (h ! s)"
    using wf_heap_nth [OF assms(2,3)] Mixer by (simp add: body_ok_def)
  have n: "pulls h p = length inputs + 1" by (simp add: pulls_def Mixer)
  let ?acc = "replicate SAMPLES_PER_FRAME (0 :: i32)" and ?temp = "replicate FRAME_SIZE_BYTES (0 :: u8)"
  let ?mix = "mix_inputs (process_frame_fuel e 0) inputs ?acc False h ?temp"
  have m: "case ?mix of None \<Rightarrow> \<not> room (length inputs) h
    | Some (r, h') \<Rightarrow> wf_heap e h' \<and> same_wiring h h' \<and> (\<forall>k. room (length inputs + k) h \<longrightarrow> room k h')
      \<and> (\<forall>acc' act. r = Inr (acc', act) \<longrightarrow> length acc' = length ?acc)"
    by (rule mix_inputs_outcome [OF assms(1) file_fuel_outcome [OF assms(1)] assms(2) in_ok]) simp_all
  show ?thesis
  proof (cases ?mix)
    case None
    then have "\<not> room (length inputs + 1) h" using m room_mono [of "length inputs + 1" h "length inputs"] by auto
    then show ?thesis using None Mixer n
      by (simp add: process_frame_def process_frame_fuel.simps [of e "Suc 0"] Let_def)
  next
    case (Some res)
    obtain r h1 where res: "res = (r, h1)" by fastforce
    then have h1: "wf_heap e h1" "same_wiring h h1" "\<forall>k. room (length inputs + k) h \<longrightarrow> room k h1"
        "\<forall>acc act. r = Inr (acc, act) \<longrightarrow> length acc = length ?acc"
      using m Some by simp_all
    have p1: "p < length h1" using h1(2) assms(3) by (simp add: same_wiring_def)
    have kept: "frame_outcome e (pulls h p) h (Some (r', out, h1))" if "length out = 320" for r' out
      using h1(1,2) that h1(3) [rule_format, of "Suc _"] room_mono [of "Suc _" h1] by (force simp: frame_outcome_def n)
    show ?thesis
    proof (cases r)
      case (Inl err)
      then show ?thesis using kept [OF assms(4)] Some res Mixer
        by (simp add: process_frame_def process_frame_fuel.simps [of e "Suc 0"] Let_def)
    next
      case (Inr res')
      obtain acc act where acc: "res' = (acc, act)" by (cases res')
      have "length acc = 160" using h1(4) Inr acc by (simp add: SAMPLES_PER_FRAME_def)
      then obtain out where c: "compress_and_export (e_rnd e) (e_tanhf e) acc buffer = Some out" "length out = 320"
        using compress_and_export_total [of "e_rnd e" "e_tanhf e" buffer acc] assms(1,4) by (auto simp: float_ok_def)
      have step: "process_frame e p h buffer =
          (if \<not> act then Some (fail_node EndOfStream ''Mixer stream ended (no active inputs)'' (h ! p), replicate (length buffer) 0, h1)
           else do { nd \<leftarrow> count_frame (h1 ! p); Some (Inr (), out, h1[p := nd]) })"
        unfolding process_frame_def
        by (subst process_frame_fuel.simps) (simp add: Let_def Mixer Some [simplified] res Inr acc c(1))
      have "\<not> is_file (h1 ! p)"
        using h1(2) assms(3) Mixer by (auto simp: same_wiring_def same_kind_def is_file_iff simp del: is_file.simps)
      then have o: "frame_outcome e 1 h1 (do { nd \<leftarrow> count_frame (h1 ! p); Some (Inr (), out, h1[p := nd]) })"
        by (rule count_frame_outcome [OF h1(1) p1 c(2)])
      have "frame_outcome e (pulls h p) h (do { nd \<leftarrow> count_frame (h1 ! p); Some (Inr (), out, h1[p := nd]) })"
      proof (cases "count_frame (h1 ! p)")
        case None
        then show ?thesis using o h1(3) by (auto simp: n)
      next
        case (Some nd)
        then show ?thesis using o h1(2,3) same_wiring_trans [OF h1(2)] by (simp add: frame_outcome_def n)
      qed
      then show ?thesis unfolding step using kept assms(4) by (cases act) simp_all
    qed
  qed
qed

end
