(* ===== verification/Playback.thy ===== *)
theory Playback
  imports Graph_Safety
begin

text \<open>
  The executor over a well-formed graph: wiring, closing, pulling frames, preparing. What the
  pulls of an executor on a delay and on an unreadable file give.
\<close>


section \<open>Wiring\<close>

fun wiring_allowed :: "node_kind \<Rightarrow> node_kind \<Rightarrow> bool" where
  "wiring_allowed KFileInput k = (k = KFileOptions \<or> k = KDelay)"
| "wiring_allowed KMixer k = (k = KDelay \<or> k = KFileInput)"
| "wiring_allowed KDelay k = (k \<noteq> KClients)"
| "wiring_allowed KClients k = True"
| "wiring_allowed KFileOptions k = False"

lemma wf_heap_targets:
  assumes "wf_heap e h" and "source < length h" and "self < length h"
  shows "wf_heap e (wire_standard self source h)"
proof -
  let ?nd = "set_next (Some self) (h ! source)"
  have k: "same_kind (n_body (h ! source)) (n_body ?nd)" by (simp add: set_next_def)
  have body: "body_ok e (h[source := ?nd]) (n_body nd)" if "nd \<in> set (h[source := ?nd])" for nd
  proof -
    have "n_body nd \<in> n_body ` set h"
      using that assms(2) by (auto simp: set_next_def dest!: set_update_subset_insert [THEN subsetD])
    then have b: "body_ok e h (n_body nd)" using assms(1) by (auto simp: wf_heap_def)
    have n: "n_body (h[source := ?nd] ! q) = n_body (h ! q)" if "q < length h" for q
      using assms(2) by (simp add: set_next_def nth_list_update)
    then have i: "is_file (h[source := ?nd] ! q) = is_file (h ! q)" if "q < length h" for q
      using that unfolding is_file_iff by simp
    show ?thesis
    proof (cases "n_body nd")
      case (FileInput f)
      then show ?thesis using b n by (auto simp: body_ok_def)
    next
      case (Mixer inputs)
      then show ?thesis using b i by (auto simp: body_ok_def simp del: is_file.simps)
    qed (simp_all add: body_ok_def)
  qed
  have "wf_targets (h[source := ?nd])"
    using assms by (auto simp: wf_heap_def wf_targets_def set_next_def nth_list_update)
  then show ?thesis using body by (simp add: wf_heap_def wire_standard_def upd_def)
qed

lemma is_file_kind: "kind nd = KFileInput \<longleftrightarrow> is_file nd"
  by (cases "n_body nd") simp_all

text \<open>Replacing the body of a node by one of the same sort that is well formed.\<close>

lemma wf_heap_body:
  assumes "wf_heap e h" and "p < length h" and "body_ok e h b" and "is_file (h ! p) \<longleftrightarrow> (\<exists>f. b = FileInput f)"
    and "\<not> (\<exists>g s. n_body (h ! p) = FileOptions g s)"
  shows "wf_heap e (h[p := (h ! p)\<lparr>n_body := b\<rparr>])"
proof -
  let ?h = "h[p := (h ! p)\<lparr>n_body := b\<rparr>]"
  have i: "is_file (?h ! q) = is_file (h ! q)" if "q < length h" for q
    using assms(2,4) unfolding is_file_iff by (auto simp: nth_list_update)
  have o: "n_body (?h ! q) = FileOptions g s" if "q < length h" "n_body (h ! q) = FileOptions g s" for q g s
    using assms(2,5) that by (auto simp: nth_list_update)
  have ok: "body_ok e ?h c" if "body_ok e h c" for c
  proof (cases c)
    case (FileInput f)
    then show ?thesis using that o by (simp add: body_ok_def) blast
  next
    case (Mixer inputs)
    then show ?thesis using that i by (simp add: body_ok_def del: is_file.simps)
  qed (simp_all add: body_ok_def)
  have "body_ok e ?h (n_body nd)" if "nd \<in> set ?h" for nd
    using that assms(1,3) ok by (auto simp: wf_heap_def dest!: set_update_subset_insert [THEN subsetD])
  moreover have "wf_targets ?h"
    using assms(1,2) by (auto simp: wf_heap_def wf_targets_def nth_list_update)
  ultimately show ?thesis by (simp add: wf_heap_def)
qed

lemma connect_input_wf:
  assumes "wf_heap e h" and "self < length h" and "source < length h"
    and "\<And>g s. n_body (h ! source) = FileOptions g s \<Longrightarrow> options_ok e g s"
    and "\<And>inputs. n_body (h ! self) = Mixer inputs \<Longrightarrow> length inputs < 65535"
  shows "wf_heap e (snd (connect_input self source h))"
proof (cases "n_body (h ! self)")
  case (FileInput f)
  show ?thesis
  proof (cases "kind (h ! source) = KFileOptions")
    case True
    then obtain g s where g: "n_body (h ! source) = FileOptions g s" by (cases "n_body (h ! source)") simp_all
    have "body_ok e h (FileInput (f\<lparr>fi_options := Some source\<rparr>))"
      using wf_heap_nth [OF assms(1,2)] FileInput g assms(3,4) by (simp add: body_ok_def)
    then have "wf_heap e (h[self := (h ! self)\<lparr>n_body := FileInput (f\<lparr>fi_options := Some source\<rparr>)\<rparr>])"
      using assms(1,2) FileInput by (intro wf_heap_body) simp_all
    then show ?thesis
      using FileInput True by (simp add: connect_input_defs Let_def upd_def set_options_def del: kind.simps)
  next
    case False
    then show ?thesis
      using FileInput assms(1) wf_heap_targets [OF assms(1,3,2)] by (simp add: connect_input_defs Let_def del: kind.simps)
  qed
next
  case (Mixer inputs)
  show ?thesis
  proof (cases "kind (h ! source) = KFileInput")
    case True
    have "body_ok e h (Mixer (inputs @ [source]))"
      using wf_heap_nth [OF assms(1,2)] Mixer assms(3) assms(5) [OF Mixer] True
      by (simp add: body_ok_def is_file_kind del: is_file.simps kind.simps)
    then have "wf_heap e (h[self := (h ! self)\<lparr>n_body := Mixer (inputs @ [source])\<rparr>])"
      using assms(1,2) Mixer by (intro wf_heap_body) simp_all
    then have "wf_heap e (wire_standard self source (h[self := (h ! self)\<lparr>n_body := Mixer (inputs @ [source])\<rparr>]))"
      using assms(2,3) by (intro wf_heap_targets) simp_all
    then show ?thesis
      using Mixer True by (simp add: connect_input_defs Let_def upd_def del: kind.simps)
  next
    case False
    then show ?thesis
      using Mixer assms(1) wf_heap_targets [OF assms(1,3,2)] by (simp add: connect_input_defs Let_def del: kind.simps)
  qed
qed (use assms(1) wf_heap_targets [OF assms(1,3,2)] in \<open>simp_all add: connect_input_defs Let_def del: kind.simps\<close>)

lemma connect_input_allowed:
  "has_value (fst (connect_input self source h)) \<longleftrightarrow> wiring_allowed (kind (h ! self)) (kind (h ! source))"
  "\<not> wiring_allowed (kind (h ! self)) (kind (h ! source)) \<Longrightarrow> snd (connect_input self source h) = h"
  by (cases "n_body (h ! self)"; cases "n_body (h ! source)"; simp add: connect_input_defs fail_node_def Let_def)+

section \<open>Closing\<close>

lemma close_file_wf:
  assumes "wf_heap e h" and "p < length h" and "n_body (h ! p) = FileInput f"
  shows "wf_heap e (h[p := snd (close_file_input env (h ! p) f)]) \<and> same_wiring h (h[p := snd (close_file_input env (h ! p) f)])
    \<and> calmer h (h[p := snd (close_file_input env (h ! p) f)])"
proof -
  let ?nd = "snd (close_file_input env (h ! p) f)"
  have k: "same_kind (n_body (h ! p)) (n_body ?nd)" and t: "n_target ?nd = n_target (h ! p)" "n_id ?nd = n_id (h ! p)"
    using assms(3) by (simp_all add: close_file_input_def same_kind_def Let_def split: option.split)
  have c: "controller_inv (fi_controller f)" "shifter_inv (fi_pitch_shifter f)"
    using wf_heap_nth [OF assms(1,2)] assms(3) by (simp_all add: body_ok_def)
  then have "controller_inv (reset_controller (fi_controller f))" "shifter_inv (reset_pitch_shifter (fi_pitch_shifter f))"
    by (simp_all add: reset_controller_def controller_inv_def inv_intros)
  then have "body_ok e h (n_body ?nd)"
    using c wf_heap_nth [OF assms(1,2)] assms(3)
    by (simp add: close_file_input_def body_ok_def Let_def split: option.split)
  moreover have "calmer h (h[p := ?nd])"
    by (rule calmer_upd) (simp_all add: close_file_input_def Let_def split: option.split)
  ultimately show ?thesis
    using wf_heap_upd [OF assms(1,2) t k] same_wiring_upd [OF assms(2) t k] by simp
qed

declare close_fuel.simps [simp del]

lemma close_fuel_file_wf:
  assumes "wf_heap e h" and "p < length h" and "is_file (h ! p)"
  shows "wf_heap e (snd (close_fuel env k p h)) \<and> same_wiring h (snd (close_fuel env k p h)) \<and> calmer h (snd (close_fuel env k p h))"
proof -
  obtain f where f: "n_body (h ! p) = FileInput f" using assms(3) unfolding is_file_iff by blast
  show ?thesis
    using close_file_wf [OF assms(1,2) f, of env] f
    by (cases "close_file_input env (h ! p) f") (simp add: close_fuel.simps Let_def)
qed

lemma close_inputs_wf:
  assumes "wf_heap e h" and "\<forall>s\<in>set ss. s < length h \<and> is_file (h ! s)"
  shows "wf_heap e (snd (fold (\<lambda>s (r, h). if has_value r then close_fuel env k s h else (r, h)) ss (r, h)))
    \<and> same_wiring h (snd (fold (\<lambda>s (r, h). if has_value r then close_fuel env k s h else (r, h)) ss (r, h)))
    \<and> calmer h (snd (fold (\<lambda>s (r, h). if has_value r then close_fuel env k s h else (r, h)) ss (r, h)))"
  using assms
proof (induction ss arbitrary: r h)
  case (Cons s ss)
  obtain r1 h1 where 1: "(if has_value r then close_fuel env k s h else (r, h)) = (r1, h1)" by fastforce
  then have w: "wf_heap e h1" "same_wiring h h1" "calmer h h1"
    using close_fuel_file_wf [OF Cons.prems(1), of s env k] Cons.prems by (auto split: if_splits)
  have "\<forall>s\<in>set ss. s < length h1 \<and> is_file (h1 ! s)"
    using Cons.prems(2) same_wiring_is_file [OF w(2)] w(2) by (auto simp: same_wiring_def simp del: is_file.simps)
  then show ?case
    using Cons.IH [OF w(1), of r1] same_wiring_trans [OF w(2)] calmer_trans [OF w(3)] 1 by simp
qed simp

lemma reset_state_wf:
  assumes "wf_heap e h" and "p < length h"
  shows "wf_heap e (upd p reset_state h)" and "same_wiring h (upd p reset_state h)" and "calmer h (upd p reset_state h)"
  using wf_heap_upd [OF assms, of "reset_state (h ! p)"] same_wiring_upd [OF assms(2), of "reset_state (h ! p)"]
    wf_heap_nth [OF assms] calmer_upd [of "reset_state (h ! p)" h p]
  by (simp_all add: upd_def reset_state_def)

lemma close_wf:
  assumes "wf_heap e h" and "p < length h"
  shows "wf_heap e (snd (close env p h)) \<and> same_wiring h (snd (close env p h)) \<and> calmer h (snd (close env p h))"
proof (cases "n_body (h ! p)")
  case (FileInput f)
  then show ?thesis using close_fuel_file_wf [OF assms, of env 1] by (simp add: close_def)
next
  case (Mixer inputs)
  have in_ok: "\<forall>s\<in>set inputs. s < length h \<and> is_file (h ! s)"
    using wf_heap_nth [OF assms] Mixer by (simp add: body_ok_def)
  obtain r h1 where 1: "fold (\<lambda>s (r, h). if has_value r then close_fuel env 0 s h else (r, h)) inputs (Inr (), h) = (r, h1)"
    by fastforce
  then have w: "wf_heap e h1" "same_wiring h h1" "calmer h h1"
    using close_inputs_wf [OF assms(1) in_ok, of env 0 "Inr ()"] by simp_all
  have p1: "p < length h1" using w(2) assms(2) by (simp add: same_wiring_def)
  show ?thesis
    using Mixer 1 w reset_state_wf [OF w(1) p1] same_wiring_trans [OF w(2)] calmer_trans [OF w(3)]
    by (simp add: close_def close_fuel.simps [of env "Suc 0"] Let_def)
qed (use assms reset_state_wf [OF assms] in \<open>simp_all add: close_def close_fuel.simps Let_def\<close>)


section \<open>The executor\<close>

definition executor_inv :: "float_env \<Rightarrow> executor \<Rightarrow> bool" where
  "executor_inv e x \<longleftrightarrow> wf_heap e (x_heap x) \<and> (\<forall>p. x_current_node x = Some p \<longrightarrow> p < length (x_heap x))"

lemma same_wiring_target:
  "same_wiring h h' \<Longrightarrow> wf_heap e h' \<Longrightarrow> p < length h \<Longrightarrow> n_target (h' ! p) = Some q \<Longrightarrow> q < length h'"
  by (auto simp: same_wiring_def wf_heap_def wf_targets_def)

lemma advance_inv:
  assumes "wf_heap e (x_heap x)" and "p < length (x_heap x)" and "x_current_node x = Some p"
    and "advance_to_next_node env p x = (t, x')"
  shows "executor_inv e x' \<and> same_wiring (x_heap x) (x_heap x') \<and> calmer (x_heap x) (x_heap x')"
proof -
  obtain r h where c: "close env p (x_heap x) = (r, h)" by fastforce
  then have w: "wf_heap e h" "same_wiring (x_heap x) h" "calmer (x_heap x) h"
    using close_wf [OF assms(1,2), of env] by simp_all
  have l: "p < length h" using w(2) assms(2) by (simp add: same_wiring_def)
  have "x_heap x' = h" using assms(4) c
    by (auto simp: advance_to_next_node_def Let_def set_heap_def split: sum.splits option.splits)
  moreover have "executor_inv e x'"
    using assms(3,4) c w(1) l same_wiring_target [OF w(2,1) assms(2)]
    by (auto simp: advance_to_next_node_def Let_def executor_inv_def set_heap_def split: sum.splits option.splits)
  ultimately show ?thesis using w by simp
qed

lemma frames_left_pull:
  assumes "frame_outcome e (pulls h p) h result" and "p < length h" and "frames_left m (Suc n) h"
  shows "\<exists>r out h'. result = Some (r, out, h') \<and> frames_left m n h'"
proof -
  have r: "room (m + m * n) h" and m: "\<forall>q < length h. pulls h q \<le> m" using assms(3) by (simp_all add: frames_left_def)
  have "room (pulls h p + m * n) h" using room_mono [OF r] m assms(2) by simp
  moreover obtain r out h' where "result = Some (r, out, h')"
    using assms(1) room_mono [OF calculation, of "pulls h p"] by (cases result) auto
  ultimately show ?thesis
    using assms(1) m same_wiring_pulls [of h h'] by (auto simp: frame_outcome_def frames_left_def same_wiring_def)
qed

lemma get_next_frame_outcome:
  assumes "float_ok e" and "executor_inv e x" and "length buffer = 320"
  shows "case get_next_frame e env buffer x of None \<Rightarrow> \<forall>m n. \<not> frames_left m (Suc n) (x_heap x)
    | Some (r, out, x') \<Rightarrow> length out = 320 \<and> executor_inv e x'
        \<and> (\<forall>m n. frames_left m (Suc n) (x_heap x) \<longrightarrow> frames_left m n (x_heap x'))"
proof (cases "x_current_node x")
  case None
  then show ?thesis using assms(2,3) frames_left_mono by (auto simp: get_next_frame_def)
next
  case (Some p)
  then have p: "p < length (x_heap x)" and wf: "wf_heap e (x_heap x)" using assms(2) by (simp_all add: executor_inv_def)
  have ne: "buffer \<noteq> []" using assms(3) by auto
  note o = process_frame_outcome [OF assms(1) wf p, of "replicate (length buffer) 0", simplified, OF assms(3)]
  show ?thesis
  proof (cases "process_frame e p (x_heap x) (replicate (length buffer) 0)")
    case None
    then show ?thesis
      using Some ne frames_left_pull [OF o p] assms(3) by (auto simp: get_next_frame_def)
  next
    case (Some res)
    obtain r out h where res: "res = (r, out, h)" by (metis prod_cases3)
    note f = Some [unfolded res]
    have h: "length out = 320" "wf_heap e h" "same_wiring (x_heap x) h"
      using o f assms(3) by (simp_all add: frame_outcome_def)
    have left: "frames_left m n h" if "frames_left m (Suc n) (x_heap x)" for m n
      using frames_left_pull [OF o p that] f assms(3) by simp
    let ?x = "set_heap h x"
    have x: "x_heap ?x = h" "x_current_node ?x = Some p" using \<open>x_current_node x = Some p\<close> by (simp_all add: set_heap_def)
    have pl: "p < length (x_heap ?x)" using h(3) p x by (simp add: same_wiring_def)
    obtain t x2 where a: "advance_to_next_node env p ?x = (t, x2)" by fastforce
    have inv2: "executor_inv e x2" "same_wiring h (x_heap x2)" "calmer h (x_heap x2)"
      using advance_inv [OF _ pl x(2) a, of e] h(2) x(1) by simp_all
    have left2: "frames_left m n (x_heap x2)" if "frames_left m (Suc n) (x_heap x)" for m n
      using frames_left_calmer [OF left [OF that] inv2(2,3)] .
    have inv: "executor_inv e ?x" using h(2) x pl by (simp add: executor_inv_def)
    have stats: "executor_inv e (y\<lparr>x_stats := s\<rparr>) = executor_inv e y" for y s by (simp add: executor_inv_def)
    show ?thesis
      using \<open>x_current_node x = Some p\<close> ne f a h inv inv2(1) stats left left2 x(1)
      by (cases r; cases t) (auto simp: get_next_frame_def Let_def)
  qed
qed

lemma get_next_frame_Some:
  assumes "float_ok e" and "executor_inv e x" and "length buffer = 320" and "get_next_frame e env buffer x = Some (r, out, x')"
  shows "length out = 320" and "executor_inv e x'" and "frames_left m (Suc n) (x_heap x) \<Longrightarrow> frames_left m n (x_heap x')"
  using get_next_frame_outcome [OF assms(1-3), of env] assms(4) by auto

primrec pull :: "float_env \<Rightarrow> (string \<Rightarrow> file_io) \<Rightarrow> nat \<Rightarrow> executor \<Rightarrow> ((bool \<times> node_error) list \<times> executor) option" where
  "pull e env 0 x = Some ([], x)"
| "pull e env (Suc n) x =
     do {
       (r, out, x) \<leftarrow> get_next_frame e env (replicate FRAME_SIZE_BYTES 0) x;
       (rs, x) \<leftarrow> pull e env n x;
       Some (r # rs, x)
     }"

text \<open>The executor stands on a delay with \<open>k\<close> frames done.\<close>

definition on_delay :: "nat \<Rightarrow> int \<Rightarrow> int \<Rightarrow> nat option \<Rightarrow> executor \<Rightarrow> bool" where
  "on_delay p k tot target x \<longleftrightarrow> x_current_node x = Some p \<and> p < length (x_heap x)
     \<and> (\<exists>d. n_body (x_heap x ! p) = Delay d) \<and> n_processed_frames (x_heap x ! p) = k
     \<and> n_in_buffer_processed_frames (x_heap x ! p) = k \<and> tot < 2 ^ 31
     \<and> n_total_frames (x_heap x ! p) = tot \<and> n_target (x_heap x ! p) = target"

lemma get_next_frame_delay:
  assumes "on_delay p k tot target x" and "k + 1 < 2 ^ 31"
  shows "\<exists>x'. (if k + 1 \<ge> tot \<and> tot > 0
      then get_next_frame e env (replicate 320 0) x = Some ((target \<noteq> None, no_error), replicate 320 0, x') \<and> x_current_node x' = target
      else get_next_frame e env (replicate 320 0) x = Some ((True, no_error), replicate 320 0, x') \<and> on_delay p (k + 1) tot target x')"
proof -
  obtain d where x: "x_current_node x = Some p" "p < length (x_heap x)" "n_body (x_heap x ! p) = Delay d"
    "n_processed_frames (x_heap x ! p) = k" "n_total_frames (x_heap x ! p) = tot" "n_target (x_heap x ! p) = target"
    "n_in_buffer_processed_frames (x_heap x ! p) = k" "tot < 2 ^ 31"
    using assms by (auto simp: on_delay_def)
  show ?thesis
    using x assms(2)
    by (cases target)
      (auto simp: get_next_frame_def process_frame_def process_frame_fuel.simps delay_process_frame_def count_frame_def
        next_count_def Let_def is_complete_def upd_def
        advance_to_next_node_def close_def close_fuel.simps set_heap_def reset_state_def on_delay_def)
qed

lemma pull_delay:
  assumes "on_delay p k tot target x" and "tot = 0 \<and> k + int n < 2 ^ 31 \<or> k + int n < tot"
  shows "\<exists>x'. pull e env n x = Some (replicate n (True, no_error), x') \<and> on_delay p (k + int n) tot target x'"
  using assms
proof (induction n arbitrary: k x)
  case (Suc n)
  obtain x1 where x1: "get_next_frame e env (replicate 320 0) x = Some ((True, no_error), replicate 320 0, x1)"
    "on_delay p (k + 1) tot target x1"
    using get_next_frame_delay [OF Suc.prems(1), of e env] Suc.prems by (force simp: on_delay_def)
  then obtain x2 where "pull e env n x1 = Some (replicate n (True, no_error), x2)" "on_delay p (k + 1 + int n) tot target x2"
    using Suc.IH [OF x1(2)] Suc.prems(2) by auto
  then show ?case using x1(1) by (simp add: algebra_simps)
qed simp

lemma pull_append:
  "pull e env (m + n) x = do { (rs, x) \<leftarrow> pull e env m x; (rs', x) \<leftarrow> pull e env n x; Some (rs @ rs', x) }"
  by (induction m arbitrary: x) (auto simp: split_def bind_assoc Option.bind_assoc intro!: Option.bind_cong)

section \<open>How long a delay lasts\<close>

lemma floor_20:
  assumes "rnd_ok rnd" and "ms \<le> 10000000"
  shows "truncate_rat (rnd (of_nat ms / 20)) = int (ms div 20)"
proof -
  define k where "k = int (ms div 20)"
  have ms: "20 * k \<le> int ms" "int ms \<le> 20 * k + 19" "0 \<le> k" "k \<le> 500000"
    using assms(2) by (auto simp: k_def)
  have "of_int k \<le> (of_nat ms :: rat) / 20" 
    using ms(1) by (simp add: le_divide_eq)
  moreover have "(of_nat ms :: rat) / 20 \<le> of_int (32 * k + 31) / 2 ^ 5"
  proof -
    have "(of_int (int ms) :: rat) \<le> of_int (20 * k + 19)" using ms(2) of_int_le_iff by blast
    then show ?thesis by (simp add: field_simps)
  qed
  ultimately have "rnd (of_int k) \<le> rnd (of_nat ms / 20)" "rnd (of_nat ms / 20) \<le> rnd (of_int (32 * k + 31) / 2 ^ 5)"
    using rnd_mono [OF assms(1)] by blast+
  then have "of_int k \<le> rnd (of_nat ms / 20)" "rnd (of_nat ms / 20) \<le> of_int (32 * k + 31) / 2 ^ 5"
    using rnd_int [OF assms(1), of k] rnd_dyadic [OF assms(1), of "32 * k + 31" 5] ms(3,4) by simp_all
  then have "\<lfloor>rnd (of_nat ms / 20)\<rfloor> = k" "0 \<le> rnd (of_nat ms / 20)"
    using ms(3) by (auto intro!: floor_unique)
  then show ?thesis by (simp add: truncate_rat_def k_def)
qed

lemma new_delay_total:
  assumes "rnd_ok rnd" and "ms \<le> 10000000"
  shows "new_delay rnd ms = Some ((new_node (Delay (of_nat ms)))\<lparr>n_total_frames := int (ms div 20)\<rparr>)"
proof -
  have "ms div 20 \<le> 500000" using assms(2) by linarith
  then have "int (ms div 20) \<le> 500000" by linarith
  then show ?thesis
    using floor_20 [OF assms] rnd_nat [OF assms(1), of ms] rnd_nat [OF assms(1), of 20] assms(2)
    by (simp add: new_delay_def cast_i32_def Let_def FRAME_DURATION_def)
qed

section \<open>A file that cannot be opened\<close>

definition unreadable_at :: "(string \<Rightarrow> file_io) \<Rightarrow> string \<Rightarrow> nat \<Rightarrow> node \<Rightarrow> bool" where
  "unreadable_at env path k nd \<longleftrightarrow> (\<forall>j. io_open_ec (env path) j \<noteq> None) \<and> n_total_frames nd = 0 \<and>
     (case n_body nd of FileInput f \<Rightarrow> fi_file_path f = path \<and> \<not> fh_open (fi_handle f) | _ \<Rightarrow> False)"

lemma open_loop_fails:
  "\<forall>j. io_open_ec io j \<noteq> None \<Longrightarrow> \<exists>err. open_loop io k left nd f = (Inl err, nd\<lparr>n_total_frames := 0\<rparr>)"
proof (induction "left" arbitrary: k)
  case 0
  then show ?case by (simp add: fail_node_def)
next
  case (Suc n)
  then obtain ec where "io_open_ec io k = Some ec" by blast
  then show ?case using Suc by simp
qed

lemma fetch_bytes_unreadable:
  assumes "unreadable_at env path k nd"
  shows "fetch_bytes env nd n = ([], nd\<lparr>n_total_frames := 0\<rparr>)"
proof -
  obtain f where f: "n_body nd = FileInput f" "fi_file_path f = path" "\<not> fh_open (fi_handle f)"
    using assms by (auto simp: unreadable_at_def split: node_body.splits)
  then show ?thesis
    using assms open_loop_fails [of "env path" 0 MAX_RETRIES nd f]
    by (auto simp: unreadable_at_def fetch_bytes_def open_file_def)
qed

interpretation unreadable_file: fetch_source "fetch_bytes env" "unreadable_at env path" "\<lambda>_. replicate BUFFER_SIZE 0" for env path
  by unfold_locales (auto simp: fetch_bytes_unreadable, auto simp: unreadable_at_def)

definition unreadable_playing :: "(string \<Rightarrow> file_io) \<Rightarrow> string \<Rightarrow> node \<Rightarrow> bool" where
  "unreadable_playing env path nd \<longleftrightarrow>
     (\<exists>f q k. n_body nd = FileInput f \<and> fi_options f = None \<and> fi_file_path f = path
       \<and> playing (unreadable_at env path) (\<lambda>_. replicate BUFFER_SIZE 0) q k (nd, fi_controller f))"

lemma unreadable_at_cong:
  assumes "n_total_frames nd' = n_total_frames nd" and "n_body nd = FileInput f" and "n_body nd' = FileInput f'"
    and "fi_handle f' = fi_handle f" and "fi_file_path f' = fi_file_path f"
  shows "unreadable_at env path k nd' = unreadable_at env path j nd"
  using assms by (simp add: unreadable_at_def)

lemma unreadable_set_controller:
  assumes "playing (unreadable_at env path) blk q k (nd, c)" and "n_body nd = FileInput f" and "fi_options f = None" and "fi_file_path f = path"
    and "blk = (\<lambda>_. replicate BUFFER_SIZE 0)"
  shows "unreadable_playing env path (set_controller c nd)"
proof -
  have "playing (unreadable_at env path) blk q k (set_controller c nd, c)"
    using assms(1,2) unreadable_at_cong [of "set_controller c nd" nd f "f\<lparr>fi_controller := c\<rparr>" env path "q + 2" "q + 2"]
    by (simp add: playing_def set_controller_def)
  then show ?thesis
    using assms(2-5) by (auto simp: unreadable_playing_def set_controller_def)
qed

lemma unreadable_step:
  assumes "unreadable_playing env path (h ! p)" and "p < length h" and "n_processed_frames (h ! p) = int n" and "n < 2 ^ 31 - 1"
  shows "\<exists>h'. frame_step e env p h = Some (Inr (), replicate 320 0, h') \<and> unreadable_playing env path (h' ! p)
    \<and> length h' = length h \<and> \<not> is_complete (h' ! p) \<and> n_processed_frames (h' ! p) = int (Suc n)"
proof -
  let ?nd = "h ! p"
  obtain f q k where f: "n_body ?nd = FileInput f" "fi_options f = None" "fi_file_path f = path"
    "playing (unreadable_at env path) (\<lambda>_. replicate BUFFER_SIZE 0) q k (?nd, fi_controller f)"
    using assms(1) by (auto simp: unreadable_playing_def)
  have z: "n_total_frames ?nd = 0" using f(4) by (simp add: playing_def unreadable_at_def)
  obtain r out c where g: "get_frame (replicate 320 0) 0 (fi_controller f) = (r, out, c)" by (metis prod_cases3)
  define nd1 where "nd1 = ?nd\<lparr>n_body := FileInput (f\<lparr>fi_controller := c\<rparr>), n_processed_frames := int (Suc n)\<rparr>"
  have count: "next_count (n_processed_frames ?nd) = Some (int (Suc n))" using assms(3,4) by (simp add: next_count_def)
  have at: "unreadable_at env path (q + 2) nd1"
    using f unreadable_at_cong [of nd1 ?nd f "f\<lparr>fi_controller := c\<rparr>" env path "q + 2" "q + 2"] by (simp add: playing_def nd1_def)
  have res: "r = Inr ()" "out = replicate 320 0"
    and pl: "\<exists>q k. playing (unreadable_at env path) (\<lambda>_. replicate BUFFER_SIZE 0) q k (settle (fetch_bytes env) (nd1, c))"
    using unreadable_file.get_frame_playing [OF f(4) at g] by (auto simp: due_frame_def min_def)
  have "process_frame e p h (replicate 320 0) = Some (Inr (), out, h[p := nd1])"
    using f z g res count
    by (simp add: process_frame_def process_frame_fuel.simps file_process_frame_def apply_effects_def nd1_def Let_def)
  then have step: "frame_step e env p h = Some (Inr (), replicate 320 0, h[p := run_refills env nd1])"
    using assms(2) res by (simp add: frame_step_def upd_def)
  obtain nd2 c2 where s: "settle (fetch_bytes env) (nd1, c) = (nd2, c2)" by fastforce
  then have "same_but_file nd1 nd2" using settle_same [of nd1 env c] by simp
  then obtain f2 where f2: "n_body nd2 = FileInput f2" "fi_options f2 = None" "fi_file_path f2 = path"
    using f by (auto simp: same_but_file_def nd1_def)
  have rr: "run_refills env nd1 = set_controller c2 nd2"
    using s by (simp add: run_refills_def nd1_def)
  have playing: "unreadable_playing env path (run_refills env nd1)"
    using pl s unreadable_set_controller [OF _ f2] unfolding rr by auto
  then have "n_total_frames (run_refills env nd1) = 0"
    by (auto simp: unreadable_playing_def playing_def unreadable_at_def)
  moreover have "n_processed_frames (run_refills env nd1) = int (Suc n)"
    unfolding rr using \<open>same_but_file nd1 nd2\<close> f2(1) f(1) by (simp add: set_controller_def same_but_file_def nd1_def)
  ultimately show ?thesis using step playing assms(2) by (simp add: is_complete_def)
qed

lemma initialize_buffers_count:
  assumes "n_processed_frames nd = n" and "n_body nd = FileInput f"
  shows "n_processed_frames (initialize_buffers env nd) = n"
proof -
  obtain nd1 c where i: "initialize_now (fetch_bytes env) (nd, fi_controller f) = (nd1, c)" by fastforce
  then show ?thesis
    using assms initialize_now_same [of nd env "fi_controller f"]
    by (auto simp: initialize_buffers_def same_but_file_def set_controller_def)
qed

lemma unreadable_initialize:
  assumes "\<forall>j. io_open_ec (env path) j \<noteq> None"
  shows "unreadable_playing env path (initialize_buffers env (new_file_input name path))"
proof -
  let ?nd = "new_file_input name path"
  obtain f where f: "n_body ?nd = FileInput f" "fi_options f = None" "fi_file_path f = path" "\<not> fh_open (fi_handle f)"
    "fi_controller f = new_controller" "n_total_frames ?nd = 0"
    by (simp add: new_file_input_def new_node_def)
  have at: "unreadable_at env path 0 ?nd" using f assms by (simp add: unreadable_at_def)
  obtain nd1 c where i: "initialize_now (fetch_bytes env) (?nd, new_controller) = (nd1, c)" by fastforce
  then have pl: "playing (unreadable_at env path) (\<lambda>_. replicate BUFFER_SIZE 0) 0 0 (nd1, c)"
    using unreadable_file.initialize_playing [OF at controller_inv_new, of 0] by (simp add: new_controller_def)
  have "same_but_file ?nd nd1" using initialize_now_same [of ?nd env new_controller] i by simp
  then obtain f1 where f1: "n_body nd1 = FileInput f1" "fi_options f1 = None" "fi_file_path f1 = path"
    using f by (auto simp: same_but_file_def)
  have "initialize_buffers env ?nd = set_controller c nd1"
    using f i by (simp add: initialize_buffers_def)
  then show ?thesis using unreadable_set_controller [OF pl f1] by simp
qed

section \<open>Preparing\<close>

lemma collect_results_spec:
  "collect_results final rs = (if has_value final
     then (case find (\<lambda>r. r \<noteq> Some (Inr ())) rs of
             None \<Rightarrow> final | Some None \<Rightarrow> Inl (error_info_From NetworkError ''Channel sync error'') | Some (Some e) \<Rightarrow> e)
     else final)"
proof (induction final rs rule: collect_results.induct)
  case (3 final res rs)
  have "has_value res \<longleftrightarrow> res = Inr ()" by (cases res) auto
  then show ?case using 3 by auto
qed auto

lemma await_all_has_value:
  "has_value (await_all_dynamic items received) \<longleftrightarrow> (\<forall>r\<in>set (take (length items) received). r = Some (Inr ()))"
proof -
  let ?rs = "take (length items) received"
  show ?thesis
  proof (cases "find (\<lambda>r. r \<noteq> Some (Inr ())) ?rs")
    case None
    then have "\<forall>r\<in>set ?rs. r = Some (Inr ())" by (auto simp: find_None_iff)
    then show ?thesis using None by (auto simp: await_all_dynamic_def collect_results_spec)
  next
    case (Some r)
    then have r: "r \<in> set ?rs" "r \<noteq> Some (Inr ())"
      by (auto simp: find_Some_iff in_set_conv_nth)
    then have "items \<noteq> []" by auto
    then have "await_all_dynamic items received
        = (case r of None \<Rightarrow> Inl (error_info_From NetworkError ''Channel sync error'') | Some e \<Rightarrow> e)"
      by (simp only: await_all_dynamic_def collect_results_spec Some if_False has_value.simps if_True option.case)
    moreover have "\<not> has_value (case r of None \<Rightarrow> Inl (error_info_From NetworkError ''Channel sync error'') | Some e \<Rightarrow> e)"
      using r(2) by (cases r; cases "the r") auto
    ultimately show ?thesis using r by metis
  qed
qed

definition same_targets :: "heap \<Rightarrow> heap \<Rightarrow> bool" where
  "same_targets h h' \<longleftrightarrow> length h' = length h \<and> (\<forall>p < length h. n_target (h' ! p) = n_target (h ! p))"

lemma same_targets_refl [simp]: "same_targets h h"
  by (simp add: same_targets_def)

lemma same_targets_trans: "same_targets h h' \<Longrightarrow> same_targets h' h'' \<Longrightarrow> same_targets h h''"
  by (simp add: same_targets_def)

lemma same_targets_wf: "same_targets h h' \<Longrightarrow> wf_targets h \<Longrightarrow> wf_targets h'"
  by (simp add: same_targets_def wf_targets_def)

lemma initialize_buffers_target: "n_target (initialize_buffers env nd) = n_target nd"
proof (cases "n_body nd")
  case (FileInput f)
  obtain nd1 c where i: "initialize_now (fetch_bytes env) (nd, fi_controller f) = (nd1, c)" by fastforce
  then show ?thesis
    using FileInput initialize_now_same [of nd env "fi_controller f"]
    by (simp add: initialize_buffers_def same_but_file_def set_controller_def split: node_body.split)
qed (simp_all add: initialize_buffers_def)

lemma initialize_nodes_targets: "same_targets h (initialize_nodes env h)"
  by (simp add: same_targets_def initialize_nodes_def initialize_buffers_target)

lemma set_max_frames_targets: "same_targets h (set_max_frames p h)"
  by (cases "p < length h") (auto simp: same_targets_def set_max_frames_def upd_def nth_list_update split: node_body.split)

lemma update_mixers_targets: "same_targets h (update_mixers ms h)"
  unfolding update_mixers_def
  by (induction ms arbitrary: h) (auto intro: same_targets_trans set_max_frames_targets)

section \<open>Properties\<close>



text \<open>In a well-formed graph whose options are in range, pulling a frame from the executor returns,
  without undefined behaviour, with a full frame, as long as no counter is at its end, and leaves a
  well-formed graph whose current node is one of its nodes.\<close>

theorem get_next_frame_safe:
  assumes "float_ok e" and "executor_inv e x" and "length buffer = 320" and "frames_left m (Suc n) (x_heap x)"
  shows "\<exists>r out x'. get_next_frame e env buffer x = Some (r, out, x') \<and> length out = 320 \<and> executor_inv e x'
    \<and> frames_left m n (x_heap x')"
  using get_next_frame_outcome [OF assms(1-3), of env] assms(4) by (cases "get_next_frame e env buffer x") auto

text \<open>A mixer with one file input.\<close>

definition demo_executor :: executor where
  "demo_executor = \<lparr>x_graph = \<lparr>g_nodes = snd (connect_input 0 1 [new_mixer, new_file_input ''a'' ''a.wav'']),
       g_start_node = Some 0, g_file_nodes = [1], g_mixer_nodes = [0], g_clients_node = None\<rparr>,
     x_current_node = Some 0, x_stats = empty_stats\<rparr>"

lemma float_ok_ideal: "float_ok ideal_float"
  by (simp add: float_ok_def ideal_float_def rnd_ok_id)

lemma demo_executor_inv: "executor_inv ideal_float demo_executor"
  by (auto simp: executor_inv_def demo_executor_def connect_input_defs wire_standard_def upd_def set_next_def
      wf_heap_def wf_targets_def body_ok_def new_mixer_def new_file_input_def new_node_def nth_Cons Let_def
      inv_intros split: nat.splits)

lemma demo_executor_left: "n < 2 ^ 30 \<Longrightarrow> frames_left 2 n (x_heap demo_executor)"
  by (auto simp: frames_left_def room_def has_room_def pulls_def demo_executor_def connect_input_defs wire_standard_def
      upd_def set_next_def new_mixer_def new_file_input_def new_node_def nth_Cons Let_def split: nat.splits)

lemma get_next_frame_safe_witness:
  "\<exists>r out x'. get_next_frame ideal_float (\<lambda>_. plain_file 1000) (replicate 320 0) demo_executor = Some (r, out, x') \<and> length out = 320
    \<and> frames_left 2 1000000 (x_heap x')"
  using get_next_frame_safe [OF float_ok_ideal demo_executor_inv, of "replicate 320 0" 2 1000000] demo_executor_left [of 1000001]
  by fastforce

text \<open>Of the \<open>N\<close> frames that a final delay of \<open>N\<close> frames produces the executor announces
  \<open>N - 1\<close>: the pull that completes the last node answers \<open>false\<close> although it filled the buffer.\<close>

theorem last_frame_withheld:
  assumes "on_delay p 0 (int (Suc n)) None x"
  shows "\<exists>x'. pull e env (Suc n) x = Some (replicate n (True, no_error) @ [(False, no_error)], x') \<and> x_current_node x' = None"
proof -
  obtain x1 where 1: "pull e env n x = Some (replicate n (True, no_error), x1)" "on_delay p (int n) (int (Suc n)) None x1"
    using pull_delay [OF assms, of n e env] by auto
  obtain x2 where "get_next_frame e env (replicate 320 0) x1 = Some ((False, no_error), replicate 320 0, x2)" "x_current_node x2 = None"
    using get_next_frame_delay [OF 1(2), of e env] assms by (auto simp: on_delay_def)
  then show ?thesis using 1(1) pull_append [of e env n 1 x] by simp
qed

definition delay_executor :: "nat \<Rightarrow> executor" where
  "delay_executor ms = \<lparr>x_graph = \<lparr>g_nodes = [the (new_delay (\<lambda>x. x) ms)], g_start_node = Some 0, g_file_nodes = [],
       g_mixer_nodes = [], g_clients_node = None\<rparr>, x_current_node = Some 0, x_stats = empty_stats\<rparr>"

lemma delay_executor:
  assumes "ms \<le> 10000000"
  shows "on_delay 0 0 (int (ms div 20)) None (delay_executor ms)"
proof -
  have "ms div 20 \<le> 500000" using assms by linarith
  then have "int (ms div 20) \<le> 500000" by linarith
  then show ?thesis
    using new_delay_total [OF rnd_ok_id assms] by (simp add: on_delay_def delay_executor_def new_node_def)
qed

lemma last_frame_withheld_witness:
  "\<exists>x'. pull ideal_float (\<lambda>_. plain_file 0) 3 (delay_executor 60) = Some ([(True, no_error), (True, no_error), (False, no_error)], x')"
  using last_frame_withheld [of 0 2 "delay_executor 60" ideal_float "\<lambda>_. plain_file 0"] delay_executor [of 60]
  by (auto simp: numeral_2_eq_2 numeral_3_eq_3)

text \<open>A delay of less than 20 ms counts as zero frames, and a node of zero frames is never complete:
  the stream stays on it, in silence, until the counter of its frames overflows, which is undefined.\<close>

lemma short_delay_node:
  assumes "rnd_ok rnd" and "ms < 20" and "new_delay rnd ms = Some nd"
    and "x_current_node x = Some p" and "p < length (x_heap x)" and "x_heap x ! p = nd\<lparr>n_target := target\<rparr>"
  shows "on_delay p 0 0 target x"
  using new_delay_total [OF assms(1), of ms] assms(2-6) by (auto simp: on_delay_def new_node_def)

theorem short_delay_never_ends:
  assumes "rnd_ok rnd" and "ms < 20" and "new_delay rnd ms = Some nd"
    and "x_current_node x = Some p" and "p < length (x_heap x)" and "x_heap x ! p = nd\<lparr>n_target := target\<rparr>" and "n < 2 ^ 31"
  shows "\<exists>x'. pull e env n x = Some (replicate n (True, no_error), x') \<and> x_current_node x' = Some p"
proof -
  obtain x' where "pull e env n x = Some (replicate n (True, no_error), x')" "on_delay p (0 + int n) 0 target x'"
    using pull_delay [OF short_delay_node [OF assms(1-6)], of n e env] assms(7) by auto
  then show ?thesis by (simp add: on_delay_def)
qed

lemma short_delay_never_ends_witness:
  "\<exists>x'. pull ideal_float (\<lambda>_. plain_file 0) 100000 (delay_executor 19) = Some (replicate 100000 (True, no_error), x')"
  using short_delay_never_ends [OF rnd_ok_id, of 19 _ "delay_executor 19" 0 None 100000 ideal_float "\<lambda>_. plain_file 0"]
    new_delay_total [OF rnd_ok_id, of 19]
  by (auto simp: delay_executor_def new_node_def)

theorem short_delay_overflows:
  assumes "rnd_ok rnd" and "ms < 20" and "new_delay rnd ms = Some nd"
    and "x_current_node x = Some p" and "p < length (x_heap x)" and "x_heap x ! p = nd\<lparr>n_target := target\<rparr>"
    and "2 ^ 31 \<le> n"
  shows "pull e env n x = None"
proof -
  let ?k = "2 ^ 31 - 1 :: nat"
  obtain x' where 1: "pull e env ?k x = Some (replicate ?k (True, no_error), x')" "on_delay p (0 + int ?k) 0 target x'"
    using pull_delay [OF short_delay_node [OF assms(1-6)], of ?k e env] by auto
  have "count_frame (x_heap x' ! p) = None" using 1(2) by (simp add: on_delay_def count_frame_def next_count_def)
  then have "get_next_frame e env (replicate 320 0) x' = None"
    using 1(2) by (auto simp: on_delay_def get_next_frame_def process_frame_def process_frame_fuel.simps delay_process_frame_def)
  then have none: "pull e env (Suc m) x' = None" for m by simp
  have "n = ?k + Suc (n - 2 ^ 31)" using assms(7) by simp
  then show ?thesis using 1(1) none [of "n - 2 ^ 31"] pull_append [of e env ?k "Suc (n - 2 ^ 31)" x]
    by (simp only: Option.bind.simps prod.case)
qed

lemma short_delay_overflows_witness:
  "pull ideal_float (\<lambda>_. plain_file 0) (2 ^ 31) (delay_executor 19) = None"
  using short_delay_overflows [OF rnd_ok_id, of 19 _ "delay_executor 19" 0 None "2 ^ 31" ideal_float "\<lambda>_. plain_file 0"]
    new_delay_total [OF rnd_ok_id, of 19]
  by (auto simp: delay_executor_def new_node_def)

text \<open>A file input whose file cannot be opened never reports an error and never ends: after its
  initialisation every frame succeeds with silence and the node is never complete.\<close>

theorem unreadable_file_silence:
  assumes "\<forall>j. io_open_ec (env path) j \<noteq> None"
    and "p < length h" and "h ! p = initialize_buffers env (new_file_input name path)" and "n < 2 ^ 31 - 1"
  shows "\<exists>h' h''. play e env p n h = Some h' \<and> frame_step e env p h' = Some (Inr (), replicate 320 0, h'')
    \<and> \<not> is_complete (h'' ! p)"
proof -
  have "\<exists>h'. play e env p n h = Some h' \<and> unreadable_playing env path (h' ! p) \<and> p < length h' \<and> n_processed_frames (h' ! p) = int n"
    using assms(4)
  proof (induction n)
    case 0
    have "n_processed_frames (initialize_buffers env (new_file_input name path)) = 0"
      by (rule initialize_buffers_count) (simp_all add: new_file_input_def new_node_def)
    then show ?case using unreadable_initialize [of env path name] assms by simp
  next
    case (Suc n)
    then obtain h' where h': "play e env p n h = Some h'" "unreadable_playing env path (h' ! p)" "p < length h'"
        "n_processed_frames (h' ! p) = int n" by auto
    then show ?case using unreadable_step [OF h'(2,3,4), of e] Suc.prems by auto
  qed
  then show ?thesis using unreadable_step assms(4) by metis
qed

lemma unreadable_file_silence_witness:
  "\<exists>h' h''. play ideal_float (\<lambda>_. (plain_file 1000)\<lparr>io_open_ec := \<lambda>_. Some ''No such file''\<rparr>) 0 50000
      [initialize_buffers (\<lambda>_. (plain_file 1000)\<lparr>io_open_ec := \<lambda>_. Some ''No such file''\<rparr>) (new_file_input ''a'' ''a.wav'')] = Some h'
    \<and> frame_step ideal_float (\<lambda>_. (plain_file 1000)\<lparr>io_open_ec := \<lambda>_. Some ''No such file''\<rparr>) 0 h' = Some (Inr (), replicate 320 0, h'')
    \<and> \<not> is_complete (h'' ! 0)"
  by (rule unreadable_file_silence [of _ "''a.wav''" _ _ "''a''"]) simp_all

text \<open>C35: Preparing a graph of well-formed wiring ends; it succeeds exactly when every asset task
  reports success, then the executor stands on the start node with its counters cleared, and
  otherwise nothing has changed.\<close>

theorem prepare_outcome:
  assumes "wf_targets (x_heap x)" and "g_start_node (x_graph x) = Some s" and "s < length (x_heap x)"
    and "x_current_node x \<noteq> None"
  shows "\<exists>r x'. prepare env received x = Some (r, x')
    \<and> (has_value r \<longleftrightarrow> (\<forall>res\<in>set (take (length (g_file_nodes (x_graph x))) received). res = Some (Inr ())))
    \<and> (has_value r \<longrightarrow> x_current_node x' = Some s \<and> st_total_bytes_sent (x_stats x') = 0)
    \<and> (\<not> has_value r \<longrightarrow> x' = x)"
proof (cases "await_all_dynamic (g_file_nodes (x_graph x)) received")
  case (Inl e)
  then show ?thesis
    using assms(4) await_all_has_value [of "g_file_nodes (x_graph x)" received] by (auto simp: prepare_def)
next
  case (Inr u)
  let ?h = "update_mixers (g_mixer_nodes (x_graph x)) (initialize_nodes env (x_heap x))"
  have t: "same_targets (x_heap x) ?h"
    using same_targets_trans [OF initialize_nodes_targets update_mixers_targets] .
  obtain h' where "detect_and_flag_loops (Some s) ?h = Some h'"
    using detect_and_flag_spec [OF same_targets_wf [OF t assms(1)], of s] t assms(3) by (auto simp: same_targets_def)
  then show ?thesis
    using Inr assms(2,4) await_all_has_value [of "g_file_nodes (x_graph x)" received] by (simp add: prepare_def)
qed

lemma prepare_outcome_witness:
  "\<exists>r x'. prepare (\<lambda>_. plain_file 1000) [Some (Inr ())] demo_executor = Some (r, x') \<and> has_value r"
proof -
  have "wf_targets (x_heap demo_executor)" using demo_executor_inv by (simp add: executor_inv_def wf_heap_def)
  then show ?thesis
    using prepare_outcome [of demo_executor 0 "\<lambda>_. plain_file 1000" "[Some (Inr ())]"]
    by (auto simp: demo_executor_def connect_input_defs wire_standard_def upd_def set_next_def
      new_mixer_def new_file_input_def new_node_def Let_def)
qed

end
