(* ===== verification/Prepare_Safety.thy ===== *)
theory Prepare_Safety
  imports Playback
begin

text \<open>
  What runs beside the pulls keeps a graph well formed too: filling the buffers of the nodes,
  the refills, the totals of the mixers, the loop flags, and so \<open>prepare\<close>.
\<close>

section \<open>Node by node\<close>

lemma wf_heap_pointwise:
  assumes "wf_heap e h" and "length h' = length h"
    and "\<And>p. p < length h \<Longrightarrow> n_target (h' ! p) = n_target (h ! p) \<and> n_id (h' ! p) = n_id (h ! p)
           \<and> same_kind (n_body (h ! p)) (n_body (h' ! p)) \<and> body_ok e h (n_body (h' ! p))
           \<and> n_processed_frames (h' ! p) = n_processed_frames (h ! p)
           \<and> n_in_buffer_processed_frames (h' ! p) = n_in_buffer_processed_frames (h ! p)"
  shows "wf_heap e h' \<and> same_wiring h h' \<and> calmer h h'"
proof -
  have w: "same_wiring h h'" using assms(2,3) by (simp add: same_wiring_def)
  have "body_ok e h' (n_body nd)" if nd: "nd \<in> set h'" for nd
  proof -
    obtain p where "p < length h" "nd = h' ! p" using nd assms(2) by (metis in_set_conv_nth)
    then show ?thesis using assms(3) body_ok_wiring [OF w] by blast
  qed
  moreover have "wf_targets h'" using assms by (simp add: wf_heap_def wf_targets_def)
  moreover have "calmer h h'" using assms(2,3) by (intro calmer_nth) simp_all
  ultimately show ?thesis using w by (simp add: wf_heap_def)
qed

lemma set_max_frames_wf:
  assumes "wf_heap e h"
  shows "wf_heap e (set_max_frames p h) \<and> same_wiring h (set_max_frames p h) \<and> calmer h (set_max_frames p h)"
proof (cases "p < length h")
  case True
  then show ?thesis
    using wf_heap_upd [OF assms True] same_wiring_upd [OF True] wf_heap_nth [OF assms True] assms calmer_upd [of _ h p]
    by (cases "n_body (h ! p)") (simp_all add: set_max_frames_def upd_def)
next
  case False
  then show ?thesis using assms by (simp add: set_max_frames_def upd_def list_update_beyond split: node_body.split)
qed

lemma update_mixers_wf:
  "wf_heap e h \<Longrightarrow> wf_heap e (update_mixers ms h) \<and> same_wiring h (update_mixers ms h) \<and> calmer h (update_mixers ms h)"
  unfolding update_mixers_def
proof (induction ms arbitrary: h)
  case (Cons m ms)
  then show ?case
    using set_max_frames_wf [OF Cons.prems, of m] Cons.IH [of "set_max_frames m h"] same_wiring_trans calmer_trans
    by fastforce
qed simp

section \<open>Buffers\<close>

lemma controller_inv_finish_with [inv_intros]:
  assumes "controller_inv c" and "length bs \<le> BUFFER_SIZE"
  shows "controller_inv (finish_with i bs c)"
proof (cases "task_span (tasks c ! i)")
  case None
  then show ?thesis using assms(1) by (simp add: finish_with_def)
next
  case (Some k)
  have "length (put 0 bs (block k (bf c))) = BUFFER_SIZE"
    using assms by (simp add: controller_inv_def)
  then have "controller_inv (c\<lparr>bf := set_block k (put 0 bs (block k (bf c))) (bf c)\<rparr>)"
    using assms(1) by (simp add: controller_inv_def buffer_inv_set_block)
  then show ?thesis using Some assms(2) by (simp add: finish_with_def controller_inv_finish_fetch)
qed

lemma read_loop_length: "length (fst (read_loop io want k n pos)) \<le> want"
  by (induction n arbitrary: k pos) (auto simp: Let_def split: option.split)

lemma fetch_bytes_length: "length (fst (fetch_bytes env nd want)) \<le> want"
proof -
  have "length data \<le> want" if "read_loop io want 0 MAX_RETRIES q = (data, pos)" for io data pos q
    using that read_loop_length [of io want 0 MAX_RETRIES q] by simp
  then show ?thesis
    by (auto simp: fetch_bytes_def Let_def split: node_body.splits sum.splits prod.splits)
qed

lemma controller_inv_initialize_now:
  assumes "controller_inv c"
  shows "controller_inv (snd (initialize_now (fetch_bytes env) (nd, c)))"
proof -
  obtain b1 nd1 where 1: "fetch_bytes env nd BUFFER_SIZE = (b1, nd1)" by fastforce
  obtain b2 nd2 where 2: "fetch_bytes env nd1 BUFFER_SIZE = (b2, nd2)" by fastforce
  have "length b1 \<le> BUFFER_SIZE" "length b2 \<le> BUFFER_SIZE"
    using fetch_bytes_length [of env nd BUFFER_SIZE] fetch_bytes_length [of env nd1 BUFFER_SIZE] 1 2
    by simp_all
  moreover have "controller_inv (begin_initialize c)"
    using assms by (simp add: controller_inv_def begin_initialize_def)
  ultimately show ?thesis
    using 1 2 by (simp add: initialize_now_def Let_def controller_inv_finish_with)
qed

lemma controller_inv_settle:
  assumes "controller_inv c"
  shows "controller_inv (snd (settle (fetch_bytes env) (nd, c)))"
proof -
  obtain b nd' where 1: "fetch_bytes env nd BUFFER_SIZE = (b, nd')" by fastforce
  then have "length b \<le> BUFFER_SIZE" using fetch_bytes_length [of env nd BUFFER_SIZE] by simp
  moreover have "controller_inv (begin_refill 0 c)"
    using assms by (simp add: controller_inv_def begin_refill_def tasks_update)
  ultimately show ?thesis
    using 1 assms by (simp add: settle_def run_task_def Let_def controller_inv_finish_with)
qed

text \<open>A node whose file part moved and whose controller was replaced.\<close>

lemma refilled_node:
  assumes "same_but_file nd nd'" and "n_body nd = FileInput f" and "body_ok e h (n_body nd)" and "controller_inv c"
  shows "n_target (set_controller c nd') = n_target nd \<and> n_id (set_controller c nd') = n_id nd
    \<and> same_kind (n_body nd) (n_body (set_controller c nd')) \<and> body_ok e h (n_body (set_controller c nd'))
    \<and> n_processed_frames (set_controller c nd') = n_processed_frames nd
    \<and> n_in_buffer_processed_frames (set_controller c nd') = n_in_buffer_processed_frames nd"
  using assms by (auto simp: same_but_file_def set_controller_def same_kind_def body_ok_def)

lemma initialize_buffers_node:
  assumes "body_ok e h (n_body nd)"
  shows "n_target (initialize_buffers env nd) = n_target nd \<and> n_id (initialize_buffers env nd) = n_id nd
    \<and> same_kind (n_body nd) (n_body (initialize_buffers env nd)) \<and> body_ok e h (n_body (initialize_buffers env nd))
    \<and> n_processed_frames (initialize_buffers env nd) = n_processed_frames nd
    \<and> n_in_buffer_processed_frames (initialize_buffers env nd) = n_in_buffer_processed_frames nd"
proof (cases "n_body nd")
  case (FileInput f)
  obtain nd' c where i: "initialize_now (fetch_bytes env) (nd, fi_controller f) = (nd', c)" by fastforce
  have "controller_inv c" "same_but_file nd nd'"
    using controller_inv_initialize_now [of "fi_controller f" env nd] initialize_now_same [of nd env "fi_controller f"]
      assms FileInput i by (simp_all add: body_ok_def)
  then show ?thesis
    using refilled_node [OF _ FileInput assms] FileInput i by (simp add: initialize_buffers_def)
qed (use assms in \<open>simp_all add: initialize_buffers_def\<close>)

lemma run_refills_node:
  assumes "body_ok e h (n_body nd)"
  shows "n_target (run_refills env nd) = n_target nd \<and> n_id (run_refills env nd) = n_id nd
    \<and> same_kind (n_body nd) (n_body (run_refills env nd)) \<and> body_ok e h (n_body (run_refills env nd))
    \<and> n_processed_frames (run_refills env nd) = n_processed_frames nd
    \<and> n_in_buffer_processed_frames (run_refills env nd) = n_in_buffer_processed_frames nd"
proof (cases "n_body nd")
  case (FileInput f)
  obtain nd' c where i: "settle (fetch_bytes env) (nd, fi_controller f) = (nd', c)" by fastforce
  have "controller_inv c" "same_but_file nd nd'"
    using controller_inv_settle [of "fi_controller f" env nd] settle_same [of nd env "fi_controller f"]
      assms FileInput i by (simp_all add: body_ok_def)
  then show ?thesis
    using refilled_node [OF _ FileInput assms] FileInput i by (simp add: run_refills_def)
qed (use assms in \<open>simp_all add: run_refills_def\<close>)

lemma reinitialize_buffers_node:
  assumes "body_ok e h (n_body nd)"
  shows "n_target (reinitialize_buffers env nd) = n_target nd \<and> n_id (reinitialize_buffers env nd) = n_id nd
    \<and> same_kind (n_body nd) (n_body (reinitialize_buffers env nd)) \<and> body_ok e h (n_body (reinitialize_buffers env nd))
    \<and> n_processed_frames (reinitialize_buffers env nd) = n_processed_frames nd
    \<and> n_in_buffer_processed_frames (reinitialize_buffers env nd) = n_in_buffer_processed_frames nd"
proof (cases "n_body nd")
  case (FileInput f)
  let ?nd = "nd\<lparr>n_body := FileInput (f\<lparr>fi_spawned_inits := fi_spawned_inits f - 1\<rparr>)\<rparr>"
  have "body_ok e h (n_body ?nd)" using assms FileInput by (simp add: body_ok_def)
  then show ?thesis
    using initialize_buffers_node [of e h ?nd env] FileInput by (simp add: reinitialize_buffers_def same_kind_def)
qed (use assms in \<open>simp_all add: reinitialize_buffers_def\<close>)

lemma initialize_nodes_wf:
  assumes "wf_heap e h"
  shows "wf_heap e (initialize_nodes env h) \<and> same_wiring h (initialize_nodes env h) \<and> calmer h (initialize_nodes env h)"
  using wf_heap_nth [OF assms] initialize_buffers_node [of e h]
  by (intro wf_heap_pointwise [OF assms]) (auto simp: initialize_nodes_def)

lemma wf_heap_node:
  assumes "wf_heap e h" and "p < length h"
    and "n_target nd = n_target (h ! p) \<and> n_id nd = n_id (h ! p) \<and> same_kind (n_body (h ! p)) (n_body nd) \<and> body_ok e h (n_body nd)
      \<and> n_processed_frames nd = n_processed_frames (h ! p) \<and> n_in_buffer_processed_frames nd = n_in_buffer_processed_frames (h ! p)"
  shows "wf_heap e (h[p := nd]) \<and> same_wiring h (h[p := nd]) \<and> calmer h (h[p := nd])"
  using wf_heap_upd [OF assms(1,2)] same_wiring_upd [OF assms(2)] calmer_upd [of nd h p] assms(3) by simp

lemma run_refills_wf:
  assumes "wf_heap e h" and "p < length h"
  shows "wf_heap e (upd p (run_refills env) h) \<and> same_wiring h (upd p (run_refills env) h) \<and> calmer h (upd p (run_refills env) h)"
  unfolding upd_def by (intro wf_heap_node [OF assms] run_refills_node wf_heap_nth [OF assms])

lemma reinitialize_buffers_wf:
  assumes "wf_heap e h" and "p < length h"
  shows "wf_heap e (upd p (reinitialize_buffers env) h) \<and> same_wiring h (upd p (reinitialize_buffers env) h)
    \<and> calmer h (upd p (reinitialize_buffers env) h)"
  unfolding upd_def by (intro wf_heap_node [OF assms] reinitialize_buffers_node wf_heap_nth [OF assms])

section \<open>Preparing\<close>

lemma detect_and_flag_wf:
  assumes "wf_heap e h" and "s < length h"
  shows "\<exists>h'. detect_and_flag_loops (Some s) h = Some h' \<and> wf_heap e h' \<and> same_wiring h h' \<and> calmer h h'"
proof -
  have "wf_targets h" using assms(1) by (simp add: wf_heap_def)
  then obtain h' where h': "detect_and_flag_loops (Some s) h = Some h'" "length h' = length h"
    "\<forall>x < length h. \<exists>b. h' ! x = (h ! x)\<lparr>n_in_loop := b\<rparr>"
    using detect_and_flag_spec [OF _ assms(2)] by blast
  have "n_target (h' ! x) = n_target (h ! x) \<and> n_id (h' ! x) = n_id (h ! x) \<and> n_body (h' ! x) = n_body (h ! x)
      \<and> n_processed_frames (h' ! x) = n_processed_frames (h ! x) \<and> n_in_buffer_processed_frames (h' ! x) = n_in_buffer_processed_frames (h ! x)"
    if "x < length h" for x
    using h'(3) that by fastforce
  then have "wf_heap e h' \<and> same_wiring h h' \<and> calmer h h'"
    using wf_heap_nth [OF assms(1)] h'(2) by (intro wf_heap_pointwise [OF assms(1)]) simp_all
  then show ?thesis using h'(1) by blast
qed

lemma prepare_inv:
  assumes "executor_inv e x" and "g_start_node (x_graph x) = Some s" and "s < length (x_heap x)"
  shows "\<exists>r x'. prepare env received x = Some (r, x') \<and> executor_inv e x'
    \<and> g_start_node (x_graph x') = Some s \<and> s < length (x_heap x') \<and> same_wiring (x_heap x) (x_heap x') \<and> calmer (x_heap x) (x_heap x')"
proof (cases "x_current_node x = None \<or> \<not> has_value (await_all_dynamic (g_file_nodes (x_graph x)) received)")
  case True
  then show ?thesis
    using assms by (cases "await_all_dynamic (g_file_nodes (x_graph x)) received") (auto simp: prepare_def)
next
  case False
  then obtain u where a: "await_all_dynamic (g_file_nodes (x_graph x)) received = Inr u" "x_current_node x \<noteq> None"
    by (auto simp: has_value_iff)
  define h1 where "h1 = update_mixers (g_mixer_nodes (x_graph x)) (initialize_nodes env (x_heap x))"
  have wf: "wf_heap e (x_heap x)" using assms(1) by (simp add: executor_inv_def)
  have h1: "wf_heap e h1" "same_wiring (x_heap x) h1" "calmer (x_heap x) h1"
    using initialize_nodes_wf [OF wf, of env] update_mixers_wf same_wiring_trans calmer_trans unfolding h1_def by blast+
  have s: "s < length h1" using h1(2) assms(3) by (simp add: same_wiring_def)
  then obtain h2 where h2: "detect_and_flag_loops (Some s) h1 = Some h2" "wf_heap e h2" "same_wiring h1 h2" "calmer h1 h2"
    using detect_and_flag_wf [OF h1(1)] by blast
  have w: "same_wiring (x_heap x) h2" "calmer (x_heap x) h2"
    using same_wiring_trans [OF h1(2) h2(3)] calmer_trans [OF h1(3) h2(4)] .
  have len: "s < length h2" using s h2(3) by (simp add: same_wiring_def)
  obtain x' where x': "prepare env received x = Some (Inr (), x')" "x_heap x' = h2" "x_current_node x' = Some s"
      "g_start_node (x_graph x') = Some s"
    using a assms(2) h2(1) unfolding h1_def by (auto simp: prepare_def set_heap_def)
  have "executor_inv e x'" using x'(2,3) h2(2) len by (simp add: executor_inv_def)
  then show ?thesis using x' w len by auto
qed

end
