(* ===== verification/Rtp_Packet.thy ===== *)
theory Rtp_Packet
  imports Hermes_Types
begin

text \<open>
  \<open>network/rtp/Packet.hpp\<close> and \<open>Packet.cpp\<close>: the RTP packet, its serialiser \<open>to_buffer\<close> and
  its parser \<open>from_buffer\<close>. The two packed structs \<open>FirstOctet\<close> and \<open>SecondOctet\<close> are bit
  fields allocated from the low bit up (the x86-64 ABI).
\<close>

section \<open>Packets\<close>

record rtp_extension =
  ext_id :: u16
  ext_data :: "u32 list"

record rtp_header =
  h_padding :: bool
  h_version :: u8
  h_payload_type :: u8
  h_marker :: bool
  h_sequence_num :: u16
  h_timestamp :: u32
  h_ssrc :: u32
  h_csrc_list :: "u32 list"
  h_extension :: "rtp_extension option"

record rtp_packet =
  pkt_header :: rtp_header
  pkt_payload :: bytes

text \<open>\<open>generate_ssrc\<close> draws from \<open>uniform_int_distribution(1, 0xFFFFFFFF)\<close>: the draw is the
  parameter, mapped into the closed range.\<close>

definition generate_ssrc :: "nat \<Rightarrow> u32" where
  "generate_ssrc draw = of_nat (1 + draw mod 0xFFFFFFFF)"

definition add_ssrc :: "u32 \<Rightarrow> rtp_packet \<Rightarrow> rtp_packet" where
  "add_ssrc new_ssrc p =
     (let h = pkt_header p
      in p\<lparr>pkt_header := h\<lparr>h_csrc_list := h_csrc_list h @ [h_ssrc h], h_ssrc := new_ssrc\<rparr>\<rparr>)"

definition MINIMUM_HEADER_SIZE :: nat where "MINIMUM_HEADER_SIZE = 12"
definition MINIMUM_EXTENSION_SIZE :: nat where "MINIMUM_EXTENSION_SIZE = 4"

text \<open>The bit fields: each member keeps only the bits of its width.\<close>

definition first_octet :: "u8 \<Rightarrow> bool \<Rightarrow> bool \<Rightarrow> u8 \<Rightarrow> u8" where
  "first_octet cc extension padding version =
     take_bit 4 cc OR push_bit 4 (of_bool extension) OR push_bit 5 (of_bool padding)
       OR push_bit 6 (take_bit 2 version)"

definition second_octet :: "u8 \<Rightarrow> bool \<Rightarrow> u8" where
  "second_octet payload_type marker = take_bit 7 payload_type OR push_bit 7 (of_bool marker)"

section \<open>Serialiser\<close>

definition to_buffer :: "rtp_packet \<Rightarrow> bytes \<Rightarrow> (nat \<times> bytes) option" where
  "to_buffer p packet_buffer =
    (let header = pkt_header p;
         csrc_list_size = length (h_csrc_list header) * 4;
         extension_size = (case h_extension header of
             Some e \<Rightarrow> MINIMUM_EXTENSION_SIZE + length (ext_data e) * 4 | None \<Rightarrow> 0);
         buffer_size = MINIMUM_HEADER_SIZE + csrc_list_size + extension_size + length (pkt_payload p)
     in if buffer_size > length packet_buffer then None
        else
          let st = (0, packet_buffer);
              st = emit [first_octet (of_nat (length (h_csrc_list header))) (h_extension header \<noteq> None)
                          (h_padding header) (h_version header)] st;
              st = emit [second_octet (h_payload_type header) (h_marker header)] st;
              st = emit (be16 (h_sequence_num header)) st;
              st = emit (be32 (h_timestamp header)) st;
              st = emit (be32 (h_ssrc header)) st;
              st = fold (\<lambda>csrc. emit (be32 csrc)) (h_csrc_list header) st;
              st = (case h_extension header of
                      None \<Rightarrow> st
                    | Some e \<Rightarrow>
                        let st = emit (be16 (ext_id e)) st;
                            st = emit (be16 (of_nat (length (ext_data e)))) st
                        in fold (\<lambda>val. emit (be32 val)) (ext_data e) st);
              st = emit (pkt_payload p) st
          in Some (buffer_size, snd st))"

section \<open>Parser\<close>

definition cc_of :: "u8 \<Rightarrow> nat" where "cc_of o1 = unat (take_bit 4 o1)"

definition from_buffer :: "bytes \<Rightarrow> rtp_packet option" where
  "from_buffer buffer =
    (if length buffer < MINIMUM_HEADER_SIZE then None
     else
       let o1 = buffer ! 0;
           expected_size = MINIMUM_HEADER_SIZE + cc_of o1 * 4
       in if length buffer < expected_size then None
          else
            let o2 = buffer ! 1;
                sequence_num = get_be16 buffer 2;
                timestamp = get_be32 buffer 4;
                ssrc = get_be32 buffer 8;
                csrc_list = map (\<lambda>i. get_be32 buffer (12 + 4 * i)) [0..<cc_of o1];
                buf_ptr = 12 + 4 * cc_of o1;
                mk = (\<lambda>extension buf_ptr.
                  \<lparr>pkt_header = \<lparr>h_padding = bit o1 5, h_version = drop_bit 6 o1,
                     h_payload_type = take_bit 7 o2, h_marker = bit o2 7,
                     h_sequence_num = sequence_num, h_timestamp = timestamp, h_ssrc = ssrc,
                     h_csrc_list = csrc_list, h_extension = extension\<rparr>,
                   pkt_payload = drop buf_ptr buffer\<rparr>)
            in if bit o1 4 then
                 let expected_size = expected_size + MINIMUM_EXTENSION_SIZE
                 in if length buffer < expected_size then None
                    else
                      let eid = get_be16 buffer buf_ptr;
                          extension_data_size = unat (get_be16 buffer (buf_ptr + 2));
                          buf_ptr = buf_ptr + 4;
                          expected_size = expected_size + extension_data_size * 4
                      in if length buffer < expected_size then None
                         else
                           let extension_data =
                                 map (\<lambda>i. get_be32 buffer (buf_ptr + 4 * i)) [0..<extension_data_size]
                           in Some (mk (Some \<lparr>ext_id = eid, ext_data = extension_data\<rparr>)
                                       (buf_ptr + 4 * extension_data_size))
               else Some (mk None buf_ptr))"

section \<open>The wire format\<close>

text \<open>The bytes of a packet as one list, and the headers whose fields fit their bit fields.\<close>

definition ext_bytes :: "rtp_extension option \<Rightarrow> bytes" where
  "ext_bytes oe = (case oe of None \<Rightarrow> []
     | Some e \<Rightarrow> be16 (ext_id e) @ be16 (of_nat (length (ext_data e))) @ concat (map be32 (ext_data e)))"

definition fixed_bytes :: "rtp_header \<Rightarrow> bytes" where
  "fixed_bytes h =
     [first_octet (of_nat (length (h_csrc_list h))) (h_extension h \<noteq> None) (h_padding h) (h_version h),
      second_octet (h_payload_type h) (h_marker h)] @
     be16 (h_sequence_num h) @ be32 (h_timestamp h) @ be32 (h_ssrc h)"

definition wire_bytes :: "rtp_packet \<Rightarrow> bytes" where
  "wire_bytes p = fixed_bytes (pkt_header p) @ concat (map be32 (h_csrc_list (pkt_header p)))
     @ ext_bytes (h_extension (pkt_header p)) @ pkt_payload p"

definition wf_header :: "rtp_header \<Rightarrow> bool" where
  "wf_header h \<longleftrightarrow> unat (h_version h) < 4 \<and> unat (h_payload_type h) < 128
     \<and> length (h_csrc_list h) \<le> 15
     \<and> (case h_extension h of None \<Rightarrow> True | Some e \<Rightarrow> length (ext_data e) < 65536)"

lemma length_fixed_bytes [simp]: "length (fixed_bytes h) = 12"
  by (simp add: fixed_bytes_def)

lemma length_ext_bytes:
  "length (ext_bytes oe) = (case oe of None \<Rightarrow> 0 | Some e \<Rightarrow> 4 + 4 * length (ext_data e))"
  by (simp add: ext_bytes_def split: option.splits)

lemma length_wire_bytes:
  "length (wire_bytes p) = 12 + 4 * length (h_csrc_list (pkt_header p))
     + length (ext_bytes (h_extension (pkt_header p))) + length (pkt_payload p)"
  by (simp add: wire_bytes_def)

lemma to_buffer_wire:
  "to_buffer p buf =
     (if length buf < length (wire_bytes p) then None
      else Some (length (wire_bytes p), wire_bytes p @ drop (length (wire_bytes p)) buf))"
proof (cases "length buf < length (wire_bytes p)")
  case True
  then show ?thesis
    by (auto simp: to_buffer_def Let_def length_wire_bytes length_ext_bytes MINIMUM_HEADER_SIZE_def
        MINIMUM_EXTENSION_SIZE_def ac_simps split: option.splits)
next
  case False
  then have le: "12 + 4 * length (h_csrc_list (pkt_header p))
      + length (ext_bytes (h_extension (pkt_header p))) + length (pkt_payload p) \<le> length buf"
    by (simp add: length_wire_bytes)
  show ?thesis
  proof (cases "h_extension (pkt_header p)")
    case None
    with le False show ?thesis
      by (simp del: emit.simps add: to_buffer_def Let_def buf_simps wire_bytes_def ext_bytes_def
          fixed_bytes_def MINIMUM_HEADER_SIZE_def)
  next
    case (Some e)
    with le False show ?thesis
      by (simp del: emit.simps add: to_buffer_def Let_def buf_simps wire_bytes_def ext_bytes_def
          fixed_bytes_def MINIMUM_HEADER_SIZE_def MINIMUM_EXTENSION_SIZE_def)
  qed
qed

section \<open>Reading fields back\<close>

lemma get_be32_be32: "get_be32 (be32 w @ ys) 0 = w"
  using be32_join [of w] by (simp add: get_be32_def be32_def)

lemma get_be16_be16: "get_be16 (be16 w @ ys) 0 = w"
  using be16_join [of w] by (simp add: get_be16_def be16_def)

lemma get_be32_append: "length xs \<le> p \<Longrightarrow> get_be32 (xs @ ys) p = get_be32 ys (p - length xs)"
  by (simp add: get_be32_def nth_append Suc_diff_le)

lemma get_be16_append: "length xs \<le> p \<Longrightarrow> get_be16 (xs @ ys) p = get_be16 ys (p - length xs)"
  by (simp add: get_be16_def nth_append Suc_diff_le)

lemma get_be32_concat:
  "i < length ws \<Longrightarrow> get_be32 (concat (map be32 ws) @ ys) (4 * i) = ws ! i"
proof (induction ws arbitrary: i)
  case Nil
  then show ?case by simp
next
  case (Cons w ws)
  then show ?case
    by (cases i) (simp_all add: get_be32_be32 get_be32_append)
qed

lemma map_get_be32_concat:
  "n = length ws \<Longrightarrow> map (\<lambda>i. get_be32 (concat (map be32 ws) @ ys) (4 * i)) [0..<n] = ws"
  by (rule nth_equalityI) (auto simp: get_be32_concat)

lemma be32_get: "be32 (get_be32 b p) = [b ! p, b ! (p + 1), b ! (p + 2), b ! (p + 3)]"
  by (simp add: get_be32_def be32_split)

lemma be16_get: "be16 (get_be16 b p) = [b ! p, b ! (p + 1)]"
  by (simp add: get_be16_def be16_split)

lemma take_drop_Suc_nth:
  "p < length b \<Longrightarrow> take (Suc n) (drop p b) = b ! p # take n (drop (Suc p) b)"
  by (simp add: Cons_nth_drop_Suc [symmetric])

lemma be32_get_slice: "p + 4 \<le> length b \<Longrightarrow> be32 (get_be32 b p) = take 4 (drop p b)"
  by (simp add: be32_get take_drop_Suc_nth eval_nat_numeral)

lemma be16_get_slice: "p + 2 \<le> length b \<Longrightarrow> be16 (get_be16 b p) = take 2 (drop p b)"
  by (simp add: be16_get take_drop_Suc_nth eval_nat_numeral)

lemma concat_be32_get:
  "q + 4 * n \<le> length b \<Longrightarrow>
   concat (map (\<lambda>i. be32 (get_be32 b (q + 4 * i))) [0..<n]) = take (4 * n) (drop q b)"
proof (induction n)
  case 0
  then show ?case by simp
next
  case (Suc n)
  have "concat (map (\<lambda>i. be32 (get_be32 b (q + 4 * i))) [0..<Suc n])
      = take (4 * n) (drop q b) @ be32 (get_be32 b (q + 4 * n))"
    using Suc by simp
  also have "\<dots> = take (4 * n) (drop q b) @ take 4 (drop (4 * n) (drop q b))"
    using Suc.prems by (simp add: be32_get_slice add.commute)
  also have "\<dots> = take (4 * n + 4) (drop q b)"
    by (simp only: take_add)
  finally show ?case by (simp add: add.commute)
qed

text \<open>The two octets: what the bit fields hold is what the parser reads.\<close>

lemma unat_take_bit_small: "unat w < 2 ^ k \<Longrightarrow> take_bit k (w :: u8) = w"
  by (rule word_unat_eq_iff [THEN iffD2]) (simp add: unsigned_take_bit_eq take_bit_nat_eq_self)

lemma first_octet_fields:
  "take_bit 4 (first_octet cc e p v) = take_bit 4 cc"
  "bit (first_octet cc e p v) 4 = e"
  "bit (first_octet cc e p v) 5 = p"
  "drop_bit 6 (first_octet cc e p v) = take_bit 2 v"
  by (auto simp: first_octet_def bit_simps intro!: bit_word_eqI)

lemma second_octet_fields:
  "take_bit 7 (second_octet pt m) = take_bit 7 pt"
  "bit (second_octet pt m) 7 = m"
  by (auto simp: second_octet_def bit_simps intro!: bit_word_eqI)

lemma first_octet_of_fields:
  "first_octet (take_bit 4 b) (bit b 4) (bit b 5) (drop_bit 6 b) = b"
proof (rule bit_word_eqI)
  fix n
  assume "n < LENGTH(8)"
  then consider "n < 4" | "n = 4" | "n = 5" | "n = 6" | "n = 7" by fastforce
  then show "bit (first_octet (take_bit 4 b) (bit b 4) (bit b 5) (drop_bit 6 b)) n \<longleftrightarrow> bit b n"
    by cases (auto simp: first_octet_def bit_simps)
qed

lemma second_octet_of_fields: "second_octet (take_bit 7 b) (bit b 7) = b"
proof (rule bit_word_eqI)
  fix n
  assume "n < LENGTH(8)"
  then consider "n < 7" | "n = 7" by fastforce
  then show "bit (second_octet (take_bit 7 b) (bit b 7)) n \<longleftrightarrow> bit b n"
    by cases (auto simp: second_octet_def bit_simps)
qed

section \<open>Parsing what was serialised\<close>

lemma unat_of_nat_u8 [simp]: "n < 256 \<Longrightarrow> unat (of_nat n :: u8) = n"
  by (simp add: unsigned_of_nat take_bit_nat_eq_self)

lemma unat_of_nat_u16 [simp]: "n < 65536 \<Longrightarrow> unat (of_nat n :: u16) = n"
  by (simp add: unsigned_of_nat take_bit_nat_eq_self)

lemma wire_fixed_fields:
  assumes "b = fixed_bytes h @ r"
  shows "b ! 0 = first_octet (of_nat (length (h_csrc_list h))) (h_extension h \<noteq> None) (h_padding h) (h_version h)"
    and "b ! 1 = second_octet (h_payload_type h) (h_marker h)"
    and "get_be16 b 2 = h_sequence_num h"
    and "get_be32 b 4 = h_timestamp h"
    and "get_be32 b 8 = h_ssrc h"
  using assms be16_join [of "h_sequence_num h"] be32_join [of "h_timestamp h"] be32_join [of "h_ssrc h"]
  by (simp_all add: fixed_bytes_def be16_def be32_def get_be16_def get_be32_def)

lemma cc_of_first_octet:
  "n \<le> 15 \<Longrightarrow> cc_of (first_octet (of_nat n) e p v) = n"
  by (simp add: cc_of_def first_octet_fields unat_take_bit_small)

lemma from_buffer_wire:
  assumes "wf_header (pkt_header p)"
  shows "from_buffer (wire_bytes p) = Some p"
proof -
  let ?h = "pkt_header p" and ?b = "wire_bytes p"
  let ?n = "length (h_csrc_list ?h)"
  have b: "?b = fixed_bytes ?h @ concat (map be32 (h_csrc_list ?h)) @ ext_bytes (h_extension ?h) @ pkt_payload p"
    by (simp add: wire_bytes_def)
  note fields = wire_fixed_fields [OF b]
  have wf: "?n \<le> 15" "take_bit 2 (h_version ?h) = h_version ?h"
      "take_bit 7 (h_payload_type ?h) = h_payload_type ?h"
    using assms by (auto simp: wf_header_def unat_take_bit_small)
  have csrc: "map (\<lambda>i. get_be32 ?b (12 + 4 * i)) [0..<?n] = h_csrc_list ?h"
    using map_get_be32_concat [OF refl] by (simp add: b get_be32_append)
  show ?thesis
  proof (cases "h_extension ?h")
    case None
    then show ?thesis
      using wf csrc unfolding from_buffer_def fields
      by (simp add: Let_def MINIMUM_HEADER_SIZE_def length_wire_bytes ext_bytes_def b first_octet_fields
          second_octet_fields cc_of_first_octet)
  next
    case (Some e)
    let ?m = "length (ext_data e)"
    have m: "?m < 65536" using assms Some by (simp add: wf_header_def)
    have e1: "get_be16 ?b (12 + 4 * ?n) = ext_id e"
      and e2: "get_be16 ?b (12 + 4 * ?n + 2) = of_nat ?m"
      using Some by (simp_all add: b get_be16_append ext_bytes_def get_be16_be16)
    have e3: "map (\<lambda>i. get_be32 ?b (12 + 4 * ?n + 4 + 4 * i)) [0..<?m] = ext_data e"
      using Some map_get_be32_concat [OF refl, of "ext_data e" "pkt_payload p"]
      by (simp add: b get_be32_append ext_bytes_def)
    show ?thesis
      using wf csrc e1 e2 e3 m Some unfolding from_buffer_def fields
      by (simp add: Let_def MINIMUM_HEADER_SIZE_def MINIMUM_EXTENSION_SIZE_def length_wire_bytes
          ext_bytes_def b first_octet_fields second_octet_fields cc_of_first_octet)
  qed
qed

section \<open>Serialising what was parsed\<close>

lemma cc_of_le: "cc_of o1 \<le> 15"
proof -
  have "unat (take_bit 4 o1) < 2 ^ 4"
    by (simp only: unsigned_take_bit_eq) (rule take_bit_nat_less_exp)
  then show ?thesis by (simp add: cc_of_def)
qed

lemma of_nat_cc_of: "take_bit 4 (of_nat (cc_of o1) :: u8) = take_bit 4 o1"
  by (simp add: cc_of_def)

lemma first_octet_cc: "first_octet (of_nat (cc_of b)) (bit b 4) (bit b 5) (drop_bit 6 b) = b"
  using first_octet_of_fields [of b] by (simp add: first_octet_def of_nat_cc_of)

lemma buffer_fixed_part:
  assumes "12 \<le> length b"
  shows "[b ! 0, b ! 1] @ be16 (get_be16 b 2) @ be32 (get_be32 b 4) @ be32 (get_be32 b 8) = take 12 b"
proof -
  have "take 12 b = map ((!) b) [0..<12]"
    using assms by (intro nth_equalityI) auto
  then show ?thesis by (simp add: be16_get be32_get upt_conv_Cons eval_nat_numeral)
qed

lemma take_drop_join: "take m b @ take n (drop m b) = take (m + n) b"
  by (simp add: take_add)

lemma from_buffer_bytes:
  assumes "from_buffer b = Some p"
  shows "wire_bytes p = b" and "wf_header (pkt_header p)"
proof -
  let ?cc = "cc_of (b ! 0)"
  let ?q = "12 + 4 * ?cc"
  have len: "12 \<le> length b" "?q \<le> length b"
    using assms by (auto simp: from_buffer_def MINIMUM_HEADER_SIZE_def Let_def split: if_splits)
  have fixed: "fixed_bytes \<lparr>h_padding = bit (b ! 0) 5, h_version = drop_bit 6 (b ! 0),
       h_payload_type = take_bit 7 (b ! 1), h_marker = bit (b ! 1) 7,
       h_sequence_num = get_be16 b 2, h_timestamp = get_be32 b 4, h_ssrc = get_be32 b 8,
       h_csrc_list = map (\<lambda>i. get_be32 b (12 + 4 * i)) [0..<?cc], h_extension = oe\<rparr> = take 12 b"
    if "(oe \<noteq> None) = bit (b ! 0) 4" for oe
    using buffer_fixed_part [OF len(1)] that first_octet_cc [of "b ! 0"] second_octet_of_fields [of "b ! 1"]
    by (simp add: fixed_bytes_def)
  have csrc: "concat (map be32 (map (\<lambda>i. get_be32 b (12 + 4 * i)) [0..<?cc])) = take (4 * ?cc) (drop 12 b)"
    using concat_be32_get [of 12 ?cc b] len(2) by (simp add: comp_def)
  have small: "unat (drop_bit 6 (b ! 0)) < 4" "unat (take_bit 7 (b ! 1)) < 128"
    using unat_u8_lt [of "b ! 0"] take_bit_nat_less_exp [of 7 "unat (b ! 1)"]
    by (simp_all add: drop_bit_eq_div unat_div unsigned_take_bit_eq del: unat_u8_lt)
  have split: "take 12 b @ take (4 * ?cc) (drop 12 b) @ drop ?q b = b"
    by (simp only: append_assoc [symmetric] take_drop_join append_take_drop_id)
  show "wire_bytes p = b" and "wf_header (pkt_header p)"
  proof (atomize (full), cases "bit (b ! 0) 4")
    case False
    with assms have "p = \<lparr>pkt_header = \<lparr>h_padding = bit (b ! 0) 5, h_version = drop_bit 6 (b ! 0),
       h_payload_type = take_bit 7 (b ! 1), h_marker = bit (b ! 1) 7,
       h_sequence_num = get_be16 b 2, h_timestamp = get_be32 b 4, h_ssrc = get_be32 b 8,
       h_csrc_list = map (\<lambda>i. get_be32 b (12 + 4 * i)) [0..<?cc], h_extension = None\<rparr>,
       pkt_payload = drop ?q b\<rparr>"
      by (auto simp: from_buffer_def Let_def split: if_splits)
    with False show "wire_bytes p = b \<and> wf_header (pkt_header p)"
      using small cc_of_le [of "b ! 0"] split
      by (simp add: wire_bytes_def fixed csrc ext_bytes_def wf_header_def
          del: map_map One_nat_def)
  next
    case True
    let ?m = "unat (get_be16 b (?q + 2))"
    let ?e = "\<lparr>ext_id = get_be16 b ?q,
       ext_data = map (\<lambda>i. get_be32 b (?q + 4 + 4 * i)) [0..<?m]\<rparr>"
    from True assms have p: "p = \<lparr>pkt_header = \<lparr>h_padding = bit (b ! 0) 5, h_version = drop_bit 6 (b ! 0),
       h_payload_type = take_bit 7 (b ! 1), h_marker = bit (b ! 1) 7,
       h_sequence_num = get_be16 b 2, h_timestamp = get_be32 b 4, h_ssrc = get_be32 b 8,
       h_csrc_list = map (\<lambda>i. get_be32 b (12 + 4 * i)) [0..<?cc], h_extension = Some ?e\<rparr>,
       pkt_payload = drop (?q + 4 + 4 * ?m) b\<rparr>"
      and len2: "?q + 4 + 4 * ?m \<le> length b"
      by (auto simp: from_buffer_def Let_def MINIMUM_HEADER_SIZE_def MINIMUM_EXTENSION_SIZE_def
          split: if_splits)
    have some: "(Some ?e \<noteq> None) = bit (b ! 0) 4" using True by simp
    have "ext_bytes (Some ?e) = be16 (get_be16 b ?q) @ be16 (get_be16 b (?q + 2))
        @ concat (map (\<lambda>i. be32 (get_be32 b (?q + 4 + 4 * i))) [0..<?m])"
      by (simp add: ext_bytes_def comp_def)
    also have "\<dots> = take 2 (drop ?q b) @ take 2 (drop (?q + 2) b) @ take (4 * ?m) (drop (?q + 4) b)"
      using len2 by (simp add: be16_get_slice concat_be32_get)
    also have "\<dots> = take (4 + 4 * ?m) (drop ?q b)"
      by (simp only: take_add [of 4] take_add [of 2 2, simplified] drop_drop append_assoc)
         (simp add: ac_simps)
    finally have ext: "ext_bytes (Some ?e) = take (4 + 4 * ?m) (drop ?q b)" .
    have "wire_bytes p = take 12 b @ take (4 * ?cc) (drop 12 b) @ take (4 + 4 * ?m) (drop ?q b)
        @ drop (?q + 4 + 4 * ?m) b"
      by (simp only: p wire_bytes_def rtp_packet.select_convs rtp_header.select_convs
          fixed [OF some] csrc ext)
    also have "\<dots> = take (?q + (4 + 4 * ?m)) b @ drop (?q + (4 + 4 * ?m)) b"
      by (simp only: append_assoc [symmetric] take_drop_join add.assoc)
    finally have "wire_bytes p = b" by simp
    moreover have "?m < 65536"
      using unsigned_less [where 'a = nat, of "get_be16 b (?q + 2)"] by simp
    ultimately show "wire_bytes p = b \<and> wf_header (pkt_header p)"
      using small cc_of_le [of "b ! 0"] by (simp add: p wf_header_def)
  qed
qed

section \<open>Properties\<close>

text \<open>
  C15: Serialising a packet whose fields fit the header and parsing the span that
  \<open>to_buffer\<close> returns gives the packet back, with its CSRC list, extension and payload.
\<close>

theorem rtp_serialise_parse:
  assumes "wf_header (pkt_header p)" and "to_buffer p buf = Some (n, buf')"
  shows "from_buffer (take n buf') = Some p"
  using assms from_buffer_wire [OF assms(1)] by (auto simp: to_buffer_wire split: if_splits)

definition sample_packet :: rtp_packet where
  "sample_packet = \<lparr>pkt_header = \<lparr>h_padding = False, h_version = 2, h_payload_type = 8, h_marker = True,
     h_sequence_num = 65535, h_timestamp = 320, h_ssrc = 0xDEADBEEF, h_csrc_list = [7],
     h_extension = Some \<lparr>ext_id = 9, ext_data = [1, 2]\<rparr>\<rparr>, pkt_payload = [0x55, 0xD5]\<rparr>"

lemma sample_packet_wf: "wf_header (pkt_header sample_packet)"
  by (simp add: wf_header_def sample_packet_def)

theorem rtp_serialise_parse_witness:
  "\<exists>buf'. to_buffer sample_packet (replicate 40 0) = Some (30, buf')
     \<and> from_buffer (take 30 buf') = Some sample_packet"
proof -
  have "to_buffer sample_packet (replicate 40 0)
      = Some (30, wire_bytes sample_packet @ replicate 10 0)"
    by (simp add: to_buffer_wire length_wire_bytes length_ext_bytes sample_packet_def)
  with rtp_serialise_parse [OF sample_packet_wf this] show ?thesis by blast
qed

text \<open>
  C16: Parsing never loses or invents a byte: whatever \<open>from_buffer\<close> accepts, serialising the
  result into any large enough buffer writes exactly the parsed bytes, and the fields it read
  fit the header.
\<close>

theorem rtp_parse_serialise:
  assumes "from_buffer b = Some p" and "length b \<le> length buf"
  shows "to_buffer p buf = Some (length b, b @ drop (length b) buf) \<and> wf_header (pkt_header p)"
  using from_buffer_bytes [OF assms(1)] assms(2) by (simp add: to_buffer_wire)

theorem rtp_parse_serialise_witness:
  "to_buffer sample_packet (wire_bytes sample_packet)
     = Some (length (wire_bytes sample_packet), wire_bytes sample_packet)"
  using rtp_parse_serialise [OF from_buffer_wire [OF sample_packet_wf], of "wire_bytes sample_packet"]
  by simp

text \<open>
  \<open>to_buffer\<close> refuses a packet exactly when the buffer is shorter than header, CSRC list,
  extension and payload together; otherwise it returns that size and leaves every byte behind
  it, and the length of the buffer, as they were.
\<close>

theorem to_buffer_bounds:
  "to_buffer p buf =
     (let n = 12 + 4 * length (h_csrc_list (pkt_header p))
              + (case h_extension (pkt_header p) of None \<Rightarrow> 0 | Some e \<Rightarrow> 4 + 4 * length (ext_data e))
              + length (pkt_payload p)
      in if length buf < n then None else Some (n, take n (wire_bytes p) @ drop n buf))"
  by (simp add: to_buffer_wire length_wire_bytes length_ext_bytes Let_def)

text \<open>
  A packet with more than 15 contributing sources is serialised to bytes that name a
  different number of them: the four-bit count wraps, so a parser reads the first of the two
  lists short and takes the rest for payload.
\<close>

theorem csrc_count_wraps:
  assumes "length (h_csrc_list (pkt_header p)) = 16" and "h_extension (pkt_header p) = None"
    and "unat (h_version (pkt_header p)) < 4" and "unat (h_payload_type (pkt_header p)) < 128"
  shows "map_option (\<lambda>q. (h_csrc_list (pkt_header q), length (pkt_payload q))) (from_buffer (wire_bytes p))
     = Some ([], 64 + length (pkt_payload p))"
proof -
  let ?h = "pkt_header p"
  have b: "wire_bytes p = fixed_bytes ?h @ concat (map be32 (h_csrc_list ?h)) @ ext_bytes (h_extension ?h) @ pkt_payload p"
    by (simp add: wire_bytes_def)
  have cc: "cc_of (first_octet (of_nat (length (h_csrc_list ?h))) False (h_padding ?h) (h_version ?h)) = 0"
    using assms(1) by (simp add: cc_of_def first_octet_fields)
  show ?thesis
    using assms(1,2) cc unfolding from_buffer_def wire_fixed_fields [OF b]
    by (simp add: Let_def MINIMUM_HEADER_SIZE_def length_wire_bytes ext_bytes_def first_octet_fields)
qed

theorem csrc_count_wraps_witness:
  "map_option (\<lambda>q. (h_csrc_list (pkt_header q), length (pkt_payload q)))
     (from_buffer (wire_bytes (sample_packet\<lparr>pkt_header := (pkt_header sample_packet)
        \<lparr>h_csrc_list := replicate 16 0, h_extension := None\<rparr>\<rparr>))) = Some ([], 66)"
  using csrc_count_wraps [of "sample_packet\<lparr>pkt_header := (pkt_header sample_packet)
        \<lparr>h_csrc_list := replicate 16 0, h_extension := None\<rparr>\<rparr>"]
  by (simp add: sample_packet_def)

end
