(* ===== verification/Encryption.thy ===== *)
theory Encryption
  imports Hermes_Types
begin

text \<open>
  \<open>infra/crypto/EncryptionStrategy\<close>: the encryption interface and its AES-CTR instance.
  Crypto++ is a parameter: \<open>keystream key iv\<close> is the stream that CTR mode, resynchronised on
  \<open>iv\<close>, XORs onto the data (its documented behaviour), or \<open>None\<close> when the library throws.
\<close>

section \<open>64-bit loads and stores\<close>

definition le64 :: "u64 \<Rightarrow> bytes" where
  "le64 w = map (\<lambda>k. ucast (drop_bit (8 * k) w)) [0..<8]"

text \<open>The value that a little-endian load of the eight bytes at \<open>p\<close> gives.\<close>

definition get_le64 :: "bytes \<Rightarrow> nat \<Rightarrow> u64" where
  "get_le64 b p = foldr (\<lambda>k w. push_bit 8 w OR ucast (b ! (p + k))) [0..<8] 0"

lemma length_le64 [simp]: "length (le64 w) = 8"
  by (simp add: le64_def)

lemma le64_inj: "le64 v = le64 w \<Longrightarrow> v = w"
proof (rule bit_word_eqI)
  fix n
  assume eq: "le64 v = le64 w" and n: "n < LENGTH(64)"
  have "(ucast (drop_bit (8 * (n div 8)) v) :: u8) = ucast (drop_bit (8 * (n div 8)) w)"
    using eq n unfolding le64_def map_eq_conv by (auto simp: less_mult_imp_div_less)
  then have "bit (ucast (drop_bit (8 * (n div 8)) v) :: u8) (n mod 8)
      = bit (ucast (drop_bit (8 * (n div 8)) w) :: u8) (n mod 8)" by simp
  then show "bit v n = bit w n"
    by (simp add: bit_simps)
qed

section \<open>The encryption interface\<close>

text \<open>\<open>IEncryptionStrategy::encrypt\<close> works in place and returns the number of bytes done.\<close>

locale encryption_strategy =
  fixes encrypt :: "bytes \<Rightarrow> u64 \<Rightarrow> nat \<times> bytes"
  assumes encrypt_length: "encrypt pcm packet_index = (n, pcm') \<Longrightarrow> length pcm' = length pcm"

section \<open>AES in CTR mode\<close>

definition AES_BLOCK_SIZE :: nat where "AES_BLOCK_SIZE = 16"
definition AES_XOR_OFFSET :: nat where "AES_XOR_OFFSET = 8"

record aes_strategy =
  aes_key :: bytes
  aes_base_iv :: bytes

definition create_aes_encryption_strategy :: "bytes \<Rightarrow> bytes \<Rightarrow> (string, aes_strategy) expected" where
  "create_aes_encryption_strategy key base_iv =
     (if length key \<noteq> AES_BLOCK_SIZE \<or> length base_iv \<noteq> AES_BLOCK_SIZE
      then Inl ''AES-128 requires 16-byte key and IV''
      else Inr \<lparr>aes_key = key, aes_base_iv = base_iv\<rparr>)"

type_synonym keystream = "bytes \<Rightarrow> bytes \<Rightarrow> (nat \<Rightarrow> u8) option"

definition packet_iv :: "aes_strategy \<Rightarrow> u64 \<Rightarrow> bytes" where
  "packet_iv a packet_index =
     put AES_XOR_OFFSET (le64 (get_le64 (aes_base_iv a) AES_XOR_OFFSET XOR packet_index)) (aes_base_iv a)"

definition aes_encrypt :: "keystream \<Rightarrow> aes_strategy \<Rightarrow> bytes \<Rightarrow> u64 \<Rightarrow> nat \<times> bytes" where
  "aes_encrypt ks a pcm packet_index =
     (if pcm = [] then (0, pcm)
      else if length (aes_base_iv a) \<noteq> AES_BLOCK_SIZE then (0, pcm)
      else case ks (aes_key a) (packet_iv a packet_index) of
             None \<Rightarrow> (0, pcm)
           | Some s \<Rightarrow> (length pcm, map (\<lambda>i. (pcm ! i) XOR s i) [0..<length pcm]))"

interpretation aes: encryption_strategy "aes_encrypt ks a" for ks a
  by unfold_locales (auto simp: aes_encrypt_def split: if_splits option.splits)

lemma packet_iv_inj:
  assumes "length (aes_base_iv a) = 16" and "packet_iv a i = packet_iv a j"
  shows "i = j"
proof -
  let ?t = "get_le64 (aes_base_iv a) 8"
  have "le64 (?t XOR i) = take 8 (drop 8 (packet_iv a i))" for i
    using assms(1) put_segment [of 8 "le64 (?t XOR i)" "aes_base_iv a"]
    by (simp add: packet_iv_def AES_XOR_OFFSET_def)
  then have "le64 (?t XOR i) = le64 (?t XOR j)" using assms(2) by metis
  then have "?t XOR i = ?t XOR j" by (rule le64_inj)
  then have "?t XOR (?t XOR i) = ?t XOR (?t XOR j)" by (rule arg_cong)
  then show ?thesis by (simp flip: xor.assoc)
qed

lemma aes_encrypt_twice:
  "length (aes_base_iv a) = 16 \<Longrightarrow> ks (aes_key a) (packet_iv a idx) = Some s \<Longrightarrow>
   snd (aes_encrypt ks a (snd (aes_encrypt ks a pcm idx)) idx) = pcm"
  by (auto simp: aes_encrypt_def AES_BLOCK_SIZE_def xor.assoc intro!: nth_equalityI)

end
