(* ===== verification/Rtp_Packetizer.thy ===== *)
theory Rtp_Packetizer
  imports Rtp_Packet Pcm Encryption
begin

text \<open>
  \<open>network/rtp/RTPPacketizer\<close> and \<open>network/rtp/PacketUtils.hpp\<close>: sequence numbers, roll-over
  counter and timestamps of a stream, and the assembly of one packet in place. A span of the
  output buffer is an offset and a length into it, so that the payload that \<open>packetize\<close>
  encrypts and copies is the part of the buffer the codec wrote.
\<close>

section \<open>Packetizer\<close>

record packetizer =
  p_payload_type :: u8
  p_ssrc :: u32
  p_sequence_num :: u16
  p_roc :: u32
  p_timestamp :: u32
  p_timestamp_increment :: u32

text \<open>The constructor draws the first sequence number and timestamp at random: the draws are
  parameters.\<close>

definition new_packetizer :: "u8 \<Rightarrow> u32 \<Rightarrow> u32 \<Rightarrow> u16 \<Rightarrow> u32 \<Rightarrow> packetizer" where
  "new_packetizer payload_type ssrc timestamp_increment seq_draw ts_draw =
     \<lparr>p_payload_type = payload_type, p_ssrc = ssrc, p_sequence_num = seq_draw, p_roc = 0,
      p_timestamp = ts_draw, p_timestamp_increment = timestamp_increment\<rparr>"

definition update_timestamp :: "packetizer \<Rightarrow> packetizer" where
  "update_timestamp st = st\<lparr>p_timestamp := p_timestamp st + p_timestamp_increment st\<rparr>"

definition advance_sequence :: "packetizer \<Rightarrow> packetizer" where
  "advance_sequence st =
     (let st = st\<lparr>p_sequence_num := p_sequence_num st + 1\<rparr>
      in if p_sequence_num st = 0 then st\<lparr>p_roc := p_roc st + 1\<rparr> else st)"

definition packet_index :: "u32 \<Rightarrow> u16 \<Rightarrow> u64" where
  "packet_index roc current_seq = push_bit 16 (ucast roc) OR ucast current_seq"

definition packet_header :: "packetizer \<Rightarrow> u16 \<Rightarrow> rtp_header" where
  "packet_header st current_seq =
     \<lparr>h_padding = False, h_version = 2, h_payload_type = p_payload_type st, h_marker = False,
      h_sequence_num = current_seq, h_timestamp = p_timestamp st, h_ssrc = p_ssrc st,
      h_csrc_list = [], h_extension = None\<rparr>"

type_synonym encryptor = "(bytes \<Rightarrow> u64 \<Rightarrow> nat \<times> bytes) option"

definition packetize ::
  "packetizer \<Rightarrow> nat \<Rightarrow> nat \<Rightarrow> bytes \<Rightarrow> encryptor \<Rightarrow> nat \<times> packetizer \<times> bytes" where
  "packetize st off n out_buffer ency =
    (let current_seq = p_sequence_num st;
         st = advance_sequence st;
         hdr = packet_header st current_seq;
         out_buffer = (case ency of
             None \<Rightarrow> out_buffer
           | Some encrypt \<Rightarrow>
               put off (snd (encrypt (take n (drop off out_buffer)) (packet_index (p_roc st) current_seq)))
                 out_buffer);
         packet = \<lparr>pkt_header = hdr, pkt_payload = take n (drop off out_buffer)\<rparr>
     in case to_buffer packet out_buffer of
          None \<Rightarrow> (0, st, out_buffer)
        | Some (sz, out_buffer) \<Rightarrow> (sz, update_timestamp st, out_buffer))"

section \<open>Packet assembly\<close>

definition packet_to_rtp ::
  "(bytes \<Rightarrow> bytes \<Rightarrow> nat \<times> bytes) \<Rightarrow> encryptor \<Rightarrow> bytes \<Rightarrow> packetizer \<Rightarrow> bytes \<Rightarrow> nat \<times> packetizer \<times> bytes"
  where
  "packet_to_rtp encode encryptor pcmFrame packetizer outBuffer =
    (if length outBuffer < RTP_HEADER_SIZE then (0, packetizer, outBuffer)
     else
       let (encoded_size, payload_buffer) = encode pcmFrame (drop RTP_HEADER_SIZE outBuffer);
           outBuffer = take RTP_HEADER_SIZE outBuffer @ payload_buffer
       in if encoded_size = 0 then (0, packetizer, outBuffer)
          else packetize packetizer RTP_HEADER_SIZE encoded_size outBuffer encryptor)"

lemma wire_packet_header:
  "wire_bytes \<lparr>pkt_header = packet_header st s, pkt_payload = pl\<rparr> = fixed_bytes (packet_header st s) @ pl"
  by (simp add: wire_bytes_def packet_header_def ext_bytes_def)

lemma wf_packet_header: "unat (p_payload_type st) < 128 \<Longrightarrow> wf_header (packet_header st s)"
  by (simp add: wf_header_def packet_header_def)

lemma advance_sequence_frame [simp]:
  "p_payload_type (advance_sequence st) = p_payload_type st"
  "p_ssrc (advance_sequence st) = p_ssrc st"
  "p_timestamp (advance_sequence st) = p_timestamp st"
  "p_timestamp_increment (advance_sequence st) = p_timestamp_increment st"
  "p_sequence_num (advance_sequence st) = p_sequence_num st + 1"
  by (simp_all add: advance_sequence_def Let_def)

text \<open>What the payload of a packet is: the encoded bytes, run through the encryptor if there is one.\<close>

definition sealed :: "encryptor \<Rightarrow> packetizer \<Rightarrow> bytes \<Rightarrow> bytes" where
  "sealed ency st codes = (case ency of None \<Rightarrow> codes
     | Some encrypt \<Rightarrow>
         snd (encrypt codes (packet_index (p_roc (advance_sequence st)) (p_sequence_num st))))"

lemma packetize_eq:
  assumes "length (sealed ency st (take n (drop 12 out))) = n" and "12 + n \<le> length out"
  defines "wire \<equiv> fixed_bytes (packet_header (advance_sequence st) (p_sequence_num st))
                    @ sealed ency st (take n (drop 12 out))"
  shows "packetize st 12 n out ency
     = (12 + n, update_timestamp (advance_sequence st), wire @ drop (12 + n) out)"
proof -
  have pl: "take n (drop 12 (put 12 bs out)) = bs" if "length bs = n" for bs
    using that assms(2) put_segment [of 12 bs out] by simp
  show ?thesis
  proof (cases ency)
    case None
    then show ?thesis
      using assms(1,2) by (simp add: packetize_def Let_def to_buffer_wire wire_packet_header wire_def sealed_def)
  next
    case (Some encrypt)
    then show ?thesis
      using assms(1,2) pl
      by (simp add: packetize_def Let_def to_buffer_wire wire_packet_header wire_def sealed_def drop_put_ge)
  qed
qed

text \<open>
  A stream is a codec and, when it is secure, an encryptor that keep the laws of their
  interfaces: then \<open>packet_to_rtp\<close> assembles a well-formed packet. Proved once for every codec
  and encryptor.
\<close>

locale rtp_stream = codec_strategy encode + encryption_strategy encrypt
  for encode :: "bytes \<Rightarrow> bytes \<Rightarrow> nat \<times> bytes"
    and encrypt :: "bytes \<Rightarrow> u64 \<Rightarrow> nat \<times> bytes"
begin

lemma length_sealed: "length (sealed (if e then Some encrypt else None) st codes) = length codes"
proof (cases e)
  case True
  then show ?thesis
    using encrypt_length [of codes _ "fst (encrypt codes i)" "snd (encrypt codes i)" for i]
    by (simp add: sealed_def)
qed (simp add: sealed_def)

lemma packet_to_rtp_eq:
  assumes "12 \<le> length out" and "encode pcm (drop 12 out) = (n, body)" and "n \<noteq> 0"
  shows "packet_to_rtp encode (if e then Some encrypt else None) pcm st out =
     (12 + n, update_timestamp (advance_sequence st),
      fixed_bytes (packet_header (advance_sequence st) (p_sequence_num st))
        @ sealed (if e then Some encrypt else None) st (take n body) @ drop n body)"
proof -
  have n: "n \<le> length body"
    using encode_fits [OF assms(2)] encode_keeps_length [OF assms(2)] by simp
  then have s: "length (sealed (if e then Some encrypt else None) st (take n body)) = n"
    by (simp add: length_sealed)
  show ?thesis
    using assms n s packetize_eq [of "if e then Some encrypt else None" st n "take 12 out @ body"]
    by (simp add: packet_to_rtp_def)
qed

lemma packet_to_rtp_parses:
  assumes "12 \<le> length out" and "encode pcm (drop 12 out) = (n, body)" and "n \<noteq> 0"
    and "unat (p_payload_type st) < 128"
    and "packet_to_rtp encode (if e then Some encrypt else None) pcm st out = (sz, st', out')"
  shows "from_buffer (take sz out') =
     Some \<lparr>pkt_header = packet_header st (p_sequence_num st),
           pkt_payload = sealed (if e then Some encrypt else None) st (take n body)\<rparr>"
proof -
  let ?p = "\<lparr>pkt_header = packet_header (advance_sequence st) (p_sequence_num st),
           pkt_payload = sealed (if e then Some encrypt else None) st (take n body)\<rparr>"
  have "n \<le> length body"
    using encode_fits [OF assms(2)] encode_keeps_length [OF assms(2)] by simp
  then have "take sz out' = wire_bytes ?p"
    using packet_to_rtp_eq [OF assms(1-3), of e st] assms(5)
    by (auto simp: wire_packet_header length_sealed)
  moreover have "from_buffer (wire_bytes ?p) = Some ?p"
    using assms(4) by (intro from_buffer_wire) (simp add: wf_packet_header)
  moreover have "packet_header (advance_sequence st) = packet_header st"
    by (simp add: packet_header_def fun_eq_iff)
  ultimately show ?thesis by simp
qed

end

interpretation alaw_aes: rtp_stream alaw_encode "aes_encrypt ks a" for ks a
  by unfold_locales

section \<open>Successive packets\<close>

text \<open>The 48-bit counter that the roll-over counter and the sequence number form.\<close>

definition stream_counter :: "packetizer \<Rightarrow> nat" where
  "stream_counter st = unat (p_roc st) * 65536 + unat (p_sequence_num st)"

lemma stream_counter_advance:
  "stream_counter (advance_sequence st) = (stream_counter st + 1) mod 2 ^ 48"
proof -
  have s: "unat (p_sequence_num st + 1) = (if unat (p_sequence_num st) = 65535 then 0 else unat (p_sequence_num st) + 1)"
    using unsigned_less [where 'a = nat, of "p_sequence_num st"]
    by (simp add: unat_word_ariths)
  have r: "unat (p_roc st + 1) = (if unat (p_roc st) = 4294967295 then 0 else unat (p_roc st) + 1)"
    using unsigned_less [where 'a = nat, of "p_roc st"]
    by (simp add: unat_word_ariths)
  have z: "p_sequence_num st + 1 = 0 \<longleftrightarrow> unat (p_sequence_num st) = 65535"
    using s by (metis Zero_not_Suc Suc_eq_plus1 unsigned_0 unsigned_eq_0_iff)
  have "unat (p_roc st) < 4294967296" "unat (p_sequence_num st) < 65536"
    using unsigned_less [where 'a = nat, of "p_roc st"] unsigned_less [where 'a = nat, of "p_sequence_num st"] by simp_all
  then show ?thesis
    by (auto simp: stream_counter_def advance_sequence_def Let_def z s r)
qed

lemma stream_counter_funpow:
  "stream_counter ((advance_sequence ^^ k) st) = (stream_counter st + k) mod 2 ^ 48"
proof (induction k)
  case 0
  have "unat (p_roc st) < 4294967296" "unat (p_sequence_num st) < 65536"
    using unsigned_less [where 'a = nat, of "p_roc st"] unsigned_less [where 'a = nat, of "p_sequence_num st"] by simp_all
  then show ?case by (simp add: stream_counter_def)
next
  case (Suc k)
  then show ?case
    using mod_Suc_eq [of "stream_counter st + k" "2 ^ 48"] by (simp add: stream_counter_advance)
qed

lemma unat_packet_index: "unat (packet_index roc s) = unat roc * 65536 + unat s"
proof -
  let ?h = "push_bit 16 (ucast roc) :: u64" and ?l = "ucast s :: u64"
  have "?h AND ?l = 0"
    by (rule bit_word_eqI) (auto simp: bit_simps dest: bit_imp_le_length)
  then have "packet_index roc s = ?h + ?l"
    unfolding packet_index_def by (rule disjunctive_add_eq_or [symmetric])
  moreover have "unat ?h = unat roc * 65536"
    using unsigned_less [where 'a = nat, of roc]
    by (simp add: push_bit_eq_mult unat_word_ariths unsigned_ucast_eq take_bit_nat_eq_self)
  moreover have "unat ?l = unat s"
    using unsigned_less [where 'a = nat, of s] by (simp add: unsigned_ucast_eq take_bit_nat_eq_self)
  ultimately show ?thesis
    using unsigned_less [where 'a = nat, of roc] unsigned_less [where 'a = nat, of s]
    by (simp add: unat_word_ariths)
qed

lemma low_high_unique:
  "a * 65536 + b = c * 65536 + d \<Longrightarrow> b < 65536 \<Longrightarrow> d < 65536 \<Longrightarrow> a = c \<and> b = (d :: nat)"
proof -
  assume eq: "a * 65536 + b = c * 65536 + d" and "b < 65536" "d < 65536"
  then have "a = c" using arg_cong [OF eq, of "\<lambda>x. x div 65536"] by simp
  then show ?thesis using eq by simp
qed

lemma packet_index_inj:
  assumes "packet_index r s = packet_index r' s'"
  shows "r = r' \<and> s = s'"
proof -
  have "unat r * 65536 + unat s = unat r' * 65536 + unat s'"
    using assms unat_packet_index by metis
  then have "unat r = unat r' \<and> unat s = unat s'"
    using unsigned_less [where 'a = nat, of s] unsigned_less [where 'a = nat, of s']
    by (intro low_high_unique) simp_all
  then show ?thesis by (auto intro: unsigned_word_eqI)
qed

text \<open>The index under which the next packet is encrypted.\<close>

definition next_index :: "packetizer \<Rightarrow> u64" where
  "next_index st = packet_index (p_roc (advance_sequence st)) (p_sequence_num st)"

lemma next_index_inj:
  assumes "next_index s = next_index t"
  shows "stream_counter s = stream_counter t"
proof -
  have "p_sequence_num s = p_sequence_num t" "p_roc (advance_sequence s) = p_roc (advance_sequence t)"
    using packet_index_inj assms unfolding next_index_def by blast+
  then show ?thesis
    by (auto simp: stream_counter_def advance_sequence_def Let_def split: if_splits)
qed

lemma next_index_distinct:
  assumes "i < j" and "j < 2 ^ 48"
  shows "next_index ((advance_sequence ^^ i) st) \<noteq> next_index ((advance_sequence ^^ j) st)"
proof
  assume "next_index ((advance_sequence ^^ i) st) = next_index ((advance_sequence ^^ j) st)"
  then have "(stream_counter st + i) mod 2 ^ 48 = (stream_counter st + j) mod 2 ^ 48"
    using next_index_inj stream_counter_funpow by metis
  then have "(j - i) mod 2 ^ 48 = 0"
    using assms(1) by (metis add_diff_cancel_left less_imp_le_nat mod_eq_dvd_iff_nat add_le_cancel_left dvd_eq_mod_eq_0)
  then show False using assms by simp
qed


section \<open>The properties of one packet\<close>

abbreviation alaw_packet :: "keystream \<Rightarrow> aes_strategy option \<Rightarrow> bytes \<Rightarrow> packetizer \<Rightarrow> bytes \<Rightarrow> nat \<times> packetizer \<times> bytes" where
  "alaw_packet ks a \<equiv> packet_to_rtp alaw_encode (map_option (aes_encrypt ks) a)"

definition alaw_codes :: "bytes \<Rightarrow> bytes" where
  "alaw_codes pcm = map alaw_of_sample (as_samples pcm)"

definition alaw_sealed :: "keystream \<Rightarrow> aes_strategy option \<Rightarrow> packetizer \<Rightarrow> bytes \<Rightarrow> bytes" where
  "alaw_sealed ks a st pcm = sealed (map_option (aes_encrypt ks) a) st (alaw_codes pcm)"

lemma alaw_encode_frame:
  "length pcm div 2 \<le> length out \<Longrightarrow>
   alaw_encode pcm out = (length pcm div 2, alaw_codes pcm @ drop (length pcm div 2) out)"
  by (simp add: alaw_encode_eq alaw_codes_def)

lemma map_option_if: "map_option f a = (if a \<noteq> None then Some (f (the a)) else None)"
  by (cases a) auto

lemma alaw_packet_eq:
  assumes "2 \<le> length pcm" and "12 + length pcm div 2 \<le> length out"
  shows "alaw_packet ks a pcm st out =
    (12 + length pcm div 2, update_timestamp (advance_sequence st),
     fixed_bytes (packet_header st (p_sequence_num st)) @ alaw_sealed ks a st pcm
       @ drop (12 + length pcm div 2) out)"
proof -
  have n: "length pcm div 2 \<noteq> 0" using assms(1) by linarith
  have h: "packet_header (advance_sequence st) = packet_header st"
    by (simp add: packet_header_def fun_eq_iff)
  have l: "length (alaw_codes pcm) = length pcm div 2" by (simp add: alaw_codes_def)
  show ?thesis
    using assms alaw_aes.packet_to_rtp_eq
      [where out = out and pcm = pcm and ks = ks and a = "the a" and e = "a \<noteq> None" and st = st,
        OF _ alaw_encode_frame n]
    by (simp add: map_option_if h l alaw_sealed_def add.commute)
qed

lemma alaw_packet_parses:
  assumes "2 \<le> length pcm" and "12 + length pcm div 2 \<le> length out"
    and "unat (p_payload_type st) < 128"
    and "alaw_packet ks a pcm st out = (sz, st', out')"
  shows "from_buffer (take sz out') =
    Some \<lparr>pkt_header = packet_header st (p_sequence_num st), pkt_payload = alaw_sealed ks a st pcm\<rparr>"
proof -
  have n: "length pcm div 2 \<noteq> 0" using assms(1) by linarith
  have l: "length (alaw_codes pcm) = length pcm div 2" by (simp add: alaw_codes_def)
  show ?thesis
    using assms alaw_aes.packet_to_rtp_parses
      [where out = out and pcm = pcm and ks = ks and a = "the a" and e = "a \<noteq> None" and st = st
        and sz = sz and st' = st' and out' = out', OF _ alaw_encode_frame n]
    by (simp add: map_option_if l alaw_sealed_def)
qed

section \<open>Properties\<close>

text \<open>A frame through \<open>packet_to_rtp\<close> with the A-law codec, encrypted or not, gives a packet that
  \<open>from_buffer\<close> reads back: version 2, the stream's payload type, SSRC, sequence number and
  timestamp, and as payload the A-law codes of the frame, sealed. The packetizer moves on by one
  sequence number and one timestamp increment, and the buffer behind the packet is not written.\<close>

theorem stream_packet_parses:
  assumes "2 \<le> length pcm" and "12 + length pcm div 2 \<le> length out"
    and "unat (p_payload_type st) < 128"
    and "packet_to_rtp alaw_encode (map_option (aes_encrypt ks) a) pcm st out = (sz, st', out')"
  shows "sz = 12 + length pcm div 2
    \<and> from_buffer (take sz out') =
        Some \<lparr>pkt_header = packet_header st (p_sequence_num st), pkt_payload = alaw_sealed ks a st pcm\<rparr>
    \<and> p_sequence_num st' = p_sequence_num st + 1
    \<and> p_timestamp st' = p_timestamp st + p_timestamp_increment st
    \<and> drop sz out' = drop sz out"
proof -
  have l: "length (alaw_sealed ks a st pcm) = length pcm div 2"
    using alaw_aes.length_sealed
      [where ks = ks and a = "the a" and e = "a \<noteq> None" and st = st and codes = "alaw_codes pcm"]
    by (simp add: alaw_sealed_def map_option_if alaw_codes_def)
  show ?thesis
    using alaw_packet_parses [OF assms] alaw_packet_eq [OF assms(1,2), of ks a st] assms(4) l
    by (auto simp: update_timestamp_def)
qed

lemma stream_packet_parses_witness:
  "\<exists>sz st' out'. packet_to_rtp alaw_encode None [8, 0, 248, 255] (new_packetizer 8 7 160 65535 1) (replicate 20 0)
     = (sz, st', out') \<and> sz = 14 \<and> p_sequence_num st' = 0 \<and> p_timestamp st' = 161"
proof -
  obtain sz st' out' where eq: "packet_to_rtp alaw_encode (map_option (aes_encrypt (\<lambda>_ _. None)) None)
      [8, 0, 248, 255] (new_packetizer 8 7 160 65535 1) (replicate 20 0) = (sz, st', out')"
    by (metis prod_cases3)
  have "sz = 14 \<and> p_sequence_num st' = 0 \<and> p_timestamp st' = 161"
    using stream_packet_parses [OF _ _ _ eq] by (simp add: new_packetizer_def)
  then show ?thesis using eq by simp
qed

text \<open>A receiver that holds the stream's AES key and base IV and takes the packet index the
  sender used recovers exactly the A-law codes of the frame.\<close>

theorem secure_stream_decrypts:
  assumes "length (aes_base_iv a) = 16"
    and "ks (aes_key a) (packet_iv a (next_index st)) = Some s"
    and "2 \<le> length pcm" and "12 + length pcm div 2 \<le> length out"
    and "unat (p_payload_type st) < 128"
    and "packet_to_rtp alaw_encode (map_option (aes_encrypt ks) (Some a)) pcm st out = (sz, st', out')"
  shows "\<exists>pkt. from_buffer (take sz out') = Some pkt
    \<and> snd (aes_encrypt ks a (pkt_payload pkt) (next_index st)) = alaw_codes pcm"
proof -
  have "alaw_sealed ks (Some a) st pcm = snd (aes_encrypt ks a (alaw_codes pcm) (next_index st))"
    by (simp add: alaw_sealed_def sealed_def next_index_def)
  then show ?thesis
    using alaw_packet_parses [OF assms(3-6)] aes_encrypt_twice [of a ks "next_index st" s "alaw_codes pcm"] assms(1,2)
    by simp
qed

lemma secure_stream_decrypts_witness:
  "\<exists>sz st' out' pkt. packet_to_rtp alaw_encode
       (Some (aes_encrypt (\<lambda>_ _. Some (\<lambda>i. of_nat i + 90)) \<lparr>aes_key = replicate 16 1, aes_base_iv = replicate 16 2\<rparr>))
       [8, 0, 248, 255] (new_packetizer 8 7 160 65535 1) (replicate 20 0) = (sz, st', out')
     \<and> from_buffer (take sz out') = Some pkt
     \<and> snd (aes_encrypt (\<lambda>_ _. Some (\<lambda>i. of_nat i + 90)) \<lparr>aes_key = replicate 16 1, aes_base_iv = replicate 16 2\<rparr>
         (pkt_payload pkt) (next_index (new_packetizer 8 7 160 65535 1))) = [213, 85]"
proof -
  let ?a = "\<lparr>aes_key = replicate 16 1, aes_base_iv = replicate 16 2\<rparr>"
  let ?ks = "\<lambda>(_::bytes) (_::bytes). Some (\<lambda>i. of_nat i + 90 :: u8)"
  obtain sz st' out' where eq: "packet_to_rtp alaw_encode (map_option (aes_encrypt ?ks) (Some ?a))
      [8, 0, 248, 255] (new_packetizer 8 7 160 65535 1) (replicate 20 0) = (sz, st', out')"
    by (metis prod_cases3)
  have "alaw_codes [8, 0, 248, 255] = [213, 85]" by code_simp
  then show ?thesis
    using secure_stream_decrypts [OF _ _ _ _ _ eq] eq by (auto simp: new_packetizer_def)
qed

text \<open>C31: Within \<open>2 ^ 48\<close> packets no two packets of a stream are encrypted under the same IV.\<close>

theorem packet_ivs_distinct:
  assumes "length (aes_base_iv a) = 16" and "i < j" and "j < 2 ^ 48"
  shows "packet_iv a (next_index ((advance_sequence ^^ i) st)) \<noteq> packet_iv a (next_index ((advance_sequence ^^ j) st))"
  using packet_iv_inj [OF assms(1)] next_index_distinct [OF assms(2,3)] by blast

lemma packet_ivs_distinct_witness:
  "packet_iv \<lparr>aes_key = [], aes_base_iv = replicate 16 2\<rparr> (next_index ((advance_sequence ^^ 3) (new_packetizer 8 7 160 65535 1)))
   \<noteq> packet_iv \<lparr>aes_key = [], aes_base_iv = replicate 16 2\<rparr> (next_index ((advance_sequence ^^ 65539) (new_packetizer 8 7 160 65535 1)))"
  by (rule packet_ivs_distinct) simp_all

text \<open>The packet with the last sequence number of an epoch is encrypted under the roll-over
  counter of the next epoch: its index is 65536 more than the index that its roll-over counter
  and its sequence number form, and every other packet gets the latter.\<close>

theorem index_at_rollover:
  "next_index st =
     (if p_sequence_num st = - 1 then packet_index (p_roc st + 1) (p_sequence_num st)
      else packet_index (p_roc st) (p_sequence_num st))"
proof -
  have "p_sequence_num st + 1 = 0 \<longleftrightarrow> p_sequence_num st = - 1"
    by (simp add: eq_neg_iff_add_eq_0)
  then show ?thesis
    by (simp add: next_index_def advance_sequence_def Let_def del: add_eq_0_iff)
qed

text \<open>When the cipher throws, the packet is still sent, with the A-law codes in the clear.\<close>

theorem cipher_failure_sends_clear:
  assumes "\<And>k iv. ks k iv = None"
    and "2 \<le> length pcm" and "12 + length pcm div 2 \<le> length out"
    and "unat (p_payload_type st) < 128"
    and "packet_to_rtp alaw_encode (map_option (aes_encrypt ks) (Some a)) pcm st out = (sz, st', out')"
  shows "sz = 12 + length pcm div 2 \<and> map_option pkt_payload (from_buffer (take sz out')) = Some (alaw_codes pcm)"
proof -
  have "alaw_sealed ks (Some a) st pcm = alaw_codes pcm"
    by (simp add: alaw_sealed_def sealed_def aes_encrypt_def assms(1))
  then show ?thesis
    using alaw_packet_parses [OF assms(2-5)] alaw_packet_eq [OF assms(2,3), of ks "Some a" st] assms(5) by simp
qed

lemma cipher_failure_sends_clear_witness:
  "\<exists>sz st' out'. packet_to_rtp alaw_encode
       (Some (aes_encrypt (\<lambda>_ _. None) \<lparr>aes_key = replicate 16 1, aes_base_iv = replicate 16 2\<rparr>))
       [8, 0, 248, 255] (new_packetizer 8 7 160 65535 1) (replicate 20 0) = (sz, st', out')
     \<and> map_option pkt_payload (from_buffer (take sz out')) = Some [213, 85]"
proof -
  let ?a = "\<lparr>aes_key = replicate 16 1, aes_base_iv = replicate 16 2\<rparr>"
  obtain sz st' out' where eq: "packet_to_rtp alaw_encode (map_option (aes_encrypt (\<lambda>_ _. None)) (Some ?a))
      [8, 0, 248, 255] (new_packetizer 8 7 160 65535 1) (replicate 20 0) = (sz, st', out')"
    by (metis prod_cases3)
  have "alaw_codes [8, 0, 248, 255] = [213, 85]" by code_simp
  then show ?thesis
    using cipher_failure_sends_clear [OF _ _ _ _ eq] eq
    by (auto simp: new_packetizer_def)
qed

end
