(* ===== verification/Rtp_Streamer.thy ===== *)
theory Rtp_Streamer
  imports Rtp_Packetizer Complex_Main
begin

text \<open>
  \<open>network/rtp/RTPStreamer\<close>: the clients of a stream, its keys, the ring of packet buffers and
  the fan-out of one frame. Parameters: name resolution (\<open>make_endpoint\<close> is \<open>make_address\<close> with
  the port, \<open>resolve\<close> the resolver), the HKDF of Crypto++, the uniform draws of the loss
  simulation. Loss ratios are rationals.
\<close>

section \<open>State\<close>

record 'ep rtp_client =
  rc_endpoint :: 'ep
  rc_packet_loss_ratio :: rat

record 'ep rtp_streamer =
  s_bytes_sent :: u64
  s_packets_sent :: u64
  s_packet_ring :: "bytes list"
  s_ring_index :: nat
  s_packetizer :: packetizer
  s_encryptor :: "aes_strategy option"
  s_master_key :: bytes
  s_salt :: bytes
  s_clients :: "'ep rtp_client list"
  s_encryption_enabled :: bool

definition RING_BUFFER_SIZE :: nat where "RING_BUFFER_SIZE = 16"

definition create_streamer :: "bytes \<Rightarrow> bytes \<Rightarrow> nat \<Rightarrow> u16 \<Rightarrow> u32 \<Rightarrow> 'ep rtp_streamer" where
  "create_streamer master_key salt ssrc_draw seq_draw ts_draw =
     \<lparr>s_bytes_sent = 0, s_packets_sent = 0,
      s_packet_ring = replicate RING_BUFFER_SIZE (replicate (RTP_HEADER_SIZE + FRAME_SIZE_BYTES) 0),
      s_ring_index = 0,
      s_packetizer = new_packetizer alaw_payload_type (generate_ssrc ssrc_draw)
        (alaw_timestamp_increment FRAME_SIZE_BYTES) seq_draw ts_draw,
      s_encryptor = None, s_master_key = master_key, s_salt = salt, s_clients = [],
      s_encryption_enabled = False\<rparr>"

section \<open>Clients\<close>

definition lookup_endpoint ::
  "(string \<Rightarrow> u16 \<Rightarrow> 'ep option) \<Rightarrow> (string \<Rightarrow> u16 \<Rightarrow> 'ep list) \<Rightarrow> string \<Rightarrow> u16 \<Rightarrow> 'ep option" where
  "lookup_endpoint make_endpoint resolve host_or_ip port =
     (case make_endpoint host_or_ip port of
        Some ep \<Rightarrow> Some ep
      | None \<Rightarrow> (case resolve host_or_ip port of [] \<Rightarrow> None | ep # _ \<Rightarrow> Some ep))"

definition streamer_add_client ::
  "(string \<Rightarrow> u16 \<Rightarrow> 'ep option) \<Rightarrow> (string \<Rightarrow> u16 \<Rightarrow> 'ep list) \<Rightarrow> string \<Rightarrow> u16 \<Rightarrow> rat
     \<Rightarrow> 'ep rtp_streamer \<Rightarrow> 'ep rtp_streamer" where
  "streamer_add_client make_endpoint resolve host_or_ip port packet_loss_ratio st =
     (case lookup_endpoint make_endpoint resolve host_or_ip port of
        None \<Rightarrow> st
      | Some ep \<Rightarrow>
          if find (\<lambda>client. rc_endpoint client = ep) (s_clients st) = None
          then st\<lparr>s_clients := s_clients st
                 @ [\<lparr>rc_endpoint = ep, rc_packet_loss_ratio = packet_loss_ratio\<rparr>]\<rparr>
          else st)"

definition streamer_remove_client ::
  "(string \<Rightarrow> u16 \<Rightarrow> 'ep option) \<Rightarrow> (string \<Rightarrow> u16 \<Rightarrow> 'ep list) \<Rightarrow> string \<Rightarrow> u16
     \<Rightarrow> 'ep rtp_streamer \<Rightarrow> 'ep rtp_streamer" where
  "streamer_remove_client make_endpoint resolve host_or_ip port st =
     (case lookup_endpoint make_endpoint resolve host_or_ip port of
        None \<Rightarrow> st
      | Some ep \<Rightarrow> st\<lparr>s_clients := filter (\<lambda>client. rc_endpoint client \<noteq> ep) (s_clients st)\<rparr>)"

section \<open>Keys\<close>

text \<open>\<open>iv[0]\<close> to \<open>iv[3]\<close> on a shorter vector is undefined behaviour: \<open>None\<close>.\<close>

definition ssrc_bytes :: "u32 \<Rightarrow> bytes" where
  "ssrc_bytes ssrc = [ucast (drop_bit 24 ssrc), ucast (drop_bit 16 ssrc), ucast (drop_bit 8 ssrc), ucast ssrc]"

definition derive_iv_from_ssrc :: "bytes \<Rightarrow> u32 \<Rightarrow> bytes option" where
  "derive_iv_from_ssrc session_salt ssrc =
     (if length session_salt < 4 then None
      else Some (map2 (XOR) (take 4 session_salt) (ssrc_bytes ssrc) @ drop 4 session_salt))"

text \<open>\<open>hkdf length master salt info\<close> fills the 16-byte session key.\<close>

definition derive_session_key :: "(nat \<Rightarrow> bytes \<Rightarrow> bytes \<Rightarrow> bytes \<Rightarrow> bytes) \<Rightarrow> bytes \<Rightarrow> u32 \<Rightarrow> bytes" where
  "derive_session_key hkdf master_key ssrc = hkdf 16 master_key (ssrc_bytes ssrc) []"

datatype security_fault = UndefinedBehaviour | InvalidArgument string

definition setup_security ::
  "(nat \<Rightarrow> bytes \<Rightarrow> bytes \<Rightarrow> bytes \<Rightarrow> bytes) \<Rightarrow> 'ep rtp_streamer
     \<Rightarrow> (security_fault, 'ep rtp_streamer) expected" where
  "setup_security hkdf st =
     (let ssrc = p_ssrc (s_packetizer st)
      in case derive_iv_from_ssrc (s_salt st) ssrc of
           None \<Rightarrow> Inl UndefinedBehaviour
         | Some iv \<Rightarrow>
             (case create_aes_encryption_strategy (derive_session_key hkdf (s_master_key st) ssrc) iv of
                Inl e \<Rightarrow> Inl (InvalidArgument e)
              | Inr a \<Rightarrow> Inr (st\<lparr>s_encryptor := Some a, s_encryption_enabled := True\<rparr>)))"

section \<open>Sending a frame\<close>

text \<open>Each client with a positive ratio costs one draw; a draw below the ratio drops the packet.\<close>

fun fan_out :: "(nat \<Rightarrow> rat) \<Rightarrow> nat \<Rightarrow> 'ep rtp_client list \<Rightarrow> 'ep list" where
  "fan_out draw k [] = []"
| "fan_out draw k (client # clients) =
     (if rc_packet_loss_ratio client > 0
      then if draw k < rc_packet_loss_ratio client
           then fan_out draw (k + 1) clients
           else rc_endpoint client # fan_out draw (k + 1) clients
      else rc_endpoint client # fan_out draw k clients)"

text \<open>The sends that a frame starts: destination, ring slot, size.\<close>

definition send_frame ::
  "keystream \<Rightarrow> (nat \<Rightarrow> rat) \<Rightarrow> bytes \<Rightarrow> 'ep rtp_streamer \<Rightarrow> 'ep rtp_streamer \<times> ('ep \<times> nat \<times> nat) list" where
  "send_frame ks draw pcm_frame st =
    (if s_clients st = [] then (st, [])
     else
       let slot = s_ring_index st;
           st = st\<lparr>s_ring_index := (s_ring_index st + 1) mod RING_BUFFER_SIZE\<rparr>;
           (packet_size, pk, packet) =
             packet_to_rtp alaw_encode (map_option (aes_encrypt ks) (s_encryptor st)) pcm_frame
               (s_packetizer st) (s_packet_ring st ! slot);
           st = st\<lparr>s_packetizer := pk, s_packet_ring := (s_packet_ring st)[slot := packet]\<rparr>
       in if packet_size = 0 then (st, [])
          else (st, map (\<lambda>ep. (ep, slot, packet_size)) (fan_out draw 0 (s_clients st))))"

text \<open>The completion handler of \<open>async_send_to\<close>.\<close>

definition on_datagram_sent :: "bool \<Rightarrow> nat \<Rightarrow> 'ep rtp_streamer \<Rightarrow> 'ep rtp_streamer" where
  "on_datagram_sent ec bytes_transferred st =
     (if \<not> ec then st\<lparr>s_bytes_sent := s_bytes_sent st + of_nat bytes_transferred,
                     s_packets_sent := s_packets_sent st + 1\<rparr>
      else st)"

section \<open>Invariant\<close>

definition streamer_inv :: "'ep rtp_streamer \<Rightarrow> bool" where
  "streamer_inv st \<longleftrightarrow>
     length (s_packet_ring st) = 16 \<and> (\<forall>b\<in>set (s_packet_ring st). length b = 332)
     \<and> s_ring_index st < 16 \<and> distinct (map rc_endpoint (s_clients st))
     \<and> p_payload_type (s_packetizer st) = 8 \<and> p_timestamp_increment (s_packetizer st) = 160"

lemma streamer_inv_create [inv_intros]: "streamer_inv (create_streamer k s d1 d2 d3)"
  by (simp add: streamer_inv_def create_streamer_def RING_BUFFER_SIZE_def new_packetizer_def
      alaw_payload_type_def alaw_timestamp_increment_def)

lemma streamer_inv_add_client [inv_intros]:
  "streamer_inv st \<Longrightarrow> streamer_inv (streamer_add_client mk rs h p l st)"
  by (auto simp: streamer_inv_def streamer_add_client_def find_None_iff split: option.split)

lemma streamer_inv_remove_client [inv_intros]:
  "streamer_inv st \<Longrightarrow> streamer_inv (streamer_remove_client mk rs h p st)"
  by (auto simp: streamer_inv_def streamer_remove_client_def distinct_map_filter split: option.split)

lemma streamer_inv_setup_security [inv_intros]:
  "streamer_inv st \<Longrightarrow> setup_security hkdf st = Inr st' \<Longrightarrow> streamer_inv st'"
  by (auto simp: streamer_inv_def setup_security_def Let_def split: option.splits sum.splits)

lemma streamer_inv_on_datagram_sent [inv_intros]:
  "streamer_inv st \<Longrightarrow> streamer_inv (on_datagram_sent ec n st)"
  by (simp add: streamer_inv_def on_datagram_sent_def)

text \<open>What sending a packet does to the packetizer.\<close>

definition next_packet :: "packetizer \<Rightarrow> packetizer" where
  "next_packet st = update_timestamp (advance_sequence st)"

lemma next_packet_funpow:
  "p_sequence_num ((next_packet ^^ n) st) = p_sequence_num st + of_nat n"
  "p_timestamp ((next_packet ^^ n) st) = p_timestamp st + of_nat n * p_timestamp_increment st"
  "p_timestamp_increment ((next_packet ^^ n) st) = p_timestamp_increment st"
  "p_payload_type ((next_packet ^^ n) st) = p_payload_type st"
  "p_ssrc ((next_packet ^^ n) st) = p_ssrc st"
  by (induction n) (auto simp: next_packet_def update_timestamp_def algebra_simps)

lemma frame_packet:
  assumes "streamer_inv st" and "length pcm = 320"
  shows "packet_to_rtp alaw_encode (map_option (aes_encrypt ks) a) pcm (s_packetizer st) (s_packet_ring st ! s_ring_index st)
    = (172, next_packet (s_packetizer st),
       fixed_bytes (packet_header (s_packetizer st) (p_sequence_num (s_packetizer st)))
        @ alaw_sealed ks a (s_packetizer st) pcm @ drop 172 (s_packet_ring st ! s_ring_index st))"
proof -
  have "length (s_packet_ring st ! s_ring_index st) = 332"
    using assms(1) by (simp add: streamer_inv_def)
  then show ?thesis
    using alaw_packet_eq [of pcm "s_packet_ring st ! s_ring_index st" ks a "s_packetizer st"] assms(2)
    by (simp add: next_packet_def)
qed

text \<open>One frame to at least one client.\<close>

lemma send_frame_eq:
  assumes "streamer_inv st" and "length pcm = 320" and "s_clients st \<noteq> []"
  shows "send_frame ks draw pcm st =
    (st\<lparr>s_ring_index := (s_ring_index st + 1) mod 16,
        s_packetizer := next_packet (s_packetizer st),
        s_packet_ring := (s_packet_ring st)[s_ring_index st :=
          snd (snd (packet_to_rtp alaw_encode (map_option (aes_encrypt ks) (s_encryptor st)) pcm
                      (s_packetizer st) (s_packet_ring st ! s_ring_index st)))]\<rparr>,
     map (\<lambda>ep. (ep, s_ring_index st, 172)) (fan_out draw 0 (s_clients st)))"
  using assms frame_packet [OF assms(1,2)]
  by (simp add: send_frame_def Let_def RING_BUFFER_SIZE_def)

lemma fan_out_subset: "set (fan_out draw k cs) \<subseteq> rc_endpoint ` set cs"
  by (induction cs arbitrary: k) auto

lemma fan_out_lossless:
  "\<forall>c\<in>set cs. rc_packet_loss_ratio c \<le> 0 \<Longrightarrow> fan_out draw k cs = map rc_endpoint cs"
  by (induction cs arbitrary: k) (auto simp: not_less)

lemma length_packet:
  assumes "streamer_inv st" and "length pcm = 320"
  shows "length (snd (snd (packet_to_rtp alaw_encode (map_option (aes_encrypt ks) a) pcm
           (s_packetizer st) (s_packet_ring st ! s_ring_index st)))) = 332"
proof -
  have l: "length (alaw_sealed ks a (s_packetizer st) pcm) = 160"
    using alaw_aes.length_sealed
      [where ks = ks and a = "the a" and e = "a \<noteq> None" and st = "s_packetizer st" and codes = "alaw_codes pcm"] assms(2)
    by (simp add: alaw_sealed_def map_option_if alaw_codes_def)
  have r: "length (s_packet_ring st ! s_ring_index st) = 332"
    using assms(1) by (simp add: streamer_inv_def)
  show ?thesis
    by (simp add: frame_packet [OF assms] l r)
qed

lemma streamer_inv_send_frame [inv_intros]:
  assumes "streamer_inv st" and "length pcm = 320"
  shows "streamer_inv (fst (send_frame ks draw pcm st))"
proof (cases "s_clients st = []")
  case True
  then show ?thesis using assms(1) by (simp add: send_frame_def)
next
  case False
  then show ?thesis
    using assms(1) length_packet [OF assms, of ks "s_encryptor st"]
    unfolding send_frame_eq [OF assms False] streamer_inv_def
    by (auto simp: next_packet_def update_timestamp_def dest: set_update_subset_insert [THEN subsetD])
qed

section \<open>A run of frames\<close>

lemma ring_distance: "s < 16 \<Longrightarrow> r < (16::nat) \<Longrightarrow> (s + 16 - r) mod 16 = (if r \<le> s then s - r else s + 16 - r)"
  by (auto simp: mod_if)

lemma slot_shift:
  assumes "s < 16" "r < (16::nat)" "Suc n \<le> (s + 16 - r) mod 16"
  shows "n \<le> (s + 16 - (r + 1) mod 16) mod 16"
proof -
  have "(r + 1) mod 16 < 16" by simp
  moreover have "(r + 1) mod 16 = (if r = 15 then 0 else r + 1)" using assms(2) by (simp add: mod_if)
  ultimately show ?thesis using assms ring_distance [OF assms(1,2)] ring_distance [of s "(r + 1) mod 16"] assms(1)
   by (auto split: if_splits)
qed

lemma slot_last:
  assumes "r < (16::nat)" "n \<le> 15"
  shows "n \<le> (r + 16 - (r + 1) mod 16) mod 16"
proof -
  have "(r + 1) mod 16 < 16" by simp
  moreover have "(r + 1) mod 16 = (if r = 15 then 0 else r + 1)" using assms(1) by (simp add: mod_if)
  ultimately show ?thesis using assms ring_distance [of r "(r + 1) mod 16"]
   by (auto split: if_splits)
qed

text \<open>Frames sent one after the other, with the sends of each; \<open>draws i\<close> are the draws for the
  frame with \<open>i\<close> frames behind it.\<close>

fun send_frames ::
  "keystream \<Rightarrow> (nat \<Rightarrow> nat \<Rightarrow> rat) \<Rightarrow> bytes list \<Rightarrow> 'ep rtp_streamer
     \<Rightarrow> 'ep rtp_streamer \<times> ('ep \<times> nat \<times> nat) list list" where
  "send_frames ks draws [] st = (st, [])"
| "send_frames ks draws (pcm # pcms) st =
     (let (st, sends) = send_frame ks (draws (length pcms)) pcm st;
          (st, rest) = send_frames ks draws pcms st
      in (st, sends # rest))"

lemma send_frames_state:
  assumes "streamer_inv st" and "s_clients st \<noteq> []" and "\<forall>pcm\<in>set pcms. length pcm = 320"
    and "send_frames ks draws pcms st = (st', outs)"
  shows "streamer_inv st' \<and> s_clients st' = s_clients st \<and> s_encryptor st' = s_encryptor st
    \<and> s_ring_index st' = (s_ring_index st + length pcms) mod 16
    \<and> s_packetizer st' = (next_packet ^^ length pcms) (s_packetizer st)
    \<and> (\<forall>slot < 16. length pcms \<le> (slot + 16 - s_ring_index st) mod 16
          \<longrightarrow> s_packet_ring st' ! slot = s_packet_ring st ! slot)"
  using assms
proof (induction pcms arbitrary: st outs)
  case Nil
  then show ?case by (simp add: streamer_inv_def)
next
  case (Cons pcm pcms)
  define st1 where "st1 = fst (send_frame ks (draws (length pcms)) pcm st)"
  have pcm: "length pcm = 320" using Cons.prems by simp
  note eq = send_frame_eq [OF Cons.prems(1) pcm Cons.prems(2), of ks "draws (length pcms)"]
  have inv: "streamer_inv st1"
    unfolding st1_def by (rule streamer_inv_send_frame [OF Cons.prems(1) pcm])
  obtain outs1 where run: "send_frames ks draws pcms st1 = (st', outs1)"
    using Cons.prems(4) by (auto simp: st1_def Let_def split: prod.splits)
  have st1: "s_clients st1 = s_clients st" "s_encryptor st1 = s_encryptor st"
    "s_ring_index st1 = (s_ring_index st + 1) mod 16"
    "s_packetizer st1 = next_packet (s_packetizer st)"
    and ring: "\<And>slot. slot \<noteq> s_ring_index st \<Longrightarrow> s_packet_ring st1 ! slot = s_packet_ring st ! slot"
    unfolding st1_def eq by simp_all
  have ih: "streamer_inv st' \<and> s_clients st' = s_clients st1 \<and> s_encryptor st' = s_encryptor st1
    \<and> s_ring_index st' = (s_ring_index st1 + length pcms) mod 16
    \<and> s_packetizer st' = (next_packet ^^ length pcms) (s_packetizer st1)
    \<and> (\<forall>slot < 16. length pcms \<le> (slot + 16 - s_ring_index st1) mod 16
          \<longrightarrow> s_packet_ring st' ! slot = s_packet_ring st1 ! slot)"
    using Cons.IH [OF inv _ _ run] Cons.prems(2,3) st1(1) by simp
  have lt: "s_ring_index st < 16" using Cons.prems(1) by (simp add: streamer_inv_def)
  have slots: "s_packet_ring st' ! slot = s_packet_ring st ! slot"
    if "slot < 16" and "length (pcm # pcms) \<le> (slot + 16 - s_ring_index st) mod 16" for slot
  proof -
    have "slot \<noteq> s_ring_index st" using that by (cases "slot = s_ring_index st") auto
    moreover have "length pcms \<le> (slot + 16 - s_ring_index st1) mod 16"
      unfolding st1(3) by (rule slot_shift) (use that lt in simp_all)
    ultimately show ?thesis using ih that(1) ring by metis
  qed
  have index: "s_ring_index st' = (s_ring_index st + length (pcm # pcms)) mod 16"
    using ih unfolding st1(3) by (simp add: mod_simps)
  have packetizer: "s_packetizer st' = (next_packet ^^ length (pcm # pcms)) (s_packetizer st)"
    using ih unfolding st1(4) by (simp add: funpow_swap1)
  show ?case
    using ih slots unfolding index packetizer st1(1,2) by blast
qed

section \<open>Properties\<close>

text \<open>C8: A frame that follows \<open>n\<close> others leaves as one packet in one ring slot, sent to every client
  without simulated loss: it parses as payload type 8 with the \<open>n\<close>-th successor of the first
  sequence number, a timestamp \<open>160 * n\<close> later and the stream's SSRC, and its slot is not
  written again by the next fifteen frames.\<close>

theorem stream_numbering:
  assumes "streamer_inv st" and "s_clients st \<noteq> []"
    and "\<forall>c\<in>set (s_clients st). rc_packet_loss_ratio c = 0"
    and "\<forall>f\<in>set pcms \<union> set later. length f = 320" and "length pcm = 320"
    and "length later \<le> 15"
    and "send_frames ks draws pcms st = (st1, outs1)"
    and "send_frame ks draw pcm st1 = (st2, outs2)"
    and "send_frames ks draws later st2 = (st3, outs3)"
  shows "outs2 = map (\<lambda>c. (rc_endpoint c, s_ring_index st1, 172)) (s_clients st)
    \<and> s_packet_ring st3 ! s_ring_index st1 = s_packet_ring st2 ! s_ring_index st1
    \<and> (\<exists>pkt. from_buffer (take 172 (s_packet_ring st2 ! s_ring_index st1)) = Some pkt
        \<and> h_payload_type (pkt_header pkt) = 8
        \<and> h_sequence_num (pkt_header pkt) = p_sequence_num (s_packetizer st) + of_nat (length pcms)
        \<and> h_timestamp (pkt_header pkt) = p_timestamp (s_packetizer st) + 160 * of_nat (length pcms)
        \<and> h_ssrc (pkt_header pkt) = p_ssrc (s_packetizer st)
        \<and> pkt_payload pkt = alaw_sealed ks (s_encryptor st) (s_packetizer st1) pcm)"
proof -
  note run1 = send_frames_state [OF assms(1,2) _ assms(7)]
  have inv1: "streamer_inv st1" and cl1: "s_clients st1 = s_clients st"
    and en1: "s_encryptor st1 = s_encryptor st"
    and pk1: "s_packetizer st1 = (next_packet ^^ length pcms) (s_packetizer st)"
    using run1 assms(4) by auto
  have ne1: "s_clients st1 \<noteq> []" using cl1 assms(2) by simp
  note eq = send_frame_eq [OF inv1 assms(5) ne1, of ks draw]
  have st2: "st2 = fst (send_frame ks draw pcm st1)" using assms(8) by simp
  have inv2: "streamer_inv st2"
    unfolding st2 by (rule streamer_inv_send_frame [OF inv1 assms(5)])
  have idx: "s_ring_index st1 < 16" "length (s_packet_ring st1) = 16" "length (s_packet_ring st1 ! s_ring_index st1) = 332"
    "p_payload_type (s_packetizer st1) = 8" "p_timestamp_increment (s_packetizer st) = 160"
    using inv1 assms(1) by (simp_all add: streamer_inv_def)
  have idx2: "s_ring_index st2 = (s_ring_index st1 + 1) mod 16" unfolding st2 eq by simp
  have outs2: "outs2 = map (\<lambda>c. (rc_endpoint c, s_ring_index st1, 172)) (s_clients st)"
    using assms(3,8) fan_out_lossless [of "s_clients st" draw 0] unfolding eq cl1 by auto
  have "length later \<le> (s_ring_index st1 + 16 - s_ring_index st2) mod 16"
    unfolding idx2 by (rule slot_last [OF idx(1) assms(6)])
  then have kept: "s_packet_ring st3 ! s_ring_index st1 = s_packet_ring st2 ! s_ring_index st1"
    using send_frames_state [OF inv2 _ _ assms(9)] assms(4) ne1 idx(1) unfolding st2 eq by auto
  obtain sz st' out' where pk: "packet_to_rtp alaw_encode (map_option (aes_encrypt ks) (s_encryptor st1)) pcm
      (s_packetizer st1) (s_packet_ring st1 ! s_ring_index st1) = (sz, st', out')"
    by (metis prod_cases3)
  have "sz = 172" using pk frame_packet [OF inv1 assms(5), of ks "s_encryptor st1"] by simp
  moreover have "s_packet_ring st2 ! s_ring_index st1 = out'"
    unfolding st2 eq pk using idx by simp
  ultimately have "from_buffer (take 172 (s_packet_ring st2 ! s_ring_index st1)) =
      Some \<lparr>pkt_header = packet_header (s_packetizer st1) (p_sequence_num (s_packetizer st1)),
            pkt_payload = alaw_sealed ks (s_encryptor st1) (s_packetizer st1) pcm\<rparr>"
    using alaw_packet_parses [OF _ _ _ pk] idx assms(5) by simp
  then show ?thesis
    using outs2 kept en1 pk1 idx(4,5)
    by (simp add: packet_header_def next_packet_funpow)
qed

text \<open>Two clients, a first frame, the frame in question and fifteen more.\<close>

definition demo_streamer :: "nat rtp_streamer" where
  "demo_streamer = streamer_add_client (\<lambda>_ p. Some (unat p)) (\<lambda>_ _. []) ''127.0.0.1'' 5006 0
     (streamer_add_client (\<lambda>_ p. Some (unat p)) (\<lambda>_ _. []) ''127.0.0.1'' 5004 0
       (create_streamer (replicate 16 7) (replicate 16 9) 99 65535 0))"

lemma demo_streamer: "streamer_inv demo_streamer"
  "s_clients demo_streamer = [\<lparr>rc_endpoint = 5004, rc_packet_loss_ratio = 0\<rparr>, \<lparr>rc_endpoint = 5006, rc_packet_loss_ratio = 0\<rparr>]"
proof -
  show "streamer_inv demo_streamer" unfolding demo_streamer_def by (intro inv_intros)
  show "s_clients demo_streamer = [\<lparr>rc_endpoint = 5004, rc_packet_loss_ratio = 0\<rparr>, \<lparr>rc_endpoint = 5006, rc_packet_loss_ratio = 0\<rparr>]"
    by (simp add: demo_streamer_def streamer_add_client_def lookup_endpoint_def create_streamer_def)
qed

lemma stream_numbering_witness:
  "\<exists>st1 outs1 st2 outs2 st3 outs3.
     send_frames (\<lambda>_ _. None) (\<lambda>_ _. 0) [replicate 320 1] demo_streamer = (st1, outs1)
     \<and> send_frame (\<lambda>_ _. None) (\<lambda>_. 0) (replicate 320 2) st1 = (st2, outs2)
     \<and> send_frames (\<lambda>_ _. None) (\<lambda>_ _. 0) (replicate 15 (replicate 320 3)) st2 = (st3, outs3)
     \<and> outs2 = [(5004, s_ring_index st1, 172), (5006, s_ring_index st1, 172)]
     \<and> s_packet_ring st3 ! s_ring_index st1 = s_packet_ring st2 ! s_ring_index st1"
proof -
  obtain st1 outs1 where 1: "send_frames (\<lambda>_ _. None) (\<lambda>_ _. 0) [replicate 320 1] demo_streamer = (st1, outs1)"
    by fastforce
  obtain st2 outs2 where 2: "send_frame (\<lambda>_ _. None) (\<lambda>_. 0) (replicate 320 2) st1 = (st2, outs2)"
    by fastforce
  obtain st3 outs3 where 3: "send_frames (\<lambda>_ _. None) (\<lambda>_ _. 0) (replicate 15 (replicate 320 3)) st2 = (st3, outs3)"
    by fastforce
  show ?thesis
    using stream_numbering [OF demo_streamer(1) _ _ _ _ _ 1 2 3] 1 2 3 by (auto simp: demo_streamer(2))
qed

text \<open>C36: \<open>setup_security\<close> turns encryption on exactly when the configured salt has sixteen bytes,
  and streams of different SSRC get different base IVs.\<close>

theorem setup_security_cases:
  assumes "\<And>n master salt info. length (hkdf n master salt info) = n"
  shows "(has_value (setup_security hkdf st) \<longleftrightarrow> length (s_salt st) = 16)
    \<and> (\<forall>st'. setup_security hkdf st = Inr st' \<longrightarrow> s_encryption_enabled st'
         \<and> (\<exists>a. s_encryptor st' = Some a \<and> length (aes_key a) = 16 \<and> length (aes_base_iv a) = 16))
    \<and> (length (s_salt st) \<ge> 4 \<longrightarrow> derive_iv_from_ssrc (s_salt st) ssrc1 = derive_iv_from_ssrc (s_salt st) ssrc2
         \<longrightarrow> ssrc1 = ssrc2)"
proof -
  have len: "length iv = length salt" if "derive_iv_from_ssrc salt ssrc = Some iv" for salt ssrc iv
    using that by (auto simp: derive_iv_from_ssrc_def ssrc_bytes_def split: if_splits)
  have key: "length (derive_session_key hkdf m ssrc) = 16" for m ssrc
    by (simp add: derive_session_key_def assms)
  have "has_value (setup_security hkdf st) \<longleftrightarrow> length (s_salt st) = 16"
  proof (cases "derive_iv_from_ssrc (s_salt st) (p_ssrc (s_packetizer st))")
    case None
    then show ?thesis
      by (auto simp: setup_security_def Let_def derive_iv_from_ssrc_def split: if_splits)
  next
    case (Some iv)
    then show ?thesis
      using len [OF Some] key
      by (simp add: setup_security_def create_aes_encryption_strategy_def AES_BLOCK_SIZE_def)
  qed
  moreover have "\<forall>st'. setup_security hkdf st = Inr st' \<longrightarrow> s_encryption_enabled st'
         \<and> (\<exists>a. s_encryptor st' = Some a \<and> length (aes_key a) = 16 \<and> length (aes_base_iv a) = 16)"
    by (auto simp: setup_security_def Let_def create_aes_encryption_strategy_def AES_BLOCK_SIZE_def
        split: option.splits if_splits)
  moreover have "ssrc1 = ssrc2" if salt: "length (s_salt st) \<ge> 4"
    and eq: "derive_iv_from_ssrc (s_salt st) ssrc1 = derive_iv_from_ssrc (s_salt st) ssrc2"
  proof -
    obtain a b c d r where s: "s_salt st = a # b # c # d # r"
      using salt
      by (cases "s_salt st"; cases "tl (s_salt st)"; cases "tl (tl (s_salt st))"; cases "tl (tl (tl (s_salt st)))") auto
    have cancel: "x = y" if "a XOR x = a XOR (y :: u8)" for a x y
      using arg_cong [OF that, of "(XOR) a"] by (simp flip: xor.assoc)
    have "ssrc_bytes ssrc1 = ssrc_bytes ssrc2"
      using eq by (auto simp: derive_iv_from_ssrc_def s ssrc_bytes_def dest!: cancel)
    then have "be32 ssrc1 = be32 ssrc2" by (simp add: be32_def ssrc_bytes_def)
    then have "get_be32 (be32 ssrc1) 0 = get_be32 (be32 ssrc2) 0" by simp
    then show ?thesis
      using be32_join [of ssrc1] be32_join [of ssrc2] by (simp add: get_be32_def be32_def)
  qed
  ultimately show ?thesis by blast
qed

lemma setup_security_cases_witness:
  "has_value (setup_security (\<lambda>n _ _ _. replicate n 5) demo_streamer)
   \<and> derive_iv_from_ssrc (replicate 16 9) 1 \<noteq> derive_iv_from_ssrc (replicate 16 9) 2"
proof -
  have "s_salt demo_streamer = replicate 16 9"
    by (simp add: demo_streamer_def streamer_add_client_def lookup_endpoint_def create_streamer_def)
  then show ?thesis
    using setup_security_cases [of "\<lambda>n _ _ _. replicate n 5" demo_streamer 1 2] by auto
qed

end
