(* ===== verification/Config.thy ===== *)
theory Config
  imports Hermes_Types
begin

text \<open>
  \<open>core/config/Config\<close>: the settings and \<open>load_config\<close>. The TOML library is a parameter: a table
  lookup, a child lookup and the typed readings of a node. A member that the code leaves without a
  value is \<open>None\<close>.
\<close>

section \<open>Settings\<close>

record server_config =
  sv_address :: string
  sv_port :: u16
  sv_threads :: u32

record s3_config =
  s3_access_key :: string
  s3_secret_key :: string
  s3_region :: string
  s3_host :: string
  s3_port :: string
  s3_service :: string
  s3_bucket :: string

record janus_config =
  j_address :: string
  j_port_start :: "u16 option"
  j_port_end :: "u16 option"

record crypto_config =
  cf_master_key :: bytes
  cf_salt :: bytes

record app_config =
  cfg_server :: server_config
  cfg_s3 :: s3_config
  cfg_janus :: janus_config
  cfg_crypto :: crypto_config

definition default_config :: app_config where
  "default_config = \<lparr>
     cfg_server = \<lparr>sv_address = ''127.0.0.1'', sv_port = 8080, sv_threads = 1\<rparr>,
     cfg_s3 = \<lparr>s3_access_key = '''', s3_secret_key = '''', s3_region = '''', s3_host = '''', s3_port = '''',
       s3_service = '''', s3_bucket = ''''\<rparr>,
     cfg_janus = \<lparr>j_address = '''', j_port_start = None, j_port_end = None\<rparr>,
     cfg_crypto = \<lparr>cf_master_key = [], cf_salt = []\<rparr>\<rparr>"

section \<open>Hexadecimal\<close>

definition hex_digit :: "char \<Rightarrow> nat option" where
  "hex_digit c =
     (let n = of_char c :: nat in
      if 48 \<le> n \<and> n \<le> 57 then Some (n - 48)
      else if 97 \<le> n \<and> n \<le> 102 then Some (n - 87)
      else if 65 \<le> n \<and> n \<le> 70 then Some (n - 55) else None)"

definition is_space :: "char \<Rightarrow> bool" where
  "is_space c = (let n = of_char c :: nat in n = 32 \<or> 9 \<le> n \<and> n \<le> 13)"

fun hex_digits :: "int \<Rightarrow> string \<Rightarrow> int" where
  "hex_digits acc [] = acc"
| "hex_digits acc (c # cs) = (case hex_digit c of None \<Rightarrow> acc | Some d \<Rightarrow> hex_digits (16 * acc + int d) cs)"

text \<open>\<open>strtol\<close> with base 16: white space, a sign, an \<open>0x\<close> that a digit follows, digits.\<close>

definition strip_0x :: "string \<Rightarrow> string" where
  "strip_0x cs = (case cs of z # x # d # r \<Rightarrow> if z = CHR ''0'' \<and> x \<in> {CHR ''x'', CHR ''X''} \<and> hex_digit d \<noteq> None
     then d # r else cs | _ \<Rightarrow> cs)"

definition strtol16 :: "string \<Rightarrow> int" where
  "strtol16 cs = (case dropWhile is_space cs of
       [] \<Rightarrow> 0
     | c # r \<Rightarrow> if c = CHR ''-'' then - hex_digits 0 (strip_0x r)
                else if c = CHR ''+'' then hex_digits 0 (strip_0x r)
                else hex_digits 0 (strip_0x (c # r)))"

text \<open>The loop of \<open>hex_to_bytes\<close> over \<open>hex.substr(i, 2)\<close>.\<close>

fun hex_pairs :: "string \<Rightarrow> bytes" where
  "hex_pairs (a # b # cs) = word_of_int (strtol16 [a, b]) # hex_pairs cs"
| "hex_pairs cs = []"

text \<open>What \<open>load_config\<close> throws: it catches nothing but the parse error.\<close>

datatype config_fault = Invalid_argument string | Runtime_error string | Bad_optional_access

definition hex_to_bytes :: "string \<Rightarrow> (config_fault, bytes) expected" where
  "hex_to_bytes hex =
     (if length hex mod 2 \<noteq> 0 then Inl (Invalid_argument ''Hex string must have an even length'')
      else Inr (hex_pairs hex))"

section \<open>Loading\<close>

record 'n toml_api =
  t_at :: "'n \<Rightarrow> string \<Rightarrow> 'n option"
  t_string :: "'n \<Rightarrow> string option"
  t_u16 :: "'n \<Rightarrow> u16 option"
  t_uint :: "'n \<Rightarrow> u32 option"

text \<open>\<open>view[key].value_or(default)\<close>.\<close>

definition string_or :: "'n toml_api \<Rightarrow> 'n \<Rightarrow> string \<Rightarrow> string \<Rightarrow> string" where
  "string_or api view key def = (case t_at api view key of None \<Rightarrow> def
     | Some n \<Rightarrow> (case t_string api n of None \<Rightarrow> def | Some v \<Rightarrow> v))"

definition u16_or :: "'n toml_api \<Rightarrow> 'n \<Rightarrow> string \<Rightarrow> u16 \<Rightarrow> u16" where
  "u16_or api view key def = (case t_at api view key of None \<Rightarrow> def
     | Some n \<Rightarrow> (case t_u16 api n of None \<Rightarrow> def | Some v \<Rightarrow> v))"

definition uint_or :: "'n toml_api \<Rightarrow> 'n \<Rightarrow> string \<Rightarrow> u32 \<Rightarrow> u32" where
  "uint_or api view key def = (case t_at api view key of None \<Rightarrow> def
     | Some n \<Rightarrow> (case t_uint api n of None \<Rightarrow> def | Some v \<Rightarrow> v))"

definition require_key :: "'n toml_api \<Rightarrow> 'n \<Rightarrow> string \<Rightarrow> (config_fault, (string, string) expected) expected" where
  "require_key api view key =
     (case t_at api view key of
        None \<Rightarrow> Inr (Inl (''Missing required config key: '' @ key))
      | Some n \<Rightarrow> (case t_string api n of None \<Rightarrow> Inl Bad_optional_access | Some v \<Rightarrow> Inr (Inr v)))"

text \<open>A credential: the environment variable, else the key of the section.\<close>

definition s3_credential ::
  "'n toml_api \<Rightarrow> (string \<Rightarrow> string option) \<Rightarrow> 'n \<Rightarrow> string \<Rightarrow> string \<Rightarrow> (config_fault, (error_info, string) expected) expected" where
  "s3_credential api getenv s3 variable key =
     (case getenv variable of
        Some v \<Rightarrow> Inr (Inr v)
      | None \<Rightarrow>
          (case require_key api s3 key of
             Inl f \<Rightarrow> Inl f
           | Inr (Inl m) \<Rightarrow> Inr (Inl (error_info_From ConfigError (''Missing S3 '' @ key)))
           | Inr (Inr v) \<Rightarrow> Inr (Inr v)))"

definition load_server :: "'n toml_api \<Rightarrow> 'n \<Rightarrow> app_config \<Rightarrow> app_config" where
  "load_server api tbl config =
     (case t_at api tbl ''server'' of None \<Rightarrow> config
      | Some server \<Rightarrow> config\<lparr>cfg_server := \<lparr>sv_address = string_or api server ''address'' ''0.0.0.0'',
          sv_port = u16_or api server ''port'' 8080, sv_threads = uint_or api server ''threads'' 1\<rparr>\<rparr>)"

definition load_s3 ::
  "'n toml_api \<Rightarrow> (string \<Rightarrow> string option) \<Rightarrow> 'n \<Rightarrow> app_config \<Rightarrow> (config_fault, (error_info, app_config) expected) expected" where
  "load_s3 api getenv tbl config =
     (case t_at api tbl ''s3'' of
        None \<Rightarrow> Inr (Inr config)
      | Some s3 \<Rightarrow>
          and_then (s3_credential api getenv s3 ''S3_ACCESS_KEY'' ''access_key'') (\<lambda>ak.
          case ak of Inl e \<Rightarrow> Inr (Inl e) | Inr ak \<Rightarrow>
          and_then (s3_credential api getenv s3 ''S3_SECRET_KEY'' ''secret_key'') (\<lambda>sk.
          case sk of Inl e \<Rightarrow> Inr (Inl e) | Inr sk \<Rightarrow>
            Inr (Inr (config\<lparr>cfg_s3 := \<lparr>s3_access_key = ak, s3_secret_key = sk,
              s3_region = string_or api s3 ''region'' ''us-east-1'', s3_host = string_or api s3 ''host'' ''localhost'',
              s3_port = string_or api s3 ''port'' ''9000'', s3_service = string_or api s3 ''service'' ''s3'',
              s3_bucket = string_or api s3 ''bucket'' ''audio-files''\<rparr>\<rparr>)))))"

definition load_janus :: "'n toml_api \<Rightarrow> 'n \<Rightarrow> app_config \<Rightarrow> app_config" where
  "load_janus api tbl config =
     (case t_at api tbl ''janus'' of None \<Rightarrow> config
      | Some janus \<Rightarrow> config\<lparr>cfg_janus := \<lparr>j_address = string_or api janus ''address'' ''127.0.0.1'',
          j_port_start = Some (u16_or api janus ''port_start'' 10000),
          j_port_end = Some (u16_or api janus ''port_end'' 10200)\<rparr>\<rparr>)"

definition load_crypto :: "'n toml_api \<Rightarrow> 'n \<Rightarrow> app_config \<Rightarrow> (config_fault, app_config) expected" where
  "load_crypto api tbl config =
     (case t_at api tbl ''crypto'' of
        None \<Rightarrow> Inl (Runtime_error ''Missing [crypto] section in config.toml'')
      | Some node \<Rightarrow>
          let key_hex = string_or api node ''master_key'' ''''; salt_hex = string_or api node ''salt'' '''' in
          if key_hex = [] \<or> salt_hex = []
          then Inl (Runtime_error ''Crypto master_key and salt must be provided in config.toml'')
          else and_then (hex_to_bytes key_hex) (\<lambda>key. and_then (hex_to_bytes salt_hex) (\<lambda>salt.
            Inr (config\<lparr>cfg_crypto := \<lparr>cf_master_key = key, cf_salt = salt\<rparr>\<rparr>))))"

text \<open>\<open>file\<close>: \<open>None\<close> when the file does not exist, else what parsing it gives.\<close>

definition load_config ::
  "'n toml_api \<Rightarrow> (string \<Rightarrow> string option) \<Rightarrow> (string, 'n) expected option
     \<Rightarrow> (config_fault, (error_info, app_config) expected) expected" where
  "load_config api getenv file =
     (case file of
        None \<Rightarrow> Inr (Inr default_config)
      | Some (Inl description) \<Rightarrow> Inr (Inl (error_info_From ConfigError description))
      | Some (Inr tbl) \<Rightarrow>
          and_then (load_s3 api getenv tbl (load_server api tbl default_config)) (\<lambda>r.
          case r of Inl e \<Rightarrow> Inr (Inl e) | Inr config \<Rightarrow>
            transform (load_crypto api tbl (load_janus api tbl config)) Inr))"

section \<open>Hexadecimal: the round trip\<close>

definition hex_char :: "nat \<Rightarrow> char" where
  "hex_char n = char_of (if n < 10 then n + 48 else n + 87)"

definition hex_of :: "bytes \<Rightarrow> string" where
  "hex_of bs = concat (map (\<lambda>b. [hex_char (unat b div 16), hex_char (unat b mod 16)]) bs)"

lemma hex_digit_char: "n < 16 \<Longrightarrow> hex_digit (hex_char n) = Some n"
  by (auto simp: hex_digit_def hex_char_def Let_def)

lemma hex_char_plain:
  assumes "n < 16"
  shows "\<not> is_space (hex_char n) \<and> hex_char n \<noteq> CHR ''-'' \<and> hex_char n \<noteq> CHR ''+''"
proof -
  have "of_char (hex_char n) = (if n < 10 then n + 48 else n + 87)" using assms by (simp add: hex_char_def)
  moreover have "of_char (CHR ''-'') = (45 :: nat)" "of_char (CHR ''+'') = (43 :: nat)" by simp_all
  ultimately show ?thesis unfolding is_space_def Let_def by (auto split: if_splits)
qed

lemma strtol16_pair:
  assumes "a < 16" and "b < 16"
  shows "strtol16 [hex_char a, hex_char b] = 16 * int a + int b"
  using hex_char_plain [OF assms(1)] hex_digit_char [OF assms(1)] hex_digit_char [OF assms(2)]
  by (simp add: strtol16_def strip_0x_def)

lemma hex_pairs_hex_of: "hex_pairs (hex_of bs) = bs"
proof (induction bs)
  case (Cons b bs)
  have u: "unat b div 16 < 16" using unat_u8_lt [of b] by (simp add: less_mult_imp_div_less)
  have m: "unat b mod 16 < 16" by simp
  have "16 * int (unat b div 16) + int (unat b mod 16) = int (unat b)"
    by (metis mult_div_mod_eq of_nat_add of_nat_mult of_nat_numeral)
  then have "word_of_int (strtol16 [hex_char (unat b div 16), hex_char (unat b mod 16)]) = b"
    unfolding strtol16_pair [OF u m] by simp
  then show ?case using Cons by (simp add: hex_of_def)
qed (simp add: hex_of_def)

lemma length_hex_of: "length (hex_of bs) = 2 * length bs"
  by (induction bs) (simp_all add: hex_of_def)

section \<open>Properties\<close>

text \<open>Reading the hexadecimal text of any bytes gives the bytes back.\<close>

theorem hex_roundtrip: "hex_to_bytes (hex_of bs) = Inr bs"
  by (simp add: hex_to_bytes_def length_hex_of hex_pairs_hex_of)

text \<open>A \<open>[crypto]\<close> section that holds the hexadecimal texts of a key and a salt, both not empty, is loaded as
  that key and that salt.\<close>

theorem crypto_section_loaded:
  assumes "t_at api tbl ''crypto'' = Some node" and "string_or api node ''master_key'' '''' = hex_of key"
    and "string_or api node ''salt'' '''' = hex_of salt" and "key \<noteq> []" and "salt \<noteq> []"
  shows "load_crypto api tbl config = Inr (config\<lparr>cfg_crypto := \<lparr>cf_master_key = key, cf_salt = salt\<rparr>\<rparr>)"
proof -
  have "hex_of bs = [] \<longleftrightarrow> bs = []" for bs using length_hex_of [of bs] by (metis length_0_conv mult_eq_0_iff zero_neq_numeral)
  moreover have "hex_to_bytes (hex_of bs) = Inr bs" for bs by (simp add: hex_to_bytes_def length_hex_of hex_pairs_hex_of)
  ultimately show ?thesis using assms by (simp add: load_crypto_def Let_def and_then_def)
qed

definition demo_toml :: "nat toml_api" where
  "demo_toml = \<lparr>t_at = (\<lambda>n k. if n = 0 \<and> k = ''crypto'' then Some 1 else if n = 1 \<and> k \<in> {''master_key'', ''salt''} then Some 2 else None),
     t_string = (\<lambda>n. if n = 2 then Some ''0aff'' else None), t_u16 = (\<lambda>n. None), t_uint = (\<lambda>n. None)\<rparr>"

lemma crypto_section_loaded_witness:
  "load_crypto demo_toml 0 default_config = Inr (default_config\<lparr>cfg_crypto := \<lparr>cf_master_key = [10, 255], cf_salt = [10, 255]\<rparr>\<rparr>)"
proof (rule crypto_section_loaded [where node = 1])
  have "hex_of [10, 255] = ''0aff''" by code_simp
  then show "string_or demo_toml 1 ''master_key'' '''' = hex_of [10, 255]" "string_or demo_toml 1 ''salt'' '''' = hex_of [10, 255]"
    by (simp_all add: demo_toml_def string_or_def)
qed (simp_all add: demo_toml_def)

end
