(* ===== verification/Session.thy ===== *)
theory Session
  imports Prepare_Safety Rtp_Streamer Config
begin

text \<open>
  \<open>core/session/Session\<close>. The coroutine \<open>start\<close> is a state machine over the points where it is
  suspended; \<open>stop\<close>, \<open>pause\<close>, \<open>resume\<close> and \<open>attach_observer\<close> may come between any two of its
  resumptions. The clock is in the labels: a tick says whether the statistics are due.
\<close>

section \<open>State\<close>

datatype notification =
  OnStats session_stats | OnWebrtcRequest u16 | OnSessionComplete | OnError string

text \<open>Where \<open>start\<close> is: not called, in \<open>prepare\<close>, waiting for the timer or for the resume
  channel, returned, or in undefined behaviour.\<close>

datatype control = NotStarted | Preparing | WaitTick | WaitResume | Finished | Crashed

record 'ep session =
  se_id :: string
  se_is_running :: bool
  se_is_paused :: bool
  se_is_webrtc :: bool
  se_janus_ip :: string
  se_janus_port :: "u16 option"
  se_executor :: executor
  se_streamer :: "'ep rtp_streamer"
  se_resume_channel :: nat
  se_timer_cancelled :: bool
  se_observer :: "notification list option"
  se_control :: control

text \<open>The environment: file answers, float arithmetic, cipher, name resolution.\<close>

record 'ep session_env =
  v_files :: "string \<Rightarrow> file_io"
  v_float :: float_env
  v_keystream :: keystream
  v_make_endpoint :: "string \<Rightarrow> u16 \<Rightarrow> 'ep option"
  v_resolve :: "string \<Rightarrow> u16 \<Rightarrow> 'ep list"
  v_hkdf :: "nat \<Rightarrow> bytes \<Rightarrow> bytes \<Rightarrow> bytes \<Rightarrow> bytes"

section \<open>Construction\<close>

definition new_session ::
  "'ep session_env \<Rightarrow> string \<Rightarrow> executor \<Rightarrow> 'ep rtp_streamer \<Rightarrow> bool \<Rightarrow> string \<Rightarrow> u16 option \<Rightarrow> bool
     \<Rightarrow> (security_fault, 'ep session) expected" where
  "new_session v ident x streamer is_web_rtc janus_ip janus_port is_encrypted =
     transform (if is_encrypted then setup_security (v_hkdf v) streamer else Inr streamer)
       (\<lambda>streamer. \<lparr>se_id = ident, se_is_running = False, se_is_paused = False, se_is_webrtc = is_web_rtc,
          se_janus_ip = janus_ip, se_janus_port = janus_port, se_executor = x, se_streamer = streamer,
          se_resume_channel = 0, se_timer_cancelled = False, se_observer = None, se_control = NotStarted\<rparr>)"

text \<open>What the random devices give to a new streamer.\<close>

record stream_draws =
  dr_ssrc :: nat
  dr_seq :: u16
  dr_ts :: u32

text \<open>\<open>Session::create\<close>: the error of the executor, or the session; a fault of \<open>setup_security\<close>
  leaves it as an exception.\<close>

definition session_create ::
  "'ep session_env \<Rightarrow> string \<Rightarrow> graph \<Rightarrow> crypto_config \<Rightarrow> stream_draws \<Rightarrow> bool \<Rightarrow> string \<Rightarrow> u16 option \<Rightarrow> bool
     \<Rightarrow> (security_fault, (error_info, 'ep session) expected) expected" where
  "session_create v ident g crypto draws is_web_rtc janus_ip janus_port is_encrypted =
     (case executor_create g of
        Inl e \<Rightarrow> Inr (Inl e)
      | Inr x \<Rightarrow>
          let streamer = create_streamer (cf_master_key crypto) (cf_salt crypto) (dr_ssrc draws) (dr_seq draws) (dr_ts draws)
          in transform (new_session v ident x streamer is_web_rtc janus_ip janus_port is_encrypted) Inr)"

section \<open>Control from outside\<close>

definition attach_observer :: "'ep session \<Rightarrow> 'ep session" where
  "attach_observer s = s\<lparr>se_observer := Some []\<rparr>"

definition session_add_client :: "'ep session_env \<Rightarrow> string \<Rightarrow> u16 \<Rightarrow> 'ep session \<Rightarrow> 'ep session" where
  "session_add_client v ip port s =
     s\<lparr>se_streamer := streamer_add_client (v_make_endpoint v) (v_resolve v) ip port 0 (se_streamer s)\<rparr>"

text \<open>\<open>stop\<close>: cancelling the timer aborts a wait on it, if there is one.\<close>

definition stop :: "'ep session \<Rightarrow> 'ep session" where
  "stop s = s\<lparr>se_is_running := False, se_timer_cancelled := (se_timer_cancelled s \<or> se_control s = WaitTick)\<rparr>"

definition pause :: "'ep session \<Rightarrow> 'ep session" where
  "pause s = (if \<not> se_is_paused s then s\<lparr>se_is_paused := True\<rparr> else s)"

text \<open>\<open>try_send\<close> on a channel of capacity one.\<close>

definition resume :: "'ep session \<Rightarrow> 'ep session" where
  "resume s = (if se_is_paused s
     then s\<lparr>se_is_paused := False, se_resume_channel := min 1 (se_resume_channel s + 1)\<rparr> else s)"

definition get_rtp_bytes_sent :: "'ep session \<Rightarrow> u64" where
  "get_rtp_bytes_sent s = s_bytes_sent (se_streamer s)"

definition get_rtp_packets_sent :: "'ep session \<Rightarrow> u64" where
  "get_rtp_packets_sent s = s_packets_sent (se_streamer s)"

section \<open>The coroutine\<close>

definition notify :: "notification \<Rightarrow> 'ep session \<Rightarrow> 'ep session" where
  "notify n s = s\<lparr>se_observer := map_option (\<lambda>ns. ns @ [n]) (se_observer s)\<rparr>"

definition finalize_session :: "node_error \<Rightarrow> 'ep session \<Rightarrow> 'ep session" where
  "finalize_session result s =
     (if se_observer s = None then s
      else if ne_code result \<noteq> Success then notify (OnError (ne_message result)) s
      else notify OnSessionComplete s)"

text \<open>The end of \<open>start\<close>.\<close>

definition teardown :: "node_error \<Rightarrow> 'ep session \<Rightarrow> 'ep session" where
  "teardown exit_reason s =
     (finalize_session exit_reason (s\<lparr>se_is_running := False\<rparr>))\<lparr>se_control := Finished\<rparr>"

text \<open>\<open>configure_streamer_from_graph\<close>: \<open>None\<close> is the null dereference of a missing observer.\<close>

definition configure_streamer_from_graph :: "'ep session_env \<Rightarrow> 'ep session \<Rightarrow> 'ep session option" where
  "configure_streamer_from_graph v s =
    (if se_is_webrtc s
     then case se_janus_port s of
            None \<Rightarrow> Some s
          | Some port \<Rightarrow>
              if se_observer s = None then None
              else Some (notify (OnWebrtcRequest port)
                (s\<lparr>se_streamer := streamer_add_client (v_make_endpoint v) (v_resolve v) (se_janus_ip s) port 0 (se_streamer s)\<rparr>))
     else case g_clients_node (x_graph (se_executor s)) of
            None \<Rightarrow> Some s
          | Some p \<Rightarrow>
              (case n_body (x_heap (se_executor s) ! p) of
                 Clients cs \<Rightarrow>
                   Some (s\<lparr>se_streamer := fold (\<lambda>c. streamer_add_client (v_make_endpoint v) (v_resolve v)
                             (cc_ip c) (cc_port c) (cc_packet_loss_ratio c)) cs (se_streamer s)\<rparr>)
               | _ \<Rightarrow> Some s))"

text \<open>The head of the loop of \<open>run_main_audio_loop\<close>, up to the next suspension.\<close>

definition loop_head :: "'ep session \<Rightarrow> 'ep session" where
  "loop_head s =
     (if \<not> se_is_running s then teardown no_error s
      else if se_is_paused s then s\<lparr>se_control := WaitResume\<rparr>
      else s\<lparr>se_control := WaitTick, se_timer_cancelled := False\<rparr>)"

text \<open>\<open>is_status_ok\<close>; nothing calls it.\<close>

definition is_status_ok :: "node_error_code \<Rightarrow> 'ep session \<Rightarrow> bool \<times> 'ep session" where
  "is_status_ok code s =
     (if code = Success then (True, s)
      else if code = Underrun then
        (True, s\<lparr>se_executor := (se_executor s)\<lparr>x_stats := (x_stats (se_executor s))
          \<lparr>st_underruns := st_underruns (x_stats (se_executor s)) + 1\<rparr>\<rparr>\<rparr>)
      else if code = EndOfStream then (True, s)
      else (False, s))"

definition bump_packets :: "'ep session \<Rightarrow> 'ep session" where
  "bump_packets s = s\<lparr>se_executor := (se_executor s)\<lparr>x_stats := (x_stats (se_executor s))
     \<lparr>st_packets_sent := st_packets_sent (x_stats (se_executor s)) + 1\<rparr>\<rparr>\<rparr>"

definition update_stats_if_needed :: "bool \<Rightarrow> 'ep session \<Rightarrow> 'ep session" where
  "update_stats_if_needed due s =
     (if se_observer s = None then s
      else if due then notify (OnStats (x_stats (se_executor s))) s else s)"

text \<open>\<open>process_and_stream_single_frame\<close> with the sends it starts. The buffer is the array of
  \<open>run_main_audio_loop\<close>; \<open>get_next_frame\<close> clears it before it writes it.\<close>

definition process_and_stream_single_frame ::
  "'ep session_env \<Rightarrow> (nat \<Rightarrow> rat) \<Rightarrow> bool \<Rightarrow> 'ep session
     \<Rightarrow> ((node_error, unit) expected \<times> ('ep \<times> nat \<times> nat) list \<times> 'ep session) option" where
  "process_and_stream_single_frame v draw due s =
    (case get_next_frame (v_float v) (v_files v) (replicate FRAME_SIZE_BYTES 0) (se_executor s) of
       None \<Rightarrow> None
     | Some ((executor_wants_continue, status), pcm_buffer, x) \<Rightarrow>
         let s = s\<lparr>se_executor := x\<rparr> in
         if \<not> executor_wants_continue then Some (Inl status, [], s)
         else
           let (streamer, sends) = send_frame (v_keystream v) draw pcm_buffer (se_streamer s)
           in Some (Inr (), sends, update_stats_if_needed due (bump_packets (s\<lparr>se_streamer := streamer\<rparr>))))"

definition timer_aborted :: node_error where
  "timer_aborted = \<lparr>ne_code = Success, ne_message = ''Timer aborted manually'', ne_node_id = ''''\<rparr>"

section \<open>Steps\<close>

datatype label =
    Start | Prepared "(error_info, unit) expected option list" | TimerAborted | Tick "nat \<Rightarrow> rat" bool | Woken
  | Stop | Pause | Resume | Attach | AddClient string u16 | DatagramSent bool nat | Refilled nat | Reinitialised nat

definition start_session :: "'ep session \<Rightarrow> 'ep session" where
  "start_session s = s\<lparr>se_is_running := True, se_control := Preparing\<rparr>"

text \<open>\<open>initialize_graph_execution\<close> when \<open>prepare\<close> comes back, and what follows in \<open>start\<close>.\<close>

definition after_prepare :: "'ep session_env \<Rightarrow> (error_info, unit) expected option list \<Rightarrow> 'ep session \<Rightarrow> 'ep session" where
  "after_prepare v received s =
    (case prepare (v_files v) received (se_executor s) of
       None \<Rightarrow> s\<lparr>se_control := Crashed\<rparr>
     | Some (Inl err, x) \<Rightarrow>
         teardown (no_error\<lparr>ne_code := InitializationFailed\<rparr>)
           (notify (OnError (''Prep Failed: '' @ ei_message err)) (s\<lparr>se_executor := x\<rparr>))
     | Some (Inr u, x) \<Rightarrow>
         (case configure_streamer_from_graph v (s\<lparr>se_executor := x\<rparr>) of
            None \<Rightarrow> s\<lparr>se_control := Crashed\<rparr>
          | Some s \<Rightarrow> loop_head s))"

definition tick :: "'ep session_env \<Rightarrow> (nat \<Rightarrow> rat) \<Rightarrow> bool \<Rightarrow> 'ep session \<Rightarrow> 'ep session" where
  "tick v draw due s =
    (case process_and_stream_single_frame v draw due s of
       None \<Rightarrow> s\<lparr>se_control := Crashed\<rparr>
     | Some (Inl status, sends, s) \<Rightarrow> teardown status s
     | Some (Inr u, sends, s) \<Rightarrow> loop_head s)"

definition woken :: "'ep session \<Rightarrow> 'ep session" where
  "woken s = loop_head (s\<lparr>se_resume_channel := se_resume_channel s - 1\<rparr>)"

text \<open>The refill that the node at \<open>p\<close> started runs between two resumptions of \<open>start\<close>.\<close>

definition refilled :: "'ep session_env \<Rightarrow> nat \<Rightarrow> 'ep session \<Rightarrow> 'ep session" where
  "refilled v p s =
     (if p < length (x_heap (se_executor s))
      then s\<lparr>se_executor := set_heap (upd p (run_refills (v_files v)) (x_heap (se_executor s))) (se_executor s)\<rparr>
      else s)"

text \<open>The coroutine that \<open>FileInputNode::close\<close> spawned in a loop fills the buffers of its node again.\<close>

definition reinitialised :: "'ep session_env \<Rightarrow> nat \<Rightarrow> 'ep session \<Rightarrow> 'ep session" where
  "reinitialised v p s =
     s\<lparr>se_executor := set_heap (upd p (reinitialize_buffers (v_files v)) (x_heap (se_executor s))) (se_executor s)\<rparr>"

inductive session_step :: "'ep session_env \<Rightarrow> 'ep session \<Rightarrow> label \<Rightarrow> 'ep session \<Rightarrow> bool" for v where
  ss_start: "se_control s = NotStarted \<Longrightarrow> session_step v s Start (start_session s)"
| ss_prepared: "se_control s = Preparing \<Longrightarrow> session_step v s (Prepared received) (after_prepare v received s)"
| ss_aborted: "se_control s = WaitTick \<Longrightarrow> se_timer_cancelled s \<Longrightarrow> session_step v s TimerAborted (teardown timer_aborted s)"
| ss_tick: "se_control s = WaitTick \<Longrightarrow> session_step v s (Tick draw due) (tick v draw due s)"
| ss_woken: "se_control s = WaitResume \<Longrightarrow> 0 < se_resume_channel s \<Longrightarrow> session_step v s Woken (woken s)"
| ss_stop: "session_step v s Stop (stop s)"
| ss_pause: "session_step v s Pause (pause s)"
| ss_resume: "session_step v s Resume (resume s)"
| ss_attach: "session_step v s Attach (attach_observer s)"
| ss_add_client: "session_step v s (AddClient ip port) (session_add_client v ip port s)"
| ss_refilled: "session_step v s (Refilled p) (refilled v p s)"
| ss_reinitialised: "p < length (x_heap (se_executor s)) \<Longrightarrow> spawned_init (x_heap (se_executor s) ! p) \<Longrightarrow>
    session_step v s (Reinitialised p) (reinitialised v p s)"
| ss_sent: "session_step v s (DatagramSent ec n) (s\<lparr>se_streamer := on_datagram_sent ec n (se_streamer s)\<rparr>)"

inductive_cases session_stepE: "session_step v s l s'"

inductive session_run :: "'ep session_env \<Rightarrow> 'ep session \<Rightarrow> label list \<Rightarrow> 'ep session \<Rightarrow> bool" for v where
  sr_nil: "session_run v s [] s"
| sr_cons: "session_step v s l s' \<Longrightarrow> session_run v s' ls s'' \<Longrightarrow> session_run v s (l # ls) s''"

section \<open>What each step does to the control\<close>

lemmas steps_defs = start_session_def stop_def pause_def resume_def attach_observer_def session_add_client_def
  refilled_def reinitialised_def woken_def loop_head_def teardown_def finalize_session_def notify_def

lemma teardown_control [simp]:
  "se_control (teardown r s) = Finished" "\<not> se_is_running (teardown r s)"
  "se_is_paused (teardown r s) = se_is_paused s" "se_resume_channel (teardown r s) = se_resume_channel s"
  "se_executor (teardown r s) = se_executor s" "se_streamer (teardown r s) = se_streamer s"
  "se_is_webrtc (teardown r s) = se_is_webrtc s" "se_observer (teardown r s) = None \<longleftrightarrow> se_observer s = None"
  by (simp_all add: teardown_def finalize_session_def notify_def)

lemma loop_head_fields [simp]:
  "se_is_paused (loop_head s) = se_is_paused s" "se_resume_channel (loop_head s) = se_resume_channel s"
  "se_executor (loop_head s) = se_executor s" "se_streamer (loop_head s) = se_streamer s"
  "se_is_webrtc (loop_head s) = se_is_webrtc s" "se_observer (loop_head s) = None \<longleftrightarrow> se_observer s = None"
  "se_is_running (loop_head s) = se_is_running s"
  "se_control (loop_head s) = (if \<not> se_is_running s then Finished else if se_is_paused s then WaitResume else WaitTick)"
  by (simp_all add: loop_head_def)

text \<open>A frame leaves the flags of the session alone.\<close>

lemma process_fields:
  assumes "process_and_stream_single_frame v draw due s = Some (r, sends, s')"
  shows "se_is_paused s' = se_is_paused s" and "se_resume_channel s' = se_resume_channel s"
    and "se_is_running s' = se_is_running s" and "se_is_webrtc s' = se_is_webrtc s"
    and "se_observer s' = None \<longleftrightarrow> se_observer s = None"
  using assms
  by (auto simp: process_and_stream_single_frame_def bump_packets_def update_stats_if_needed_def notify_def Let_def
      split: option.splits if_splits prod.splits)

lemma tick_fields:
  "se_is_paused (tick v draw due s) = se_is_paused s" "se_resume_channel (tick v draw due s) = se_resume_channel s"
  "se_is_webrtc (tick v draw due s) = se_is_webrtc s"
  "se_control (tick v draw due s) \<in> {Crashed, Finished, if se_is_paused s then WaitResume else WaitTick}"
  "\<not> se_is_running s \<Longrightarrow> se_control (tick v draw due s) \<in> {Crashed, Finished}"
  "\<not> se_is_running s \<Longrightarrow> \<not> se_is_running (tick v draw due s)"
  "se_control (tick v draw due s) = Finished \<Longrightarrow> \<not> se_is_running (tick v draw due s)"
  by (auto simp: tick_def split: option.split sum.split if_splits dest: process_fields)

lemma configure_fields:
  assumes "configure_streamer_from_graph v s = Some s'"
  shows "se_is_paused s' = se_is_paused s" and "se_resume_channel s' = se_resume_channel s"
    and "se_is_running s' = se_is_running s" and "se_executor s' = se_executor s"
    and "se_is_webrtc s' = se_is_webrtc s" and "se_observer s' = None \<longleftrightarrow> se_observer s = None"
  using assms
  by (auto simp: configure_streamer_from_graph_def notify_def split: option.splits if_splits node_body.splits)

lemma after_prepare_fields:
  "se_is_paused (after_prepare v received s) = se_is_paused s"
  "se_resume_channel (after_prepare v received s) = se_resume_channel s"
  "se_is_webrtc (after_prepare v received s) = se_is_webrtc s"
  "se_control (after_prepare v received s) \<in> {Crashed, Finished, if se_is_paused s then WaitResume else WaitTick}"
  "\<not> se_is_running s \<Longrightarrow> se_control (after_prepare v received s) \<in> {Crashed, Finished}"
  "\<not> se_is_running s \<Longrightarrow> \<not> se_is_running (after_prepare v received s)"
  "se_control (after_prepare v received s) = Finished \<Longrightarrow> \<not> se_is_running (after_prepare v received s)"
  by (auto simp: after_prepare_def notify_def split: option.split sum.split if_splits dest: configure_fields)

end
