(* ===== verification/Session_Lifecycle.thy ===== *)
theory Session_Lifecycle
  imports Session
begin

text \<open>
  Runs of a session: what the control operations promise whatever the interleaving, that a session
  over a well-formed graph never reaches undefined behaviour, and how the frames of the executor
  become the packets of the streamer.
\<close>

section \<open>The steps of the coroutine\<close>

fun resumes :: "label \<Rightarrow> bool" where
  "resumes (Prepared received) = True"
| "resumes TimerAborted = True"
| "resumes (Tick draw due) = True"
| "resumes Woken = True"
| "resumes l = False"

fun is_tick :: "label \<Rightarrow> bool" where
  "is_tick (Tick draw due) = True"
| "is_tick l = False"

lemma step_outside:
  assumes "session_step v s l s'" and "\<not> resumes l" and "l \<noteq> Start"
  shows "se_control s' = se_control s" and "se_is_webrtc s' = se_is_webrtc s"
    and "\<not> se_is_running s \<Longrightarrow> \<not> se_is_running s'"
    and "l \<noteq> Resume \<Longrightarrow> se_is_paused s \<Longrightarrow> se_is_paused s'"
    and "l \<noteq> Resume \<Longrightarrow> se_resume_channel s' = se_resume_channel s"
    and "l \<noteq> Attach \<Longrightarrow> se_observer s' = se_observer s"
  using assms by (auto elim!: session_stepE simp: steps_defs split: if_splits)

lemma step_resumes:
  assumes "session_step v s l s'" and "resumes l"
  shows "se_control s \<in> {Preparing, WaitTick, WaitResume}"
    and "\<not> se_is_running s \<Longrightarrow> se_control s' \<in> {Finished, Crashed} \<and> \<not> se_is_running s'"
    and "se_control s' \<in> {Finished, Crashed, if se_is_paused s then WaitResume else WaitTick}"
    and "se_is_paused s' = se_is_paused s"
    and "is_tick l \<Longrightarrow> se_control s = WaitTick"
    and "se_control s = WaitResume \<Longrightarrow> 0 < se_resume_channel s"
proof -
  consider (p) received where "l = Prepared received" "se_control s = Preparing" "s' = after_prepare v received s"
    | (a) "l = TimerAborted" "se_control s = WaitTick" "s' = teardown timer_aborted s"
    | (t) draw due where "l = Tick draw due" "se_control s = WaitTick" "s' = tick v draw due s"
    | (w) "l = Woken" "se_control s = WaitResume" "0 < se_resume_channel s" "s' = woken s"
    using assms by (auto elim!: session_stepE)
  then have "se_control s \<in> {Preparing, WaitTick, WaitResume}
    \<and> (\<not> se_is_running s \<longrightarrow> se_control s' \<in> {Finished, Crashed} \<and> \<not> se_is_running s')
    \<and> se_control s' \<in> {Finished, Crashed, if se_is_paused s then WaitResume else WaitTick}
    \<and> se_is_paused s' = se_is_paused s \<and> (is_tick l \<longrightarrow> se_control s = WaitTick)
    \<and> (se_control s = WaitResume \<longrightarrow> 0 < se_resume_channel s)"
  proof cases
    case p
    then show ?thesis
      using after_prepare_fields [where v = v and received = received and s = s] by auto
  next
    case t
    then show ?thesis
      using tick_fields [where v = v and draw = draw and due = due and s = s] by auto
  qed (auto simp: woken_def)
  then show "se_control s \<in> {Preparing, WaitTick, WaitResume}"
    and "\<not> se_is_running s \<Longrightarrow> se_control s' \<in> {Finished, Crashed} \<and> \<not> se_is_running s'"
    and "se_control s' \<in> {Finished, Crashed, if se_is_paused s then WaitResume else WaitTick}"
    and "se_is_paused s' = se_is_paused s"
    and "is_tick l \<Longrightarrow> se_control s = WaitTick"
    and "se_control s = WaitResume \<Longrightarrow> 0 < se_resume_channel s"
    by blast+
qed

section \<open>The invariant\<close>

definition session_inv :: "'ep session \<Rightarrow> bool" where
  "session_inv s \<longleftrightarrow> se_resume_channel s \<le> 1
     \<and> (se_control s = WaitResume \<longrightarrow> \<not> se_is_paused s \<longrightarrow> se_resume_channel s = 1)
     \<and> (se_control s \<in> {NotStarted, Finished} \<longrightarrow> \<not> se_is_running s)"

lemma session_inv_step:
  assumes "session_step v s l s'" and "session_inv s"
  shows "session_inv s'"
  using assms
proof (cases rule: session_step.cases)
  case (ss_prepared received)
  then show ?thesis
    using assms(2) after_prepare_fields [where v = v and received = received and s = s] by (auto simp: session_inv_def split: if_splits)
next
  case (ss_tick draw due)
  then show ?thesis
    using assms(2) tick_fields [where v = v and draw = draw and due = due and s = s] by (auto simp: session_inv_def split: if_splits)
qed (use assms(2) in \<open>auto simp: session_inv_def steps_defs\<close>)

lemma session_inv_run: "session_run v s ls s' \<Longrightarrow> session_inv s \<Longrightarrow> session_inv s'"
  by (induction rule: session_run.induct) (auto intro: session_inv_step)

section \<open>Stopping\<close>

lemma stopped_run:
  assumes "session_run v s ls s'" and "\<not> se_is_running s" and "se_control s \<noteq> NotStarted"
  shows "\<not> se_is_running s' \<and> length (filter resumes ls) \<le> 1
    \<and> (if filter resumes ls = [] then se_control s' = se_control s else se_control s' \<in> {Finished, Crashed})
    \<and> (se_control s \<in> {Finished, Crashed} \<longrightarrow> filter resumes ls = [])"
  using assms
proof (induction rule: session_run.induct)
  case (sr_cons s l s1 ls s2)
  have "l \<noteq> Start" using sr_cons.hyps(1) sr_cons.prems(2) by (auto elim: session_stepE)
  show ?case
  proof (cases "resumes l")
    case True
    then show ?thesis
      using step_resumes(1,2) [OF sr_cons.hyps(1)] sr_cons.prems sr_cons.IH by auto
  next
    case False
    then show ?thesis
      using step_outside(1,3) [OF sr_cons.hyps(1) False \<open>l \<noteq> Start\<close>] sr_cons.prems sr_cons.IH by auto
  qed
qed simp

text \<open>A session that waits for the resume channel with no signal in it.\<close>

lemma waiting_run:
  assumes "session_run v s ls s'" and "se_control s = WaitResume" and "se_resume_channel s = 0" and "Resume \<notin> set ls"
  shows "filter resumes ls = [] \<and> se_control s' = WaitResume \<and> se_resume_channel s' = 0
    \<and> (Attach \<notin> set ls \<longrightarrow> se_observer s' = se_observer s)"
  using assms
proof (induction rule: session_run.induct)
  case (sr_cons s l s1 ls s2)
  have l: "l \<noteq> Start" "\<not> resumes l"
    using sr_cons.hyps(1) sr_cons.prems step_resumes(6) [OF sr_cons.hyps(1)] by (auto elim: session_stepE)
  then show ?case
    using step_outside(1,5,6) [OF sr_cons.hyps(1) l(2,1)] sr_cons.prems sr_cons.IH by auto
qed simp

section \<open>Pausing\<close>

lemma paused_run:
  assumes "session_run v s ls s'" and "se_is_paused s" and "Resume \<notin> set ls"
  shows "length (filter is_tick ls) \<le> (if se_control s = WaitTick then 1 else 0)"
  using assms
proof (induction rule: session_run.induct)
  case (sr_cons s l s1 ls s2)
  consider (start) "l = Start" | (co) "resumes l" | (out) "l \<noteq> Start" "\<not> resumes l" by blast
  then show ?case
  proof cases
    case start
    then have "s1 = start_session s" "se_control s = NotStarted" using sr_cons.hyps(1) by (auto elim: session_stepE)
    then show ?thesis using sr_cons start by (simp add: start_session_def)
  next
    case co
    then show ?thesis
      using step_resumes(3,4,5) [OF sr_cons.hyps(1) co] sr_cons.prems sr_cons.IH by (auto split: if_splits)
  next
    case out
    then show ?thesis
      using step_outside(1,4) [OF sr_cons.hyps(1) out(2,1)] sr_cons.prems sr_cons.IH
      by (cases l) auto
  qed
qed simp

section \<open>Safety\<close>

definition session_ok :: "'ep session_env \<Rightarrow> 'ep session \<Rightarrow> bool" where
  "session_ok v s \<longleftrightarrow> executor_inv (v_float v) (se_executor s) \<and> streamer_inv (se_streamer s)
     \<and> (se_is_webrtc s \<longrightarrow> se_observer s \<noteq> None) \<and> se_control s \<noteq> Crashed
     \<and> (se_control s \<in> {NotStarted, Preparing} \<longrightarrow>
          (\<exists>p. g_start_node (x_graph (se_executor s)) = Some p \<and> p < length (x_heap (se_executor s))))"

lemma session_ok_cong:
  assumes "session_ok v s" and "se_executor s' = se_executor s" and "streamer_inv (se_streamer s')"
    and "se_is_webrtc s' = se_is_webrtc s" and "se_observer s \<noteq> None \<longrightarrow> se_observer s' \<noteq> None"
    and "se_control s' = se_control s \<or> se_control s' \<in> {WaitTick, WaitResume, Finished} \<or> se_control s = NotStarted \<and> se_control s' = Preparing"
  shows "session_ok v s'"
  using assms by (auto simp: session_ok_def)

lemma process_ok:
  assumes "float_ok (v_float v)" and "session_ok v s" and "se_control s = WaitTick"
  shows "case process_and_stream_single_frame v draw due s of None \<Rightarrow> \<forall>m n. \<not> frames_left m (Suc n) (x_heap (se_executor s))
    | Some (r, sends, s') \<Rightarrow> session_ok v s'
        \<and> (\<forall>m n. frames_left m (Suc n) (x_heap (se_executor s)) \<longrightarrow> frames_left m n (x_heap (se_executor s')))"
proof -
  have "executor_inv (v_float v) (se_executor s)" using assms(2) by (simp add: session_ok_def)
  note o = get_next_frame_outcome [OF assms(1) this, of "replicate 320 0" "v_files v", simplified]
  show ?thesis
  proof (cases "get_next_frame (v_float v) (v_files v) (replicate 320 0) (se_executor s)")
    case None
    then show ?thesis using o by (simp add: process_and_stream_single_frame_def)
  next
    case (Some res)
    obtain r st out x where res: "res = ((r, st), out, x)" by (metis prod.collapse)
    have x: "length out = 320" "executor_inv (v_float v) x"
        "\<forall>m n. frames_left m (Suc n) (x_heap (se_executor s)) \<longrightarrow> frames_left m n (x_heap x)"
      using o Some res by simp_all
    obtain streamer sends where f: "send_frame (v_keystream v) draw out (se_streamer s) = (streamer, sends)" by fastforce
    then have "streamer_inv streamer"
      using streamer_inv_send_frame [of "se_streamer s" out "v_keystream v" draw] assms(2) x(1) by (simp add: session_ok_def)
    then show ?thesis
      using Some res f assms(2,3) x(2,3)
      by (auto simp: process_and_stream_single_frame_def Let_def session_ok_def bump_packets_def
          update_stats_if_needed_def notify_def executor_inv_def)
  qed
qed

lemma process_Some:
  assumes "float_ok (v_float v)" and "session_ok v s" and "se_control s = WaitTick" and "frames_left m (Suc n) (x_heap (se_executor s))"
  obtains r sends s' where "process_and_stream_single_frame v draw due s = Some (r, sends, s')" "session_ok v s'"
    "frames_left m n (x_heap (se_executor s'))"
  using process_ok [OF assms(1-3), of draw due] assms(4) that
  by (cases "process_and_stream_single_frame v draw due s") auto

lemma streamer_inv_clients:
  "streamer_inv st \<Longrightarrow> streamer_inv (fold (\<lambda>c. streamer_add_client mk res (cc_ip c) (cc_port c) (cc_packet_loss_ratio c)) cs st)"
  by (induction cs arbitrary: st) (auto intro: inv_intros)

lemma configure_ok:
  assumes "streamer_inv (se_streamer s)" and "se_is_webrtc s \<longrightarrow> se_observer s \<noteq> None"
  shows "\<exists>s'. configure_streamer_from_graph v s = Some s' \<and> streamer_inv (se_streamer s')"
  using assms
  by (auto simp: configure_streamer_from_graph_def notify_def intro: inv_intros streamer_inv_clients
      split: option.split node_body.split)

text \<open>The frames that a run may still pull; only a tick uses one up.\<close>

definition heap_of :: "'ep session \<Rightarrow> heap" where
  "heap_of s = x_heap (se_executor s)"

lemma heap_step:
  assumes "same_wiring (heap_of s) (heap_of s') \<and> calmer (heap_of s) (heap_of s')" and "frames_left m (k + n) (heap_of s)"
  shows "frames_left m n (heap_of s')"
  using frames_left_calmer [OF frames_left_mono [OF assms(2)], of n "heap_of s'"] assms(1) by simp

lemma session_ok_step:
  assumes "session_step v s l s'" and "float_ok (v_float v)" and "session_ok v s"
  shows "(se_control s' \<noteq> Crashed \<longrightarrow> session_ok v s')
    \<and> (\<forall>m n. frames_left m ((if is_tick l then 1 else 0) + n) (heap_of s) \<longrightarrow> se_control s' \<noteq> Crashed \<and> frames_left m n (heap_of s'))"
proof -
  have quiet: ?thesis if "session_ok v s'" "same_wiring (heap_of s) (heap_of s') \<and> calmer (heap_of s) (heap_of s')"
    using that heap_step [OF that(2)] by (auto simp: session_ok_def)
  have inv: "executor_inv (v_float v) (se_executor s)" using assms(3) by (simp add: session_ok_def)
  then have wf: "wf_heap (v_float v) (heap_of s)" by (simp add: executor_inv_def heap_of_def)
  have moved: "session_ok v s'" if "s' = s\<lparr>se_executor := set_heap h (se_executor s)\<rparr>" "wf_heap (v_float v) h" "same_wiring (heap_of s) h" for h
    using that assms(3) by (auto simp: session_ok_def executor_inv_def set_heap_def same_wiring_def heap_of_def)
  show ?thesis
    using assms(1)
  proof (cases rule: session_step.cases)
    case (ss_prepared received)
    obtain p where p: "g_start_node (x_graph (se_executor s)) = Some p" "p < length (x_heap (se_executor s))"
      using assms(3) ss_prepared by (auto simp: session_ok_def)
    obtain r x where x: "prepare (v_files v) received (se_executor s) = Some (r, x)" "executor_inv (v_float v) x"
        "same_wiring (heap_of s) (x_heap x) \<and> calmer (heap_of s) (x_heap x)"
      using prepare_inv [OF inv p, of "v_files v" received] unfolding heap_of_def by blast
    obtain s1 where c: "configure_streamer_from_graph v (s\<lparr>se_executor := x\<rparr>) = Some s1" "streamer_inv (se_streamer s1)"
      using configure_ok [of "s\<lparr>se_executor := x\<rparr>" v] assms(3) by (auto simp: session_ok_def)
    have "session_ok v s' \<and> se_executor s' = x"
    proof (cases r)
      case (Inl err)
      then show ?thesis using ss_prepared x assms(3) by (auto simp: after_prepare_def session_ok_def notify_def)
    next
      case (Inr u)
      then show ?thesis
        using ss_prepared x c configure_fields [OF c(1)] assms(3) by (auto simp: after_prepare_def session_ok_def)
    qed
    then show ?thesis using x(3) by (intro quiet) (simp_all add: heap_of_def)
  next
    case (ss_tick draw due)
    note o = process_ok [OF assms(2,3) ss_tick(3), of draw due]
    show ?thesis
    proof (cases "process_and_stream_single_frame v draw due s")
      case None
      then show ?thesis using o ss_tick by (simp add: tick_def heap_of_def)
    next
      case (Some res)
      obtain r sends s1 where res: "res = (r, sends, s1)" by (metis prod_cases3)
      have s1: "session_ok v s1" "\<forall>m n. frames_left m (Suc n) (heap_of s) \<longrightarrow> frames_left m n (heap_of s1)"
        using o Some res by (simp_all add: heap_of_def)
      have "session_ok v s'" and x: "se_executor s' = se_executor s1"
        using ss_tick Some res s1(1) by (cases r; auto simp: tick_def session_ok_def)+
      moreover from this(1) have "se_control s' \<noteq> Crashed" by (simp add: session_ok_def)
      moreover have "heap_of s' = heap_of s1" using x by (simp add: heap_of_def)
      ultimately show ?thesis using ss_tick(1) s1(2) by simp
    qed
  next
    case (ss_refilled p)
    show ?thesis
    proof (cases "p < length (heap_of s)")
      case True
      then show ?thesis
        using ss_refilled run_refills_wf [OF wf True, of "v_files v"] moved
        by (intro quiet) (simp_all add: refilled_def heap_of_def set_heap_def)
    next
      case False
      then show ?thesis using ss_refilled assms(3) by (intro quiet) (simp_all add: refilled_def heap_of_def)
    qed
  next
    case (ss_reinitialised p)
    then show ?thesis
      using reinitialize_buffers_wf [OF wf, of p "v_files v"] moved
      by (intro quiet) (simp_all add: reinitialised_def heap_of_def set_heap_def)
  next
    case ss_woken
    then show ?thesis using assms(3) by (intro quiet) (auto simp: woken_def session_ok_def heap_of_def)
  qed (use assms(3) in \<open>intro quiet; auto intro!: inv_intros simp: session_ok_def heap_of_def steps_defs\<close>)+
qed

lemma session_ok_run:
  assumes "session_run v s ls s'" and "float_ok (v_float v)" and "session_ok v s"
    and "frames_left m (length (filter is_tick ls) + n) (heap_of s)"
  shows "session_ok v s' \<and> frames_left m n (heap_of s')"
  using assms
proof (induction rule: session_run.induct)
  case (sr_cons s l s1 ls s2)
  have "frames_left m ((if is_tick l then 1 else 0) + (length (filter is_tick ls) + n)) (heap_of s)"
    using sr_cons.prems(3) by (simp split: if_splits)
  then show ?case using session_ok_step [OF sr_cons.hyps(1) sr_cons.prems(1,2)] sr_cons.IH sr_cons.prems(1) by blast
qed simp

section \<open>Frames and packets\<close>

lemma process_sends:
  assumes "float_ok (v_float v)" and "session_ok v s" and "s_clients (se_streamer s) \<noteq> []"
    and "process_and_stream_single_frame v draw due s = Some (r, sends, s')"
  shows "if r = Inr () then s_packetizer (se_streamer s') = next_packet (s_packetizer (se_streamer s))
      \<and> s_ring_index (se_streamer s') = (s_ring_index (se_streamer s) + 1) mod 16
      \<and> sends = map (\<lambda>ep. (ep, s_ring_index (se_streamer s), 172)) (fan_out draw 0 (s_clients (se_streamer s)))
      \<and> s_clients (se_streamer s') = s_clients (se_streamer s)
    else sends = [] \<and> se_streamer s' = se_streamer s"
proof -
  obtain c st out x where g: "get_next_frame (v_float v) (v_files v) (replicate 320 0) (se_executor s) = Some ((c, st), out, x)"
    using assms(4) by (auto simp: process_and_stream_single_frame_def split: option.splits)
  have "executor_inv (v_float v) (se_executor s)" using assms(2) by (simp add: session_ok_def)
  then have len: "length out = 320" using get_next_frame_Some(1) [OF assms(1) _ _ g] by simp
  have "streamer_inv (se_streamer s)" using assms(2) by (simp add: session_ok_def)
  note send = send_frame_eq [OF this len assms(3), of "v_keystream v" draw]
  show ?thesis
    using assms(4) g
    by (auto simp: process_and_stream_single_frame_def send Let_def bump_packets_def update_stats_if_needed_def
        notify_def split: if_splits)
qed

lemma process_delay:
  assumes "on_delay p k tot None (se_executor s)" and "streamer_inv (se_streamer s)" and "s_clients (se_streamer s) \<noteq> []"
    and "k + 1 < 2 ^ 31"
  shows "\<exists>r sends s'. process_and_stream_single_frame v draw False s = Some (r, sends, s')
    \<and> (if k + 1 \<ge> tot \<and> tot > 0 then r = Inl no_error \<and> se_streamer s' = se_streamer s
       else r = Inr () \<and> on_delay p (k + 1) tot None (se_executor s') \<and> streamer_inv (se_streamer s')
         \<and> s_packetizer (se_streamer s') = next_packet (s_packetizer (se_streamer s))
         \<and> s_clients (se_streamer s') = s_clients (se_streamer s))"
proof -
  have len: "length (replicate 320 (0 :: u8)) = 320" by simp
  note send = send_frame_eq [OF assms(2) len assms(3), of "v_keystream v" draw]
  have inv: "streamer_inv (fst (send_frame (v_keystream v) draw (replicate 320 0) (se_streamer s)))"
    using assms(2) by (intro streamer_inv_send_frame) simp_all
  show ?thesis
    using get_next_frame_delay [OF assms(1,4), of "v_float v" "v_files v"] inv
    by (auto simp: process_and_stream_single_frame_def send Let_def bump_packets_def update_stats_if_needed_def
        on_delay_def split: if_splits)
qed

section \<open>A session to try things on\<close>

definition demo_env :: "nat session_env" where
  "demo_env = \<lparr>v_files = \<lambda>_. plain_file 1000, v_float = ideal_float, v_keystream = \<lambda>_ _. None,
     v_make_endpoint = \<lambda>_ _. Some 1, v_resolve = \<lambda>_ _. [], v_hkdf = \<lambda>n _ _ _. replicate n 0\<rparr>"

definition demo_session :: "executor \<Rightarrow> control \<Rightarrow> nat session" where
  "demo_session x c = \<lparr>se_id = ''s'', se_is_running = (c \<noteq> NotStarted), se_is_paused = (c = WaitResume),
     se_is_webrtc = False, se_janus_ip = '''', se_janus_port = None, se_executor = x, se_streamer = demo_streamer,
     se_resume_channel = 0, se_timer_cancelled = False, se_observer = Some [], se_control = c\<rparr>"

lemma demo_session_simps [simp]:
  "se_executor (demo_session x c) = x" "se_control (demo_session x c) = c" "se_streamer (demo_session x c) = demo_streamer"
  "se_observer (demo_session x c) = Some []" "se_is_running (demo_session x c) \<longleftrightarrow> c \<noteq> NotStarted"
  "se_is_paused (demo_session x c) \<longleftrightarrow> c = WaitResume" "se_resume_channel (demo_session x c) = 0"
  "\<not> se_is_webrtc (demo_session x c)"
  by (simp_all add: demo_session_def)

lemma demo_session_ok: "session_ok demo_env (demo_session demo_executor NotStarted)"
  using demo_executor_inv demo_streamer
  by (simp add: session_ok_def demo_env_def demo_executor_def connect_input_defs wire_standard_def upd_def set_next_def
      new_mixer_def new_file_input_def new_node_def Let_def)

lemma run_one: "session_step v s l s' \<Longrightarrow> session_run v s [l] s'"
  by (blast intro: session_run.intros)

section \<open>Properties\<close>

text \<open>C6: Whatever the order of its steps, of the coroutines its nodes spawn and of the control calls, a session
  over a well-formed graph, with an observer if it is a WebRTC session, does not reach undefined
  behaviour as long as the frames it pulls fit the \<open>int\<close> counters of its nodes, and its graph and its
  streamer stay well formed. With counters at zero and mixers of less than \<open>m\<close> inputs, \<open>n\<close> frames fit
  if \<open>m * n < 2 ^ 31\<close>.\<close>

theorem session_never_crashes:
  assumes "float_ok (v_float v)" and "session_ok v s" and "session_run v s ls s'"
    and "frames_left m (length (filter is_tick ls)) (x_heap (se_executor s))"
  shows "se_control s' \<noteq> Crashed \<and> executor_inv (v_float v) (se_executor s') \<and> streamer_inv (se_streamer s')"
  using session_ok_run [OF assms(3,1,2), of m 0] assms(4) by (simp add: session_ok_def heap_of_def)

lemma session_never_crashes_witness:
  "se_control (stop (tick demo_env (\<lambda>_. 0) False (demo_session demo_executor WaitTick))) \<noteq> Crashed"
proof -
  let ?s = "demo_session demo_executor WaitTick"
  have "session_run demo_env ?s [Tick (\<lambda>_. 0) False, Stop] (stop (tick demo_env (\<lambda>_. 0) False ?s))"
    by (intro sr_cons [OF ss_tick] sr_cons [OF ss_stop] sr_nil) simp
  moreover have "float_ok (v_float demo_env)" using float_ok_ideal by (simp add: demo_env_def)
  moreover have "session_ok demo_env ?s" using demo_session_ok by (simp add: session_ok_def)
  moreover have "frames_left 2 (length (filter is_tick [Tick (\<lambda>_. 0) False, Stop])) (x_heap (se_executor ?s))"
    using demo_executor_left [of 1] by simp
  ultimately show ?thesis using session_never_crashes [of demo_env ?s] by blast
qed

text \<open>C22: A resumption is never lost: in every state a session can reach, the channel holds at most one
  signal, a session that waits for the channel while it is not paused finds a signal in it, and a
  session that has not started or has finished is not running.\<close>

theorem no_lost_resume:
  assumes "new_session v ident x streamer is_web_rtc janus_ip janus_port is_encrypted = Inr s0"
    and "session_run v s0 ls s"
  shows "se_resume_channel s \<le> 1
    \<and> (se_control s = WaitResume \<and> \<not> se_is_paused s \<longrightarrow> se_resume_channel s = 1)
    \<and> (se_control s \<in> {NotStarted, Finished} \<longrightarrow> \<not> se_is_running s)"
proof -
  have "session_inv s0"
    using assms(1) by (auto simp: new_session_def session_inv_def transform_Inr_iff)
  then show ?thesis using session_inv_run [OF assms(2)] by (simp add: session_inv_def)
qed

lemma no_lost_resume_witness:
  "se_resume_channel (resume (pause (demo_session demo_executor NotStarted))) \<le> 1"
proof -
  have n: "new_session demo_env ''s'' demo_executor demo_streamer False '''' None False = Inr
      ((demo_session demo_executor NotStarted)\<lparr>se_observer := None\<rparr>)"
    by (simp add: new_session_def demo_session_def)
  have "session_run demo_env ((demo_session demo_executor NotStarted)\<lparr>se_observer := None\<rparr>) [Attach, Pause, Resume]
      (resume (pause (attach_observer ((demo_session demo_executor NotStarted)\<lparr>se_observer := None\<rparr>))))"
    by (intro sr_cons [OF ss_attach] sr_cons [OF ss_pause] sr_cons [OF ss_resume] sr_nil)
  then show ?thesis
    using no_lost_resume [OF n] by (simp add: attach_observer_def demo_session_def)
qed

text \<open>C25: After \<open>stop\<close> a started session is not running any more, and its coroutine is resumed at most
  once: that resumption, if it comes, is its last.\<close>

theorem stop_ends_session:
  assumes "session_run v (stop s) ls s'" and "se_control s \<noteq> NotStarted"
  shows "\<not> se_is_running s' \<and> length (filter resumes ls) \<le> 1
    \<and> (filter resumes ls \<noteq> [] \<longrightarrow> se_control s' \<in> {Finished, Crashed})"
  using stopped_run [OF assms(1)] assms(2) by (auto simp: stop_def split: if_splits)

lemma stop_ends_session_witness:
  "\<not> se_is_running (teardown timer_aborted (stop (demo_session demo_executor WaitTick)))"
proof -
  have "session_run demo_env (stop (demo_session demo_executor WaitTick)) [TimerAborted]
      (teardown timer_aborted (stop (demo_session demo_executor WaitTick)))"
    by (intro run_one ss_aborted) (simp_all add: stop_def)
  from stop_ends_session [OF this] show ?thesis by simp
qed

text \<open>\<open>stop\<close> does not wake a paused session: one that waits for the resume channel stays suspended
  for ever after it, tells its observer nothing and so is never torn down, unless \<open>resume\<close> is called.\<close>

theorem stop_while_paused_hangs:
  assumes "se_control s = WaitResume" and "se_resume_channel s = 0"
    and "session_run v (stop s) ls s'" and "Resume \<notin> set ls"
  shows "se_control s' = WaitResume \<and> filter resumes ls = [] \<and> (Attach \<notin> set ls \<longrightarrow> se_observer s' = se_observer s)"
  using waiting_run [OF assms(3) _ _ assms(4)] assms(1,2) by (simp add: stop_def)

lemma stop_while_paused_hangs_witness:
  "se_control (stop (stop (demo_session demo_executor WaitResume))) = WaitResume"
proof -
  have "session_run demo_env (stop (demo_session demo_executor WaitResume)) [Stop] (stop (stop (demo_session demo_executor WaitResume)))"
    by (intro run_one ss_stop)
  from stop_while_paused_hangs [OF _ _ this] show ?thesis by simp
qed

text \<open>C26: Once a session is paused, and until it is resumed, it processes at most the one frame whose timer
  it already waits for.\<close>

theorem pause_stops_frames:
  assumes "session_run v (pause s) ls s'" and "Resume \<notin> set ls"
  shows "length (filter is_tick ls) \<le> (if se_control s = WaitTick then 1 else 0)"
proof -
  have "se_is_paused (pause s)" "se_control (pause s) = se_control s" by (simp_all add: pause_def)
  then show ?thesis using paused_run [OF assms(1) _ assms(2)] by simp
qed

lemma pause_stops_frames_witness:
  "length (filter is_tick [Tick (\<lambda>_. 0) False]) \<le> (if se_control (demo_session (delay_executor 60) WaitTick) = WaitTick then 1 else 0)"
proof -
  have "session_run demo_env (pause (demo_session (delay_executor 60) WaitTick)) [Tick (\<lambda>_. 0) False]
      (tick demo_env (\<lambda>_. 0) False (pause (demo_session (delay_executor 60) WaitTick)))"
    by (intro run_one ss_tick) (simp add: pause_def)
  from pause_stops_frames [OF this] show ?thesis by simp
qed

text \<open>One tick, one packet: a tick that goes on moves the packetizer by one packet and the ring by one
  slot and sends that slot to every client without simulated loss; a tick that ends the session sends
  nothing.\<close>

theorem one_packet_per_tick:
  assumes "float_ok (v_float v)" and "session_ok v s" and "s_clients (se_streamer s) \<noteq> []"
    and "process_and_stream_single_frame v draw due s = Some (r, sends, s')"
  shows "if r = Inr () then s_packetizer (se_streamer s') = next_packet (s_packetizer (se_streamer s))
      \<and> s_ring_index (se_streamer s') = (s_ring_index (se_streamer s) + 1) mod 16
      \<and> sends = map (\<lambda>ep. (ep, s_ring_index (se_streamer s), 172)) (fan_out draw 0 (s_clients (se_streamer s)))
    else sends = [] \<and> se_streamer s' = se_streamer s"
  using process_sends [OF assms] by (simp split: if_splits)

lemma one_packet_per_tick_witness:
  "\<exists>r sends s'. process_and_stream_single_frame demo_env (\<lambda>_. 0) False (demo_session demo_executor WaitTick) = Some (r, sends, s')
    \<and> (if r = Inr () then s_ring_index (se_streamer s') = (s_ring_index demo_streamer + 1) mod 16 else sends = [])"
proof -
  have ok: "session_ok demo_env (demo_session demo_executor WaitTick)"
    using demo_session_ok by (simp add: session_ok_def)
  have f: "float_ok (v_float demo_env)" using float_ok_ideal by (simp add: demo_env_def)
  have left: "frames_left 2 (Suc 0) (x_heap (se_executor (demo_session demo_executor WaitTick)))" using demo_executor_left [of 1] by simp
  obtain r sends s' where p: "process_and_stream_single_frame demo_env (\<lambda>_. 0) False (demo_session demo_executor WaitTick) = Some (r, sends, s')"
    by (rule process_Some [OF f ok _ left, of "\<lambda>_. 0" False]) simp
  then show ?thesis
    using one_packet_per_tick [OF f ok _ p] demo_streamer by (auto split: if_splits)
qed

text \<open>The ticks of a session on a delay, up to the one that completes it.\<close>

lemma delay_ticks:
  assumes "on_delay p k tot None (se_executor s)" and "k + int (length draws) = tot" and "draws \<noteq> []" and "0 \<le> k"
    and "streamer_inv (se_streamer s)" and "s_clients (se_streamer s) \<noteq> []"
    and "se_control s = WaitTick" and "se_is_running s" and "\<not> se_is_paused s"
  shows "\<exists>s'. session_run v s (map (\<lambda>d. Tick d False) draws) s' \<and> se_control s' = Finished
    \<and> s_packetizer (se_streamer s') = (next_packet ^^ (length draws - 1)) (s_packetizer (se_streamer s))"
  using assms
proof (induction draws arbitrary: k s)
  case (Cons d draws)
  obtain r sends s1 where r: "process_and_stream_single_frame v d False s = Some (r, sends, s1)"
    "if k + 1 \<ge> tot \<and> tot > 0 then r = Inl no_error \<and> se_streamer s1 = se_streamer s
     else r = Inr () \<and> on_delay p (k + 1) tot None (se_executor s1) \<and> streamer_inv (se_streamer s1)
       \<and> s_packetizer (se_streamer s1) = next_packet (s_packetizer (se_streamer s))
       \<and> s_clients (se_streamer s1) = s_clients (se_streamer s)"
    using process_delay [OF Cons.prems(1,5,6), of v d] Cons.prems(1,2) by (auto simp: on_delay_def)
  note f = process_fields [OF r(1)]
  have step: "session_step v s (Tick d False) (tick v d False s)" using Cons.prems(7) by (rule ss_tick)
  show ?case
  proof (cases "draws = []")
    case True
    then have "tick v d False s = teardown no_error s1" "se_streamer s1 = se_streamer s"
      using r Cons.prems(2,4) by (auto simp: tick_def)
    then show ?thesis using run_one [OF step] True by auto
  next
    case False
    then have l: "length draws > 0" by simp
    then have r2: "r = Inr ()" "on_delay p (k + 1) tot None (se_executor s1)" "streamer_inv (se_streamer s1)"
      "s_packetizer (se_streamer s1) = next_packet (s_packetizer (se_streamer s))" "s_clients (se_streamer s1) = s_clients (se_streamer s)"
      using r(2) Cons.prems(2) by (auto split: if_splits)
    then have t: "tick v d False s = loop_head s1" using r(1) by (simp add: tick_def)
    obtain s' where s': "session_run v (loop_head s1) (map (\<lambda>d. Tick d False) draws) s'" "se_control s' = Finished"
        "s_packetizer (se_streamer s') = (next_packet ^^ (length draws - 1)) (s_packetizer (se_streamer (loop_head s1)))"
      using Cons.IH [of "k + 1" "loop_head s1"] r2 f Cons.prems False by auto
    have "(next_packet ^^ (length draws - 1)) (next_packet q) = (next_packet ^^ length draws) q" for q
      using l by (cases "length draws") (simp_all add: funpow_swap1)
    then show ?thesis using sr_cons [OF step] s' t r2 by auto
  qed
qed simp

text \<open>A session whose graph is a delay of \<open>n + 1\<close> frames sends \<open>n\<close> packets: the tick that completes
  the last node ends the session without sending the frame it produced.\<close>

theorem last_frame_not_sent:
  assumes "on_delay p 0 (int (Suc n)) None (se_executor s)" and "streamer_inv (se_streamer s)"
    and "s_clients (se_streamer s) \<noteq> []" and "se_control s = WaitTick" and "se_is_running s" and "\<not> se_is_paused s"
    and "length draws = Suc n"
  shows "\<exists>s'. session_run v s (map (\<lambda>d. Tick d False) draws) s' \<and> se_control s' = Finished
    \<and> s_packetizer (se_streamer s') = (next_packet ^^ n) (s_packetizer (se_streamer s))"
proof -
  have "draws \<noteq> []" using assms(7) by auto
  then show ?thesis using delay_ticks [OF assms(1) _ _ _ assms(2-6), of draws v] assms(7) by simp
qed

lemma last_frame_not_sent_witness:
  "\<exists>s'. session_run demo_env (demo_session (delay_executor 60) WaitTick) (map (\<lambda>d. Tick d False) (replicate 3 (\<lambda>_. 0))) s'
    \<and> se_control s' = Finished \<and> s_packetizer (se_streamer s') = (next_packet ^^ 2) (s_packetizer demo_streamer)"
proof -
  have "on_delay 0 0 (int (Suc 2)) None (se_executor (demo_session (delay_executor 60) WaitTick))"
    using delay_executor [of 60] by simp
  from last_frame_not_sent [OF this, of "replicate 3 (\<lambda>_. 0)" demo_env] show ?thesis using demo_streamer by simp
qed

text \<open>A preparation that fails is reported twice: once with its reason and once, when the session is
  torn down, with an empty message.\<close>

theorem failed_preparation_reported_twice:
  assumes "prepare (v_files v) received (se_executor s) = Some (Inl err, x)" and "se_observer s = Some ns"
  shows "se_observer (after_prepare v received s) = Some (ns @ [OnError (''Prep Failed: '' @ ei_message err), OnError ''''])
    \<and> se_control (after_prepare v received s) = Finished"
  using assms by (simp add: after_prepare_def teardown_def finalize_session_def notify_def no_error_def)

lemma failed_preparation_reported_twice_witness:
  "se_observer (after_prepare demo_env [Some (Inl (error_info_From NetworkError ''S3''))] (demo_session demo_executor Preparing))
     = Some [OnError ''Prep Failed: S3'', OnError '''']"
proof -
  have "prepare (v_files demo_env) [Some (Inl (error_info_From NetworkError ''S3''))] demo_executor
      = Some (Inl (error_info_From NetworkError ''S3''), demo_executor)"
    by (simp add: prepare_def demo_executor_def await_all_dynamic_def)
  then show ?thesis
    using failed_preparation_reported_twice [of demo_env _ "demo_session demo_executor Preparing"] by simp
qed

end
