(* ===== verification/Io_Context_Pool.thy ===== *)
theory Io_Context_Pool
  imports Hermes_Types "HOL-Library.Multiset"
begin

text \<open>
  \<open>infra/io/IoContextPool\<close>: a pool of I/O contexts, one thread each, handed out in turn. A context
  is its index; what the allocation throws is a parameter. \<open>size_t\<close> has 64 bits.
\<close>

record io_context_pool =
  pl_io_contexts :: "nat list"
  pl_work_guards :: nat
  pl_threads :: nat
  pl_next_io_context :: u64
  pl_stopped :: bool

definition pool_create :: "string option \<Rightarrow> nat \<Rightarrow> (error_info, io_context_pool) expected" where
  "pool_create allocation_fails pool_size =
     (if pool_size = 0 then Inl (error_info_From ConfigError ''IoContextPool size must be > 0'')
      else case allocation_fails of
             Some what \<Rightarrow> Inl (error_info_From AppCritical (''Failed to allocate IoContextPool: '' @ what))
           | None \<Rightarrow> Inr \<lparr>pl_io_contexts = [0..<pool_size], pl_work_guards = pool_size, pl_threads = 0,
               pl_next_io_context = 0, pl_stopped = False\<rparr>)"

definition pool_run :: "io_context_pool \<Rightarrow> io_context_pool" where
  "pool_run pool = (if pl_threads pool \<noteq> 0 then pool else pool\<lparr>pl_threads := length (pl_io_contexts pool)\<rparr>)"

definition pool_stop :: "io_context_pool \<Rightarrow> io_context_pool" where
  "pool_stop pool = pool\<lparr>pl_work_guards := 0, pl_stopped := True\<rparr>"

definition get_io_context :: "io_context_pool \<Rightarrow> nat \<times> io_context_pool" where
  "get_io_context pool =
     (let idx = unat (pl_next_io_context pool) mod length (pl_io_contexts pool)
      in (pl_io_contexts pool ! idx, pool\<lparr>pl_next_io_context := pl_next_io_context pool + 1\<rparr>))"

primrec get_io_contexts :: "nat \<Rightarrow> io_context_pool \<Rightarrow> nat list \<times> io_context_pool" where
  "get_io_contexts 0 pool = ([], pool)"
| "get_io_contexts (Suc k) pool =
     (let (c, pool) = get_io_context pool; (cs, pool) = get_io_contexts k pool in (c # cs, pool))"

definition pool_inv :: "io_context_pool \<Rightarrow> bool" where
  "pool_inv pool \<longleftrightarrow> pl_io_contexts pool = [0..<length (pl_io_contexts pool)] \<and> pl_io_contexts pool \<noteq> []"

lemma pool_inv_create [inv_intros]: "pool_create fails n = Inr pool \<Longrightarrow> pool_inv pool"
  by (auto simp: pool_create_def pool_inv_def split: if_splits option.splits)

lemma get_io_context_simps [simp]:
  "pl_io_contexts (snd (get_io_context pool)) = pl_io_contexts pool"
  "pl_next_io_context (snd (get_io_context pool)) = pl_next_io_context pool + 1"
  "pool_inv pool \<Longrightarrow> fst (get_io_context pool) = unat (pl_next_io_context pool) mod length (pl_io_contexts pool)"
  unfolding pool_inv_def
  by (simp_all add: get_io_context_def Let_def)
    (metis add.left_neutral length_greater_0_conv mod_less_divisor nth_upt)

lemma pool_inv_ops [inv_intros]:
  "pool_inv pool \<Longrightarrow> pool_inv (snd (get_io_context pool))"
  "pool_inv pool \<Longrightarrow> pool_inv (pool_run pool)"
  "pool_inv pool \<Longrightarrow> pool_inv (pool_stop pool)"
  by (simp_all add: pool_inv_def pool_run_def pool_stop_def)

lemma get_io_contexts_eq:
  assumes "pool_inv pool" and "unat (pl_next_io_context pool) + k < 2 ^ 64"
  shows "fst (get_io_contexts k pool)
    = map (\<lambda>i. i mod length (pl_io_contexts pool)) [unat (pl_next_io_context pool)..<unat (pl_next_io_context pool) + k]"
  using assms
proof (induction k arbitrary: pool)
  case (Suc k)
  let ?p = "snd (get_io_context pool)"
  have n: "unat (pl_next_io_context ?p) = Suc (unat (pl_next_io_context pool))"
    using Suc.prems(2) by (simp add: unat_word_ariths mod_simps) 
  have "fst (get_io_contexts (Suc k) pool) = fst (get_io_context pool) # fst (get_io_contexts k ?p)"
    by (simp add: split_def Let_def)
  also have "\<dots> = (unat (pl_next_io_context pool) mod length (pl_io_contexts pool))
      # map (\<lambda>i. i mod length (pl_io_contexts pool)) [Suc (unat (pl_next_io_context pool))..<Suc (unat (pl_next_io_context pool)) + k]"
    using Suc.IH [of ?p] Suc.prems n by (simp add: pool_inv_ops)
  also have "\<dots> = map (\<lambda>i. i mod length (pl_io_contexts pool)) [unat (pl_next_io_context pool)..<unat (pl_next_io_context pool) + Suc k]"
    by (simp add: upt_conv_Cons del: upt_Suc)
  finally show ?case .
qed simp

text \<open>In \<open>n * k\<close> consecutive numbers every residue modulo \<open>n\<close> occurs \<open>k\<close> times.\<close>

lemma residues_window:
  assumes "c < n"
  shows "count (mset (map (\<lambda>i. i mod n) [a..<a + n])) c = 1"
proof -
  have inj: "inj_on (\<lambda>i. i mod n) {a..<a + n}"
  proof
    fix x y
    assume x: "x \<in> {a..<a + n}" "y \<in> {a..<a + n}" "x mod n = y mod n"
    then have "\<bar>int x - int y\<bar> < int n" by auto
    moreover have "int n dvd int x - int y" using x(3) by (metis mod_eq_dvd_iff of_nat_mod)
    ultimately have "int x - int y = 0" using dvd_imp_le_int [of "int x - int y" "int n"] by linarith
    then show "x = y" by simp
  qed
  then have d: "distinct (map (\<lambda>i. i mod n) [a..<a + n])" by (simp add: distinct_map)
  have "card ((\<lambda>i. i mod n) ` {a..<a + n}) = n" using inj by (simp add: card_image)
  moreover have "(\<lambda>i. i mod n) ` {a..<a + n} \<subseteq> {..<n}" using assms by auto
  ultimately have "(\<lambda>i. i mod n) ` {a..<a + n} = {..<n}" by (intro card_subset_eq) simp_all
  then have "c \<in> set (map (\<lambda>i. i mod n) [a..<a + n])" using assms by auto
  then show ?thesis using d by (simp only: distinct_count_atmost_1 if_True)
qed

lemma residues_windows:
  assumes "c < n"
  shows "count (mset (map (\<lambda>i. i mod n) [a..<a + n * k])) c = k"
proof (induction k arbitrary: a)
  case (Suc k)
  have "[a..<a + n * Suc k] = [a..<a + n] @ [a + n..<a + n + n * k]"
    by (metis add.assoc mult_Suc_right upt_add_eq_append le_add1)
  then show ?case using residues_window [OF assms, of a] Suc [of "a + n"] by simp
qed simp

section \<open>Property\<close>

text \<open>The pool is fair: while the counter does not wrap, \<open>n * k\<close> consecutive requests to a pool of
  \<open>n\<close> contexts give every context exactly \<open>k\<close> times.\<close>

theorem pool_is_fair:
  assumes "pool_inv pool" and "n = length (pl_io_contexts pool)" and "c < n"
    and "unat (pl_next_io_context pool) + n * k < 2 ^ 64"
  shows "count (mset (fst (get_io_contexts (n * k) pool))) c = k"
  using get_io_contexts_eq [OF assms(1,4)] residues_windows [OF assms(3)] assms(2) by simp

lemma pool_is_fair_witness:
  "\<exists>pool. pool_create None 4 = Inr pool \<and> count (mset (fst (get_io_contexts (4 * 25) pool))) 2 = 25"
proof -
  obtain pool where p: "pool_create None 4 = Inr pool" "length (pl_io_contexts pool) = 4" "pl_next_io_context pool = 0"
    by (simp add: pool_create_def)
  then show ?thesis using pool_is_fair [OF pool_inv_create [OF p(1)], of 4 2 25] by simp
qed

end
