(* ===== verification/Active_Sessions.thy ===== *)
theory Active_Sessions
  imports Session_Lifecycle Io_Context_Pool "HOL-Library.AList"
begin

text \<open>
  \<open>core/session/ActiveSessions\<close>: the registry of the sessions. A \<open>shared_ptr\<close> is an index into the
  list of the sessions made so far, a web socket is a number. The two hash maps are association
  lists. Graph parsing, the drawn UUID and the accepted socket are parameters. The mutex makes every
  operation one step.
\<close>

section \<open>State\<close>

record 'ep active_sessions =
  as_objects :: "'ep session list"
  as_sessions :: "(string \<times> nat) list"
  as_websocket_sessions :: "(string \<times> nat) list"
  as_available_webrtc_ports :: "u16 list"
  as_next_session_id :: u64
  as_pool :: io_context_pool
  as_spawned :: "(nat \<times> string \<times> nat \<times> nat) list"
  as_closed :: "nat list"

datatype session_op_status = OpSuccess | SessionNotFound | WebSocketNotFound

text \<open>The loop of the constructor with its 16-bit counter: \<open>None\<close> is a run that does not end.\<close>

partial_function (option) fill_ports :: "u16 \<Rightarrow> u16 \<Rightarrow> u16 list \<Rightarrow> u16 list option" where
  "fill_ports p port_end ports =
     (if p \<le> port_end then fill_ports (p + 1) port_end (ports @ [p]) else Some ports)"

definition new_active_sessions :: "io_context_pool \<Rightarrow> u16 \<Rightarrow> u16 \<Rightarrow> 'ep active_sessions option" where
  "new_active_sessions pool port_start port_end =
     map_option (\<lambda>ports. \<lparr>as_objects = [], as_sessions = [], as_websocket_sessions = [],
         as_available_webrtc_ports = ports, as_next_session_id = 0, as_pool = pool, as_spawned = [], as_closed = []\<rparr>)
       (fill_ports port_start port_end [])"

section \<open>Operations\<close>

definition allocate_webrtc_port :: "'ep active_sessions \<Rightarrow> u16 option \<times> 'ep active_sessions" where
  "allocate_webrtc_port st =
     (case as_available_webrtc_ports st of
        [] \<Rightarrow> (None, st)
      | port # ports \<Rightarrow> (Some port, st\<lparr>as_available_webrtc_ports := ports\<rparr>))"

definition push_port :: "u16 option \<Rightarrow> 'ep active_sessions \<Rightarrow> 'ep active_sessions" where
  "push_port port st =
     (case port of None \<Rightarrow> st | Some p \<Rightarrow> st\<lparr>as_available_webrtc_ports := as_available_webrtc_ports st @ [p]\<rparr>)"

text \<open>The destructor of \<open>PortGuard\<close>.\<close>

definition release_guard :: "bool \<Rightarrow> u16 option \<Rightarrow> 'ep active_sessions \<Rightarrow> 'ep active_sessions" where
  "release_guard released port st = (if \<not> released then push_port port st else st)"

definition update_object :: "nat \<Rightarrow> ('ep session \<Rightarrow> 'ep session) \<Rightarrow> 'ep active_sessions \<Rightarrow> 'ep active_sessions" where
  "update_object k f st = st\<lparr>as_objects := (as_objects st)[k := f (as_objects st ! k)]\<rparr>"

text \<open>\<open>sessions_[session_id] = \<dots>\<close>.\<close>

definition insert_session :: "string \<Rightarrow> 'ep session \<Rightarrow> 'ep active_sessions \<Rightarrow> 'ep active_sessions" where
  "insert_session ident s st = st\<lparr>as_sessions := AList.update ident (length (as_objects st)) (as_sessions st),
     as_objects := as_objects st @ [s]\<rparr>"

text \<open>
  \<open>create_session\<close>; the outer error is the exception of \<open>setup_security\<close>. The guard's destructor
  runs on every way out once a port is allocated; \<open>released\<close> is never set.
\<close>

definition create_session ::
  "'ep session_env \<Rightarrow> app_config \<Rightarrow> stream_draws \<Rightarrow> string \<Rightarrow> (error_info, graph) expected \<Rightarrow> session_type
     \<Rightarrow> 'ep active_sessions \<Rightarrow> (security_fault, (error_info, string) expected) expected \<times> 'ep active_sessions" where
  "create_session v cfg draws session_id graph_result session_type st =
    (let st = st\<lparr>as_next_session_id := as_next_session_id st + 1\<rparr>;
         (io, pool) = get_io_context (as_pool st);
         st = st\<lparr>as_pool := pool\<rparr>
     in case graph_result of
          Inl err \<Rightarrow> (Inr (Inl err), st)
        | Inr g \<Rightarrow>
            let (port, st) = (if session_type = WebRTC then allocate_webrtc_port st else (None, st)) in
            if session_type = WebRTC \<and> port = None
            then (Inr (Inl (error_info_From LogicError ''No available WebRTC ports'')), st)
            else
              (case session_create v session_id g (cfg_crypto cfg) draws (session_type = WebRTC)
                      (j_address (cfg_janus cfg)) port (session_type = StandartEncrypted) of
                 Inl fault \<Rightarrow> (Inl fault, release_guard False port st)
               | Inr (Inl err) \<Rightarrow> (Inr (Inl err), release_guard False port (push_port port st))
               | Inr (Inr s) \<Rightarrow>
                   (Inr (Inr session_id), release_guard False port (insert_session session_id s st))))"

definition get_session :: "string \<Rightarrow> 'ep active_sessions \<Rightarrow> 'ep session option" where
  "get_session ident st = map_option ((!) (as_objects st)) (map_of (as_sessions st) ident)"

text \<open>\<open>spawn_session_coroutine\<close>: the coroutine waits in the next context of the pool.\<close>

definition spawn_session_coroutine :: "string \<Rightarrow> nat \<Rightarrow> nat \<Rightarrow> 'ep active_sessions \<Rightarrow> 'ep active_sessions" where
  "spawn_session_coroutine ident session ws st =
     (let (io, pool) = get_io_context (as_pool st)
      in st\<lparr>as_pool := pool, as_spawned := as_spawned st @ [(io, ident, session, ws)]\<rparr>)"

definition create_and_run_websocket_session ::
  "string \<Rightarrow> nat \<Rightarrow> 'ep active_sessions \<Rightarrow> (error_info, unit) expected \<times> 'ep active_sessions" where
  "create_and_run_websocket_session ident websocket st =
    (case map_of (as_sessions st) ident of
       None \<Rightarrow> (Inl (error_info_From LogicError ''Session not found''), st)
     | Some k \<Rightarrow>
         if se_is_running (as_objects st ! k)
         then (Inl (error_info_From LogicError ''WebSocket already connected''), st)
         else
           let st = update_object k attach_observer st;
               st = st\<lparr>as_websocket_sessions := AList.update ident websocket (as_websocket_sessions st)\<rparr>
           in (Inr (), spawn_session_coroutine ident k websocket st))"

definition remove_session :: "string \<Rightarrow> 'ep active_sessions \<Rightarrow> session_op_status \<times> 'ep active_sessions" where
  "remove_session ident st =
    (case map_of (as_sessions st) ident of
       None \<Rightarrow> (SessionNotFound, st)
     | Some k \<Rightarrow>
         let st = push_port (se_janus_port (as_objects st ! k)) st;
             st = update_object k stop st;
             st = st\<lparr>as_sessions := AList.delete ident (as_sessions st)\<rparr>
         in case map_of (as_websocket_sessions st) ident of
              Some ws \<Rightarrow>
                (OpSuccess, st\<lparr>as_closed := as_closed st @ [ws],
                   as_websocket_sessions := AList.delete ident (as_websocket_sessions st)\<rparr>)
            | None \<Rightarrow> (WebSocketNotFound, st))"

definition pause_session :: "string \<Rightarrow> 'ep active_sessions \<Rightarrow> session_op_status \<times> 'ep active_sessions" where
  "pause_session ident st =
    (case map_of (as_sessions st) ident of
       None \<Rightarrow> (SessionNotFound, st)
     | Some k \<Rightarrow> (OpSuccess, update_object k pause st))"

definition resume_session :: "string \<Rightarrow> 'ep active_sessions \<Rightarrow> session_op_status \<times> 'ep active_sessions" where
  "resume_session ident st =
    (case map_of (as_sessions st) ident of
       None \<Rightarrow> (SessionNotFound, st)
     | Some k \<Rightarrow> (OpSuccess, update_object k resume st))"

section \<open>Statistics\<close>

definition sessions_size :: "'ep active_sessions \<Rightarrow> nat" where
  "sessions_size st = length (as_sessions st)"

definition get_all_session_rtp_stats :: "'ep active_sessions \<Rightarrow> (string \<times> u64 \<times> u64) list" where
  "get_all_session_rtp_stats st =
     map (\<lambda>(ident, k). (ident, get_rtp_bytes_sent (as_objects st ! k), get_rtp_packets_sent (as_objects st ! k))) (as_sessions st)"

definition get_total_sessions_created :: "'ep active_sessions \<Rightarrow> u64" where
  "get_total_sessions_created st = as_next_session_id st"

definition get_active_websockets_count :: "'ep active_sessions \<Rightarrow> nat" where
  "get_active_websockets_count st = length (as_websocket_sessions st)"

definition get_available_webrtc_ports_count :: "'ep active_sessions \<Rightarrow> nat" where
  "get_available_webrtc_ports_count st = length (as_available_webrtc_ports st)"

section \<open>Runs of the registry\<close>

text \<open>The operations from outside, a step of a session's own, and the end of a spawned coroutine, which
  removes its session.\<close>

inductive registry_step :: "'ep session_env \<Rightarrow> app_config \<Rightarrow> 'ep active_sessions \<Rightarrow> 'ep active_sessions \<Rightarrow> bool" for v cfg where
  rs_create: "create_session v cfg draws session_id graph_result ty st = (r, st') \<Longrightarrow> registry_step v cfg st st'"
| rs_connect: "create_and_run_websocket_session ident ws st = (r, st') \<Longrightarrow> registry_step v cfg st st'"
| rs_remove: "remove_session ident st = (r, st') \<Longrightarrow> registry_step v cfg st st'"
| rs_pause: "pause_session ident st = (r, st') \<Longrightarrow> registry_step v cfg st st'"
| rs_resume: "resume_session ident st = (r, st') \<Longrightarrow> registry_step v cfg st st'"
| rs_session: "k < length (as_objects st) \<Longrightarrow> session_step v (as_objects st ! k) l s' \<Longrightarrow>
    registry_step v cfg st (st\<lparr>as_objects := (as_objects st)[k := s']\<rparr>)"
| rs_end: "(io, ident, k, ws) \<in> set (as_spawned st) \<Longrightarrow> se_control (as_objects st ! k) = Finished \<Longrightarrow>
    remove_session ident (st\<lparr>as_spawned := remove1 (io, ident, k, ws) (as_spawned st)\<rparr>) = (r, st') \<Longrightarrow>
    registry_step v cfg st st'"

inductive registry_run :: "'ep session_env \<Rightarrow> app_config \<Rightarrow> 'ep active_sessions \<Rightarrow> 'ep active_sessions \<Rightarrow> bool" for v cfg where
  rr_refl: "registry_run v cfg st st"
| rr_step: "registry_run v cfg st st' \<Longrightarrow> registry_step v cfg st' st'' \<Longrightarrow> registry_run v cfg st st''"

section \<open>The abstract registry\<close>

text \<open>What the registry promises its clients: a map from identifiers to sessions.\<close>

definition registry :: "'ep active_sessions \<Rightarrow> string \<Rightarrow> 'ep session option" where
  "registry st ident = get_session ident st"

definition registry_inv :: "'ep active_sessions \<Rightarrow> bool" where
  "registry_inv st \<longleftrightarrow> distinct (map fst (as_sessions st))
     \<and> (\<forall>(ident, k)\<in>set (as_sessions st). k < length (as_objects st) \<and> se_id (as_objects st ! k) = ident)
     \<and> distinct (map fst (as_websocket_sessions st))
     \<and> fst ` set (as_websocket_sessions st) \<subseteq> fst ` set (as_sessions st)"

text \<open>The interface that the HTTP side uses, as laws over such a map.\<close>

locale session_service =
  fixes inv :: "'s \<Rightarrow> bool"
    and lookup :: "'s \<Rightarrow> string \<Rightarrow> 'o option"
    and remove :: "string \<Rightarrow> 's \<Rightarrow> session_op_status \<times> 's"
    and pausing :: "string \<Rightarrow> 's \<Rightarrow> session_op_status \<times> 's"
    and resuming :: "string \<Rightarrow> 's \<Rightarrow> session_op_status \<times> 's"
    and paused :: "'o \<Rightarrow> 'o" and resumed :: "'o \<Rightarrow> 'o"
  assumes inv_remove: "inv st \<Longrightarrow> inv (snd (remove i st))"
    and inv_pause: "inv st \<Longrightarrow> inv (snd (pausing i st))"
    and inv_resume: "inv st \<Longrightarrow> inv (snd (resuming i st))"
    and lookup_remove: "inv st \<Longrightarrow> lookup (snd (remove i st)) = (lookup st)(i := None)"
    and lookup_pause: "inv st \<Longrightarrow> lookup (snd (pausing i st)) = (lookup st)(i := map_option paused (lookup st i))"
    and lookup_resume: "inv st \<Longrightarrow> lookup (snd (resuming i st)) = (lookup st)(i := map_option resumed (lookup st i))"
    and status_remove: "inv st \<Longrightarrow> fst (remove i st) = SessionNotFound \<longleftrightarrow> lookup st i = None"
    and status_pause: "inv st \<Longrightarrow> fst (pausing i st) = (if lookup st i = None then SessionNotFound else OpSuccess)"
    and status_resume: "inv st \<Longrightarrow> fst (resuming i st) = (if lookup st i = None then SessionNotFound else OpSuccess)"
begin

text \<open>A request that is answered as not found changes no session.\<close>

lemma not_found_no_effect:
  assumes "inv st" and "lookup st i = None"
  shows "lookup (snd (remove i st)) = lookup st" "lookup (snd (pausing i st)) = lookup st"
    "lookup (snd (resuming i st)) = lookup st"
  using assms by (auto simp: lookup_remove lookup_pause lookup_resume)

lemma remove_twice:
  assumes "inv st"
  shows "fst (remove i (snd (remove i st))) = SessionNotFound"
  using status_remove [OF inv_remove [OF assms]] lookup_remove [OF assms] by simp

lemma others_untouched:
  assumes "inv st" and "j \<noteq> i"
  shows "lookup (snd (remove i st)) j = lookup st j" "lookup (snd (pausing i st)) j = lookup st j"
    "lookup (snd (resuming i st)) j = lookup st j"
  using assms by (simp_all add: lookup_remove lookup_pause lookup_resume)

end

section \<open>The invariant\<close>

lemma session_step_id:
  assumes "session_step v s l s'"
  shows "se_id s' = se_id s"
  using assms
proof (cases rule: session_step.cases)
  case (ss_prepared received)
  have c: "se_id t' = se_id t" if "configure_streamer_from_graph v t = Some t'" for t t'
    using that by (auto simp: configure_streamer_from_graph_def notify_def split: option.splits if_splits node_body.splits)
  show ?thesis
    using ss_prepared by (auto simp: after_prepare_def steps_defs split: option.split sum.split dest: c)
next
  case (ss_tick draw due)
  have p: "se_id t' = se_id t" if "process_and_stream_single_frame v draw due t = Some (r, sends, t')" for t r sends t'
    using that by (auto simp: process_and_stream_single_frame_def bump_packets_def update_stats_if_needed_def notify_def Let_def
        split: option.splits if_splits prod.splits)
  show ?thesis using ss_tick by (auto simp: tick_def steps_defs split: option.split sum.split dest: p)
qed (auto simp: steps_defs)

lemma registry_objects:
  assumes "registry_inv st" and "map_of (as_sessions st) ident = Some k"
  shows "k < length (as_objects st)" and "se_id (as_objects st ! k) = ident"
  using assms map_of_SomeD [OF assms(2)] by (auto simp: registry_inv_def)

text \<open>Two entries never share an object.\<close>

lemma registry_unshared:
  assumes "registry_inv st" and "map_of (as_sessions st) i = Some k" and "map_of (as_sessions st) j = Some k"
  shows "i = j"
  using registry_objects(2) [OF assms(1,2)] registry_objects(2) [OF assms(1,3)] by simp

lemma registry_inv_update:
  assumes "registry_inv st" and "k < length (as_objects st)" and "se_id (f (as_objects st ! k)) = se_id (as_objects st ! k)"
  shows "registry_inv (update_object k f st)"
  using assms by (auto simp: registry_inv_def update_object_def nth_list_update)

lemma registry_update:
  assumes "registry_inv st" and "map_of (as_sessions st) i = Some k"
  shows "registry (update_object k f st) = (registry st)(i \<mapsto> f (as_objects st ! k))"
proof
  fix j
  show "registry (update_object k f st) j = ((registry st)(i \<mapsto> f (as_objects st ! k))) j"
  proof (cases "j = i")
    case True
    then show ?thesis
      using registry_objects(1) [OF assms] assms(2) by (simp add: registry_def get_session_def update_object_def)
  next
    case False
    then have "map_of (as_sessions st) j \<noteq> Some k" using registry_unshared [OF assms] by blast
    then show ?thesis
      using False by (cases "map_of (as_sessions st) j") (auto simp: registry_def get_session_def update_object_def)
  qed
qed

lemma registry_inv_frame [simp]:
  "registry_inv (st\<lparr>as_available_webrtc_ports := ps\<rparr>) = registry_inv st"
  "registry_inv (st\<lparr>as_pool := pool\<rparr>) = registry_inv st"
  "registry_inv (st\<lparr>as_next_session_id := n\<rparr>) = registry_inv st"
  "registry_inv (st\<lparr>as_spawned := sp\<rparr>) = registry_inv st"
  "registry_inv (push_port p st) = registry_inv st"
  "registry_inv (release_guard b p st) = registry_inv st"
  "registry_inv (snd (allocate_webrtc_port st)) = registry_inv st"
  by (simp_all add: registry_inv_def push_port_def release_guard_def allocate_webrtc_port_def split: option.split list.split)

lemma port_ops_frame [simp]:
  "as_objects (push_port p st) = as_objects st" "as_sessions (push_port p st) = as_sessions st"
  "as_websocket_sessions (push_port p st) = as_websocket_sessions st"
  "as_objects (release_guard b p st) = as_objects st" "as_sessions (release_guard b p st) = as_sessions st"
  "as_websocket_sessions (release_guard b p st) = as_websocket_sessions st"
  "as_objects (snd (allocate_webrtc_port st)) = as_objects st" "as_sessions (snd (allocate_webrtc_port st)) = as_sessions st"
  by (simp_all add: push_port_def release_guard_def allocate_webrtc_port_def split: option.split list.split)

lemma registry_cong:
  "as_objects st' = as_objects st \<Longrightarrow> as_sessions st' = as_sessions st \<Longrightarrow> registry st' = registry st"
  by (simp add: registry_def get_session_def fun_eq_iff)

text \<open>An entry for a new object.\<close>

lemma registry_insert:
  assumes "registry_inv st"
  shows "registry (insert_session ident s st) = (registry st)(ident \<mapsto> s)"
proof
  fix j
  show "registry (insert_session ident s st) j = ((registry st)(ident \<mapsto> s)) j"
  proof (cases "map_of (as_sessions st) j")
    case None
    then show ?thesis by (simp add: registry_def get_session_def insert_session_def update_conv')
  next
    case (Some k)
    then show ?thesis
      using registry_objects(1) [OF assms Some]
      by (simp add: registry_def get_session_def insert_session_def update_conv' nth_append)
  qed
qed

lemma registry_inv_insert:
  assumes "registry_inv st" and "se_id s = ident"
  shows "registry_inv (insert_session ident s st)"
  unfolding registry_inv_def
proof (intro conjI)
  let ?al = "AList.update ident (length (as_objects st)) (as_sessions st)"
  show d: "distinct (map fst (as_sessions (insert_session ident s st)))"
    using assms(1) by (simp add: registry_inv_def insert_session_def distinct_update)
  show "\<forall>(i, k)\<in>set (as_sessions (insert_session ident s st)).
      k < length (as_objects (insert_session ident s st)) \<and> se_id (as_objects (insert_session ident s st) ! k) = i"
  proof (intro ballI, clarify)
    fix i k
    assume "(i, k) \<in> set (as_sessions (insert_session ident s st))"
    then have m: "((map_of (as_sessions st))(ident \<mapsto> length (as_objects st))) i = Some k"
      using d by (simp add: insert_session_def map_of_eq_Some_iff [symmetric] update_conv')
    show "k < length (as_objects (insert_session ident s st)) \<and> se_id (as_objects (insert_session ident s st) ! k) = i"
    proof (cases "i = ident")
      case True
      then show ?thesis using m assms(2) by (auto simp: insert_session_def)
    next
      case False
      then have "map_of (as_sessions st) i = Some k" using m by simp
      note o = registry_objects [OF assms(1) this]
      show ?thesis using o(1) o(2) by (simp add: insert_session_def nth_append)
    qed
  qed
  show "distinct (map fst (as_websocket_sessions (insert_session ident s st)))"
    using assms(1) by (simp add: registry_inv_def insert_session_def)
  have "fst ` set (as_sessions st) \<subseteq> fst ` set ?al"
    by (simp only: dom_map_of_conv_image_fst [symmetric] update_conv') auto
  moreover have "fst ` set (as_websocket_sessions st) \<subseteq> fst ` set (as_sessions st)"
    using assms(1) by (simp add: registry_inv_def)
  ultimately have "fst ` set (as_websocket_sessions st) \<subseteq> fst ` set ?al" by (rule subset_trans [rotated])
  then show "fst ` set (as_websocket_sessions (insert_session ident s st)) \<subseteq> fst ` set (as_sessions (insert_session ident s st))"
    by (simp add: insert_session_def)
qed

lemma session_create_id: "session_create v ident g crypto draws w ip port e = Inr (Inr s) \<Longrightarrow> se_id s = ident \<and> se_janus_port s = port"
  by (auto simp: session_create_def new_session_def Let_def transform_Inr_iff split: sum.splits)

text \<open>\<open>create_session\<close> on every way out: \<open>counted\<close> is the state after the counters, \<open>drawn\<close> the port drawn.\<close>

definition counted :: "'ep active_sessions \<Rightarrow> 'ep active_sessions" where
  "counted st = st\<lparr>as_next_session_id := as_next_session_id st + 1, as_pool := snd (get_io_context (as_pool st))\<rparr>"

definition drawn :: "session_type \<Rightarrow> 'ep active_sessions \<Rightarrow> u16 option \<times> 'ep active_sessions" where
  "drawn ty st = (if ty = WebRTC then allocate_webrtc_port (counted st) else (None, counted st))"

lemma counted_frame [simp]:
  "as_objects (counted st) = as_objects st" "as_sessions (counted st) = as_sessions st"
  "as_websocket_sessions (counted st) = as_websocket_sessions st"
  "as_available_webrtc_ports (counted st) = as_available_webrtc_ports st" "registry_inv (counted st) = registry_inv st"
  by (simp_all add: counted_def)

lemma drawn_frame:
  assumes "drawn ty st = (port, st2)"
  shows "as_objects st2 = as_objects st" "as_sessions st2 = as_sessions st"
    "as_websocket_sessions st2 = as_websocket_sessions st" "registry_inv st2 = registry_inv st"
  using assms by (auto simp: drawn_def allocate_webrtc_port_def split: if_splits list.splits)

lemma create_session_cases:
  assumes "create_session v cfg draws session_id graph_result ty st = (r, st')"
  obtains (failed) "as_objects st' = as_objects st" "as_sessions st' = as_sessions st"
      "as_websocket_sessions st' = as_websocket_sessions st" "\<forall>x. r \<noteq> Inr (Inr x)"
  | (made) g s port st2 where "r = Inr (Inr session_id)" "graph_result = Inr g" "drawn ty st = (port, st2)"
      "session_create v session_id g (cfg_crypto cfg) draws (ty = WebRTC) (j_address (cfg_janus cfg)) port (ty = StandartEncrypted) = Inr (Inr s)"
      "st' = release_guard False port (insert_session session_id s st2)"
proof -
  obtain io pool where io: "get_io_context (as_pool st) = (io, pool)" by fastforce
  obtain port st2 where d: "drawn ty st = (port, st2)" by fastforce
  have d': "(if ty = WebRTC then allocate_webrtc_port (st\<lparr>as_next_session_id := as_next_session_id st + 1, as_pool := pool\<rparr>)
      else (None, st\<lparr>as_next_session_id := as_next_session_id st + 1, as_pool := pool\<rparr>)) = (port, st2)"
    using d unfolding drawn_def counted_def io snd_conv .
  show thesis
  proof (cases graph_result)
    case (Inl e)
    then have "(r, st') = (Inr (Inl e), counted st)"
      using assms io by (simp add: create_session_def Let_def counted_def)
    then show thesis by (intro failed) simp_all
  next
    case (Inr g)
    define made_session where "made_session = session_create v session_id g (cfg_crypto cfg) draws (ty = WebRTC)
        (j_address (cfg_janus cfg)) port (ty = StandartEncrypted)"
    have e: "create_session v cfg draws session_id graph_result ty st = (if ty = WebRTC \<and> port = None then (Inr (Inl (error_info_From LogicError ''No available WebRTC ports'')), st2)
        else (case made_session of
            Inl fault \<Rightarrow> (Inl fault, release_guard False port st2)
          | Inr (Inl err) \<Rightarrow> (Inr (Inl err), release_guard False port (push_port port st2))
          | Inr (Inr s) \<Rightarrow> (Inr (Inr session_id), release_guard False port (insert_session session_id s st2))))"
      using Inr io d' by (simp add: create_session_def Let_def made_session_def)
    show thesis
    proof (cases "\<exists>s. made_session = Inr (Inr s) \<and> \<not> (ty = WebRTC \<and> port = None)")
      case True
      then obtain s where "made_session = Inr (Inr s)" "\<not> (ty = WebRTC \<and> port = None)" by blast
      then show thesis using e assms Inr d by (intro made) (auto simp: made_session_def)
    next
      case False
      have "as_objects st' = as_objects st2 \<and> as_sessions st' = as_sessions st2
          \<and> as_websocket_sessions st' = as_websocket_sessions st2 \<and> (\<forall>x. r \<noteq> Inr (Inr x))"
        using e assms False by (auto split: if_splits sum.splits)
      then show thesis using drawn_frame [OF d] by (intro failed) simp_all
    qed
  qed
qed

lemma registry_inv_cong:
  "registry_inv st \<Longrightarrow> as_objects st' = as_objects st \<Longrightarrow> as_sessions st' = as_sessions st \<Longrightarrow>
   as_websocket_sessions st' = as_websocket_sessions st \<Longrightarrow> registry_inv st'"
  by (simp add: registry_inv_def)

lemma create_session_inv:
  assumes "registry_inv st" and "create_session v cfg draws session_id graph_result ty st = (r, st')"
  shows "registry_inv st'"
  using assms(2)
proof (cases rule: create_session_cases)
  case failed
  then show ?thesis using registry_inv_cong [OF assms(1)] by blast
next
  case (made g s port st2)
  then show ?thesis
    using registry_inv_insert [of st2 s session_id] session_create_id [OF made(4)] drawn_frame(4) [OF made(3)] assms(1) by simp
qed

lemma ids_kept [simp]:
  "se_id (stop s) = se_id s" "se_id (pause s) = se_id s" "se_id (resume s) = se_id s" "se_id (attach_observer s) = se_id s"
  by (simp_all add: stop_def pause_def resume_def attach_observer_def)

text \<open>Removing an entry, with its web socket.\<close>

lemma remove_session_eq:
  assumes "registry_inv st"
  shows "registry (snd (remove_session ident st)) = (registry st)(ident := None)"
    and "registry_inv (snd (remove_session ident st))"
    and "fst (remove_session ident st) = SessionNotFound \<longleftrightarrow> registry st ident = None"
proof -
  show "fst (remove_session ident st) = SessionNotFound \<longleftrightarrow> registry st ident = None"
    by (auto simp: remove_session_def registry_def get_session_def Let_def split: option.split)
  show "registry (snd (remove_session ident st)) = (registry st)(ident := None)"
  proof (cases "map_of (as_sessions st) ident")
    case None
    then show ?thesis by (auto simp: remove_session_def registry_def get_session_def fun_eq_iff)
  next
    case (Some k)
    let ?st = "update_object k stop (push_port (se_janus_port (as_objects st ! k)) st)"
    have u: "registry ?st = (registry (push_port (se_janus_port (as_objects st ! k)) st))(ident \<mapsto> stop (as_objects st ! k))"
      using registry_update [of "push_port (se_janus_port (as_objects st ! k)) st" ident k stop] assms Some by simp
    have r: "registry (snd (remove_session ident st)) j = (if j = ident then None else registry ?st j)" for j
      using Some by (auto simp: remove_session_def registry_def get_session_def Let_def delete_conv' update_object_def split: option.split)
    have "registry (push_port (se_janus_port (as_objects st ! k)) st) = registry st" by (rule registry_cong) simp_all
    then show ?thesis using u r by (auto simp: fun_eq_iff)
  qed
  show "registry_inv (snd (remove_session ident st))"
  proof (cases "map_of (as_sessions st) ident")
    case None
    then show ?thesis using assms by (simp add: remove_session_def)
  next
    case (Some k)
    let ?st = "update_object k stop (push_port (se_janus_port (as_objects st ! k)) st)"
    have u: "registry_inv ?st" using registry_inv_update [of "push_port (se_janus_port (as_objects st ! k)) st" k stop]
        assms registry_objects(1) [OF assms Some] by simp
    have ws: "as_websocket_sessions (snd (remove_session ident st)) = AList.delete ident (as_websocket_sessions st)"
    proof (cases "map_of (as_websocket_sessions st) ident")
      case None
      then have "AList.delete ident (as_websocket_sessions st) = as_websocket_sessions st"
        by (simp add: map_of_eq_None_iff)
      then show ?thesis using Some None by (simp add: remove_session_def Let_def update_object_def)
    qed (use Some in \<open>simp add: remove_session_def Let_def update_object_def\<close>)
    have ss: "as_sessions (snd (remove_session ident st)) = AList.delete ident (as_sessions ?st)" "as_objects (snd (remove_session ident st)) = as_objects ?st"
      using Some by (simp_all add: remove_session_def Let_def update_object_def split: option.split)
    have "as_websocket_sessions ?st = as_websocket_sessions st" "as_sessions ?st = as_sessions st" by (simp_all add: update_object_def)
    moreover have "fst ` set (AList.delete ident ws) \<subseteq> fst ` set (AList.delete ident al)"
      if "fst ` set ws \<subseteq> fst ` set al" for ws :: "(string \<times> nat) list" and al :: "(string \<times> nat) list"
      using that by (auto simp: dom_map_of_conv_image_fst [symmetric] delete_conv')
    ultimately show ?thesis
      using u unfolding registry_inv_def ws ss by (simp add: distinct_delete) (auto simp: AList.delete_eq)
  qed
qed

lemma remove_session_status:
  "fst (remove_session ident st) = (if registry st ident = None then SessionNotFound
     else if map_of (as_websocket_sessions st) ident = None then WebSocketNotFound else OpSuccess)"
  by (auto simp: remove_session_def registry_def get_session_def Let_def update_object_def split: option.split)

lemma control_session_eq:
  fixes st :: "'ep active_sessions" and ident :: string
  assumes "registry_inv st" and "\<And>s. se_id (f s) = se_id s"
  defines "r \<equiv> (case map_of (as_sessions st) ident of None \<Rightarrow> (SessionNotFound, st) | Some k \<Rightarrow> (OpSuccess, update_object k f st))"
  shows "registry_inv (snd r)" and "registry (snd r) = (registry st)(ident := map_option f (registry st ident))"
    and "fst r = (if registry st ident = None then SessionNotFound else OpSuccess)"
proof -
  show "registry_inv (snd r)"
    using assms(1,2) registry_objects(1) [OF assms(1)] by (auto simp: r_def intro: registry_inv_update split: option.split)
  show "registry (snd r) = (registry st)(ident := map_option f (registry st ident))"
  proof (cases "map_of (as_sessions st) ident")
    case None
    then show ?thesis by (auto simp: r_def registry_def get_session_def fun_eq_iff)
  next
    case (Some k)
    then have "registry st ident = Some (as_objects st ! k)" by (simp add: registry_def get_session_def)
    then show ?thesis using registry_update [OF assms(1) Some] Some by (simp add: r_def)
  qed
  show "fst r = (if registry st ident = None then SessionNotFound else OpSuccess)"
    by (auto simp: r_def registry_def get_session_def split: option.split)
qed

interpretation active: session_service registry_inv registry remove_session pause_session resume_session pause resume
  by unfold_locales
    (simp_all add: remove_session_eq remove_session_status pause_session_def resume_session_def
      control_session_eq [where f = pause] control_session_eq [where f = resume])

lemma connect_inv:
  assumes "registry_inv st" and "create_and_run_websocket_session ident ws st = (r, st')"
  shows "registry_inv st'"
proof (cases "map_of (as_sessions st) ident")
  case None
  then show ?thesis using assms by (simp add: create_and_run_websocket_session_def)
next
  case (Some k)
  let ?st = "update_object k attach_observer st"
  have u: "registry_inv ?st" using registry_inv_update [OF assms(1)] registry_objects(1) [OF assms(1) Some] by simp
  have "ident \<in> fst ` set (as_sessions st)" using Some by (metis domI dom_map_of_conv_image_fst)
  moreover have "fst ` set (AList.update ident ws al) = insert ident (fst ` set al)" for al :: "(string \<times> nat) list"
    by (simp add: dom_map_of_conv_image_fst [symmetric] update_conv')
  moreover have "as_sessions ?st = as_sessions st" "as_websocket_sessions ?st = as_websocket_sessions st"
    by (simp_all add: update_object_def)
  ultimately have "registry_inv (?st\<lparr>as_websocket_sessions := AList.update ident ws (as_websocket_sessions ?st)\<rparr>)"
    using u by (simp add: registry_inv_def distinct_update)
  then show ?thesis
    using Some assms by (auto simp: create_and_run_websocket_session_def spawn_session_coroutine_def Let_def split: if_splits prod.splits)
qed

lemma registry_inv_step:
  assumes "registry_step v cfg st st'" and "registry_inv st"
  shows "registry_inv st'"
  using assms(1)
proof (cases rule: registry_step.cases)
  case (rs_create draws session_id graph_result ty r)
  then show ?thesis using create_session_inv [OF assms(2)] by blast
next
  case (rs_connect ident ws r)
  then show ?thesis using connect_inv [OF assms(2)] by blast
next
  case (rs_remove ident r)
  then show ?thesis using active.inv_remove [OF assms(2), of ident] by simp
next
  case (rs_pause ident r)
  then show ?thesis using active.inv_pause [OF assms(2), of ident] by simp
next
  case (rs_resume ident r)
  then show ?thesis using active.inv_resume [OF assms(2), of ident] by simp
next
  case (rs_session k l s')
  then have "registry_inv (update_object k (\<lambda>_. s') st)"
    using registry_inv_update [OF assms(2), of k "\<lambda>_. s'"] session_step_id [of v] by simp
  then show ?thesis using rs_session by (simp add: update_object_def)
next
  case (rs_end io ident k ws r)
  then show ?thesis
    using active.inv_remove [of "st\<lparr>as_spawned := remove1 (io, ident, k, ws) (as_spawned st)\<rparr>" ident] assms(2) by simp
qed

lemma registry_inv_run: "registry_run v cfg st st' \<Longrightarrow> registry_inv st \<Longrightarrow> registry_inv st'"
  by (induction rule: registry_run.induct) (auto intro: registry_inv_step)

section \<open>Ports\<close>

lemma fill_ports_run:
  assumes "port_end < 65535"
  shows "fill_ports p port_end ports = Some (ports @ map of_nat [unat p..<Suc (unat port_end)])"
proof (induction "Suc (unat port_end) - unat p" arbitrary: p ports)
  case 0
  then have "\<not> p \<le> port_end" by (simp add: word_le_nat_alt)
  then show ?case using 0 by (subst fill_ports.simps) simp
next
  case (Suc n)
  then have p: "p \<le> port_end" by (simp add: word_le_nat_alt)
  then have "unat (p + 1) = Suc (unat p)"
    using assms by (simp add: unat_word_ariths word_le_nat_alt word_less_nat_alt)
  then show ?case
    using Suc.hyps(1) [of "p + 1" "ports @ [p]"] Suc.hyps(2) p
    by (subst fill_ports.simps) (simp add: upt_conv_Cons del: upt_Suc)
qed

lemma fill_ports_never: "fill_ports p 65535 ports = None"
proof -
  have le: "q \<le> 65535" for q :: u16
  proof -
    have "unat q < 2 ^ LENGTH(16)" by (rule unsigned_less)
    then show ?thesis by (simp add: word_le_nat_alt)
  qed
  have "fill_ports p 65535 ports \<noteq> Some y" for y
  proof
    assume y: "fill_ports p 65535 ports = Some y"
    have main: "e \<noteq> 65535"
      if ih: "\<And>q e ps y. fill q e ps = Some (y :: u16 list) \<Longrightarrow> e \<noteq> 65535"
        and step: "(if q \<le> e then fill (q + 1) e (ps @ [q]) else Some ps) = Some y" for fill q e ps y
      using ih [of "q + 1" e "ps @ [q]" y] step le [of q] by auto
    have "(65535 :: u16) \<noteq> 65535"
      using y main by (rule fill_ports.raw_induct [of "\<lambda>q e ps y. e \<noteq> 65535", unfolded prod.case, rotated])
    then show False by simp
  qed
  then show ?thesis by (cases "fill_ports p 65535 ports") auto
qed

section \<open>Properties\<close>


text \<open>Two sessions are created, the first is connected and paused, and a third is created and stopped.\<close>

definition busy_run :: "nat active_sessions \<Rightarrow> nat active_sessions" where
  "busy_run st =
     (let create = (\<lambda>i st. snd (create_session demo_env default_config \<lparr>dr_ssrc = 1, dr_seq = 2, dr_ts = 3\<rparr> i (Inr (x_graph (delay_executor 60))) Standard st))
      in snd (remove_session ''k'' (create ''k'' (snd (pause_session ''n'' (snd (create_and_run_websocket_session ''n'' 7
           (create ''m'' (create ''n'' st)))))))))"

lemma busy_run: "registry_run demo_env default_config st (busy_run st)"
proof -
  have create: "registry_step v cfg st (snd (create_session v cfg d i g ty st))" for v :: "nat session_env" and cfg d i g ty st
    by (rule rs_create) (rule prod.collapse [symmetric])
  have connect: "registry_step v cfg st (snd (create_and_run_websocket_session i w st))" for v :: "nat session_env" and cfg i w st
    by (rule rs_connect) (rule prod.collapse [symmetric])
  have pausing: "registry_step v cfg st (snd (pause_session i st))" for v :: "nat session_env" and cfg i st
    by (rule rs_pause) (rule prod.collapse [symmetric])
  have remove: "registry_step v cfg st (snd (remove_session i st))" for v :: "nat session_env" and cfg i st
    by (rule rs_remove) (rule prod.collapse [symmetric])
  show ?thesis
    unfolding busy_run_def Let_def by (rule rr_step [OF rr_step [OF rr_step [OF rr_step [OF rr_step [OF rr_step [OF rr_refl]]]]]];
      rule create connect pausing remove)
qed


text \<open>Creating a session adds one entry or, when it fails, none.\<close>

lemma create_session_registry:
  assumes "registry_inv st" and "create_session v cfg draws i graph_result ty st = (r, st1)"
  shows "if r = Inr (Inr i) then \<exists>s. se_id s = i \<and> registry st1 = (registry st)(i \<mapsto> s) else registry st1 = registry st"
  using assms(2)
proof (cases rule: create_session_cases)
  case failed
  then show ?thesis using registry_cong [of st1 st] by simp
next
  case (made g s port st2)
  have "registry st1 = (registry st2)(i \<mapsto> s)"
    using made(5) registry_insert [of st2] drawn_frame(4) [OF made(3)] assms(1) registry_cong [of st1 "insert_session i s st2"] by simp
  moreover have "registry st2 = registry st" using drawn_frame(1,2) [OF made(3)] by (rule registry_cong)
  ultimately show ?thesis using made(1) session_create_id [OF made(4)] by auto
qed

text \<open>The new session has not started; web sockets and coroutines are left alone.\<close>

lemma length_update_new: "k \<notin> fst ` set al \<Longrightarrow> length (AList.update k v al) = Suc (length al)"
  by (induction al) auto

lemma create_session_others:
  assumes "create_session v cfg draws i graph_result ty st = (r, st1)"
  shows "as_websocket_sessions st1 = as_websocket_sessions st \<and> as_spawned st1 = as_spawned st"
proof -
  obtain io pool where "get_io_context (as_pool st) = (io, pool)" by fastforce
  then show ?thesis
    using assms
    by (auto simp: create_session_def Let_def allocate_webrtc_port_def release_guard_def push_port_def insert_session_def
        split: sum.splits if_splits list.splits option.splits)
qed

lemma create_session_new:
  assumes "registry_inv st" and "create_session v cfg draws i graph_result ty st = (Inr (Inr x), st1)"
  shows "\<exists>s. se_id s = i \<and> se_control s = NotStarted \<and> registry st1 = (registry st)(i \<mapsto> s)"
    and "registry st i = None \<Longrightarrow> sessions_size st1 = Suc (sessions_size st)"
proof -
  from assms(2) obtain g s port st2 where made: "drawn ty st = (port, st2)" "st1 = release_guard False port (insert_session i s st2)"
      "session_create v i g (cfg_crypto cfg) draws (ty = WebRTC) (j_address (cfg_janus cfg)) port (ty = StandartEncrypted) = Inr (Inr s)"
    by (cases rule: create_session_cases) auto
  have "registry st1 = (registry st2)(i \<mapsto> s)"
    using made(2) registry_insert [of st2] drawn_frame(4) [OF made(1)] assms(1) registry_cong [of st1 "insert_session i s st2"] by simp
  moreover have "registry st2 = registry st" using drawn_frame(1,2) [OF made(1)] by (rule registry_cong)
  moreover have "se_control s = NotStarted"
    using made(3) by (auto simp: session_create_def new_session_def Let_def transform_Inr_iff split: sum.splits if_splits)
  ultimately show "\<exists>s. se_id s = i \<and> se_control s = NotStarted \<and> registry st1 = (registry st)(i \<mapsto> s)"
    using session_create_id [OF made(3)] by auto
  show "sessions_size st1 = Suc (sessions_size st)" if "registry st i = None"
  proof -
    have "map_of (as_sessions st) i = None" using that by (simp add: registry_def get_session_def)
    then have "i \<notin> fst ` set (as_sessions st2)" using drawn_frame(2) [OF made(1)] by (simp add: map_of_eq_None_iff)
    then show ?thesis using made(2) drawn_frame(2) [OF made(1)] by (simp add: sessions_size_def insert_session_def length_update_new)
  qed
qed

text \<open>C11: The registry refines a map from identifiers to sessions: creating adds one entry or, when it
  fails, none, removing takes one away, pausing and resuming change one; the answer tells whether the
  identifier was known.\<close>

theorem registry_refines_map:
  assumes "registry_inv st" and "create_session v cfg draws i graph_result ty st = (r, st1)"
  shows "(if r = Inr (Inr i) then \<exists>s. se_id s = i \<and> registry st1 = (registry st)(i \<mapsto> s) else registry st1 = registry st)
    \<and> registry (snd (remove_session i st)) = (registry st)(i := None)
    \<and> registry (snd (pause_session i st)) = (registry st)(i := map_option pause (registry st i))
    \<and> registry (snd (resume_session i st)) = (registry st)(i := map_option resume (registry st i))
    \<and> (fst (remove_session i st) = SessionNotFound \<longleftrightarrow> registry st i = None)
    \<and> (fst (pause_session i st) = SessionNotFound \<longleftrightarrow> registry st i = None)
    \<and> (fst (resume_session i st) = SessionNotFound \<longleftrightarrow> registry st i = None)"
proof -
  show ?thesis
    using create_session_registry [OF assms] active.lookup_remove [OF assms(1)] active.lookup_pause [OF assms(1)] active.lookup_resume [OF assms(1)]
      active.status_remove [OF assms(1)] active.status_pause [OF assms(1)] active.status_resume [OF assms(1)] by simp
qed

text \<open>A registry with one session, and a port to give.\<close>

definition demo_registry :: "nat active_sessions" where
  "demo_registry = \<lparr>as_objects = [demo_session (delay_executor 60) NotStarted], as_sessions = [(''s'', 0)],
     as_websocket_sessions = [], as_available_webrtc_ports = [10000], as_next_session_id = 1,
     as_pool = projr (pool_create None 4), as_spawned = [], as_closed = []\<rparr>"

lemma demo_registry_inv: "registry_inv demo_registry"
  by (simp add: registry_inv_def demo_registry_def demo_session_def)

lemma registry_refines_map_witness:
  "registry (snd (pause_session ''s'' demo_registry)) ''s'' = Some (pause (demo_session (delay_executor 60) NotStarted))"
proof -
  obtain r st1 where c: "create_session demo_env default_config \<lparr>dr_ssrc = 1, dr_seq = 2, dr_ts = 3\<rparr> ''s''
      (Inl (error_info_From ParseError ''flow'')) Standard demo_registry = (r, st1)" by fastforce
  have "registry demo_registry ''s'' = Some (demo_session (delay_executor 60) NotStarted)"
    by (simp add: registry_def get_session_def demo_registry_def)
  then show ?thesis using registry_refines_map [OF demo_registry_inv c] by simp
qed

text \<open>A port given to a WebRTC session stays available: whatever the drawn port, the guard that should
  have been released puts it back behind the others, and removing the session puts it back once more.\<close>

theorem webrtc_port_never_taken:
  assumes "registry_inv st" and "as_available_webrtc_ports st = p # ps"
    and "create_session v cfg draws i graph_result WebRTC st = (Inr (Inr i), st1)"
  shows "(\<exists>s. registry st1 i = Some s \<and> se_janus_port s = Some p) \<and> as_available_webrtc_ports st1 = ps @ [p]
    \<and> as_available_webrtc_ports (snd (remove_session i st1)) = ps @ [p, p]"
  using assms(3)
proof (cases rule: create_session_cases)
  case (made g s port st2)
  have d: "port = Some p" "as_available_webrtc_ports st2 = ps" "as_objects st2 = as_objects st" "as_sessions st2 = as_sessions st"
    using made(3) assms(2) by (auto simp: drawn_def allocate_webrtc_port_def counted_def)
  have st1: "st1 = release_guard False port (insert_session i s st2)" by (rule made(5))
  have av: "as_available_webrtc_ports st1 = ps @ [p]"
    using st1 d by (simp add: release_guard_def push_port_def insert_session_def)
  have m: "map_of (as_sessions st1) i = Some (length (as_objects st))" "as_objects st1 ! length (as_objects st) = s"
    using st1 d by (simp_all add: insert_session_def update_conv')
  have port: "se_janus_port s = Some p" using session_create_id [OF made(4)] d(1) by simp
  then have "as_available_webrtc_ports (snd (remove_session i st1)) = ps @ [p, p]"
    using m av by (simp add: remove_session_def Let_def push_port_def update_object_def split: option.split)
  then show ?thesis using m port av by (simp add: registry_def get_session_def)
qed simp

lemma demo_create:
  "\<exists>st1. create_session demo_env default_config \<lparr>dr_ssrc = 1, dr_seq = 2, dr_ts = 3\<rparr> ''t''
      (Inr (x_graph (delay_executor 60))) WebRTC demo_registry = (Inr (Inr ''t''), st1)"
  by (simp add: create_session_def session_create_def executor_create_def delay_executor_def new_session_def
      demo_registry_def allocate_webrtc_port_def Let_def split_def)

lemma webrtc_port_never_taken_witness:
  "\<exists>st1. create_session demo_env default_config \<lparr>dr_ssrc = 1, dr_seq = 2, dr_ts = 3\<rparr> ''t''
      (Inr (x_graph (delay_executor 60))) WebRTC demo_registry = (Inr (Inr ''t''), st1)
    \<and> as_available_webrtc_ports st1 = [10000] \<and> as_available_webrtc_ports (snd (remove_session ''t'' st1)) = [10000, 10000]"
proof -
  obtain st1 where c: "create_session demo_env default_config \<lparr>dr_ssrc = 1, dr_seq = 2, dr_ts = 3\<rparr> ''t''
      (Inr (x_graph (delay_executor 60))) WebRTC demo_registry = (Inr (Inr ''t''), st1)"
    using demo_create by blast
  have "as_available_webrtc_ports demo_registry = [10000]" by (simp add: demo_registry_def)
  from webrtc_port_never_taken [OF demo_registry_inv this c] show ?thesis using c by simp
qed

text \<open>Two web sockets that connect to a session before its coroutine has started are both accepted: two
  coroutines wait to run the one session, and the first web socket is in the registry no more.\<close>

theorem second_connection_accepted:
  assumes "map_of (as_sessions st) i = Some k" and "k < length (as_objects st)" and "\<not> se_is_running (as_objects st ! k)"
  shows "\<exists>st1 st2 io1 io2. create_and_run_websocket_session i ws1 st = (Inr (), st1)
    \<and> create_and_run_websocket_session i ws2 st1 = (Inr (), st2)
    \<and> as_spawned st2 = as_spawned st @ [(io1, i, k, ws1), (io2, i, k, ws2)]
    \<and> map_of (as_websocket_sessions st2) i = Some ws2"
  using assms
  by (simp add: create_and_run_websocket_session_def spawn_session_coroutine_def update_object_def
      attach_observer_def update_conv' Let_def split_def)

lemma second_connection_accepted_witness:
  "\<exists>st1 st2. create_and_run_websocket_session ''s'' 1 demo_registry = (Inr (), st1)
    \<and> create_and_run_websocket_session ''s'' 2 st1 = (Inr (), st2) \<and> length (as_spawned st2) = 2"
proof -
  have d: "map_of (as_sessions demo_registry) ''s'' = Some 0" "0 < length (as_objects demo_registry)"
    "\<not> se_is_running (as_objects demo_registry ! 0)" "as_spawned demo_registry = []"
    by (simp_all add: demo_registry_def)
  obtain st1 st2 io1 io2 where "create_and_run_websocket_session ''s'' 1 demo_registry = (Inr (), st1)"
    "create_and_run_websocket_session ''s'' 2 st1 = (Inr (), st2)"
    "as_spawned st2 = as_spawned demo_registry @ [(io1, ''s'', 0, 1), (io2, ''s'', 0, 2)]"
    using second_connection_accepted [OF d(1-3), of 1 2] by blast
  then show ?thesis using d(4) by auto
qed

text \<open>The constructor's loop over the WebRTC ports gives every port from the first to the last, unless
  the last is 65535: then its 16-bit counter wraps and the loop never ends.\<close>

theorem port_range:
  "fill_ports port_start port_end [] =
     (if port_end < 65535 then Some (map of_nat [unat port_start..<Suc (unat port_end)]) else None)"
proof (cases "port_end < 65535")
  case True
  then show ?thesis using fill_ports_run [of port_end port_start "[]"] by simp
next
  case False
  have "unat port_end < 2 ^ LENGTH(16)" by (rule unsigned_less)
  then have "port_end = 65535" using False by (simp add: word_less_nat_alt word_unat_eq_iff)
  then show ?thesis using False fill_ports_never by simp
qed

text \<open>The coroutine of a session runs in another I/O context than the one that the session's timer,
  channel and socket were made for, when it is connected right after it was created and the pool has
  at least two contexts.\<close>

theorem coroutine_in_other_context:
  assumes "pool_inv (as_pool st)" and "1 < length (pl_io_contexts (as_pool st))"
    and "unat (pl_next_io_context (as_pool st)) + 1 < 2 ^ 64"
    and "create_session v cfg draws i graph_result ty st = (Inr (Inr i), st1)"
    and "create_and_run_websocket_session i ws st1 = (Inr (), st2)"
  shows "\<exists>io k. as_spawned st2 = as_spawned st1 @ [(io, i, k, ws)] \<and> io \<noteq> fst (get_io_context (as_pool st))"
proof -
  let ?pool = "as_pool st"
  have pool: "as_pool st1 = snd (get_io_context ?pool)"
    using assms(4)
  proof (cases rule: create_session_cases)
    case (made g s port st2)
    then show ?thesis
      by (auto simp: drawn_def counted_def allocate_webrtc_port_def release_guard_def push_port_def insert_session_def
          split: if_splits list.splits option.splits)
  qed simp
  have n: "unat (pl_next_io_context ?pool + 1) = Suc (unat (pl_next_io_context ?pool))"
    using assms(3) by (simp add: unat_word_ariths)
  have "fst (get_io_context (as_pool st1)) = Suc (unat (pl_next_io_context ?pool)) mod length (pl_io_contexts ?pool)"
    using pool_inv_ops(1) [OF assms(1)] n unfolding pool by simp
  moreover have "Suc a mod m \<noteq> a mod m" if "1 < m" for a m :: nat
    using that by (simp add: mod_Suc)
  ultimately have "fst (get_io_context (as_pool st1)) \<noteq> fst (get_io_context ?pool)"
    using assms(1,2) by simp
  then show ?thesis
    using assms(5) by (auto simp: create_and_run_websocket_session_def spawn_session_coroutine_def update_object_def Let_def
        split: option.splits if_splits prod.splits)
qed

lemma coroutine_in_other_context_witness:
  "\<exists>st1 st2 io k. create_session demo_env default_config \<lparr>dr_ssrc = 1, dr_seq = 2, dr_ts = 3\<rparr> ''t''
      (Inr (x_graph (delay_executor 60))) WebRTC demo_registry = (Inr (Inr ''t''), st1)
    \<and> create_and_run_websocket_session ''t'' 7 st1 = (Inr (), st2) \<and> as_spawned st2 = as_spawned st1 @ [(io, ''t'', k, 7)] \<and> io \<noteq> 0"
proof -
  have p: "pool_create None 4 = Inr (as_pool demo_registry)" "pl_next_io_context (as_pool demo_registry) = 0"
    "length (pl_io_contexts (as_pool demo_registry)) = 4" "fst (get_io_context (as_pool demo_registry)) = 0"
    by (simp_all add: demo_registry_def pool_create_def get_io_context_def upt_rec)
  obtain st1 where c: "create_session demo_env default_config \<lparr>dr_ssrc = 1, dr_seq = 2, dr_ts = 3\<rparr> ''t''
      (Inr (x_graph (delay_executor 60))) WebRTC demo_registry = (Inr (Inr ''t''), st1)"
    using demo_create by blast
  have "\<exists>st2. create_and_run_websocket_session ''t'' 7 st1 = (Inr (), st2)"
    using c by (auto simp: create_session_def session_create_def executor_create_def delay_executor_def new_session_def
      demo_registry_def allocate_webrtc_port_def release_guard_def push_port_def insert_session_def Let_def split_def
      create_and_run_websocket_session_def)
  then obtain st2 where w: "create_and_run_websocket_session ''t'' 7 st1 = (Inr (), st2)" by blast
  obtain io k where "as_spawned st2 = as_spawned st1 @ [(io, ''t'', k, 7)]" "io \<noteq> 0"
    using coroutine_in_other_context [OF pool_inv_create [OF p(1)] _ _ c w] p by auto
  then show ?thesis using c w by blast
qed

end
