(* ===== verification/Json.thy ===== *)
theory Json
  imports Hermes_Types Complex_Main
begin

text \<open>
  JSON values as Boost.JSON keeps them, \<open>infra/parsers/JsonUtils\<close>, and the \<open>std::from_chars\<close> of the
  node parsers. Doubles are rationals; an object has one value per key. \<open>what\<close> is the text of the
  exception that a conversion throws.
\<close>

section \<open>Values\<close>

datatype json = JNull | JBool bool | JInt64 int | JUint64 nat | JDouble rat | JString string
  | JArray "json list" | JObject "(string \<times> json) list"

type_synonym json_object = "(string \<times> json) list"

abbreviation contains :: "json_object \<Rightarrow> string \<Rightarrow> bool" where
  "contains obj key \<equiv> map_of obj key \<noteq> None"

text \<open>\<open>value_to\<close> for the types that the parsers ask for; \<open>rnd\<close> is the rounding of the float type.\<close>

fun as_string :: "json \<Rightarrow> string option" where
  "as_string (JString s) = Some s"
| "as_string j = None"

fun as_object :: "json \<Rightarrow> json_object option" where
  "as_object (JObject obj) = Some obj"
| "as_object j = None"

fun as_array :: "json \<Rightarrow> json list option" where
  "as_array (JArray xs) = Some xs"
| "as_array j = None"

fun as_number :: "(rat \<Rightarrow> rat) \<Rightarrow> json \<Rightarrow> rat option" where
  "as_number rnd (JInt64 i) = Some (rnd (of_int i))"
| "as_number rnd (JUint64 n) = Some (rnd (of_nat n))"
| "as_number rnd (JDouble x) = Some (rnd x)"
| "as_number rnd j = None"

definition require_json :: "(json \<Rightarrow> string) \<Rightarrow> (json \<Rightarrow> 'a option) \<Rightarrow> json_object \<Rightarrow> string \<Rightarrow> (error_info, 'a) expected" where
  "require_json what value_to obj key =
     (case map_of obj key of
        None \<Rightarrow> Inl (error_info_From ParseError (''Missing required key: '' @ key))
      | Some j \<Rightarrow>
          (case value_to j of
             None \<Rightarrow> Inl (error_info_From ParseError (''Invalid type for key '' @ [CHR 0x27] @ key @ [CHR 0x27] @ '': '' @ what j))
           | Some v \<Rightarrow> Inr v))"

lemma require_json_Inr_iff: "require_json what value_to obj key = Inr v \<longleftrightarrow> (\<exists>j. map_of obj key = Some j \<and> value_to j = Some v)"
  by (auto simp: require_json_def split: option.splits)

lemma as_string_Some [simp]: "as_string j = Some s \<longleftrightarrow> j = JString s"
  by (cases j) auto

lemma as_object_Some [simp]: "as_object j = Some s \<longleftrightarrow> j = JObject s"
  by (cases j) auto

lemma as_array_Some [simp]: "as_array j = Some s \<longleftrightarrow> j = JArray s"
  by (cases j) auto

section \<open>Numbers from text\<close>

definition dec_digit :: "char \<Rightarrow> nat option" where
  "dec_digit c = (let n = of_char c :: nat in if 48 \<le> n \<and> n \<le> 57 then Some (n - 48) else None)"

text \<open>The longest run of digits, and what follows it.\<close>

fun scan_digits :: "string \<Rightarrow> nat list \<times> string" where
  "scan_digits [] = ([], [])"
| "scan_digits (c # cs) = (case dec_digit c of
     None \<Rightarrow> ([], c # cs)
   | Some d \<Rightarrow> (let (ds, r) = scan_digits cs in (d # ds, r)))"

definition of_digits :: "nat list \<Rightarrow> nat" where
  "of_digits ds = foldl (\<lambda>n d. 10 * n + d) 0 ds"

text \<open>\<open>from_chars\<close> of an unsigned 16-bit number: no sign, at least one digit, in range; what follows the
  digits is left alone.\<close>

definition from_chars_u16 :: "string \<Rightarrow> u16 option" where
  "from_chars_u16 s = (let (ds, r) = scan_digits s in
     if ds = [] \<or> of_digits ds > 65535 then None else Some (of_nat (of_digits ds)))"

datatype double = Fin rat | Inf bool | NaN

definition lower :: "char \<Rightarrow> char" where
  "lower c = (let n = of_char c :: nat in if 65 \<le> n \<and> n \<le> 90 then char_of (n + 32) else c)"

definition has_prefix :: "string \<Rightarrow> string \<Rightarrow> bool" where
  "has_prefix p s = (map lower (take (length p) s) = p)"

text \<open>The exponent, if a well-formed one follows.\<close>

definition scan_exponent :: "string \<Rightarrow> int" where
  "scan_exponent s = (case s of
       [] \<Rightarrow> 0
     | c # r \<Rightarrow> if lower c \<noteq> CHR ''e'' then 0
         else (case r of
             [] \<Rightarrow> 0
           | sg # r' \<Rightarrow> if sg = CHR ''-'' then - int (of_digits (fst (scan_digits r')))
                       else if sg = CHR ''+'' then int (of_digits (fst (scan_digits r')))
                       else int (of_digits (fst (scan_digits r)))))"

definition power10 :: "int \<Rightarrow> rat" where
  "power10 e = (if 0 \<le> e then 10 ^ nat e else 1 / 10 ^ nat (- e))"

text \<open>\<open>from_chars\<close> of a double; \<open>to_double\<close> rounds, \<open>None\<close> is out of range.\<close>

definition from_chars_magnitude :: "(rat \<Rightarrow> rat option) \<Rightarrow> string \<Rightarrow> double option" where
  "from_chars_magnitude to_double s =
     (if has_prefix ''inf'' s then Some (Inf True)
      else if has_prefix ''nan'' s then Some NaN
      else
        let (ds, r) = scan_digits s;
            (fs, r) = (case r of c # r' \<Rightarrow> if c = CHR ''.'' then scan_digits r' else ([], r) | [] \<Rightarrow> ([], r))
        in if ds = [] \<and> fs = [] then None
           else map_option Fin (to_double (of_nat (of_digits (ds @ fs)) * power10 (scan_exponent r - int (length fs)))))"

definition from_chars_double :: "(rat \<Rightarrow> rat option) \<Rightarrow> string \<Rightarrow> double option" where
  "from_chars_double to_double s =
     (case s of
        CHR ''-'' # r \<Rightarrow> (case from_chars_magnitude to_double r of
            None \<Rightarrow> None | Some (Fin x) \<Rightarrow> Some (Fin (- x)) | Some (Inf b) \<Rightarrow> Some (Inf (\<not> b)) | Some NaN \<Rightarrow> Some NaN)
      | _ \<Rightarrow> from_chars_magnitude to_double s)"

end
