(* ===== verification/Json_Graph.thy ===== *)
theory Json_Graph
  imports Json Prepare_Safety "HOL-Library.AList"
begin

text \<open>
  From JSON to a graph: \<open>core/graph/NodeFactory.hpp\<close>, \<open>core/graph/NodeRegistry\<close> and
  \<open>infra/parsers/Json2Graph\<close>.
\<close>

section \<open>Results\<close>

text \<open>What leaves the parsers besides a result: an exception of Boost.JSON, or undefined behaviour.\<close>

datatype parse_fault = Json_exception | Bad_cast

type_synonym 'a parse_result = "(parse_fault, (error_info, 'a) expected) expected"

definition pret :: "'a \<Rightarrow> 'a parse_result" where "pret a = Inr (Inr a)"

definition perr :: "error_info \<Rightarrow> 'a parse_result" where "perr e = Inr (Inl e)"

definition pbind :: "'a parse_result \<Rightarrow> ('a \<Rightarrow> 'b parse_result) \<Rightarrow> 'b parse_result" where
  "pbind r f = (case r of Inl fault \<Rightarrow> Inl fault | Inr (Inl e) \<Rightarrow> Inr (Inl e) | Inr (Inr a) \<Rightarrow> f a)"

definition lift_expected :: "(error_info, 'a) expected \<Rightarrow> 'a parse_result" where
  "lift_expected r = Inr r"

lemma pbind_simps [simp]:
  "pbind (pret a) f = f a" "pbind (perr e) f = perr e" "pbind (Inl fault) f = Inl fault"
  "pbind (lift_expected (Inr a)) f = f a" "pbind (lift_expected (Inl e)) f = perr e"
  "pbind (Inr (Inl e)) f = Inr (Inl e)"
  by (simp_all add: pbind_def pret_def perr_def lift_expected_def)

lemma pbind_ok: "pbind r f = Inr (Inr b) \<longleftrightarrow> (\<exists>a. r = Inr (Inr a) \<and> f a = Inr (Inr b))"
  by (auto simp: pbind_def split: sum.splits)

lemma pret_ok [simp]: "pret a = Inr (Inr b) \<longleftrightarrow> a = b" and perr_ok [simp]: "perr e \<noteq> Inr (Inr b)"
  and lift_ok [simp]: "lift_expected r = Inr (Inr b) \<longleftrightarrow> r = Inr b"
  by (auto simp: pret_def perr_def lift_expected_def)

text \<open>The environment: exception texts, and the rounding to \<open>double\<close> and \<open>float\<close>.\<close>

record parse_env =
  pe_what :: "json \<Rightarrow> string"
  pe_rnd64 :: "rat \<Rightarrow> rat"
  pe_rnd32 :: "rat \<Rightarrow> rat"
  pe_to_double :: "rat \<Rightarrow> rat option"

section \<open>Creators\<close>

definition parse_port :: "json \<Rightarrow> string \<Rightarrow> (error_info, u16) expected" where
  "parse_port json_port ip =
     (case json_port of
        JInt64 i \<Rightarrow> Inr (word_of_int i)
      | JString p_str \<Rightarrow>
          (case from_chars_u16 p_str of
             None \<Rightarrow> Inl (error_info_From ParseError (''Invalid port format: '' @ p_str))
           | Some port_val \<Rightarrow> Inr port_val)
      | _ \<Rightarrow> Inl (error_info_From ParseError ''Port must be int or string''))"

definition double_less :: "double \<Rightarrow> double \<Rightarrow> bool" where
  "double_less a b = (case (a, b) of (Fin x, Fin y) \<Rightarrow> x < y | (Inf p, Fin y) \<Rightarrow> \<not> p | (Fin x, Inf p) \<Rightarrow> p
     | (Inf p, Inf q) \<Rightarrow> \<not> p \<and> q | _ \<Rightarrow> False)"

definition parse_loss_ratio :: "parse_env \<Rightarrow> json \<Rightarrow> string \<Rightarrow> (error_info, double) expected" where
  "parse_loss_ratio pe json_loss ip =
     (let bounded = (\<lambda>loss_val. if double_less loss_val (Fin 0) \<or> double_less (Fin 1) loss_val
            then Inl (error_info_From ParseError ''lossRatio must be strictly between 0.0 and 1.0'') else Inr loss_val)
      in case json_loss of
           JDouble x \<Rightarrow> bounded (Fin x)
         | JInt64 i \<Rightarrow> bounded (Fin (pe_rnd64 pe (of_int i)))
         | JUint64 n \<Rightarrow> bounded (Fin (pe_rnd64 pe (of_nat n)))
         | JString l_str \<Rightarrow>
             (case from_chars_double (pe_to_double pe) l_str of
                None \<Rightarrow> Inl (error_info_From ParseError (''Invalid lossRatio format: '' @ l_str))
              | Some v \<Rightarrow> bounded v)
         | _ \<Rightarrow> Inl (error_info_From ParseError ''lossRatio must be a number or string''))"

text \<open>As a loss ratio a NaN drops no packet: every comparison of \<open>send_frame\<close> with it is false.\<close>

definition loss_of :: "double \<Rightarrow> rat" where
  "loss_of d = (case d of Fin x \<Rightarrow> x | _ \<Rightarrow> 0)"

definition DOWNLOADS_DIR :: string where "DOWNLOADS_DIR = ''downloads/''"

definition create_file_input :: "parse_env \<Rightarrow> json_object \<Rightarrow> node parse_result" where
  "create_file_input pe data =
     pbind (lift_expected (require_json (pe_what pe) as_string data ''fileName'')) (\<lambda>name.
       pret (new_file_input name (DOWNLOADS_DIR @ name)))"

definition create_mixer :: "parse_env \<Rightarrow> json_object \<Rightarrow> node parse_result" where
  "create_mixer pe data = pret new_mixer"

text \<open>The \<open>float\<close> becomes the \<open>size_t\<close> parameter \<open>ms_delay\<close>; a value that does not fit
  is undefined, and so is a number of frames that does not fit an \<open>int\<close>.\<close>

definition create_delay :: "parse_env \<Rightarrow> json_object \<Rightarrow> node parse_result" where
  "create_delay pe data =
     pbind (lift_expected (require_json (pe_what pe) (as_number (pe_rnd32 pe)) data ''delay'')) (\<lambda>delay_sec.
       if delay_sec < 0 then perr (error_info_From ParseError ''Delay cannot be negative'')
       else if delay_sec \<ge> 2 ^ 64 then Inl Bad_cast
       else case new_delay (pe_rnd32 pe) (nat (truncate_rat delay_sec)) of
         None \<Rightarrow> Inl Bad_cast
       | Some nd \<Rightarrow> pret nd)"

definition create_file_options :: "parse_env \<Rightarrow> json_object \<Rightarrow> node parse_result" where
  "create_file_options pe data =
     pbind (lift_expected (require_json (pe_what pe) (as_number (pe_rnd64 pe)) data ''gain'')) (\<lambda>gain.
     pbind (lift_expected (require_json (pe_what pe) (as_number (pe_rnd64 pe)) data ''pitch_shift'')) (\<lambda>pitch_shift.
       pret (new_file_options\<lparr>n_body := FileOptions gain pitch_shift\<rparr>)))"

text \<open>The loop over the clients. \<open>v.as_object()\<close> throws on anything else.\<close>

fun parse_clients :: "parse_env \<Rightarrow> json list \<Rightarrow> client_config list \<Rightarrow> client_config list parse_result" where
  "parse_clients pe [] clients = pret clients"
| "parse_clients pe (v # vs) clients =
     (case as_object v of
        None \<Rightarrow> Inl Json_exception
      | Some client \<Rightarrow>
          pbind (lift_expected (require_json (pe_what pe) as_string client ''ip'')) (\<lambda>ip.
          case map_of client ''port'' of
            None \<Rightarrow> perr (error_info_From ParseError (''Missing port for client '' @ ip))
          | Some p \<Rightarrow>
              pbind (lift_expected (parse_port p ip)) (\<lambda>port.
              pbind (case map_of client ''lossRatio'' of
                       None \<Rightarrow> pret (Fin 0)
                     | Some l \<Rightarrow> lift_expected (parse_loss_ratio pe l ip)) (\<lambda>loss_ratio.
              parse_clients pe vs (clients_add_client ip port (loss_of loss_ratio) clients)))))"

definition create_clients :: "parse_env \<Rightarrow> json_object \<Rightarrow> node parse_result" where
  "create_clients pe data =
     (if contains data ''clients''
      then pbind (lift_expected (require_json (pe_what pe) as_array data ''clients'')) (\<lambda>arr.
           pbind (parse_clients pe arr []) (\<lambda>cs. pret (new_clients\<lparr>n_body := Clients cs\<rparr>)))
      else pret new_clients)"

text \<open>The factory after \<open>register_builtin_nodes\<close>.\<close>

type_synonym node_factory = "(string \<times> (parse_env \<Rightarrow> json_object \<Rightarrow> node parse_result)) list"

definition register_creator :: "string \<Rightarrow> (parse_env \<Rightarrow> json_object \<Rightarrow> node parse_result) \<Rightarrow> node_factory \<Rightarrow> node_factory" where
  "register_creator ty creator factory = AList.update ty creator factory"

definition register_builtin_nodes :: "node_factory \<Rightarrow> node_factory" where
  "register_builtin_nodes factory =
     register_creator ''fileOptions'' create_file_options
       (register_creator ''clients'' create_clients
         (register_creator ''delay'' create_delay
           (register_creator ''mixer'' create_mixer
             (register_creator ''fileInput'' create_file_input factory))))"

definition factory_create :: "node_factory \<Rightarrow> parse_env \<Rightarrow> string \<Rightarrow> json_object \<Rightarrow> node parse_result" where
  "factory_create factory pe ty data =
     (case map_of factory ty of
        None \<Rightarrow> perr (error_info_From ParseError (''Unknown node type: '' @ ty))
      | Some creator \<Rightarrow> creator pe data)"

section \<open>The graph\<close>

record parsing = graph + g_node_map :: "(string \<times> nat) list"

definition empty_parsing :: parsing where
  "empty_parsing = \<lparr>g_nodes = [], g_start_node = None, g_file_nodes = [], g_mixer_nodes = [], g_clients_node = None, g_node_map = []\<rparr>"

text \<open>One round of the loop of \<open>parse_nodes\<close>, after the node was created.\<close>

definition add_node :: "string \<Rightarrow> node \<Rightarrow> parsing \<Rightarrow> parsing parse_result" where
  "add_node ident nd g =
    (let nd = nd\<lparr>n_id := ident\<rparr>; p = length (g_nodes g); g = g\<lparr>g_node_map := AList.update ident p (g_node_map g)\<rparr>
     in pbind (if kind nd = KFileInput then pret (g\<lparr>g_file_nodes := g_file_nodes g @ [p]\<rparr>)
        else if kind nd = KMixer then pret (g\<lparr>g_mixer_nodes := g_mixer_nodes g @ [p]\<rparr>)
        else if kind nd = KClients then
          (if g_clients_node g \<noteq> None
           then perr (error_info_From ParseError ''Multiple Clients nodes are not supported'')
           else pret (g\<lparr>g_clients_node := Some p\<rparr>))
        else pret g) (\<lambda>g. pret (g\<lparr>g_nodes := g_nodes g @ [nd]\<rparr>)))"

fun parse_nodes :: "node_factory \<Rightarrow> parse_env \<Rightarrow> json list \<Rightarrow> parsing \<Rightarrow> parsing parse_result" where
  "parse_nodes factory pe [] g = pret g"
| "parse_nodes factory pe (v # vs) g =
     (case as_object v of
        None \<Rightarrow> perr (error_info_From ParseError ''Node must be an object'')
      | Some obj \<Rightarrow>
          pbind (lift_expected (require_json (pe_what pe) as_string obj ''id'')) (\<lambda>ident.
          pbind (lift_expected (require_json (pe_what pe) as_string obj ''type'')) (\<lambda>ty.
          pbind (lift_expected (require_json (pe_what pe) as_object obj ''data'')) (\<lambda>data.
          pbind (factory_create factory pe ty data) (\<lambda>nd.
          pbind (add_node ident nd g) (parse_nodes factory pe vs))))))"

definition set_start_node :: "parse_env \<Rightarrow> json_object \<Rightarrow> parsing \<Rightarrow> parsing parse_result" where
  "set_start_node pe flow g =
     pbind (lift_expected (require_json (pe_what pe) as_object flow ''start_node'')) (\<lambda>start.
     pbind (lift_expected (require_json (pe_what pe) as_string start ''id'')) (\<lambda>ident.
     case map_of (g_node_map g) ident of
       None \<Rightarrow> perr (error_info_From ParseError (''Start node ID not found: '' @ ident))
     | Some p \<Rightarrow> pret (g\<lparr>g_start_node := Some p\<rparr>)))"

text \<open>One round of the loop of \<open>parse_edges\<close>, after the identifiers were read.\<close>

definition add_edge :: "string \<Rightarrow> string \<Rightarrow> parsing \<Rightarrow> parsing parse_result" where
  "add_edge src_id tgt_id g =
     (case (map_of (g_node_map g) src_id, map_of (g_node_map g) tgt_id) of
        (Some src, Some tgt) \<Rightarrow>
          if kind (g_nodes g ! src) = KClients
          then perr (error_info_From ParseError ''ClientsNode cannot be a source.'')
          else
            (let (r, h) = connect_input tgt src (g_nodes g)
             in case r of
                  Inl e \<Rightarrow> perr (error_info_From ParseError (ne_message e))
                | Inr u \<Rightarrow> pret (g\<lparr>g_nodes := h\<rparr>))
      | _ \<Rightarrow> perr (error_info_From ParseError ''Edge references missing node ID''))"

fun parse_edges :: "parse_env \<Rightarrow> json list \<Rightarrow> parsing \<Rightarrow> parsing parse_result" where
  "parse_edges pe [] g = pret g"
| "parse_edges pe (v # vs) g =
     (case as_object v of
        None \<Rightarrow> perr (error_info_From ParseError ''Edge must be an object'')
      | Some edge \<Rightarrow>
          pbind (lift_expected (require_json (pe_what pe) as_string edge ''source'')) (\<lambda>src_id.
          pbind (lift_expected (require_json (pe_what pe) as_string edge ''target'')) (\<lambda>tgt_id.
          pbind (add_edge src_id tgt_id g) (parse_edges pe vs))))"

definition parse_graph :: "node_factory \<Rightarrow> parse_env \<Rightarrow> json_object \<Rightarrow> graph parse_result" where
  "parse_graph factory pe request =
     pbind (lift_expected (require_json (pe_what pe) as_object request ''flow'')) (\<lambda>flow.
     pbind (lift_expected (require_json (pe_what pe) as_array flow ''nodes'')) (\<lambda>nodes.
     pbind (parse_nodes factory pe nodes empty_parsing) (\<lambda>g.
     pbind (set_start_node pe flow g) (\<lambda>g.
     pbind (lift_expected (require_json (pe_what pe) as_array flow ''edges'')) (\<lambda>edges.
     pbind (parse_edges pe edges g) (\<lambda>g. pret (graph.truncate g)))))))"

end
