(* ===== verification/Http.thy ===== *)
theory Http
  imports Active_Sessions Json_Graph
begin

text \<open>
  The control plane: \<open>infra/parsers/response_builder.hpp\<close> and \<open>network/http/Router\<close>. URLs, the JSON parser
  and its printer are those of Boost and parameters; a status is its number.
\<close>

section \<open>Messages\<close>

record http_request =
  hq_method :: string
  hq_target :: string
  hq_version :: nat
  hq_keep_alive :: bool
  hq_upgrade :: bool
  hq_body :: string

text \<open>\<open>hr_length\<close> is what \<open>prepare_payload\<close> sets, \<open>None\<close> before it.\<close>

record http_response =
  hr_version :: nat
  hr_keep_alive :: bool
  hr_result :: nat
  hr_fields :: "(string \<times> string) list"
  hr_body :: string
  hr_length :: "nat option"

definition empty_response :: http_response where
  "empty_response = \<lparr>hr_version = 11, hr_keep_alive = True, hr_result = 200, hr_fields = [], hr_body = '''', hr_length = None\<rparr>"

text \<open>The library: the decoded path and parameters of a target, or the text of the exception; parsing and printing
  of JSON; the text of the exception of \<open>as_object\<close>; the server's name.\<close>

record http_api =
  ha_url :: "string \<Rightarrow> (string, string \<times> (string \<times> string) list) expected"
  ha_parse :: "string \<Rightarrow> json option"
  ha_serialize :: "json \<Rightarrow> string"
  ha_json_what :: string
  ha_server :: string

section \<open>Response builder\<close>

definition set_field :: "string \<Rightarrow> string \<Rightarrow> http_response \<Rightarrow> http_response" where
  "set_field name val res = res\<lparr>hr_fields := AList.update name val (hr_fields res)\<rparr>"

definition prepare_payload :: "http_response \<Rightarrow> http_response" where
  "prepare_payload res = res\<lparr>hr_length := Some (length (hr_body res))\<rparr>"

definition set_standard_headers :: "http_api \<Rightarrow> http_response \<Rightarrow> http_response" where
  "set_standard_headers api res =
     set_field ''Access-Control-Max-Age'' ''3600''
       (set_field ''Access-Control-Allow-Headers'' ''Content-Type, Authorization''
         (set_field ''Access-Control-Allow-Methods'' ''GET, POST, PUT, DELETE, OPTIONS''
           (set_field ''Access-Control-Allow-Origin'' ''*''
             (set_field ''Server'' (ha_server api) res))))"

definition with_status :: "nat \<Rightarrow> bool \<Rightarrow> nat \<Rightarrow> http_response \<Rightarrow> http_response" where
  "with_status version keep_alive status res = res\<lparr>hr_version := version, hr_keep_alive := keep_alive, hr_result := status\<rparr>"

definition build_success_response :: "http_api \<Rightarrow> http_response \<Rightarrow> string \<Rightarrow> nat \<Rightarrow> bool \<Rightarrow> http_response" where
  "build_success_response api res session_id version keep_alive =
     (let res = with_status version keep_alive 200 res;
          res = set_field ''Content-Type'' ''application/json'' (set_standard_headers api res);
          body_json = JObject [(''status'', JString ''success''), (''message'', JString ''Session has started''),
            (''sessionID'', JString session_id)]
      in prepare_payload (res\<lparr>hr_body := ha_serialize api body_json\<rparr>))"

definition make_json_response :: "http_api \<Rightarrow> http_response \<Rightarrow> nat \<Rightarrow> json \<Rightarrow> nat \<Rightarrow> bool \<Rightarrow> http_response" where
  "make_json_response api res status val version keep_alive =
     (let res = with_status version keep_alive status res;
          res = set_field ''Content-Type'' ''application/json'' (set_standard_headers api res)
      in prepare_payload (res\<lparr>hr_body := ha_serialize api val\<rparr>))"

definition build_success_response_with_id ::
  "http_api \<Rightarrow> http_response \<Rightarrow> string \<Rightarrow> nat \<Rightarrow> nat \<Rightarrow> u32 \<Rightarrow> nat \<Rightarrow> bool \<Rightarrow> http_response" where
  "build_success_response_with_id api res filename bytes_received bytes_processed file_id version keep_alive =
     make_json_response api res 200
       (JObject [(''status'', JString ''success''), (''message'', JString ''File uploaded successfully''),
          (''filename'', JString filename), (''file_id'', JUint64 (unat file_id)),
          (''bytes_received'', JUint64 bytes_received), (''bytes_processed'', JUint64 bytes_processed)])
       version keep_alive"

definition build_error_response :: "http_api \<Rightarrow> http_response \<Rightarrow> string \<Rightarrow> nat \<Rightarrow> bool \<Rightarrow> nat \<Rightarrow> http_response" where
  "build_error_response api res error_message version keep_alive status =
     (let res = with_status version keep_alive status res;
          res = set_field ''Content-Type'' ''application/json'' (set_standard_headers api res);
          body_json = JObject [(''status'', JString ''error''), (''message'', JString error_message)]
      in prepare_payload (res\<lparr>hr_body := ha_serialize api body_json\<rparr>))"

definition build_plaintext_response :: "http_api \<Rightarrow> http_response \<Rightarrow> string \<Rightarrow> nat \<Rightarrow> bool \<Rightarrow> http_response" where
  "build_plaintext_response api res body_text version keep_alive =
     (let res = with_status version keep_alive 200 res;
          res = set_field ''Content-Type'' ''text/plain; version=0.0.4'' (set_standard_headers api res)
      in prepare_payload (res\<lparr>hr_body := body_text\<rparr>))"

definition build_options_response :: "http_api \<Rightarrow> http_response \<Rightarrow> nat \<Rightarrow> bool \<Rightarrow> http_response" where
  "build_options_response api res version keep_alive =
     (let res = with_status version keep_alive 200 res;
          res = set_field ''Content-Type'' ''text/plain'' (set_standard_headers api res)
      in prepare_payload (res\<lparr>hr_body := ''OK''\<rparr>))"

section \<open>The router\<close>

record route_error =
  re_code :: nat
  re_message :: string

text \<open>How a handler ends besides its result: an exception that \<open>route_query\<close> catches, or undefined behaviour.\<close>

datatype escape = Thrown string | Undefined

record 'ep router =
  ro_active :: "'ep active_sessions"
  ro_http_requests_total :: u64

record 'ep router_env =
  re_session_env :: "'ep session_env"
  re_cfg :: app_config
  re_factory :: node_factory
  re_parse_env :: parse_env
  re_api :: http_api

text \<open>What a request draws: an identifier, the numbers of a stream, the socket of an upgrade.\<close>

record request_draws =
  rd_session_id :: string
  rd_stream :: stream_draws
  rd_websocket :: nat

type_synonym 'ep handled = "(escape, (route_error, unit) expected) expected \<times> http_response \<times> 'ep router"

fun map_app_error :: "app_error \<Rightarrow> nat" where
  "map_app_error ParseError = 400"
| "map_app_error LogicError = 409"
| "map_app_error ConfigError = 500"
| "map_app_error NetworkError = 502"
| "map_app_error FileSystemError = 500"
| "map_app_error e = 500"

definition route_fail :: "nat \<Rightarrow> string \<Rightarrow> (escape, (route_error, 'a) expected) expected" where
  "route_fail code message = Inr (Inl \<lparr>re_code = code, re_message = message\<rparr>)"

definition extract_session_id :: "http_api \<Rightarrow> http_request \<Rightarrow> (escape, (route_error, string) expected) expected" where
  "extract_session_id api req =
     (case ha_url api (hq_target req) of
        Inl what \<Rightarrow> Inl (Thrown what)
      | Inr (path, params) \<Rightarrow>
          (case map_of params ''id'' of
             None \<Rightarrow> route_fail 400 ''Missing query parameter: id''
           | Some i \<Rightarrow> Inr (Inr i)))"

text \<open>\<open>create_session\<close> with the parsing of its argument.\<close>

definition create_session_json ::
  "'ep router_env \<Rightarrow> request_draws \<Rightarrow> json_object \<Rightarrow> session_type \<Rightarrow> 'ep active_sessions
     \<Rightarrow> (escape, (error_info, string) expected) expected \<times> 'ep active_sessions" where
  "create_session_json env rd jobj ty st =
     (case parse_graph (re_factory env) (re_parse_env env) jobj of
        Inl Json_exception \<Rightarrow> (Inl (Thrown (ha_json_what (re_api env))), counted st)
      | Inl Bad_cast \<Rightarrow> (Inl Undefined, counted st)
      | Inr graph_result \<Rightarrow>
          (case create_session (re_session_env env) (re_cfg env) (rd_stream rd) (rd_session_id rd) graph_result ty st of
             (Inl (InvalidArgument what), st) \<Rightarrow> (Inl (Thrown what), st)
           | (Inl UndefinedBehaviour, st) \<Rightarrow> (Inl Undefined, st)
           | (Inr r, st) \<Rightarrow> (Inr r, st)))"

definition process_session_request ::
  "'ep router_env \<Rightarrow> request_draws \<Rightarrow> http_request \<Rightarrow> http_response \<Rightarrow> session_type \<Rightarrow> 'ep router \<Rightarrow> 'ep handled" where
  "process_session_request env rd req res ty ro =
     (case ha_parse (re_api env) (hq_body req) of
        None \<Rightarrow> (route_fail 400 ''Invalid JSON format'', res, ro)
      | Some jv \<Rightarrow>
          (case as_object jv of
             None \<Rightarrow> (route_fail 400 ''JSON root must be an object'', res, ro)
           | Some obj \<Rightarrow>
               (case create_session_json env rd obj ty (ro_active ro) of
                  (Inl escape, st) \<Rightarrow> (Inl escape, res, ro\<lparr>ro_active := st\<rparr>)
                | (Inr (Inl e), st) \<Rightarrow> (route_fail (map_app_error (ei_code e)) (ei_message e), res, ro\<lparr>ro_active := st\<rparr>)
                | (Inr (Inr i), st) \<Rightarrow>
                    (Inr (Inr ()), build_success_response (re_api env) res i (hq_version req) False, ro\<lparr>ro_active := st\<rparr>))))"

definition handle_transmit :: "'ep router_env \<Rightarrow> request_draws \<Rightarrow> http_request \<Rightarrow> http_response \<Rightarrow> 'ep router \<Rightarrow> 'ep handled" where
  "handle_transmit env rd req res ro = process_session_request env rd req res Standard ro"

definition handle_secure_transmit :: "'ep router_env \<Rightarrow> request_draws \<Rightarrow> http_request \<Rightarrow> http_response \<Rightarrow> 'ep router \<Rightarrow> 'ep handled" where
  "handle_secure_transmit env rd req res ro = process_session_request env rd req res StandartEncrypted ro"

definition handle_webrtc_request :: "'ep router_env \<Rightarrow> request_draws \<Rightarrow> http_request \<Rightarrow> http_response \<Rightarrow> 'ep router \<Rightarrow> 'ep handled" where
  "handle_webrtc_request env rd req res ro = process_session_request env rd req res WebRTC ro"

text \<open>The answer to the status of an operation: the \<open>switch\<close> that ends the three handlers below.\<close>

definition answer_status ::
  "http_api \<Rightarrow> http_request \<Rightarrow> http_response \<Rightarrow> string \<Rightarrow> session_op_status \<Rightarrow> (escape, (route_error, unit) expected) expected \<times> http_response" where
  "answer_status api req res i status =
     (case status of
        OpSuccess \<Rightarrow> (Inr (Inr ()), build_success_response api res i (hq_version req) False)
      | WebSocketNotFound \<Rightarrow> (Inr (Inr ()), build_success_response api res i (hq_version req) False)
      | SessionNotFound \<Rightarrow> (route_fail 404 ''Session ID not found'', res))"

definition handle_stop :: "http_api \<Rightarrow> http_request \<Rightarrow> http_response \<Rightarrow> 'ep router \<Rightarrow> 'ep handled" where
  "handle_stop api req res ro =
     (case extract_session_id api req of
        Inl escape \<Rightarrow> (Inl escape, res, ro)
      | Inr (Inl e) \<Rightarrow> (Inr (Inl e), res, ro)
      | Inr (Inr i) \<Rightarrow>
          (let (status, st) = remove_session i (ro_active ro); (r, res) = answer_status api req res i status
           in (r, res, ro\<lparr>ro_active := st\<rparr>)))"

definition handle_pause :: "http_api \<Rightarrow> http_request \<Rightarrow> http_response \<Rightarrow> 'ep router \<Rightarrow> 'ep handled" where
  "handle_pause api req res ro =
     (case extract_session_id api req of
        Inl escape \<Rightarrow> (Inl escape, res, ro)
      | Inr (Inl e) \<Rightarrow> (Inr (Inl e), res, ro)
      | Inr (Inr i) \<Rightarrow>
          (let (status, st) = pause_session i (ro_active ro); (r, res) = answer_status api req res i status
           in (r, res, ro\<lparr>ro_active := st\<rparr>)))"

definition handle_resume :: "http_api \<Rightarrow> http_request \<Rightarrow> http_response \<Rightarrow> 'ep router \<Rightarrow> 'ep handled" where
  "handle_resume api req res ro =
     (case extract_session_id api req of
        Inl escape \<Rightarrow> (Inl escape, res, ro)
      | Inr (Inl e) \<Rightarrow> (Inr (Inl e), res, ro)
      | Inr (Inr i) \<Rightarrow>
          (let (status, st) = resume_session i (ro_active ro); (r, res) = answer_status api req res i status
           in (r, res, ro\<lparr>ro_active := st\<rparr>)))"

definition handle_websocket_request :: "http_api \<Rightarrow> request_draws \<Rightarrow> http_request \<Rightarrow> http_response \<Rightarrow> 'ep router \<Rightarrow> 'ep handled" where
  "handle_websocket_request api rd req res ro =
     (if \<not> hq_upgrade req then (route_fail 400 ''Request is not a WebSocket upgrade'', res, ro)
      else case extract_session_id api req of
             Inl escape \<Rightarrow> (Inl escape, res, ro)
           | Inr (Inl e) \<Rightarrow> (Inr (Inl e), res, ro)
           | Inr (Inr i) \<Rightarrow>
               (case create_and_run_websocket_session i (rd_websocket rd) (ro_active ro) of
                  (Inl e, st) \<Rightarrow> (route_fail (map_app_error (ei_code e)) (ei_message e), res, ro\<lparr>ro_active := st\<rparr>)
                | (Inr u, st) \<Rightarrow> (Inr (Inr ()), res, ro\<lparr>ro_active := st\<rparr>)))"

definition nl :: string where "nl = [CHR 0x0A]"

definition metric :: "string \<Rightarrow> string \<Rightarrow> string \<Rightarrow> string \<Rightarrow> string" where
  "metric name type help samples =
     ''# HELP '' @ name @ '' '' @ help @ nl @ ''# TYPE '' @ name @ '' '' @ type @ nl @ samples"

definition session_sample :: "string \<Rightarrow> string \<Rightarrow> u64 \<Rightarrow> string" where
  "session_sample name i n = name @ ''{session_id='' @ [CHR 0x22] @ i @ [CHR 0x22] @ ''} '' @ show_nat (unat n) @ nl"

definition metrics_text :: "'ep router \<Rightarrow> string" where
  "metrics_text ro =
     (let st = ro_active ro; plain = (\<lambda>name n. name @ '' '' @ show_nat n @ nl); stats = get_all_session_rtp_stats st in
        metric ''hermes_http_requests_total'' ''counter'' ''Total number of HTTP requests processed.''
          (plain ''hermes_http_requests_total'' (unat (ro_http_requests_total ro)))
      @ metric ''hermes_total_sessions_created_total'' ''counter'' ''Total number of sessions instantiated.''
          (plain ''hermes_total_sessions_created_total'' (unat (get_total_sessions_created st)))
      @ metric ''hermes_active_sessions_total'' ''gauge'' ''Number of currently active audio sessions.''
          (plain ''hermes_active_sessions_total'' (sessions_size st))
      @ metric ''hermes_active_websockets_total'' ''gauge'' ''Number of currently connected WebSockets.''
          (plain ''hermes_active_websockets_total'' (get_active_websockets_count st))
      @ metric ''hermes_available_webrtc_ports'' ''gauge'' ''Number of WebRTC UDP ports currently available.''
          (plain ''hermes_available_webrtc_ports'' (get_available_webrtc_ports_count st))
      @ (if stats = [] then ''''
         else metric ''hermes_rtp_bytes_sent_total'' ''counter'' ''Total RTP bytes sent by a session.''
                (concat (map (\<lambda>(i, b, p). session_sample ''hermes_rtp_bytes_sent_total'' i b) stats))
            @ metric ''hermes_rtp_packets_sent_total'' ''counter'' ''Total RTP packets sent by a session.''
                (concat (map (\<lambda>(i, b, p). session_sample ''hermes_rtp_packets_sent_total'' i p) stats))))"

definition handle_metrics :: "http_api \<Rightarrow> http_request \<Rightarrow> http_response \<Rightarrow> 'ep router \<Rightarrow> 'ep handled" where
  "handle_metrics api req res ro =
     (Inr (Inr ()), build_plaintext_response api res (metrics_text ro) (hq_version req) (hq_keep_alive req), ro)"

section \<open>Dispatch\<close>

definition starts_with :: "string \<Rightarrow> string \<Rightarrow> bool" where
  "starts_with p path \<longleftrightarrow> take (length p) path = p"

definition match_route ::
  "http_request \<Rightarrow> http_response \<Rightarrow> 'ep router \<Rightarrow> string \<Rightarrow> string \<times> string \<times> (http_response \<Rightarrow> 'ep router \<Rightarrow> 'ep handled) \<Rightarrow> 'ep handled option" where
  "match_route req res ro path route =
     (let (p, verb, handler) = route in
      if \<not> starts_with p path then None
      else if hq_method req \<noteq> verb then Some (route_fail 405 (''Method must be '' @ verb), res, ro)
      else Some (handler res ro))"

fun try_routes ::
  "http_request \<Rightarrow> http_response \<Rightarrow> 'ep router \<Rightarrow> string \<Rightarrow> (string \<times> string \<times> (http_response \<Rightarrow> 'ep router \<Rightarrow> 'ep handled)) list \<Rightarrow> 'ep handled" where
  "try_routes req res ro path [] = (route_fail 404 ''Route not found'', res, ro)"
| "try_routes req res ro path (route # routes) =
     (case match_route req res ro path route of Some r \<Rightarrow> r | None \<Rightarrow> try_routes req res ro path routes)"

definition routes :: "'ep router_env \<Rightarrow> request_draws \<Rightarrow> http_request \<Rightarrow> (string \<times> string \<times> (http_response \<Rightarrow> 'ep router \<Rightarrow> 'ep handled)) list" where
  "routes env rd req =
     [(''/transmit/'', ''POST'', handle_transmit env rd req),
      (''/secure_transmit/'', ''POST'', handle_secure_transmit env rd req),
      (''/preview/'', ''POST'', handle_webrtc_request env rd req),
      (''/connect/'', ''GET'', handle_websocket_request (re_api env) rd req),
      (''/stop/'', ''POST'', handle_stop (re_api env) req),
      (''/pause/'', ''POST'', handle_pause (re_api env) req),
      (''/resume/'', ''POST'', handle_resume (re_api env) req),
      (''/metrics'', ''GET'', handle_metrics (re_api env) req)]"

text \<open>What \<open>route_query\<close> makes of the outcome of the routes: \<open>None\<close> is undefined behaviour in a handler.\<close>

definition conclude :: "http_api \<Rightarrow> http_request \<Rightarrow> 'ep handled \<Rightarrow> (http_response \<times> 'ep router) option" where
  "conclude api req h =
    (let (result, res, ro) = h in
     case result of
       Inr (Inr u) \<Rightarrow> Some (res, ro)
     | Inr (Inl err) \<Rightarrow> Some (build_error_response api res (re_message err) (hq_version req) (hq_keep_alive req) (re_code err), ro)
     | Inl (Thrown what) \<Rightarrow> Some (build_error_response api res (''Internal Error: '' @ what) (hq_version req) (hq_keep_alive req) 500, ro)
     | Inl Undefined \<Rightarrow> None)"

definition route_query ::
  "'ep router_env \<Rightarrow> request_draws \<Rightarrow> http_request \<Rightarrow> http_response \<Rightarrow> 'ep router \<Rightarrow> (http_response \<times> 'ep router) option" where
  "route_query env rd req res ro =
    (let ro = ro\<lparr>ro_http_requests_total := ro_http_requests_total ro + 1\<rparr>
     in conclude (re_api env) req
          (case ha_url (re_api env) (hq_target req) of
             Inl what \<Rightarrow> (Inl (Thrown what), res, ro)
           | Inr (path, params) \<Rightarrow> try_routes req res ro path (routes env rd req)))"

end
