(* ===== verification/Json_Properties.thy ===== *)
theory Json_Properties
  imports Json_Graph Session_Lifecycle
begin

text \<open>
  What a request that is accepted by \<open>parse_graph\<close> gives: a well-formed graph, on which a session
  never reaches undefined behaviour. Then what single creators accept.
\<close>

section \<open>Fresh nodes\<close>

definition fresh_node :: "node \<Rightarrow> bool" where
  "fresh_node nd \<longleftrightarrow> n_target nd = None \<and> n_processed_frames nd = 0 \<and> n_in_buffer_processed_frames nd = 0 \<and> (case n_body nd of
     FileInput f \<Rightarrow> controller_inv (fi_controller f) \<and> shifter_inv (fi_pitch_shifter f) \<and> fi_options f = None
   | Mixer inputs \<Rightarrow> inputs = []
   | _ \<Rightarrow> True)"

lemma fresh_new_nodes [intro]:
  "fresh_node (new_file_input name path)" "fresh_node new_mixer" "new_delay rnd ms = Some nd \<Longrightarrow> fresh_node nd"
  "fresh_node new_clients" "fresh_node (new_clients\<lparr>n_body := Clients cs\<rparr>)" "fresh_node (new_file_options\<lparr>n_body := FileOptions g s\<rparr>)"
  by (auto simp: fresh_node_def new_file_input_def new_mixer_def new_delay_def new_clients_def new_file_options_def
      new_node_def Let_def intro: inv_intros split: bind_splits)

lemma fresh_set_id [simp]: "fresh_node (nd\<lparr>n_id := i\<rparr>) = fresh_node nd"
  by (simp add: fresh_node_def)

lemma fresh_mixer: "fresh_node nd \<Longrightarrow> n_body nd = Mixer inputs \<Longrightarrow> inputs = []"
  by (simp add: fresh_node_def)

definition builtin_factory :: node_factory where
  "builtin_factory = register_builtin_nodes []"

lemma builtin_creators:
  "map_of builtin_factory = [''fileInput'' \<mapsto> create_file_input, ''mixer'' \<mapsto> create_mixer, ''delay'' \<mapsto> create_delay,
     ''clients'' \<mapsto> create_clients, ''fileOptions'' \<mapsto> create_file_options]"
  by (simp add: builtin_factory_def register_builtin_nodes_def register_creator_def update_conv' fun_upd_twist)

lemma factory_create_fresh:
  assumes "factory_create builtin_factory pe ty data = Inr (Inr nd)"
  shows "fresh_node nd"
  using assms
  by (auto simp: factory_create_def builtin_creators pbind_ok create_file_input_def create_mixer_def create_delay_def
      create_clients_def create_file_options_def split: if_splits option.splits)

section \<open>Well-formed graphs\<close>

definition ptr_ok :: "heap \<Rightarrow> node_kind \<Rightarrow> nat \<Rightarrow> bool" where
  "ptr_ok h k p \<longleftrightarrow> p < length h \<and> kind (h ! p) = k"

text \<open>The indexes of a graph point at nodes of their kinds.\<close>

definition indexes_ok :: "'z graph_scheme \<Rightarrow> bool" where
  "indexes_ok g \<longleftrightarrow> (\<forall>p\<in>set (g_file_nodes g). ptr_ok (g_nodes g) KFileInput p)
     \<and> (\<forall>p\<in>set (g_mixer_nodes g). ptr_ok (g_nodes g) KMixer p)
     \<and> (\<forall>p. g_clients_node g = Some p \<longrightarrow> ptr_ok (g_nodes g) KClients p)
     \<and> (\<forall>p. g_start_node g = Some p \<longrightarrow> p < length (g_nodes g))"

definition uncounted :: "heap \<Rightarrow> bool" where
  "uncounted h \<longleftrightarrow> (\<forall>p < length h. n_processed_frames (h ! p) = 0 \<and> n_in_buffer_processed_frames (h ! p) = 0)"

lemma fresh_uncounted: "\<forall>nd\<in>set h. fresh_node nd \<Longrightarrow> uncounted h"
  by (simp add: uncounted_def fresh_node_def)

lemma uncounted_left:
  assumes "uncounted h" and "m * n < 2 ^ 31" and "\<And>p. p < length h \<Longrightarrow> pulls h p \<le> m"
  shows "frames_left m n h"
proof -
  have "has_room (m * n) (h ! p)" if "p < length h" for p
  proof -
    have "int (m * n) < 2 ^ 31" using assms(2) by (metis of_nat_less_iff of_nat_numeral of_nat_power)
    then show ?thesis using assms(1) that by (simp add: has_room_def uncounted_def)
  qed
  then show ?thesis using assms(2,3) by (auto simp: frames_left_def room_def in_set_conv_nth)
qed

definition names_ok :: "parsing \<Rightarrow> bool" where
  "names_ok g \<longleftrightarrow> (\<forall>i p. map_of (g_node_map g) i = Some p \<longrightarrow> p < length (g_nodes g))"

definition options_in_range :: "float_env \<Rightarrow> heap \<Rightarrow> bool" where
  "options_in_range e h \<longleftrightarrow> (\<forall>nd\<in>set h. \<forall>g s. n_body nd = FileOptions g s \<longrightarrow> options_ok e g s)"

lemma options_in_range_nth:
  "options_in_range e h \<longleftrightarrow> (\<forall>p < length h. \<forall>g s. n_body (h ! p) = FileOptions g s \<longrightarrow> options_ok e g s)"
  unfolding options_in_range_def by (metis in_set_conv_nth)

section \<open>Parsing the nodes\<close>

lemma ptr_ok_append: "ptr_ok h k p \<Longrightarrow> ptr_ok (h @ ns) k p"
  by (simp add: ptr_ok_def nth_append del: kind.simps)

lemma add_node_inv:
  assumes "add_node i nd g = Inr (Inr g')" and "indexes_ok g" and "names_ok g" and "\<forall>nd\<in>set (g_nodes g). fresh_node nd" and "fresh_node nd"
  shows "indexes_ok g' \<and> names_ok g' \<and> (\<forall>nd\<in>set (g_nodes g'). fresh_node nd)"
proof -
  have n: "g_nodes g' = g_nodes g @ [nd\<lparr>n_id := i\<rparr>]" "g_start_node g' = g_start_node g"
      "g_node_map g' = AList.update i (length (g_nodes g)) (g_node_map g)"
    using assms(1) by (auto simp: add_node_def Let_def pbind_ok simp del: kind.simps split: if_splits)
  have "ptr_ok (g_nodes g') (kind nd) (length (g_nodes g))" by (simp add: n ptr_ok_def)
  moreover have "indexes_ok g \<Longrightarrow> (\<forall>p\<in>set (g_file_nodes g). ptr_ok (g_nodes g') KFileInput p)
      \<and> (\<forall>p\<in>set (g_mixer_nodes g). ptr_ok (g_nodes g') KMixer p)
      \<and> (\<forall>p. g_clients_node g = Some p \<longrightarrow> ptr_ok (g_nodes g') KClients p)
      \<and> (\<forall>p. g_start_node g = Some p \<longrightarrow> p < length (g_nodes g'))"
    by (auto simp: n indexes_ok_def intro: ptr_ok_append)
  moreover have "kind (nd\<lparr>n_id := i\<rparr>) = kind nd" by simp
  ultimately have "indexes_ok g'"
    using assms(1,2) n(2)
    by (auto simp: add_node_def Let_def pbind_ok indexes_ok_def simp del: kind.simps split: if_splits)
  moreover have "names_ok g'"
    using assms(3) by (auto simp: names_ok_def n update_conv' less_Suc_eq)
  ultimately show ?thesis using assms(4,5) n by auto
qed

lemma parse_nodes_inv:
  assumes "parse_nodes builtin_factory pe vs g = Inr (Inr g')" and "indexes_ok g" and "names_ok g" and "\<forall>nd\<in>set (g_nodes g). fresh_node nd"
  shows "indexes_ok g' \<and> names_ok g' \<and> (\<forall>nd\<in>set (g_nodes g'). fresh_node nd)"
  using assms
proof (induction vs arbitrary: g)
  case (Cons v vs)
  then obtain i nd g1 ty data where "factory_create builtin_factory pe ty data = Inr (Inr nd)" and a: "add_node i nd g = Inr (Inr g1)"
      and r: "parse_nodes builtin_factory pe vs g1 = Inr (Inr g')"
    by (auto simp: pbind_ok split: option.splits)
  then have "fresh_node nd" using factory_create_fresh by blast
  then show ?case using Cons.IH [OF r] add_node_inv [OF a Cons.prems(2-4)] by blast
qed (simp add: pret_def)

lemma fresh_wf:
  assumes "\<forall>nd\<in>set h. fresh_node nd"
  shows "wf_heap e h"
proof -
  have "body_ok e h (n_body nd)" if "nd \<in> set h" for nd
    using assms that by (fastforce simp: body_ok_def fresh_node_def split: node_body.splits)
  moreover have "wf_targets h" using assms by (auto simp: wf_targets_def fresh_node_def)
  ultimately show ?thesis by (simp add: wf_heap_def)
qed

section \<open>Parsing the edges\<close>

text \<open>An edge changes no more of a node's body than one more input of a mixer or the options of a file input.\<close>

lemma connect_input_frame:
  assumes "self < length h" and "p < length h" and "h' = snd (connect_input self source h)"
  shows "length h' = length h" and "kind (h' ! p) = kind (h ! p)" and "uncounted h \<Longrightarrow> uncounted h'"
    and "n_body (h' ! p) = FileOptions g s \<longleftrightarrow> n_body (h ! p) = FileOptions g s"
    and "n_body (h' ! p) = Mixer inputs' \<Longrightarrow> \<exists>inputs. n_body (h ! p) = Mixer inputs \<and> length inputs' \<le> Suc (length inputs)"
proof -
  have body: "n_body (wire_standard self source h ! p) = n_body (h ! p)" for self p h
    by (cases "source < length h") (auto simp: wire_standard_def upd_def set_next_def nth_list_update list_update_beyond)
  have len: "length (wire_standard self source h) = length h" for self h by (simp add: wire_standard_def upd_def)
  have put: "uncounted (upd q f h)" if "uncounted h" "\<And>nd. n_processed_frames (f nd) = n_processed_frames nd"
      "\<And>nd. n_in_buffer_processed_frames (f nd) = n_in_buffer_processed_frames nd" for q f h
    unfolding uncounted_def
  proof (intro allI impI)
    fix i
    assume "i < length (upd q f h)"
    then show "n_processed_frames (upd q f h ! i) = 0 \<and> n_in_buffer_processed_frames (upd q f h ! i) = 0"
      using that by (cases "i = q") (simp_all add: upd_def uncounted_def)
  qed
  have wire: "uncounted (wire_standard self source h)" if "uncounted h" for self h
    using that unfolding wire_standard_def by (rule put) (simp_all add: set_next_def)
  have opts: "uncounted (upd self (set_options source) h)" if "uncounted h" for h
    using that by (rule put) (simp_all add: set_options_def split: node_body.split)
  have mix: "uncounted (upd self (n_body_update b) h)" if "uncounted h" for h b
    using that by (rule put) simp_all
  show "uncounted h'" if "uncounted h"
    using that wire opts mix by (simp add: assms(3) connect_input_defs Let_def split: node_body.split)
  show "length h' = length h"
    by (simp add: assms(3) connect_input_defs Let_def upd_def wire_standard_def split: node_body.split)
  have cases: "n_body (h' ! p) = n_body (h ! p)
    \<or> p = self \<and> (\<exists>f. n_body (h ! p) = FileInput f \<and> n_body (h' ! p) = FileInput (f\<lparr>fi_options := Some source\<rparr>))
    \<or> p = self \<and> (\<exists>inputs. n_body (h ! p) = Mixer inputs \<and> n_body (h' ! p) = Mixer (inputs @ [source]))"
  proof (cases "n_body (h ! self)")
    case (FileInput f)
    then show ?thesis using assms
      by (auto simp: connect_input_defs Let_def body len set_options_def upd_def nth_list_update simp del: kind.simps)
  next
    case (Mixer inputs)
    then show ?thesis using assms
      by (auto simp: connect_input_defs Let_def body len upd_def nth_list_update simp del: kind.simps)
  qed (use assms in \<open>simp_all add: connect_input_defs Let_def body\<close>)
  show "kind (h' ! p) = kind (h ! p)" using cases by auto
  show "n_body (h' ! p) = FileOptions g s \<longleftrightarrow> n_body (h ! p) = FileOptions g s" using cases by auto
  show "\<exists>inputs. n_body (h ! p) = Mixer inputs \<and> length inputs' \<le> Suc (length inputs)" if "n_body (h' ! p) = Mixer inputs'"
    using cases that by (elim disjE conjE exE) simp_all
qed

lemma add_edge_ok:
  assumes "add_edge src_id tgt_id g = Inr (Inr g')"
  obtains src tgt where "map_of (g_node_map g) src_id = Some src" "map_of (g_node_map g) tgt_id = Some tgt"
    "g' = g\<lparr>g_nodes := snd (connect_input tgt src (g_nodes g))\<rparr>"
proof -
  obtain src tgt where "map_of (g_node_map g) src_id = Some src" "map_of (g_node_map g) tgt_id = Some tgt"
    using assms by (auto simp: add_edge_def split: option.splits)
  moreover obtain r h where "connect_input tgt src (g_nodes g) = (r, h)" by fastforce
  ultimately show thesis
    using that assms by (auto simp: add_edge_def Let_def simp del: kind.simps split: if_splits sum.splits)
qed

text \<open>The graph after \<open>k\<close> edges.\<close>

definition edges_inv :: "float_env \<Rightarrow> nat \<Rightarrow> parsing \<Rightarrow> bool" where
  "edges_inv e k g \<longleftrightarrow> wf_heap e (g_nodes g) \<and> indexes_ok g \<and> names_ok g \<and> options_in_range e (g_nodes g)
     \<and> (\<forall>p < length (g_nodes g). \<forall>inputs. n_body (g_nodes g ! p) = Mixer inputs \<longrightarrow> length inputs \<le> k)
     \<and> uncounted (g_nodes g)"

lemma edges_inv_left:
  assumes "edges_inv e k g" and "k < m" and "m * n < 2 ^ 31"
  shows "frames_left m n (g_nodes g)"
proof (rule uncounted_left)
  show "uncounted (g_nodes g)" using assms(1) by (simp add: edges_inv_def)
  fix p
  assume "p < length (g_nodes g)"
  then have "length inputs \<le> k" if "n_body (g_nodes g ! p) = Mixer inputs" for inputs
    using assms(1) that by (simp add: edges_inv_def)
  then show "pulls (g_nodes g) p \<le> m" using assms(2) by (auto simp: pulls_def Suc_le_eq intro: order_le_less_trans split: node_body.split)
qed (rule assms(3))

lemma add_edge_inv:
  assumes "add_edge src_id tgt_id g = Inr (Inr g')" and "edges_inv e k g" and "k < 65535"
  shows "edges_inv e (Suc k) g'"
proof -
  obtain src tgt where s: "map_of (g_node_map g) src_id = Some src" "map_of (g_node_map g) tgt_id = Some tgt"
      "g' = g\<lparr>g_nodes := snd (connect_input tgt src (g_nodes g))\<rparr>"
    using add_edge_ok [OF assms(1)] by blast
  let ?h = "g_nodes g"
  have b: "src < length ?h" "tgt < length ?h" using assms(2) s by (auto simp: edges_inv_def names_ok_def)
  note frame = connect_input_frame [OF b(2) _ refl]
  have len: "length (g_nodes g') = length ?h" using frame(1) [OF b(1)] s(3) by simp
  have opt: "options_ok e gn sh" if "n_body (?h ! src) = FileOptions gn sh" for gn sh
    using assms(2) b(1) that by (simp add: edges_inv_def options_in_range_nth)
  have mix: "length inputs < 65535" if "n_body (?h ! tgt) = Mixer inputs" for inputs
    using assms(2,3) b(2) that by (fastforce simp: edges_inv_def)
  have "wf_heap e (g_nodes g')"
    using connect_input_wf [of e ?h tgt src] assms(2) b opt mix s(3) by (simp add: edges_inv_def)
  moreover have "indexes_ok g'"
  proof -
    have "ptr_ok (g_nodes g') knd p = ptr_ok ?h knd p" for knd p
      using frame(2) [of p src] len by (auto simp: ptr_ok_def s(3) simp del: kind.simps)
    then show ?thesis using assms(2) len s(3) by (simp add: edges_inv_def indexes_ok_def)
  qed
  moreover have "names_ok g'" using assms(2) len s(3) by (simp add: edges_inv_def names_ok_def)
  moreover have "options_in_range e (g_nodes g')"
    using assms(2) frame(4) s(3) len by (simp add: edges_inv_def options_in_range_nth)
  moreover have "length inputs \<le> Suc k" if p: "p < length (g_nodes g')" and m: "n_body (g_nodes g' ! p) = Mixer inputs" for p inputs
  proof -
    obtain inputs0 where "n_body (?h ! p) = Mixer inputs0" "length inputs \<le> Suc (length inputs0)"
      using frame(5) [of p src inputs] p m s(3) len by auto
    moreover have "length inputs0 \<le> k" using assms(2) p len calculation(1) by (auto simp: edges_inv_def)
    ultimately show ?thesis by simp
  qed
  moreover have "uncounted (g_nodes g')" using assms(2) frame(3) [OF b(1)] s(3) by (simp add: edges_inv_def)
  ultimately show ?thesis by (auto simp: edges_inv_def)
qed

lemma add_edge_options:
  assumes "add_edge src_id tgt_id g = Inr (Inr g')" and "names_ok g"
  shows "options_in_range e (g_nodes g') = options_in_range e (g_nodes g) \<and> names_ok g'"
proof -
  obtain src tgt where s: "map_of (g_node_map g) tgt_id = Some tgt" "g' = g\<lparr>g_nodes := snd (connect_input tgt src (g_nodes g))\<rparr>"
    using add_edge_ok [OF assms(1)] by metis
  then have b: "tgt < length (g_nodes g)" using assms(2) by (auto simp: names_ok_def)
  have len: "length (g_nodes g') = length (g_nodes g)" using connect_input_frame(1) [OF b b refl] s(2) by simp
  then show ?thesis
    using connect_input_frame(4) [OF b _ refl] s(2) assms(2) by (simp add: options_in_range_nth names_ok_def)
qed

lemma parse_edges_inv:
  assumes "parse_edges pe vs g = Inr (Inr g')" and "edges_inv e k g" and "k + length vs \<le> 65535"
  shows "edges_inv e (k + length vs) g'"
  using assms
proof (induction vs arbitrary: g k)
  case (Cons v vs)
  then obtain a b g1 where a: "add_edge a b g = Inr (Inr g1)" and r: "parse_edges pe vs g1 = Inr (Inr g')"
    by (auto simp: pbind_ok split: option.splits)
  then show ?case using Cons.IH [OF r add_edge_inv [OF a Cons.prems(2)]] Cons.prems(3) by simp
qed simp

lemma parse_edges_options:
  assumes "parse_edges pe vs g = Inr (Inr g')" and "names_ok g"
  shows "options_in_range e (g_nodes g') = options_in_range e (g_nodes g)"
  using assms
proof (induction vs arbitrary: g)
  case (Cons v vs)
  then obtain a b g1 where a: "add_edge a b g = Inr (Inr g1)" and r: "parse_edges pe vs g1 = Inr (Inr g')"
    by (auto simp: pbind_ok split: option.splits)
  then show ?case using Cons.IH [OF r] add_edge_options [OF a Cons.prems(2)] by simp
qed simp

lemma parse_edges_start:
  assumes "parse_edges pe vs g = Inr (Inr g')"
  shows "g_start_node g' = g_start_node g"
  using assms
proof (induction vs arbitrary: g)
  case (Cons v vs)
  then obtain a b h where a: "add_edge a b g = Inr (Inr h)" and r: "parse_edges pe vs h = Inr (Inr g')"
    by (auto simp: pbind_ok split: option.splits)
  have "g_start_node h = g_start_node g" using a by (auto elim!: add_edge_ok)
  then show ?case using Cons.IH [OF r] by simp
qed simp

lemma parse_graph_inv:
  assumes "parse_graph builtin_factory pe request = Inr (Inr g)"
    and "map_of request ''flow'' = Some (JObject flow)" and "map_of flow ''edges'' = Some (JArray edges)"
    and "length edges \<le> 65535" and "options_in_range e (g_nodes g)"
  shows "wf_heap e (g_nodes g) \<and> indexes_ok g \<and> g_start_node g \<noteq> None
    \<and> (\<forall>m n. length edges < m \<longrightarrow> m * n < 2 ^ 31 \<longrightarrow> frames_left m n (g_nodes g))"
proof -
  obtain nodes g1 g2 g3 where g1: "parse_nodes builtin_factory pe nodes empty_parsing = Inr (Inr g1)"
      and g2: "set_start_node pe flow g1 = Inr (Inr g2)" and g3: "parse_edges pe edges g2 = Inr (Inr g3)" and g: "g = graph.truncate g3"
    using assms(1-3) by (auto simp: parse_graph_def pbind_ok require_json_Inr_iff)
  have i1: "indexes_ok g1 \<and> names_ok g1 \<and> (\<forall>nd\<in>set (g_nodes g1). fresh_node nd)"
    using parse_nodes_inv [OF g1] by (simp add: empty_parsing_def indexes_ok_def names_ok_def)
  obtain p where p: "g2 = g1\<lparr>g_start_node := Some p\<rparr>" "p < length (g_nodes g1)"
    using g2 i1 by (auto simp: set_start_node_def pbind_ok names_ok_def split: option.splits)
  have n2: "names_ok g2" using i1 p(1) by (simp add: names_ok_def)
  have "options_in_range e (g_nodes g2)"
    using parse_edges_options [OF g3 n2] assms(5) g by (simp add: graph.defs)
  moreover have "length inputs \<le> 0" if "q < length (g_nodes g2)" "n_body (g_nodes g2 ! q) = Mixer inputs" for q inputs
    using fresh_mixer [of "g_nodes g1 ! q"] i1 that p(1) by simp
  ultimately have "edges_inv e 0 g2"
    using i1 p fresh_uncounted [of "g_nodes g1"] fresh_wf [of "g_nodes g1" e] n2 by (fastforce simp: edges_inv_def indexes_ok_def)
  then have "edges_inv e (length edges) g3" using parse_edges_inv [OF g3] assms(4) by fastforce
  moreover have "g_start_node g3 = Some p" using parse_edges_start [OF g3] p(1) by simp
  moreover have "frames_left m n (g_nodes g)" if "length edges < m" "m * n < 2 ^ 31" for m n
    using edges_inv_left [OF calculation(1) that] g by (simp add: graph.defs)
  ultimately show ?thesis using g by (simp add: edges_inv_def indexes_ok_def graph.defs)
qed

section \<open>The example of the README\<close>

definition readme_request :: "(string \<times> json) list \<Rightarrow> json_object" where
  "readme_request options = [(''flow'', JObject
     [(''start_node'', JObject [(''id'', JString ''mixer1'')]),
      (''nodes'', JArray
        [JObject [(''id'', JString ''file1''), (''type'', JString ''fileInput''), (''data'', JObject [(''fileName'', JString ''input.wav'')])],
         JObject [(''id'', JString ''gain1''), (''type'', JString ''fileOptions''), (''data'', JObject options)],
         JObject [(''id'', JString ''mixer1''), (''type'', JString ''mixer''), (''data'', JObject [])],
         JObject [(''id'', JString ''out''), (''type'', JString ''clients''),
           (''data'', JObject [(''clients'', JArray [JObject [(''ip'', JString ''127.0.0.1''), (''port'', JInt64 4000)]])])]]),
      (''edges'', JArray
        [JObject [(''source'', JString ''gain1''), (''target'', JString ''file1'')],
         JObject [(''source'', JString ''file1''), (''target'', JString ''mixer1'')],
         JObject [(''source'', JString ''mixer1''), (''target'', JString ''out'')]])])]"

definition exact_parse_env :: parse_env where
  "exact_parse_env = \<lparr>pe_what = (\<lambda>j. ''''), pe_rnd64 = (\<lambda>x. x), pe_rnd32 = (\<lambda>x. x), pe_to_double = Some\<rparr>"

lemmas parse_eval = readme_request_def exact_parse_env_def parse_graph_def require_json_def empty_parsing_def
  builtin_creators factory_create_def add_node_def set_start_node_def add_edge_def parse_port_def Let_def
  create_file_input_def create_mixer_def create_clients_def create_file_options_def clients_add_client_def
  new_file_input_def new_mixer_def new_clients_def new_file_options_def new_node_def DOWNLOADS_DIR_def
  connect_input_defs wire_standard_def upd_def set_next_def set_options_def

lemma readme_graph:
  "\<exists>g. parse_graph builtin_factory exact_parse_env (readme_request [(''gain'', JDouble 0.8), (''pitch_shift'', JInt64 0)]) = Inr (Inr g)
     \<and> options_in_range ideal_float (g_nodes g)"
  by (simp add: parse_eval graph.defs options_in_range_def options_ok_def ideal_float_def)

text \<open>A session made from a well-formed graph.\<close>

lemma created_session_ok:
  assumes "wf_heap (v_float v) (g_nodes g)" and "indexes_ok g" and "g_start_node g \<noteq> None"
    and "session_create v ident g crypto draws webrtc janus_ip janus_port encrypted = Inr (Inr s)"
  shows "session_ok v (attach_observer s)"
proof -
  obtain p where p: "g_start_node g = Some p" "p < length (g_nodes g)" using assms(2,3) by (auto simp: indexes_ok_def)
  show ?thesis
    using assms(1,4) p
    by (auto simp: session_create_def new_session_def executor_create_def transform_Inr_iff Let_def session_ok_def
        executor_inv_def attach_observer_def inv_intros split: if_splits intro: streamer_inv_setup_security [OF streamer_inv_create])
qed

lemma created_heap:
  assumes "session_create v ident g crypto draws webrtc janus_ip janus_port encrypted = Inr (Inr s)"
  shows "heap_of (attach_observer s) = g_nodes g"
  using assms by (auto simp: session_create_def new_session_def executor_create_def transform_Inr_iff Let_def heap_of_def
      attach_observer_def split: if_splits)

section \<open>Properties\<close>

text \<open>C20: A request that is accepted, with options in range and at most 65535 edges, is a well-formed graph
  whose indexes and whose start node point at nodes of their kinds.\<close>

theorem accepted_request_wf:
  assumes "parse_graph builtin_factory pe request = Inr (Inr g)"
    and "map_of request ''flow'' = Some (JObject flow)" and "map_of flow ''edges'' = Some (JArray edges)"
    and "length edges \<le> 65535" and "options_in_range e (g_nodes g)"
  shows "wf_heap e (g_nodes g) \<and> indexes_ok g \<and> g_start_node g \<noteq> None"
  using parse_graph_inv [OF assms] by blast

lemma readme_flow:
  "\<exists>flow edges. map_of (readme_request opts) ''flow'' = Some (JObject flow) \<and> map_of flow ''edges'' = Some (JArray edges)
     \<and> length edges \<le> 65535"
  by (simp add: readme_request_def)

lemma accepted_request_wf_witness:
  "\<exists>g. parse_graph builtin_factory exact_parse_env (readme_request [(''gain'', JDouble 0.8), (''pitch_shift'', JInt64 0)]) = Inr (Inr g)
     \<and> wf_heap ideal_float (g_nodes g)"
proof -
  let ?r = "readme_request [(''gain'', JDouble 0.8), (''pitch_shift'', JInt64 0)]"
  obtain g where g: "parse_graph builtin_factory exact_parse_env ?r = Inr (Inr g)" "options_in_range ideal_float (g_nodes g)"
    using readme_graph by blast
  obtain flow edges where "map_of ?r ''flow'' = Some (JObject flow)" "map_of flow ''edges'' = Some (JArray edges)" "length edges \<le> 65535"
    using readme_flow by blast
  then show ?thesis using accepted_request_wf [OF g(1) _ _ _ g(2)] g(1) by blast
qed

text \<open>C4: From the request to the stream: whatever happens to it, a session that was created from an accepted
  request with options in range does not reach undefined behaviour, as long as it has not ticked so
  often that the \<open>int\<close> counters of its nodes overflow: for a request of less than \<open>m\<close> edges, that is for
  at least \<open>2 ^ 31 div m\<close> ticks of 20 ms.\<close>

theorem accepted_request_never_crashes:
  assumes "parse_graph builtin_factory pe request = Inr (Inr g)"
    and "map_of request ''flow'' = Some (JObject flow)" and "map_of flow ''edges'' = Some (JArray edges)"
    and "length edges \<le> 65535" and "options_in_range (v_float v) (g_nodes g)" and "float_ok (v_float v)"
    and "session_create v ident g crypto draws webrtc janus_ip janus_port encrypted = Inr (Inr s)"
    and "session_run v (attach_observer s) ls s'"
    and "length edges < m" and "m * length (filter is_tick ls) < 2 ^ 31"
  shows "se_control s' \<noteq> Crashed"
proof -
  have g: "wf_heap (v_float v) (g_nodes g)" "indexes_ok g" "g_start_node g \<noteq> None" "frames_left m (length (filter is_tick ls)) (g_nodes g)"
    using parse_graph_inv [OF assms(1-5)] assms(9,10) by blast+
  have "session_ok v (attach_observer s)" by (rule created_session_ok [OF g(1-3) assms(7)])
  moreover have "heap_of (attach_observer s) = g_nodes g" by (rule created_heap [OF assms(7)])
  ultimately show ?thesis using session_ok_run [OF assms(8,6), of m 0] g(4) by (simp add: session_ok_def)
qed

lemma accepted_request_never_crashes_witness:
  "\<exists>g s. parse_graph builtin_factory exact_parse_env (readme_request [(''gain'', JDouble 0.8), (''pitch_shift'', JInt64 0)]) = Inr (Inr g)
     \<and> session_create demo_env ''s'' g \<lparr>cf_master_key = [], cf_salt = []\<rparr> \<lparr>dr_ssrc = 1, dr_seq = 0, dr_ts = 0\<rparr> False '''' None False = Inr (Inr s)
     \<and> se_control (after_prepare demo_env [Some (Inr ())] (start_session (attach_observer s))) \<noteq> Crashed"
proof -
  let ?r = "readme_request [(''gain'', JDouble 0.8), (''pitch_shift'', JInt64 0)]"
  obtain g where g: "parse_graph builtin_factory exact_parse_env ?r = Inr (Inr g)" "options_in_range ideal_float (g_nodes g)"
    using readme_graph by blast
  obtain flow edges where f: "map_of ?r ''flow'' = Some (JObject flow)" "map_of flow ''edges'' = Some (JArray edges)" "length edges \<le> 65535"
    using readme_flow by blast
  have "g_start_node g \<noteq> None" using parse_graph_inv [OF g(1) f g(2)] by blast
  then obtain s where s: "session_create demo_env ''s'' g \<lparr>cf_master_key = [], cf_salt = []\<rparr> \<lparr>dr_ssrc = 1, dr_seq = 0, dr_ts = 0\<rparr> False '''' None False = Inr (Inr s)"
      and n: "se_control s = NotStarted"
    by (auto simp: session_create_def executor_create_def new_session_def)
  have "session_run demo_env (attach_observer s) [Start, Prepared [Some (Inr ())]] (after_prepare demo_env [Some (Inr ())] (start_session (attach_observer s)))"
    using n by (intro sr_cons [OF ss_start] sr_cons [OF ss_prepared] sr_nil) (simp_all add: attach_observer_def start_session_def)
  then have "se_control (after_prepare demo_env [Some (Inr ())] (start_session (attach_observer s))) \<noteq> Crashed"
    using accepted_request_never_crashes [OF g(1) f _ _ s, where m = "Suc (length edges)"] g(2) float_ok_ideal by (simp add: demo_env_def)
  then show ?thesis using g(1) s by blast
qed

text \<open>The request that the README gives as the example is refused: its \<open>fileOptions\<close> node has no
  \<open>pitch_shift\<close>, which the creator requires.\<close>

theorem readme_example_refused:
  "parse_graph builtin_factory exact_parse_env (readme_request [(''gain'', JDouble 0.8)])
     = Inr (Inl (error_info_From ParseError ''Missing required key: pitch_shift''))"
  by (simp add: parse_eval perr_def)

text \<open>A port given as a number is cut to its low 16 bits, whatever it is; as text it is in range or refused.\<close>

theorem port_truncated:
  "\<exists>p. parse_port (JInt64 i) ip = Inr p \<and> int (unat p) = i mod 65536"
  by (simp add: parse_port_def unsigned_of_int take_bit_eq_mod)

text \<open>A delay is taken in milliseconds: a request for a delay of less than twenty is a node of zero frames.\<close>

theorem delay_in_milliseconds:
  assumes "map_of data ''delay'' = Some (JDouble x)" and "0 \<le> x" and "x < 20"
  shows "\<exists>nd. create_delay exact_parse_env data = Inr (Inr nd) \<and> n_total_frames nd = 0"
proof -
  let ?n = "nat (truncate_rat x)"
  have "?n < 20" using assms(2,3) by (simp add: truncate_rat_def nat_less_iff floor_less_iff)
  then show ?thesis
    using assms new_delay_total [OF rnd_ok_id, of ?n] by (simp add: create_delay_def require_json_def exact_parse_env_def)
qed

lemma delay_in_milliseconds_witness:
  "\<exists>nd. create_delay exact_parse_env [(''delay'', JDouble 1.5)] = Inr (Inr nd) \<and> n_total_frames nd = 0"
  by (rule delay_in_milliseconds [of _ "1.5"]) simp_all

end
