(* ===== verification/Http_Properties.thy ===== *)
theory Http_Properties
  imports Http Json_Properties
begin

text \<open>What the router answers, and what a request does to the registry of the sessions.\<close>

section \<open>Dispatch\<close>

lemma starts_withE:
  assumes "starts_with p path"
  obtains rest where "path = p @ rest"
  using assms that [of "drop (length p) path"] unfolding starts_with_def by (metis append_take_drop_id)

lemmas dispatch_eval = match_route_def routes_def starts_with_def Let_def

lemma dispatch_stop:
  "try_routes req res ro (''/stop/'' @ rest) (routes env rd req) =
     (if hq_method req = ''POST'' then handle_stop (re_api env) req res ro else (route_fail 405 ''Method must be POST'', res, ro))"
  by (simp add: dispatch_eval)

lemma dispatch_pause:
  "try_routes req res ro (''/pause/'' @ rest) (routes env rd req) =
     (if hq_method req = ''POST'' then handle_pause (re_api env) req res ro else (route_fail 405 ''Method must be POST'', res, ro))"
  by (simp add: dispatch_eval)

lemma dispatch_resume:
  "try_routes req res ro (''/resume/'' @ rest) (routes env rd req) =
     (if hq_method req = ''POST'' then handle_resume (re_api env) req res ro else (route_fail 405 ''Method must be POST'', res, ro))"
  by (simp add: dispatch_eval)

lemma dispatch_connect:
  "try_routes req res ro (''/connect/'' @ rest) (routes env rd req) =
     (if hq_method req = ''GET'' then handle_websocket_request (re_api env) rd req res ro else (route_fail 405 ''Method must be GET'', res, ro))"
  by (simp add: dispatch_eval)

lemma try_routes_cases:
  "try_routes req res ro path rs = (route_fail 404 ''Route not found'', res, ro)
   \<or> (\<exists>verb. try_routes req res ro path rs = (route_fail 405 (''Method must be '' @ verb), res, ro))
   \<or> (\<exists>r\<in>set rs. try_routes req res ro path rs = snd (snd r) res ro)"
proof (induction rs)
  case (Cons r rs)
  have "match_route req res ro path r = None \<or> (\<exists>verb. match_route req res ro path r = Some (route_fail 405 (''Method must be '' @ verb), res, ro))
    \<or> match_route req res ro path r = Some (snd (snd r) res ro)"
    by (cases r) (auto simp: match_route_def Let_def)
  then show ?case using Cons.IH by (elim disjE exE bexE) (simp; blast)+
qed simp

lemma dispatch_cases:
  obtains (unknown) "try_routes req res ro path (routes env rd req) = (route_fail 404 ''Route not found'', res, ro)"
  | (wrong) verb where "try_routes req res ro path (routes env rd req) = (route_fail 405 (''Method must be '' @ verb), res, ro)"
  | (create) ty where "try_routes req res ro path (routes env rd req) = process_session_request env rd req res ty ro"
  | (connect) "try_routes req res ro path (routes env rd req) = handle_websocket_request (re_api env) rd req res ro"
  | (stop) "try_routes req res ro path (routes env rd req) = handle_stop (re_api env) req res ro"
  | (pause) "try_routes req res ro path (routes env rd req) = handle_pause (re_api env) req res ro"
  | (resume) "try_routes req res ro path (routes env rd req) = handle_resume (re_api env) req res ro"
  | (metrics) "try_routes req res ro path (routes env rd req) = handle_metrics (re_api env) req res ro"
proof -
  define r where "r = try_routes req res ro path (routes env rd req)"
  have "\<exists>x\<in>set (routes env rd req). r = snd (snd x) res ro \<Longrightarrow> thesis"
    by (auto simp: routes_def handle_transmit_def handle_secure_transmit_def handle_webrtc_request_def r_def intro: that)
  then show thesis using try_routes_cases [of req res ro path "routes env rd req"] that(1,2) unfolding r_def by blast
qed

section \<open>Handlers\<close>

definition answered :: "http_response \<Rightarrow> bool" where
  "answered res \<longleftrightarrow> hr_result res \<in> {200, 400, 404, 405, 409, 500, 502} \<and> hr_length res = Some (length (hr_body res))"

lemma field_frame [simp]:
  "hr_result (set_field n v res) = hr_result res" "hr_body (set_field n v res) = hr_body res"
  "hr_version (set_field n v res) = hr_version res" "hr_keep_alive (set_field n v res) = hr_keep_alive res"
  "hr_result (set_standard_headers api res) = hr_result res" "hr_keep_alive (set_standard_headers api res) = hr_keep_alive res"
  "hr_version (set_standard_headers api res) = hr_version res"
  by (simp_all add: set_field_def set_standard_headers_def)

lemma built [simp]:
  "hr_result (build_success_response api res i v k) = 200" "answered (build_success_response api res i v k)"
  "hr_keep_alive (build_success_response api res i v k) = k"
  "hr_result (build_error_response api res m v k c) = c"
  "hr_body (build_error_response api res m v k c) = ha_serialize api (JObject [(''status'', JString ''error''), (''message'', JString m)])"
  "hr_length (build_error_response api res m v k c) = Some (length (hr_body (build_error_response api res m v k c)))"
  "answered (build_plaintext_response api res t v k)" "answered (build_options_response api res v k)"
  by (simp_all add: build_success_response_def build_error_response_def build_plaintext_response_def build_options_response_def
      answered_def with_status_def prepare_payload_def Let_def)

lemma map_app_error_codes: "map_app_error c \<in> {400, 409, 500, 502}"
  by (cases c) simp_all

text \<open>What holds of the outcome of a handler.\<close>

definition handled_ok :: "http_request \<Rightarrow> http_response \<Rightarrow> 'ep router \<Rightarrow> 'ep handled \<Rightarrow> bool" where
  "handled_ok req res ro h = (case h of (r, res', ro') \<Rightarrow>
     registry_inv (ro_active ro') \<and> ro_http_requests_total ro' = ro_http_requests_total ro
     \<and> (\<forall>e. r = Inr (Inl e) \<longrightarrow> re_code e \<in> {400, 404, 405, 409, 500, 502})
     \<and> (r = Inr (Inr ()) \<longrightarrow> answered res' \<or> hq_upgrade req \<and> res' = res))"

lemma create_session_json_cases:
  assumes "create_session_json env rd obj ty st = (r, st')"
  obtains (counted) "st' = counted st" "\<forall>x. r \<noteq> Inr x"
  | (ran) g r0 where "parse_graph (re_factory env) (re_parse_env env) obj = Inr g"
      "create_session (re_session_env env) (re_cfg env) (rd_stream rd) (rd_session_id rd) g ty st = (r0, st')"
      "\<And>x. r = Inr x \<longleftrightarrow> r0 = Inr x"
proof (cases "parse_graph (re_factory env) (re_parse_env env) obj")
  case (Inl f)
  then show thesis using assms counted by (cases f) (auto simp: create_session_json_def)
next
  case (Inr g)
  obtain r0 st0 where c: "create_session (re_session_env env) (re_cfg env) (rd_stream rd) (rd_session_id rd) g ty st = (r0, st0)" by fastforce
  then show thesis
    using assms Inr ran [OF Inr] by (cases r0; cases "projl r0") (auto simp: create_session_json_def)
qed

lemma create_session_json_inv:
  assumes "registry_inv st" and "create_session_json env rd obj ty st = (r, st')"
  shows "registry_inv st'"
  using assms(2)
proof (cases rule: create_session_json_cases)
  case counted
  then show ?thesis using assms(1) by (auto intro: registry_inv_cong)
next
  case (ran g r0)
  then show ?thesis using create_session_inv [OF assms(1)] by blast
qed

lemma process_session_request_ok:
  assumes "registry_inv (ro_active ro)"
  shows "handled_ok req res ro (process_session_request env rd req res ty ro)"
proof (cases "\<exists>obj. ha_parse (re_api env) (hq_body req) = Some (JObject obj)")
  case True
  then obtain obj where o: "ha_parse (re_api env) (hq_body req) = Some (JObject obj)" by blast
  obtain r st where c: "create_session_json env rd obj ty (ro_active ro) = (r, st)" by fastforce
  have "registry_inv st" by (rule create_session_json_inv [OF assms c])
  then show ?thesis
    using o c map_app_error_codes
    by (auto simp: process_session_request_def handled_ok_def route_fail_def split: sum.split)
next
  case False
  then show ?thesis using assms
    by (auto simp: process_session_request_def handled_ok_def route_fail_def split: option.split)
qed

lemma extract_codes: "extract_session_id api req = Inr (Inl e) \<Longrightarrow> re_code e = 400"
  by (auto simp: extract_session_id_def route_fail_def split: sum.splits option.splits prod.splits)

lemma answer_status_ok:
  "answer_status api req res i status = (if status = SessionNotFound then (route_fail 404 ''Session ID not found'', res)
     else (Inr (Inr ()), build_success_response api res i (hq_version req) False))"
  by (simp add: answer_status_def split: session_op_status.split)

lemma control_handlers_ok:
  assumes "registry_inv (ro_active ro)"
  shows "handled_ok req res ro (handle_stop api req res ro)" and "handled_ok req res ro (handle_pause api req res ro)"
    and "handled_ok req res ro (handle_resume api req res ro)"
  using assms active.inv_remove [OF assms] active.inv_pause [OF assms] active.inv_resume [OF assms]
  by (auto simp: handle_stop_def handle_pause_def handle_resume_def handled_ok_def Let_def answer_status_ok split_def
      route_fail_def dest: extract_codes split: sum.split)

lemma handle_websocket_request_ok:
  assumes "registry_inv (ro_active ro)"
  shows "handled_ok req res ro (handle_websocket_request api rd req res ro)"
proof -
  have "registry_inv st" if "create_and_run_websocket_session i (rd_websocket rd) (ro_active ro) = (r, st)" for i r st
    using connect_inv [OF assms that] .
  then show ?thesis
    using assms map_app_error_codes
    by (auto simp: handle_websocket_request_def handled_ok_def route_fail_def dest: extract_codes split: sum.split prod.split)
qed

lemma routed_ok:
  assumes "registry_inv (ro_active ro)"
  shows "handled_ok req res ro (try_routes req res ro path (routes env rd req))"
proof (cases rule: dispatch_cases [of req res ro path env rd])
  case metrics
  then show ?thesis using assms by (simp add: handle_metrics_def handled_ok_def)
next
  case (create ty)
  then show ?thesis using process_session_request_ok [OF assms] by simp
next
  case connect
  then show ?thesis using handle_websocket_request_ok [OF assms] by simp
qed (use control_handlers_ok [OF assms] assms in \<open>simp_all add: handled_ok_def route_fail_def\<close>)

section \<open>Properties\<close>

text \<open>C28: Every request that is routed is answered: with one of seven statuses and a body of the length that the
  response announces, unless it was an upgrade that was accepted; it is counted, and the registry
  stays well formed.\<close>

theorem every_request_answered:
  assumes "registry_inv (ro_active ro)" and "route_query env rd req res ro = Some (res', ro')"
  shows "(answered res' \<or> hq_upgrade req \<and> res' = res) \<and> registry_inv (ro_active ro')
    \<and> ro_http_requests_total ro' = ro_http_requests_total ro + 1"
proof -
  let ?ro = "ro\<lparr>ro_http_requests_total := ro_http_requests_total ro + 1\<rparr>"
  obtain result res1 ro1 where h: "(case ha_url (re_api env) (hq_target req) of
      Inl what \<Rightarrow> (Inl (Thrown what), res, ?ro) | Inr (path, params) \<Rightarrow> try_routes req res ?ro path (routes env rd req)) = (result, res1, ro1)"
    by (metis prod_cases3)
  have "registry_inv (ro_active ro1) \<and> ro_http_requests_total ro1 = ro_http_requests_total ro + 1
      \<and> (\<forall>e. result = Inr (Inl e) \<longrightarrow> re_code e \<in> {400, 404, 405, 409, 500, 502})
      \<and> (result = Inr (Inr ()) \<longrightarrow> answered res1 \<or> hq_upgrade req \<and> res1 = res)"
    using h routed_ok [of ?ro req res] assms(1)
    by (fastforce simp: handled_ok_def split: sum.splits prod.splits)
  then show ?thesis
    using assms(2) h
    by (auto simp: route_query_def conclude_def Let_def answered_def split: sum.splits escape.splits)
qed

text \<open>C27: Stopping, pausing and resuming over HTTP: a POST with an \<open>id\<close> answers 404 exactly when there is no such
  session, and otherwise 200 after that session, and no other, was removed, paused or resumed.\<close>

theorem control_request:
  assumes "registry_inv (ro_active ro)" and "ha_url (re_api env) (hq_target req) = Inr (path, params)"
    and "map_of params ''id'' = Some i" and "hq_method req = ''POST''"
    and "starts_with ''/stop/'' path \<or> starts_with ''/pause/'' path \<or> starts_with ''/resume/'' path"
  shows "\<exists>res' ro'. route_query env rd req res ro = Some (res', ro')
    \<and> hr_result res' = (if registry (ro_active ro) i = None then 404 else 200)
    \<and> registry (ro_active ro') = (registry (ro_active ro))(i :=
        if starts_with ''/stop/'' path then None
        else map_option (if starts_with ''/pause/'' path then pause else resume) (registry (ro_active ro) i))"
proof -
  let ?ro = "ro\<lparr>ro_http_requests_total := ro_http_requests_total ro + 1\<rparr>"
  have id: "extract_session_id (re_api env) req = Inr (Inr i)" using assms(2,3) by (simp add: extract_session_id_def)
  consider (stop) rest where "path = ''/stop/'' @ rest" | (pause) rest where "path = ''/pause/'' @ rest"
    | (resume) rest where "path = ''/resume/'' @ rest" using assms(5) starts_withE by metis
  then show ?thesis
  proof cases
    case stop
    have p: "starts_with ''/stop/'' path" using stop by (simp add: starts_with_def)
    show ?thesis
      using assms(2,4) id dispatch_stop [of req res ?ro rest env rd] active.lookup_remove [OF assms(1), of i] active.status_remove [OF assms(1), of i]
      unfolding stop [symmetric]
      by (auto simp: route_query_def conclude_def Let_def handle_stop_def split_def answer_status_ok route_fail_def p)
  next
    case pause
    have p: "\<not> starts_with ''/stop/'' path" "starts_with ''/pause/'' path" using pause by (simp_all add: starts_with_def)
    show ?thesis
      using assms(2,4) id dispatch_pause [of req res ?ro rest env rd] active.lookup_pause [OF assms(1), of i] active.status_pause [OF assms(1), of i]
      unfolding pause [symmetric]
      by (auto simp: route_query_def conclude_def Let_def handle_pause_def split_def answer_status_ok route_fail_def p)
  next
    case resume
    have p: "\<not> starts_with ''/stop/'' path" "\<not> starts_with ''/pause/'' path" using resume by (simp_all add: starts_with_def)
    show ?thesis
      using assms(2,4) id dispatch_resume [of req res ?ro rest env rd] active.lookup_resume [OF assms(1), of i] active.status_resume [OF assms(1), of i]
      unfolding resume [symmetric]
      by (auto simp: route_query_def conclude_def Let_def handle_resume_def split_def answer_status_ok route_fail_def p)
  qed
qed

text \<open>C10: Creating a session over HTTP registers one session or none. An answer 200 means that exactly one session is added,
  not yet started, under the identifier that was drawn and that the answer names: if the identifier was free, there is one session more
  than before. Any other answer leaves the registered sessions as they were; the counter of sessions,
  the turn of the I/O contexts and the free ports may have moved even then. Web sockets and coroutines stay either way.\<close>

theorem creation_atomic:
  assumes "registry_inv (ro_active ro)" and "ha_url (re_api env) (hq_target req) = Inr (path, params)"
    and "starts_with ''/transmit/'' path \<or> starts_with ''/secure_transmit/'' path \<or> starts_with ''/preview/'' path"
    and "hq_method req = ''POST''" and "route_query env rd req res ro = Some (res', ro')"
  shows "(if hr_result res' = 200
     then (\<exists>s. se_id s = rd_session_id rd \<and> se_control s = NotStarted \<and> registry (ro_active ro') = (registry (ro_active ro))(rd_session_id rd \<mapsto> s))
       \<and> (registry (ro_active ro) (rd_session_id rd) = None \<longrightarrow> sessions_size (ro_active ro') = Suc (sessions_size (ro_active ro)))
       \<and> res' = build_success_response (re_api env) res (rd_session_id rd) (hq_version req) False
     else registry (ro_active ro') = registry (ro_active ro))
    \<and> as_websocket_sessions (ro_active ro') = as_websocket_sessions (ro_active ro) \<and> as_spawned (ro_active ro') = as_spawned (ro_active ro)"
proof -
  let ?ro = "ro\<lparr>ro_http_requests_total := ro_http_requests_total ro + 1\<rparr>"
  obtain ty where "try_routes req res ?ro path (routes env rd req) = process_session_request env rd req res ty ?ro"
    using assms(3,4) by (elim disjE starts_withE)
      (auto simp: dispatch_eval handle_transmit_def handle_secure_transmit_def handle_webrtc_request_def)
  then have q: "route_query env rd req res ro = conclude (re_api env) req (process_session_request env rd req res ty ?ro)"
    using assms(2) by (simp add: route_query_def)
  show ?thesis
  proof (cases "\<exists>obj. ha_parse (re_api env) (hq_body req) = Some (JObject obj)")
    case False
    then show ?thesis using assms(5) q
      by (auto simp: process_session_request_def route_fail_def conclude_def split: option.splits)
  next
    case True
    then obtain obj where o: "ha_parse (re_api env) (hq_body req) = Some (JObject obj)" by blast
    obtain r st where c: "create_session_json env rd obj ty (ro_active ro) = (r, st)" by fastforce
    let ?i = "rd_session_id rd" and ?old = "ro_active ro"
    have reg: "if r = Inr (Inr ?i)
          then (\<exists>s. se_id s = ?i \<and> se_control s = NotStarted \<and> registry st = (registry ?old)(?i \<mapsto> s))
            \<and> (registry ?old ?i = None \<longrightarrow> sessions_size st = Suc (sessions_size ?old))
          else registry st = registry ?old"
        and others: "as_websocket_sessions st = as_websocket_sessions ?old \<and> as_spawned st = as_spawned ?old"
        and only: "r = Inr (Inr i) \<Longrightarrow> i = ?i" for i
    proof -
      show "if r = Inr (Inr ?i)
          then (\<exists>s. se_id s = ?i \<and> se_control s = NotStarted \<and> registry st = (registry ?old)(?i \<mapsto> s))
            \<and> (registry ?old ?i = None \<longrightarrow> sessions_size st = Suc (sessions_size ?old))
          else registry st = registry ?old"
        using c
      proof (cases rule: create_session_json_cases)
        case counted
        then show ?thesis using registry_cong [of st ?old] by simp
      next
        case (ran g r0)
        show ?thesis
        proof (cases "r = Inr (Inr ?i)")
          case True
          then have "r0 = Inr (Inr ?i)" using ran(3) by simp
          then show ?thesis using True create_session_new [OF assms(1), of _ _ _ ?i _ _ ?i st] ran(2) by simp
        next
          case False
          then show ?thesis using create_session_registry [OF assms(1) ran(2)] ran(3) by simp
        qed
      qed
      show "as_websocket_sessions st = as_websocket_sessions ?old \<and> as_spawned st = as_spawned ?old"
        using c by (cases rule: create_session_json_cases) (simp_all add: counted_def create_session_others)
      show "i = ?i" if "r = Inr (Inr i)"
        using c
      proof (cases rule: create_session_json_cases)
        case (ran g r0)
        show ?thesis using ran(2)
          by (cases rule: create_session_cases) (use that ran(3) in auto)
      qed (use that in simp)
    qed
    moreover have "map_app_error e \<noteq> 200" for e using map_app_error_codes [of e] by auto
    ultimately show ?thesis
      using assms(5) q o c
      by (auto simp: process_session_request_def route_fail_def conclude_def split: sum.splits escape.splits if_splits)
  qed
qed

text \<open>The route to stop a session answers POST only: a DELETE, which the documentation of the router names,
  is refused with 405 and stops nothing.\<close>

theorem delete_stop_refused:
  assumes "ha_url (re_api env) (hq_target req) = Inr (''/stop/'', params)" and "hq_method req = ''DELETE''"
  shows "\<exists>res' ro'. route_query env rd req res ro = Some (res', ro') \<and> hr_result res' = 405 \<and> ro_active ro' = ro_active ro"
  using assms dispatch_stop [of req res "ro\<lparr>ro_http_requests_total := ro_http_requests_total ro + 1\<rparr>" "[]" env rd]
  by (simp add: route_query_def conclude_def Let_def route_fail_def)

section \<open>Witnesses\<close>

definition demo_api :: http_api where
  "demo_api = \<lparr>ha_url = (\<lambda>t. if t = ''/stop/?id=s'' then Inr (''/stop/'', [(''id'', ''s'')]) else if t = ''/stop/'' then Inr (t, []) else Inr (t, [])),
     ha_parse = (\<lambda>b. Some (JObject [])), ha_serialize = (\<lambda>j. ''{}''), ha_json_what = ''not an object'', ha_server = ''Beast''\<rparr>"

definition demo_router_env :: "nat router_env" where
  "demo_router_env = \<lparr>re_session_env = demo_env, re_cfg = default_config, re_factory = [],
     re_parse_env = \<lparr>pe_what = (\<lambda>j. ''''), pe_rnd64 = (\<lambda>x. x), pe_rnd32 = (\<lambda>x. x), pe_to_double = Some\<rparr>, re_api = demo_api\<rparr>"

definition demo_router :: "nat router" where
  "demo_router = \<lparr>ro_active = demo_registry, ro_http_requests_total = 0\<rparr>"

definition demo_draws :: request_draws where
  "demo_draws = \<lparr>rd_session_id = ''n'', rd_stream = \<lparr>dr_ssrc = 1, dr_seq = 0, dr_ts = 0\<rparr>, rd_websocket = 0\<rparr>"

definition demo_request :: "string \<Rightarrow> string \<Rightarrow> http_request" where
  "demo_request verb target = \<lparr>hq_method = verb, hq_target = target, hq_version = 11, hq_keep_alive = True, hq_upgrade = False, hq_body = ''{}''\<rparr>"

lemma demo_inv: "registry_inv (ro_active demo_router)"
  using demo_registry_inv by (simp add: demo_router_def)

lemma demo_registered: "registry (ro_active demo_router) ''s'' \<noteq> None"
  by (simp add: demo_router_def registry_def get_session_def demo_registry_def)

lemma demo_stop:
  "\<exists>res' ro'. route_query demo_router_env demo_draws (demo_request ''POST'' ''/stop/?id=s'') empty_response demo_router = Some (res', ro')"
  by (simp add: route_query_def conclude_def Let_def demo_router_env_def demo_api_def demo_request_def dispatch_eval handle_stop_def
      extract_session_id_def answer_status_ok split_def route_fail_def)

lemma every_request_answered_witness:
  "\<exists>res' ro'. route_query demo_router_env demo_draws (demo_request ''POST'' ''/stop/?id=s'') empty_response demo_router = Some (res', ro')
     \<and> answered res'"
  using demo_stop every_request_answered [OF demo_inv] by (fastforce simp: demo_request_def)

lemma control_request_witness:
  "\<exists>res' ro'. route_query demo_router_env demo_draws (demo_request ''POST'' ''/stop/?id=s'') empty_response demo_router = Some (res', ro')
     \<and> hr_result res' = 200 \<and> registry (ro_active ro') ''s'' = None"
proof -
  have u: "ha_url (re_api demo_router_env) (hq_target (demo_request ''POST'' ''/stop/?id=s'')) = Inr (''/stop/'', [(''id'', ''s'')])"
    "hq_method (demo_request ''POST'' ''/stop/?id=s'') = ''POST''"
    by (simp_all add: demo_router_env_def demo_api_def demo_request_def)
  have "\<exists>res' ro'. route_query demo_router_env demo_draws (demo_request ''POST'' ''/stop/?id=s'') empty_response demo_router = Some (res', ro')
    \<and> hr_result res' = (if registry (ro_active demo_router) ''s'' = None then 404 else 200)
    \<and> registry (ro_active ro') = (registry (ro_active demo_router))(''s'' :=
        if starts_with ''/stop/'' ''/stop/'' then None
        else map_option (if starts_with ''/pause/'' ''/stop/'' then pause else resume) (registry (ro_active demo_router) ''s''))"
    by (rule control_request [OF demo_inv u(1) _ u(2)]) (simp_all add: starts_with_def)
  then show ?thesis using demo_registered by (auto simp: starts_with_def)
qed

definition delay_request :: json_object where
  "delay_request = [(''flow'', JObject
     [(''start_node'', JObject [(''id'', JString ''d'')]),
      (''nodes'', JArray [JObject [(''id'', JString ''d''), (''type'', JString ''delay''), (''data'', JObject [(''delay'', JDouble 20)])]]),
      (''edges'', JArray [])])]"

definition delay_graph :: graph where
  "delay_graph = \<lparr>g_nodes = [(the (new_delay (\<lambda>x. x) 20))\<lparr>n_id := ''d''\<rparr>], g_start_node = Some 0, g_file_nodes = [], g_mixer_nodes = [], g_clients_node = None\<rparr>"

lemma delay_request_graph: "parse_graph builtin_factory exact_parse_env delay_request = Inr (Inr delay_graph)"
  by (simp add: delay_request_def delay_graph_def parse_eval create_delay_def truncate_rat_def new_delay_def cast_i32_def FRAME_DURATION_def graph.defs)

definition creating_env :: "nat router_env" where
  "creating_env = demo_router_env\<lparr>re_factory := builtin_factory, re_parse_env := exact_parse_env,
     re_api := demo_api\<lparr>ha_parse := (\<lambda>b. Some (JObject delay_request))\<rparr>\<rparr>"

text \<open>A creation that succeeds beside a registered session, and one that is refused.\<close>

lemma creation_atomic_witness:
  "(\<exists>res' ro'. route_query creating_env demo_draws (demo_request ''POST'' ''/transmit/'') empty_response demo_router = Some (res', ro')
     \<and> hr_result res' = 200 \<and> registry (ro_active ro') ''n'' \<noteq> None \<and> registry (ro_active ro') ''s'' = registry (ro_active demo_router) ''s''
     \<and> sessions_size (ro_active ro') = 2)
   \<and> (\<exists>res' ro'. route_query demo_router_env demo_draws (demo_request ''POST'' ''/transmit/'') empty_response demo_router = Some (res', ro')
     \<and> hr_result res' = 400 \<and> registry (ro_active ro') = registry (ro_active demo_router))"
proof -
  have v: "ha_url (re_api creating_env) (hq_target (demo_request ''POST'' ''/transmit/'')) = Inr (''/transmit/'', [])"
    "hq_method (demo_request ''POST'' ''/transmit/'') = ''POST''"
    by (simp_all add: creating_env_def demo_api_def demo_request_def)
  obtain res' ro' where q: "route_query creating_env demo_draws (demo_request ''POST'' ''/transmit/'') empty_response demo_router = Some (res', ro')"
      and c: "hr_result res' = 200"
    by (simp add: route_query_def conclude_def Let_def creating_env_def demo_router_env_def demo_api_def demo_request_def dispatch_eval handle_transmit_def
        process_session_request_def create_session_json_def delay_request_graph create_session_def split_def release_guard_def push_port_def
        session_create_def executor_create_def delay_graph_def new_session_def transform_def)
  have "registry (ro_active demo_router) ''n'' = None" "sessions_size (ro_active demo_router) = 1"
    by (simp_all add: demo_router_def registry_def get_session_def demo_registry_def sessions_size_def)
  then have "\<exists>res' ro'. route_query creating_env demo_draws (demo_request ''POST'' ''/transmit/'') empty_response demo_router = Some (res', ro')
     \<and> hr_result res' = 200 \<and> registry (ro_active ro') ''n'' \<noteq> None \<and> registry (ro_active ro') ''s'' = registry (ro_active demo_router) ''s''
     \<and> sessions_size (ro_active ro') = 2"
    using q c creation_atomic [OF demo_inv v(1) _ v(2) q] by (auto simp: starts_with_def demo_draws_def)
  moreover
  have u: "ha_url (re_api demo_router_env) (hq_target (demo_request ''POST'' ''/transmit/'')) = Inr (''/transmit/'', [])"
    "hq_method (demo_request ''POST'' ''/transmit/'') = ''POST''"
    by (simp_all add: demo_router_env_def demo_api_def demo_request_def)
  obtain res' ro' where q: "route_query demo_router_env demo_draws (demo_request ''POST'' ''/transmit/'') empty_response demo_router = Some (res', ro')"
      and c: "hr_result res' = 400"
    by (simp add: route_query_def conclude_def Let_def demo_router_env_def demo_api_def demo_request_def dispatch_eval handle_transmit_def
        process_session_request_def create_session_json_def parse_graph_def require_json_def lift_expected_def pbind_def
        create_session_def split_def route_fail_def error_info_From_def)
  then have "\<exists>res' ro'. route_query demo_router_env demo_draws (demo_request ''POST'' ''/transmit/'') empty_response demo_router = Some (res', ro')
     \<and> hr_result res' = 400 \<and> registry (ro_active ro') = registry (ro_active demo_router)"
    using creation_atomic [OF demo_inv u(1) _ u(2) q] by (auto simp: starts_with_def)
  ultimately show ?thesis by blast
qed

lemma delete_stop_refused_witness:
  "\<exists>res' ro'. route_query demo_router_env demo_draws (demo_request ''DELETE'' ''/stop/'') empty_response demo_router = Some (res', ro')
     \<and> hr_result res' = 405 \<and> ro_active ro' = ro_active demo_router"
  by (rule delete_stop_refused) (simp_all add: demo_router_env_def demo_api_def demo_request_def)

end
