(* ===== verification/Http_Session.thy ===== *)
theory Http_Session
  imports Http_Properties
begin

text \<open>
  \<open>network/http/HttpSession\<close>, one connection: a loop that reads a request, answers it and goes on while the
  request wants the connection kept. What the socket answers in one round of the loop is a parameter.
  Then \<open>network/http/Listener\<close> and \<open>network/http/Server\<close>.
\<close>

section \<open>The connection\<close>

text \<open>Reading the header ends the stream, fails or gives a request; then its body is read, which may fail.
  \<open>rn_version\<close> is the version of what was parsed so far.\<close>

datatype header_result = HeaderEof | HeaderFails string | GotRequest http_request

record round =
  rn_header :: header_result
  rn_body_ec :: "string option"
  rn_version :: nat
  rn_draws :: request_draws
  rn_write_ec :: "string option"
  rn_shutdown_ec :: "string option"

definition is_options_request :: "http_request \<Rightarrow> bool" where
  "is_options_request req \<longleftrightarrow> hq_method req = ''OPTIONS''"

text \<open>\<open>Ended\<close>: the coroutine has returned, and the socket is closed with the session.\<close>

datatype conn_state = Reading | Ended

record connection =
  cn_sent :: "http_response list"
  cn_state :: conn_state

definition http_session_create :: "'r option \<Rightarrow> (error_info, connection) expected" where
  "http_session_create router =
     (if router = None then Inl (error_info_From LogicError ''HttpSession requires a valid Router'')
      else Inr \<lparr>cn_sent = [], cn_state = Reading\<rparr>)"

text \<open>The request with its \<open>keep_alive\<close>.\<close>

definition do_read_request :: "round \<Rightarrow> (error_info, http_request \<times> bool) expected" where
  "do_read_request rn = (case rn_header rn of
     HeaderEof \<Rightarrow> Inl (error_info_From NetworkError ''End of Stream'')
   | HeaderFails message \<Rightarrow> Inl (error_info_From NetworkError message)
   | GotRequest req \<Rightarrow>
       (case (if is_options_request req then None else rn_body_ec rn) of
          Some message \<Rightarrow> Inl (error_info_From NetworkError message)
        | None \<Rightarrow> Inr (req, hq_keep_alive req)))"

definition do_write_response :: "string option \<Rightarrow> http_response \<Rightarrow> connection \<Rightarrow> (error_info, unit) expected \<times> connection" where
  "do_write_response ec res cn =
     (let res = prepare_payload res in
      case ec of
        Some e \<Rightarrow> (Inl (error_info_From NetworkError e), cn)
      | None \<Rightarrow> (Inr (), cn\<lparr>cn_sent := cn_sent cn @ [res]\<rparr>))"

definition handle_bad_request :: "http_api \<Rightarrow> string \<Rightarrow> nat \<Rightarrow> string option \<Rightarrow> connection \<Rightarrow> connection" where
  "handle_bad_request api error_msg version ec cn =
     snd (do_write_response ec (build_error_response api empty_response error_msg version False 400) cn)"

text \<open>The upgrade: whatever the router answers, its response is dropped and the loop ends. \<open>None\<close> is undefined
  behaviour, as in \<open>route_query\<close>.\<close>

definition handle_websocket_upgrade :: "'ep router_env \<Rightarrow> request_draws \<Rightarrow> http_request \<Rightarrow> 'ep router \<Rightarrow> (bool \<times> 'ep router) option" where
  "handle_websocket_upgrade env rd req ro =
     (if hq_upgrade req then map_option (\<lambda>(dummy_res, ro). (True, ro)) (route_query env rd req empty_response ro)
      else Some (False, ro))"

definition do_build_response :: "'ep router_env \<Rightarrow> request_draws \<Rightarrow> http_request \<Rightarrow> 'ep router \<Rightarrow> (http_response \<times> 'ep router) option" where
  "do_build_response env rd req ro =
     (if is_options_request req
      then Some (build_options_response (re_api env) empty_response (hq_version req) (hq_keep_alive req), ro)
      else route_query env rd req (empty_response\<lparr>hr_version := hq_version req, hr_keep_alive := hq_keep_alive req\<rparr>) ro)"

text \<open>Shutting down, draining and closing change nothing that the client has not received yet.\<close>

definition do_graceful_close :: "string option \<Rightarrow> (error_info, unit) expected" where
  "do_graceful_close ec = (case ec of Some e \<Rightarrow> Inl (error_info_From NetworkError e) | None \<Rightarrow> Inr ())"

definition process_single_request ::
  "'ep router_env \<Rightarrow> round \<Rightarrow> http_request \<Rightarrow> bool \<Rightarrow> connection \<times> 'ep router \<Rightarrow> (bool \<times> connection \<times> 'ep router) option" where
  "process_single_request env rn req keep_alive cr =
    (let (cn, ro) = cr in
     case do_build_response env (rn_draws rn) req ro of
       None \<Rightarrow> None
     | Some (res, ro) \<Rightarrow>
         (case do_write_response (rn_write_ec rn) res cn of
            (Inl e, cn) \<Rightarrow> Some (False, cn, ro)
          | (Inr u, cn) \<Rightarrow>
              if \<not> keep_alive then (let closed = do_graceful_close (rn_shutdown_ec rn) in Some (False, cn, ro))
              else Some (True, cn, ro)))"

text \<open>One round of the loop of \<open>do_session\<close>.\<close>

definition session_round :: "'ep router_env \<Rightarrow> round \<Rightarrow> connection \<times> 'ep router \<Rightarrow> (connection \<times> 'ep router) option" where
  "session_round env rn cr =
    (let (cn, ro) = cr in
     case do_read_request rn of
       Inl e \<Rightarrow>
         Some ((handle_bad_request (re_api env) (''Invalid Request: '' @ ei_message e) (rn_version rn) (rn_write_ec rn) cn)\<lparr>cn_state := Ended\<rparr>, ro)
     | Inr (req, keep_alive) \<Rightarrow>
         (case handle_websocket_upgrade env (rn_draws rn) req ro of
            None \<Rightarrow> None
          | Some (True, ro) \<Rightarrow> Some (cn\<lparr>cn_state := Ended\<rparr>, ro)
          | Some (False, ro) \<Rightarrow>
              (case process_single_request env rn req keep_alive (cn, ro) of
                 None \<Rightarrow> None
               | Some (go_on, cn, ro) \<Rightarrow> Some (if go_on then cn else cn\<lparr>cn_state := Ended\<rparr>, ro))))"

fun do_session :: "'ep router_env \<Rightarrow> round list \<Rightarrow> connection \<times> 'ep router \<Rightarrow> (connection \<times> 'ep router) option" where
  "do_session env [] cr = Some cr"
| "do_session env (rn # rns) cr =
     (if cn_state (fst cr) = Ended then Some cr
      else case session_round env rn cr of None \<Rightarrow> None | Some cr \<Rightarrow> do_session env rns cr)"

section \<open>The listener and the server\<close>

text \<open>\<open>Listener::create\<close>: the steps in their order, each with its error, \<open>None\<close> when it succeeds.\<close>

definition run_step :: "string option \<Rightarrow> string \<Rightarrow> (error_info, unit) expected" where
  "run_step ec err_msg = (case ec of Some e \<Rightarrow> Inl (error_info_From NetworkError (err_msg @ '': '' @ e)) | None \<Rightarrow> Inr ())"

record acceptor_ec =
  ac_open :: "string option"
  ac_set_option :: "string option"
  ac_bind :: "string option"
  ac_listen :: "string option"

definition listener_create :: "acceptor_ec \<Rightarrow> (error_info, unit) expected" where
  "listener_create ac =
     and_then (run_step (ac_open ac) ''Open Failed'') (\<lambda>_.
     and_then (run_step (ac_set_option ac) ''SetOption Failed'') (\<lambda>_.
     and_then (run_step (ac_bind ac) ''Bind Failed'') (\<lambda>_.
     run_step (ac_listen ac) ''Listen Failed'')))"

text \<open>What an accept gives: a connection, an abort, another error. The context is drawn before each accept.\<close>

datatype accept_event = Accepted | AcceptAborted | AcceptFailed string

fun do_accept :: "accept_event list \<Rightarrow> io_context_pool \<Rightarrow> nat list \<Rightarrow> io_context_pool \<times> nat list" where
  "do_accept [] pool running = (pool, running)"
| "do_accept (ev # evs) pool running =
     (let (pool_ioc, pool) = get_io_context pool in
      case ev of
        AcceptAborted \<Rightarrow> (pool, running)
      | AcceptFailed e \<Rightarrow> do_accept evs pool running
      | Accepted \<Rightarrow> do_accept evs pool (running @ [pool_ioc]))"

text \<open>\<open>Server::create\<close>: \<open>make_address\<close> is the library's, \<open>None\<close> is its exception. The ports of the sessions may never be ready.\<close>

record 'ep server =
  sr_pool :: io_context_pool
  sr_router :: "'ep router"

definition server_create ::
  "string option \<Rightarrow> (string \<Rightarrow> (string, unit) expected) \<Rightarrow> acceptor_ec \<Rightarrow> app_config \<Rightarrow> (error_info, 'ep server) expected option" where
  "server_create pool_exception make_address ac cfg =
     (case pool_create pool_exception (unat (sv_threads (cfg_server cfg))) of
        Inl e \<Rightarrow> Some (Inl e)
      | Inr pool \<Rightarrow>
          (case j_port_start (cfg_janus cfg) of None \<Rightarrow> None | Some s \<Rightarrow>
           (case j_port_end (cfg_janus cfg) of None \<Rightarrow> None | Some e \<Rightarrow>
            (case new_active_sessions pool s e of
               None \<Rightarrow> None
             | Some sessions \<Rightarrow>
                 (case make_address (sv_address (cfg_server cfg)) of
                    Inl what \<Rightarrow> Some (Inl (error_info_From ConfigError (''Invalid Address/Port: '' @ what)))
                  | Inr u \<Rightarrow>
                      (case listener_create ac of
                         Inl e \<Rightarrow> Some (Inl e)
                       | Inr u \<Rightarrow> Some (Inr \<lparr>sr_pool = pool, sr_router = \<lparr>ro_active = sessions, ro_http_requests_total = 0\<rparr>\<rparr>)))))))"

section \<open>Rounds\<close>

text \<open>Only a round that goes on leaves the connection reading, and it has sent one response.\<close>

lemma session_round_sent:
  assumes "session_round env rn (cn, ro) = Some (cn', ro')" and "cn_state cn = Reading"
  shows "\<exists>sent. cn_sent cn' = cn_sent cn @ sent \<and> length sent \<le> 1 \<and> (cn_state cn' = Reading \<longrightarrow>
    length sent = 1 \<and> (\<exists>req. do_read_request rn = Inr (req, True) \<and> \<not> hq_upgrade req))"
  using assms
  by (auto simp: session_round_def handle_bad_request_def do_write_response_def Let_def handle_websocket_upgrade_def
      process_single_request_def split: option.splits bool.splits sum.splits if_splits prod.splits)

lemma session_round_registry:
  assumes "session_round env rn (cn, ro) = Some (cn', ro')" and "registry_inv (ro_active ro)"
  shows "registry_inv (ro_active ro')"
proof -
  have q: "registry_inv (ro_active ro2)" if "route_query env rd req res ro = Some (res2, ro2)" for rd req res res2 ro2
  proof -
    let ?ro = "ro\<lparr>ro_http_requests_total := ro_http_requests_total ro + 1\<rparr>"
    obtain h where h: "route_query env rd req res ro = conclude (re_api env) req h"
        "h = (case ha_url (re_api env) (hq_target req) of Inl what \<Rightarrow> (Inl (Thrown what), res, ?ro)
          | Inr (path, params) \<Rightarrow> try_routes req res ?ro path (routes env rd req))"
      by (simp add: route_query_def Let_def)
    have "handled_ok req res ?ro h"
      unfolding h(2) using assms(2) routed_ok [of ?ro req res] by (auto simp: handled_ok_def split: sum.split)
    then show ?thesis using h(1) that by (auto simp: conclude_def handled_ok_def split: sum.splits escape.splits prod.splits)
  qed
  show ?thesis
    using assms
    by (auto simp: session_round_def handle_bad_request_def do_write_response_def Let_def handle_websocket_upgrade_def do_build_response_def
        process_single_request_def dest: q split: option.splits bool.splits sum.splits if_splits prod.splits)
qed

lemma do_session_ended: "cn_state cn = Ended \<Longrightarrow> do_session env rns (cn, ro) = Some (cn, ro)"
  by (cases rns) simp_all

lemma do_session_sent:
  assumes "do_session env rns (cn, ro) = Some (cn', ro')" and "cn_state cn = Reading" and "registry_inv (ro_active ro)"
  shows "registry_inv (ro_active ro') \<and> (\<exists>sent. cn_sent cn' = cn_sent cn @ sent \<and> length sent \<le> length rns
    \<and> (cn_state cn' = Reading \<longrightarrow> length sent = length rns))"
  using assms
proof (induction rns arbitrary: cn ro)
  case (Cons rn rns)
  then obtain cn1 ro1 where r: "session_round env rn (cn, ro) = Some (cn1, ro1)" and s: "do_session env rns (cn1, ro1) = Some (cn', ro')"
    by (auto split: option.splits)
  obtain sent1 where s1: "cn_sent cn1 = cn_sent cn @ sent1" "length sent1 \<le> 1" "cn_state cn1 = Reading \<longrightarrow> length sent1 = 1"
    using session_round_sent [OF r Cons.prems(2)] by blast
  have i: "registry_inv (ro_active ro1)" by (rule session_round_registry [OF r Cons.prems(3)])
  show ?case
  proof (cases "cn_state cn1")
    case Ended
    then show ?thesis using do_session_ended [OF Ended, of env rns ro1] s s1 i by auto
  next
    case Reading
    then show ?thesis using Cons.IH [OF s Reading i] s1 by auto
  qed
qed simp

text \<open>What the router answers to requests in turn, each on the registry that those before it left: no connection, no loop.\<close>

fun replies :: "'ep router_env \<Rightarrow> round list \<Rightarrow> 'ep router \<Rightarrow> (http_response list \<times> 'ep router) option" where
  "replies env [] ro = Some ([], ro)"
| "replies env (rn # rns) ro =
     (case rn_header rn of
        GotRequest req \<Rightarrow>
          do {
            (res, ro) \<leftarrow> do_build_response env (rn_draws rn) req ro;
            (ress, ro) \<leftarrow> replies env rns ro;
            Some (prepare_payload res # ress, ro)
          }
      | _ \<Rightarrow> None)"

lemma session_round_reply:
  assumes "session_round env rn (cn, ro) = Some (cn', ro')" and "cn_state cn' = Reading" and "cn_state cn = Reading"
  shows "\<exists>req res. rn_header rn = GotRequest req \<and> do_build_response env (rn_draws rn) req ro = Some (res, ro')
    \<and> cn_sent cn' = cn_sent cn @ [prepare_payload res]"
  using assms
  by (auto simp: session_round_def do_read_request_def handle_bad_request_def do_write_response_def Let_def handle_websocket_upgrade_def
      process_single_request_def split: header_result.splits option.splits bool.splits sum.splits if_splits prod.splits)

lemma do_session_replies:
  assumes "do_session env rns (cn, ro) = Some (cn', ro')" and "cn_state cn' = Reading" and "cn_state cn = Reading"
  shows "\<exists>ress. replies env rns ro = Some (ress, ro') \<and> cn_sent cn' = cn_sent cn @ ress"
  using assms
proof (induction rns arbitrary: cn ro)
  case (Cons rn rns)
  then obtain cn1 ro1 where r: "session_round env rn (cn, ro) = Some (cn1, ro1)" and s: "do_session env rns (cn1, ro1) = Some (cn', ro')"
    by (auto split: option.splits)
  have on: "cn_state cn1 = Reading"
    using do_session_ended [of cn1 env rns ro1] s Cons.prems(2) by (cases "cn_state cn1") auto
  show ?case
    using session_round_reply [OF r on Cons.prems(3)] Cons.IH [OF s Cons.prems(2) on] by auto
qed simp

section \<open>Properties\<close>

text \<open>C29: The responses of one connection. As long as it is open, every request so far has got exactly one response, in their order: those
  that the router gives to the requests one after the other, each on the registry that its predecessors left. A round never sends more
  than one response, and one that ends the connection may send none: an upgrade, accepted or not, or a
  failed write. The registry stays well formed.\<close>

theorem one_response_per_request:
  assumes "do_session env rns (\<lparr>cn_sent = [], cn_state = Reading\<rparr>, ro) = Some (cn, ro')" and "registry_inv (ro_active ro)"
  shows "length (cn_sent cn) \<le> length rns
    \<and> (cn_state cn = Reading \<longrightarrow> length (cn_sent cn) = length rns \<and> replies env rns ro = Some (cn_sent cn, ro'))
    \<and> registry_inv (ro_active ro')"
  using do_session_sent [OF assms(1) _ assms(2)] do_session_replies [OF assms(1)] by fastforce

definition demo_round :: "http_request \<Rightarrow> round" where
  "demo_round req = \<lparr>rn_header = GotRequest req, rn_body_ec = None, rn_version = 11, rn_draws = demo_draws, rn_write_ec = None, rn_shutdown_ec = None\<rparr>"

lemmas round_eval = session_round_def do_read_request_def demo_round_def Let_def handle_websocket_upgrade_def process_single_request_def
  do_build_response_def is_options_request_def do_write_response_def

text \<open>A session is stopped, and then comes an \<open>OPTIONS\<close>.\<close>

lemma one_response_per_request_witness:
  "\<exists>cn ro'. do_session demo_router_env [demo_round (demo_request ''POST'' ''/stop/?id=s''), demo_round (demo_request ''OPTIONS'' ''/stop/'')]
       (\<lparr>cn_sent = [], cn_state = Reading\<rparr>, demo_router) = Some (cn, ro')
     \<and> length (cn_sent cn) = 2 \<and> map hr_result (cn_sent cn) = [200, 200]
     \<and> replies demo_router_env [demo_round (demo_request ''POST'' ''/stop/?id=s''), demo_round (demo_request ''OPTIONS'' ''/stop/'')] demo_router
         = Some (cn_sent cn, ro')"
proof -
  let ?rns = "[demo_round (demo_request ''POST'' ''/stop/?id=s''), demo_round (demo_request ''OPTIONS'' ''/stop/'')]"
  obtain cn ro' where s: "do_session demo_router_env ?rns (\<lparr>cn_sent = [], cn_state = Reading\<rparr>, demo_router) = Some (cn, ro')"
      and r: "cn_state cn = Reading" "map hr_result (cn_sent cn) = [200, 200]"
    by (simp add: round_eval demo_request_def route_query_def conclude_def demo_router_env_def demo_api_def dispatch_eval handle_stop_def
        extract_session_id_def demo_router_def demo_registry_def demo_session_def remove_session_def update_object_def push_port_def answer_status_def split_def build_success_response_def
        with_status_def prepare_payload_def build_options_response_def)
  then show ?thesis using one_response_per_request [OF s demo_inv] by auto
qed

text \<open>An upgrade that the router refuses, here for a session that does not exist, is not answered at all: the
  refusal is dropped and the connection ends.\<close>

theorem refused_upgrade_silent:
  assumes "do_read_request rn = Inr (req, hq_keep_alive req)" and "hq_upgrade req" and "hq_method req = ''GET''"
    and "ha_url (re_api env) (hq_target req) = Inr (''/connect/'', params)" and "map_of params ''id'' = Some i"
    and "map_of (as_sessions (ro_active ro)) i = None"
  shows "\<exists>ro'. session_round env rn (cn, ro) = Some (cn\<lparr>cn_state := Ended\<rparr>, ro') \<and> ro_active ro' = ro_active ro"
proof -
  have id: "extract_session_id (re_api env) req = Inr (Inr i)" using assms(4,5) by (simp add: extract_session_id_def)
  show ?thesis
    using assms id dispatch_connect [of req empty_response "ro\<lparr>ro_http_requests_total := ro_http_requests_total ro + 1\<rparr>" "[]" env "rn_draws rn"]
    by (simp add: session_round_def handle_websocket_upgrade_def route_query_def conclude_def Let_def handle_websocket_request_def
        create_and_run_websocket_session_def route_fail_def)
qed

lemma refused_upgrade_silent_witness:
  "\<exists>ro'. session_round (demo_router_env\<lparr>re_api := demo_api\<lparr>ha_url := (\<lambda>t. Inr (''/connect/'', [(''id'', ''x'')]))\<rparr>\<rparr>)
     (demo_round ((demo_request ''GET'' ''/connect/?id=x'')\<lparr>hq_upgrade := True\<rparr>)) (\<lparr>cn_sent = [], cn_state = Reading\<rparr>, demo_router)
     = Some (\<lparr>cn_sent = [], cn_state = Ended\<rparr>, ro') \<and> ro_active ro' = demo_registry"
  using refused_upgrade_silent [where i = "''x''" and params = "[(''id'', ''x'')]" and ro = demo_router
      and env = "demo_router_env\<lparr>re_api := demo_api\<lparr>ha_url := (\<lambda>t. Inr (''/connect/'', [(''id'', ''x'')]))\<rparr>\<rparr>"
      and rn = "demo_round ((demo_request ''GET'' ''/connect/?id=x'')\<lparr>hq_upgrade := True\<rparr>)"
      and req = "(demo_request ''GET'' ''/connect/?id=x'')\<lparr>hq_upgrade := True\<rparr>" and cn = "\<lparr>cn_sent = [], cn_state = Reading\<rparr>"]
  by (simp add: demo_round_def do_read_request_def is_options_request_def demo_request_def demo_router_def demo_registry_def)

text \<open>A successful stop over a kept connection is answered with a response that announces the connection's end,
  and the server goes on reading from it.\<close>

theorem close_announced_not_done:
  assumes "do_read_request rn = Inr (req, hq_keep_alive req)" and "\<not> hq_upgrade req" and "hq_method req = ''POST''" and "hq_keep_alive req"
    and "ha_url (re_api env) (hq_target req) = Inr (''/stop/'', params)" and "map_of params ''id'' = Some i"
    and "registry (ro_active ro) i \<noteq> None" and "rn_write_ec rn = None" and "registry_inv (ro_active ro)"
  shows "\<exists>cn' ro' res. session_round env rn (cn, ro) = Some (cn', ro') \<and> cn_sent cn' = cn_sent cn @ [res]
    \<and> hr_result res = 200 \<and> \<not> hr_keep_alive res \<and> cn_state cn' = cn_state cn"
proof -
  let ?res = "empty_response\<lparr>hr_version := hq_version req, hr_keep_alive := hq_keep_alive req\<rparr>"
  let ?ro = "ro\<lparr>ro_http_requests_total := ro_http_requests_total ro + 1\<rparr>"
  have id: "extract_session_id (re_api env) req = Inr (Inr i)" using assms(5,6) by (simp add: extract_session_id_def)
  have "fst (remove_session i (ro_active ro)) \<noteq> SessionNotFound" using active.status_remove [OF assms(9)] assms(7) by simp
  then have "\<exists>ro'. route_query env (rn_draws rn) req ?res ro = Some (build_success_response (re_api env) ?res i (hq_version req) False, ro')"
    using assms(3,5) id dispatch_stop [of req ?res ?ro "[]" env "rn_draws rn"]
    by (simp add: route_query_def conclude_def Let_def handle_stop_def split_def answer_status_ok)
  then show ?thesis
    using assms(1-4,8) by (auto simp: session_round_def Let_def handle_websocket_upgrade_def process_single_request_def
        do_build_response_def is_options_request_def do_write_response_def prepare_payload_def)
qed

lemma close_announced_not_done_witness:
  "\<exists>cn' ro' res. session_round demo_router_env (demo_round (demo_request ''POST'' ''/stop/?id=s'')) (\<lparr>cn_sent = [], cn_state = Reading\<rparr>, demo_router) = Some (cn', ro')
     \<and> cn_sent cn' = [res] \<and> \<not> hr_keep_alive res \<and> cn_state cn' = Reading"
proof -
  have "\<exists>cn' ro' res. session_round demo_router_env (demo_round (demo_request ''POST'' ''/stop/?id=s'')) (\<lparr>cn_sent = [], cn_state = Reading\<rparr>, demo_router) = Some (cn', ro')
     \<and> cn_sent cn' = cn_sent \<lparr>cn_sent = [], cn_state = Reading\<rparr> @ [res] \<and> hr_result res = 200 \<and> \<not> hr_keep_alive res
     \<and> cn_state cn' = cn_state \<lparr>cn_sent = [], cn_state = Reading\<rparr>"
    by (rule close_announced_not_done [where req = "demo_request ''POST'' ''/stop/?id=s''" and params = "[(''id'', ''s'')]" and i = "''s''"])
      (simp_all add: demo_round_def do_read_request_def is_options_request_def demo_request_def demo_router_env_def demo_api_def demo_registered demo_inv)
  then show ?thesis by auto
qed

text \<open>Every failed read, also the orderly end of the client's stream, is answered with a response 400 and ends the
  connection.\<close>

theorem failed_read_answered:
  assumes "do_read_request rn = Inl e" and "rn_write_ec rn = None"
  shows "\<exists>cn' res. session_round env rn (cn, ro) = Some (cn', ro) \<and> cn_sent cn' = cn_sent cn @ [res] \<and> hr_result res = 400
    \<and> cn_state cn' = Ended
    \<and> hr_body res = ha_serialize (re_api env) (JObject [(''status'', JString ''error''), (''message'', JString (''Invalid Request: '' @ ei_message e))])"
  using assms
  by (auto simp: session_round_def Let_def handle_bad_request_def do_write_response_def prepare_payload_def build_error_response_def with_status_def)

lemma failed_read_answered_witness:
  "\<exists>cn' res. session_round demo_router_env \<lparr>rn_header = HeaderEof, rn_body_ec = None, rn_version = 11, rn_draws = demo_draws, rn_write_ec = None, rn_shutdown_ec = None\<rparr>
     (\<lparr>cn_sent = [], cn_state = Reading\<rparr>, demo_router) = Some (cn', demo_router) \<and> cn_sent cn' = [res] \<and> hr_result res = 400"
  using failed_read_answered [where env = demo_router_env and ro = demo_router
      and rn = "\<lparr>rn_header = HeaderEof, rn_body_ec = None, rn_version = 11, rn_draws = demo_draws, rn_write_ec = None, rn_shutdown_ec = None\<rparr>"
      and cn = "\<lparr>cn_sent = [], cn_state = Reading\<rparr>"]
  by (auto simp: do_read_request_def)

end
