(* ===== verification/Entry_Point.thy ===== *)
theory Entry_Point
  imports Http_Session
begin

text \<open>
  \<open>app/main.cpp\<close> and the life of \<open>network/http/Server\<close>: which configuration the program runs with, the
  server it makes of it, starting and stopping.
\<close>

section \<open>The configuration\<close>

text \<open>\<open>files\<close> gives for a path what \<open>load_config\<close> finds there.\<close>

definition read_config ::
  "'n toml_api \<Rightarrow> (string \<Rightarrow> string option) \<Rightarrow> (string \<Rightarrow> (string, 'n) expected option)
     \<Rightarrow> (config_fault, (error_info, app_config) expected) expected" where
  "read_config api getenv files =
     (case load_config api getenv (files ''../config.toml'') of
        Inr (Inl e) \<Rightarrow> load_config api getenv (files ''config.toml'')
      | r \<Rightarrow> r)"

section \<open>The program\<close>

datatype exit_failure = FatalException config_fault | FailedLoad string | FailedInit string

text \<open>Up to \<open>server->start()\<close>; \<open>None\<close> is a program that is undefined or never gets there.\<close>

definition program_start ::
  "'n toml_api \<Rightarrow> (string \<Rightarrow> string option) \<Rightarrow> (string \<Rightarrow> (string, 'n) expected option) \<Rightarrow> string option
     \<Rightarrow> (string \<Rightarrow> (string, unit) expected) \<Rightarrow> acceptor_ec \<Rightarrow> (exit_failure, node_factory \<times> 'ep server) expected option" where
  "program_start api getenv files pool_exception make_address ac =
     (case read_config api getenv files of
        Inl fault \<Rightarrow> Some (Inl (FatalException fault))
      | Inr (Inl e) \<Rightarrow> Some (Inl (FailedLoad (ei_message e)))
      | Inr (Inr cfg) \<Rightarrow>
          (let factory = register_builtin_nodes [] in
           case server_create pool_exception make_address ac cfg of
             None \<Rightarrow> None
           | Some (Inl e) \<Rightarrow> Some (Inl (FailedInit (ei_message e)))
           | Some (Inr server) \<Rightarrow> Some (Inr (factory, server))))"

definition server_start :: "'ep server \<Rightarrow> 'ep server" where
  "server_start server = server\<lparr>sr_pool := pool_run (sr_pool server)\<rparr>"

definition server_stop :: "'ep server \<Rightarrow> 'ep server" where
  "server_stop server = server\<lparr>sr_pool := pool_stop (sr_pool server)\<rparr>"

datatype exit_code = EXIT_SUCCESS | EXIT_FAILURE

text \<open>
  The end of \<open>main\<close>: a failed start is the failure code; \<open>server->start()\<close> returns when the handler of
  SIGINT and SIGTERM has stopped the server. \<open>None\<close> is the program that still serves: \<open>main_ioc.run()\<close>
  does not return while the signal set waits.
\<close>

definition program_exit :: "(exit_failure, 'f \<times> 'ep server) expected \<Rightarrow> bool \<Rightarrow> (exit_code \<times> 'ep server option) option" where
  "program_exit started signalled =
     (case started of
        Inl failure \<Rightarrow> Some (EXIT_FAILURE, None)
      | Inr (factory, server) \<Rightarrow>
          (let server = server_start server
           in if signalled then Some (EXIT_SUCCESS, Some (server_stop server)) else None))"

section \<open>A server that is made\<close>

lemma server_create_ok:
  assumes "server_create pool_exception make_address ac cfg = Some (Inr server)"
  shows "registry_inv (ro_active (sr_router server)) \<and> pool_inv (sr_pool server) \<and> as_pool (ro_active (sr_router server)) = sr_pool server
    \<and> as_sessions (ro_active (sr_router server)) = []"
  using assms
  by (auto simp: server_create_def new_active_sessions_def registry_inv_def intro: inv_intros split: sum.splits option.splits)

lemma server_create_configured:
  assumes "0 < sv_threads (cfg_server cfg)" and "j_port_start (cfg_janus cfg) = Some s" and "j_port_end (cfg_janus cfg) = Some e"
    and "e < 65535" and "make_address (sv_address (cfg_server cfg)) = Inr ()" and "listener_create ac = Inr ()"
  shows "\<exists>server. server_create None make_address ac cfg = Some (Inr server)
    \<and> as_available_webrtc_ports (ro_active (sr_router server)) = map of_nat [unat s..<Suc (unat e)]"
proof -
  have "unat (sv_threads (cfg_server cfg)) \<noteq> 0" using assms(1) by (simp add: unat_eq_zero)
  then obtain pool where "pool_create None (unat (sv_threads (cfg_server cfg))) = Inr pool" by (simp add: pool_create_def)
  then show ?thesis
    using assms(2-6) fill_ports_run [OF assms(4), of s "[]"] by (simp add: server_create_def new_active_sessions_def del: upt_Suc)
qed

end
