(* ===== verification/Web_Socket.thy ===== *)
theory Web_Socket
  imports Json Session
begin

text \<open>
  \<open>network/websocket/WebSocketSession\<close> and \<open>WebSocketSessionObserver\<close>: the queue that serialises the
  writes to a web socket, and the messages that a session's observer sends through it. The executor
  of the socket runs one handler at a time; \<open>ws_posted\<close> are the handlers posted to it that have not
  run. \<open>ws_in_flight\<close> are the writes that were started and have not completed, and \<open>ws_wire\<close> is what
  the client has received. Beast refuses messages once the close handshake has begun: a write that is
  started when \<open>ws_closing\<close> holds, \<open>ws_write_refused\<close>, does not succeed. A step is \<open>None\<close> where the code would take the front of an empty queue.
\<close>

section \<open>The session\<close>

datatype ws_ec = EcOk | EcClosed | EcAborted | EcOther string

datatype posted = PostedSend string | PostedClose

record ws_session =
  ws_posted :: "posted list"
  ws_send_queue :: "string list"
  ws_in_flight :: "string list"
  ws_reads :: nat
  ws_closing :: bool
  ws_write_refused :: bool
  ws_wire :: "string list"

definition new_ws_session :: ws_session where
  "new_ws_session = \<lparr>ws_posted = [], ws_send_queue = [], ws_in_flight = [], ws_reads = 0, ws_closing = False,
     ws_write_refused = False, ws_wire = []\<rparr>"

definition ws_send :: "string \<Rightarrow> ws_session \<Rightarrow> ws_session" where
  "ws_send message ws = ws\<lparr>ws_posted := ws_posted ws @ [PostedSend message]\<rparr>"

definition ws_close :: "ws_session \<Rightarrow> ws_session" where
  "ws_close ws = ws\<lparr>ws_posted := ws_posted ws @ [PostedClose]\<rparr>"

definition do_write :: "ws_session \<Rightarrow> ws_session option" where
  "do_write ws = (case ws_send_queue ws of
     [] \<Rightarrow> None
   | front # rest \<Rightarrow> Some (ws\<lparr>ws_in_flight := ws_in_flight ws @ [front], ws_write_refused := ws_closing ws\<rparr>))"

text \<open>The handler that \<open>send\<close> posts.\<close>

definition enqueue :: "string \<Rightarrow> ws_session \<Rightarrow> ws_session option" where
  "enqueue msg_ptr ws =
     (let writing = (ws_send_queue ws \<noteq> []);
          ws = ws\<lparr>ws_send_queue := ws_send_queue ws @ [msg_ptr]\<rparr>
      in if \<not> writing then do_write ws else Some ws)"

definition run_posted :: "ws_session \<Rightarrow> ws_session option" where
  "run_posted ws = (case ws_posted ws of
     [] \<Rightarrow> Some ws
   | PostedSend m # ps \<Rightarrow> enqueue m (ws\<lparr>ws_posted := ps\<rparr>)
   | PostedClose # ps \<Rightarrow> Some (ws\<lparr>ws_posted := ps, ws_closing := True\<rparr>))"

definition do_read :: "ws_session \<Rightarrow> ws_session" where
  "do_read ws = ws\<lparr>ws_reads := ws_reads ws + 1\<rparr>"

definition on_accept :: "ws_ec \<Rightarrow> ws_session \<Rightarrow> ws_session" where
  "on_accept ec ws = (if ec \<noteq> EcOk then ws else do_read ws)"

text \<open>The read that completes is the one that \<open>ws_reads\<close> counts; the payload is only logged.\<close>

definition on_read :: "ws_ec \<Rightarrow> ws_session \<Rightarrow> ws_session" where
  "on_read ec ws =
     (let ws = ws\<lparr>ws_reads := ws_reads ws - 1\<rparr>
      in if ec = EcClosed \<or> ec = EcAborted then ws
         else if ec \<noteq> EcOk then ws
         else do_read ws)"

text \<open>The completion of the write that was started first.\<close>

definition on_write :: "ws_ec \<Rightarrow> ws_session \<Rightarrow> ws_session option" where
  "on_write ec ws =
     (let ws = ws\<lparr>ws_in_flight := tl (ws_in_flight ws),
                 ws_wire := (if ec = EcOk then ws_wire ws @ [hd (ws_in_flight ws)] else ws_wire ws)\<rparr>
      in if ec = EcClosed \<or> ec = EcAborted then Some ws
         else if ec \<noteq> EcOk then Some ws
         else
           let ws = ws\<lparr>ws_send_queue := tl (ws_send_queue ws)\<rparr>
           in if ws_send_queue ws \<noteq> [] then do_write ws else Some ws)"

section \<open>Runs\<close>

datatype ws_label = WSend string | WClose | WRun | WAccepted ws_ec | WRead ws_ec | WWritten ws_ec

text \<open>\<open>send\<close> and \<open>close\<close> may be called at any time; a completion needs an operation in progress, and only a write
  that was started before \<open>async_close\<close> succeeds.\<close>

inductive ws_step :: "ws_session \<Rightarrow> ws_label \<Rightarrow> ws_session option \<Rightarrow> bool" where
  wst_send: "ws_step ws (WSend m) (Some (ws_send m ws))"
| wst_close: "ws_step ws WClose (Some (ws_close ws))"
| wst_run: "ws_posted ws \<noteq> [] \<Longrightarrow> ws_step ws WRun (run_posted ws)"
| wst_accept: "ws_step ws (WAccepted ec) (Some (on_accept ec ws))"
| wst_read: "0 < ws_reads ws \<Longrightarrow> ws_step ws (WRead ec) (Some (on_read ec ws))"
| wst_written: "ws_in_flight ws \<noteq> [] \<Longrightarrow> (ec = EcOk \<longrightarrow> \<not> ws_write_refused ws) \<Longrightarrow> ws_step ws (WWritten ec) (on_write ec ws)"

inductive ws_run :: "ws_session \<Rightarrow> ws_label list \<Rightarrow> ws_session option \<Rightarrow> bool" where
  wsr_nil: "ws_run ws [] (Some ws)"
| wsr_fault: "ws_step ws l None \<Longrightarrow> ws_run ws (l # ls) None"
| wsr_cons: "ws_step ws l (Some ws') \<Longrightarrow> ws_run ws' ls r \<Longrightarrow> ws_run ws (l # ls) r"

text \<open>The messages that wait in posted handlers, and those that a run sends.\<close>

fun posted_messages :: "posted list \<Rightarrow> string list" where
  "posted_messages [] = []"
| "posted_messages (PostedSend m # ps) = m # posted_messages ps"
| "posted_messages (PostedClose # ps) = posted_messages ps"

fun sends_of :: "ws_label list \<Rightarrow> string list" where
  "sends_of [] = []"
| "sends_of (WSend m # ls) = m # sends_of ls"
| "sends_of (l # ls) = sends_of ls"

lemma posted_messages_append [simp]: "posted_messages (ps @ qs) = posted_messages ps @ posted_messages qs"
  by (induction ps rule: posted_messages.induct) simp_all

lemma sends_of_append [simp]: "sends_of (ls @ ks) = sends_of ls @ sends_of ks"
  by (induction ls rule: sends_of.induct) simp_all

section \<open>The invariant\<close>

text \<open>At most one write is in progress, and it is the front of the queue; only a socket that closes refuses it.\<close>

definition ws_inv :: "ws_session \<Rightarrow> bool" where
  "ws_inv ws \<longleftrightarrow> (ws_in_flight ws = [] \<or> (\<exists>m rest. ws_send_queue ws = m # rest \<and> ws_in_flight ws = [m]))
     \<and> (ws_write_refused ws \<longrightarrow> ws_closing ws)"

definition ws_messages :: "ws_session \<Rightarrow> string list" where
  "ws_messages ws = ws_wire ws @ ws_send_queue ws @ posted_messages (ws_posted ws)"

text \<open>A write has failed: there is something to write, and nobody writes.\<close>

definition ws_mute :: "ws_session \<Rightarrow> bool" where
  "ws_mute ws \<longleftrightarrow> ws_send_queue ws \<noteq> [] \<and> ws_in_flight ws = []"

lemmas ws_defs = ws_send_def ws_close_def do_write_def enqueue_def run_posted_def do_read_def on_accept_def on_read_def
  on_write_def ws_inv_def ws_messages_def ws_mute_def Let_def

lemma ws_step_ok:
  assumes "ws_step ws l r" and "ws_inv ws"
  shows "\<exists>ws'. r = Some ws' \<and> ws_inv ws' \<and> ws_messages ws' = ws_messages ws @ sends_of [l]
    \<and> (ws_mute ws \<longrightarrow> ws_mute ws' \<and> ws_wire ws' = ws_wire ws)
    \<and> (\<not> ws_mute ws \<longrightarrow> ws_mute ws' \<longrightarrow> (\<exists>ec. l = WWritten ec \<and> ec \<noteq> EcOk))"
  using assms
proof (cases rule: ws_step.cases)
  case wst_run
  then show ?thesis
    using assms(2) by (auto simp: ws_defs split: list.splits posted.splits)
next
  case (wst_written ec)
  then obtain m rest where "ws_send_queue ws = m # rest" "ws_in_flight ws = [m]"
    using assms(2) by (auto simp: ws_inv_def)
  then show ?thesis using wst_written assms(2) by (auto simp: ws_defs split: list.splits)
qed (auto simp: ws_defs)

lemma ws_run_ok:
  assumes "ws_run ws ls r" and "ws_inv ws"
  shows "\<exists>ws'. r = Some ws' \<and> ws_inv ws' \<and> ws_messages ws' = ws_messages ws @ sends_of ls
    \<and> (ws_mute ws \<longrightarrow> ws_mute ws' \<and> ws_wire ws' = ws_wire ws)"
  using assms
proof (induction rule: ws_run.induct)
  case (wsr_cons ws l ws' ls r)
  then show ?case using ws_step_ok [OF wsr_cons.hyps(1) wsr_cons.prems] sends_of_append [of "[l]" ls] by fastforce
next
  case (wsr_fault ws l ls)
  then show ?case using ws_step_ok by blast
qed simp

lemma new_ws_inv [simp]: "ws_inv new_ws_session" "ws_messages new_ws_session = []" "\<not> ws_mute new_ws_session"
  by (simp_all add: new_ws_session_def ws_defs)

section \<open>Draining the queue\<close>

text \<open>The server has not closed the socket and will not by what it has posted.\<close>

definition ws_open :: "ws_session \<Rightarrow> bool" where
  "ws_open ws \<longleftrightarrow> \<not> ws_closing ws \<and> PostedClose \<notin> set (ws_posted ws)"

lemma ws_open_step:
  assumes "ws_step ws l (Some ws')" and "ws_open ws" and "l \<noteq> WClose"
  shows "ws_open ws'"
  using assms by (cases rule: ws_step.cases) (auto simp: ws_defs ws_open_def split: list.splits posted.splits if_splits)

lemma ws_healthy_run:
  assumes "ws_run ws ls r" and "r = Some ws'" and "ws_inv ws" and "ws_open ws" and "\<not> ws_mute ws"
    and "WClose \<notin> set ls" and "\<And>ec. WWritten ec \<in> set ls \<Longrightarrow> ec = EcOk"
  shows "ws_inv ws' \<and> ws_open ws' \<and> \<not> ws_mute ws'"
  using assms
proof (induction rule: ws_run.induct)
  case (wsr_cons ws l ws1 ls r)
  have "ws_open ws1" using ws_open_step [OF wsr_cons.hyps(1) wsr_cons.prems(3)] wsr_cons.prems(5) by auto
  moreover have "ws_inv ws1 \<and> \<not> ws_mute ws1" using ws_step_ok [OF wsr_cons.hyps(1) wsr_cons.prems(2)] wsr_cons.prems(4,6) by auto
  ultimately show ?case using wsr_cons by simp
qed simp_all

lemma ws_drain:
  assumes "ws_inv ws" and "\<not> ws_mute ws" and "ws_open ws"
  shows "\<exists>ls ws'. ws_run ws ls (Some ws') \<and> set ls \<subseteq> {WRun, WWritten EcOk} \<and> ws_send_queue ws' = [] \<and> ws_posted ws' = []"
  using assms
proof (induction "2 * length (ws_posted ws) + length (ws_send_queue ws)" arbitrary: ws rule: less_induct)
  case less
  have step: ?case
    if s: "ws_step ws l r" and l: "l \<in> {WRun, WWritten EcOk}"
      and d: "\<And>ws'. r = Some ws' \<Longrightarrow> 2 * length (ws_posted ws') + length (ws_send_queue ws') < 2 * length (ws_posted ws) + length (ws_send_queue ws)" for l r
  proof -
    obtain ws' where ws': "r = Some ws'" "ws_inv ws'" "\<not> ws_mute ws'"
      using ws_step_ok [OF s less.prems(1)] less.prems(2) l by auto
    moreover have "ws_open ws'" using ws_open_step less.prems(3) s l ws'(1) by blast
    moreover note ws' = calculation
    ultimately obtain ls ws'' where "ws_run ws' ls (Some ws'')" "set ls \<subseteq> {WRun, WWritten EcOk}" "ws_send_queue ws'' = []" "ws_posted ws'' = []"
      using less.hyps [OF d] by blast
    then show ?thesis using wsr_cons [of ws l ws' ls "Some ws''"] s ws'(1) l by (intro exI [of _ "l # ls"] exI [of _ ws'']) auto
  qed
  consider (idle) "ws_posted ws = []" "ws_send_queue ws = []" | (handler) "ws_posted ws \<noteq> []"
    | (writing) "ws_posted ws = []" "ws_send_queue ws \<noteq> []" by blast
  then show ?case
  proof cases
    case idle
    then show ?thesis by (intro exI [of _ "[]"] exI [of _ ws]) (simp add: wsr_nil)
  next
    case handler
    then show ?thesis
      by (intro step [OF wst_run]) (auto simp: ws_defs split: list.splits posted.splits if_splits)
  next
    case writing
    then have "ws_in_flight ws \<noteq> []" using less.prems(2) by (simp add: ws_mute_def)
    moreover have "\<not> ws_write_refused ws" using less.prems(1,3) by (auto simp: ws_inv_def ws_open_def)
    ultimately show ?thesis
      using writing by (cases "ws_send_queue ws") (auto intro!: step [OF wst_written [where ec = EcOk]] simp: ws_defs split: list.splits if_splits)
  qed
qed

section \<open>A closed socket\<close>

lemma closed_run:
  assumes "ws_run ws ks r" and "r = Some ws'" and "ws_closing ws" and "ws_in_flight ws = [] \<or> ws_write_refused ws"
  shows "ws_wire ws' = ws_wire ws"
  using assms
proof (induction rule: ws_run.induct)
  case (wsr_cons ws l ws1 ks r)
  have "ws_wire ws1 = ws_wire ws \<and> ws_closing ws1 \<and> (ws_in_flight ws1 = [] \<or> ws_write_refused ws1)"
    using wsr_cons.hyps(1) wsr_cons.prems(2,3)
    by (cases rule: ws_step.cases) (auto simp: ws_defs split: list.splits posted.splits if_splits)
  then show ?case using wsr_cons by simp
qed simp_all

section \<open>The observer\<close>

text \<open>What the callbacks send while the web socket is alive. The callback \<open>on_node_transition\<close> does nothing and is never called.\<close>

definition on_stats_update :: "session_stats \<Rightarrow> json" where
  "on_stats_update stats = JObject [(''type'', JString ''stats''), (''node'', JString (st_current_node_id stats)),
     (''bytes'', JUint64 (unat (st_total_bytes_sent stats))), (''packets'', JUint64 (unat (st_packets_sent stats))),
     (''underruns'', JUint64 (unat (st_underruns stats)))]"

definition on_webrtc_request :: "u16 \<Rightarrow> json" where
  "on_webrtc_request port = JObject [(''type'', JString ''webrtc_ready''), (''mountpoint_id'', JUint64 (unat port)),
     (''message'', JString ''Session created successfully. Watch this mountpoint.'')]"

definition on_session_complete :: json where
  "on_session_complete = JObject [(''type'', JString ''completion''), (''message'', JString ''Session Complete'')]"

definition on_error :: "string \<Rightarrow> json" where
  "on_error error_message = JObject [(''type'', JString ''error''), (''message'', JString error_message)]"

fun observer_message :: "notification \<Rightarrow> json" where
  "observer_message (OnStats stats) = on_stats_update stats"
| "observer_message (OnWebrtcRequest port) = on_webrtc_request port"
| "observer_message OnSessionComplete = on_session_complete"
| "observer_message (OnError e) = on_error e"

text \<open>\<open>ws_.lock()\<close>: \<open>None\<close> is a web socket that is gone.\<close>

definition observe :: "(json \<Rightarrow> string) \<Rightarrow> notification \<Rightarrow> ws_session option \<Rightarrow> ws_session option" where
  "observe serialize n ws = map_option (ws_send (serialize (observer_message n))) ws"

lemma observe_run:
  "\<exists>ws'. fold (observe serialize) ns (Some ws) = Some ws' \<and> ws_run ws (map (\<lambda>n. WSend (serialize (observer_message n))) ns) (Some ws')"
proof (induction ns arbitrary: ws)
  case (Cons n ns)
  show ?case using Cons.IH [of "ws_send (serialize (observer_message n)) ws"]
    by (auto simp: observe_def intro: wsr_cons wst_send)
qed (simp add: wsr_nil)

section \<open>Properties\<close>

text \<open>C17: However sends, completions and posted handlers interleave, there is at most one write in progress, no
  undefined behaviour, and what the client received, the queue and the posted handlers together are
  the messages that were sent, in their order.\<close>

theorem websocket_fifo:
  assumes "ws_run new_ws_session ls r"
  shows "\<exists>ws. r = Some ws \<and> length (ws_in_flight ws) \<le> 1
    \<and> ws_wire ws @ ws_send_queue ws @ posted_messages (ws_posted ws) = sends_of ls"
proof -
  obtain ws where "r = Some ws" "ws_inv ws" "ws_messages ws = sends_of ls" using ws_run_ok [OF assms] by auto
  then show ?thesis by (intro exI [of _ ws]) (auto simp: ws_inv_def ws_messages_def)
qed

lemma demo_ws_run: "ws_run new_ws_session [WSend ''a'', WSend ''b'', WRun, WRun, WWritten EcOk]
   (Some (new_ws_session\<lparr>ws_send_queue := [''b''], ws_in_flight := [''b''], ws_wire := [''a'']\<rparr>))"
proof -
  let ?s1 = "new_ws_session\<lparr>ws_posted := [PostedSend ''a'']\<rparr>"
  let ?s2 = "new_ws_session\<lparr>ws_posted := [PostedSend ''a'', PostedSend ''b'']\<rparr>"
  let ?s3 = "new_ws_session\<lparr>ws_posted := [PostedSend ''b''], ws_send_queue := [''a''], ws_in_flight := [''a'']\<rparr>"
  let ?s4 = "new_ws_session\<lparr>ws_send_queue := [''a'', ''b''], ws_in_flight := [''a'']\<rparr>"
  let ?s5 = "new_ws_session\<lparr>ws_send_queue := [''b''], ws_in_flight := [''b''], ws_wire := [''a'']\<rparr>"
  have "ws_step new_ws_session (WSend ''a'') (Some ?s1)" using wst_send [of new_ws_session] by (simp add: ws_send_def new_ws_session_def)
  moreover have "ws_step ?s1 (WSend ''b'') (Some ?s2)" using wst_send [of ?s1] by (simp add: ws_send_def new_ws_session_def)
  moreover have "ws_step ?s2 WRun (Some ?s3)" using wst_run [of ?s2] by (simp add: ws_defs new_ws_session_def)
  moreover have "ws_step ?s3 WRun (Some ?s4)" using wst_run [of ?s3] by (simp add: ws_defs new_ws_session_def)
  moreover have "ws_step ?s4 (WWritten EcOk) (Some ?s5)" using wst_written [of ?s4 EcOk] by (simp add: ws_defs new_ws_session_def)
  ultimately show ?thesis by (blast intro: ws_run.intros)
qed

lemma websocket_fifo_witness:
  "length (ws_in_flight (new_ws_session\<lparr>ws_send_queue := [''b''], ws_in_flight := [''b''], ws_wire := [''a'']\<rparr>)) \<le> 1"
  using websocket_fifo [OF demo_ws_run] by blast





text \<open>A write that fails leaves its message at the front of the queue, so no write is ever started again:
  whatever is sent later, the client receives nothing more.\<close>

theorem failed_write_mutes:
  assumes "ws_run new_ws_session ls (Some ws)" and "ws_in_flight ws \<noteq> []" and "ec \<noteq> EcOk" and "on_write ec ws = Some ws1"
    and "ws_run ws1 ks (Some ws2)"
  shows "ws_wire ws2 = ws_wire ws \<and> ws_in_flight ws2 = []"
proof -
  have i: "ws_inv ws" using ws_run_ok [OF assms(1)] by auto
  have m: "ws_mute ws1" "ws_wire ws1 = ws_wire ws" using i assms(2-4) by (auto simp: ws_defs split: if_splits)
  have "ws_inv ws1" using ws_step_ok [OF wst_written i] assms(2-4) by fastforce
  then show ?thesis using ws_run_ok [OF assms(5)] m by (auto simp: ws_mute_def)
qed

lemma failed_write_mutes_witness:
  "ws_wire (ws_send ''c'' (new_ws_session\<lparr>ws_send_queue := [''b''], ws_wire := [''a'']\<rparr>)) = [''a'']"
proof -
  let ?ws = "new_ws_session\<lparr>ws_send_queue := [''b''], ws_in_flight := [''b''], ws_wire := [''a'']\<rparr>"
  let ?ws1 = "new_ws_session\<lparr>ws_send_queue := [''b''], ws_wire := [''a'']\<rparr>"
  have "on_write EcAborted ?ws = Some ?ws1" by (simp add: ws_defs new_ws_session_def)
  moreover have "ws_run ?ws1 [WSend ''c''] (Some (ws_send ''c'' ?ws1))" by (blast intro: wsr_cons wst_send wsr_nil)
  ultimately show ?thesis using failed_write_mutes [OF demo_ws_run, of EcAborted] by simp
qed

text \<open>A write does not wait for the handshake: a message sent before \<open>on_accept\<close> has run is written at once.\<close>

theorem write_before_accept:
  "\<exists>ws. ws_run new_ws_session [WSend m, WRun] (Some ws) \<and> ws_in_flight ws = [m] \<and> ws_reads ws = 0"
proof -
  let ?ws = "new_ws_session\<lparr>ws_send_queue := [m], ws_in_flight := [m]\<rparr>"
  have "run_posted (ws_send m new_ws_session) = Some ?ws" by (simp add: ws_defs new_ws_session_def)
  then have "ws_run new_ws_session [WSend m, WRun] (Some ?ws)"
    using wst_run [of "ws_send m new_ws_session"] by (intro wsr_cons [OF wst_send] wsr_cons [OF _ wsr_nil]) (simp_all add: ws_send_def)
  then show ?thesis by (intro exI [of _ ?ws]) (simp add: new_ws_session_def)
qed

text \<open>The client of a session's web socket receives, in their order and one message each, notifications
  of the session: the messages on the wire are a prefix of them.\<close>

theorem notifications_in_order:
  assumes "fold (observe serialize) ns (Some new_ws_session) = Some ws" and "ws_run ws ks r" and "sends_of ks = []"
  shows "\<exists>ws' n. r = Some ws' \<and> ws_wire ws' = take n (map (\<lambda>n. serialize (observer_message n)) ns)"
proof -
  let ?ls = "map (\<lambda>n. WSend (serialize (observer_message n))) ns"
  have s: "sends_of ?ls = map (\<lambda>n. serialize (observer_message n)) ns" by (induction ns) simp_all
  have "ws_run new_ws_session ?ls (Some ws)" using observe_run [of serialize ns new_ws_session] assms(1) by auto
  then have i: "ws_inv ws" "ws_messages ws = map (\<lambda>n. serialize (observer_message n)) ns"
    using ws_run_ok s by fastforce+
  obtain ws' where "r = Some ws'" "ws_messages ws' = map (\<lambda>n. serialize (observer_message n)) ns"
    using ws_run_ok [OF assms(2) i(1)] i(2) assms(3) by auto
  then show ?thesis
    by (intro exI [of _ ws'] exI [of _ "length (ws_wire ws')"]) (simp add: ws_messages_def, metis append_eq_conv_conj)
qed

lemma notifications_in_order_witness:
  "\<exists>ws n. fold (observe (\<lambda>j. ''x'')) [OnSessionComplete] (Some new_ws_session) = Some ws \<and> ws_wire ws = take n [''x'']"
proof -
  obtain ws where "fold (observe (\<lambda>j. ''x'')) [OnSessionComplete] (Some new_ws_session) = Some ws"
    using observe_run by blast
  then show ?thesis using notifications_in_order [OF _ wsr_nil] by fastforce
qed

end
