(* ===== verification/Server_Runs.thy ===== *)
theory Server_Runs
  imports Entry_Point Json_Properties Web_Socket
begin

text \<open>
  The server as a whole: the connections, the registry with its sessions, and the web sockets, as one
  step relation. A round of a connection runs the router; what the router does to the registry
  closes web sockets and attaches observers; a resumption of a session sends its notifications to the
  web socket of its observer.
\<close>

section \<open>State\<close>

text \<open>A web socket is a number, taken in order; \<open>sy_observers\<close> gives for a session the web socket that its
  observer holds.\<close>

record 'ep system =
  sy_router :: "'ep router"
  sy_connections :: "connection list"
  sy_sockets :: "nat \<Rightarrow> ws_session"
  sy_next_socket :: nat
  sy_observers :: "nat \<Rightarrow> nat option"

abbreviation sy_active :: "'ep system \<Rightarrow> 'ep active_sessions" where
  "sy_active sy \<equiv> ro_active (sy_router sy)"

abbreviation sy_objects :: "'ep system \<Rightarrow> 'ep session list" where
  "sy_objects sy \<equiv> as_objects (sy_active sy)"

definition new_system :: "'ep server \<Rightarrow> 'ep system" where
  "new_system server = \<lparr>sy_router = sr_router server, sy_connections = [], sy_sockets = (\<lambda>_. new_ws_session),
     sy_next_socket = 0, sy_observers = (\<lambda>_. None)\<rparr>"

section \<open>Steps\<close>

text \<open>What an operation of the registry did outside it: the web sockets it closed, the observers it
  attached.\<close>

definition settle_system :: "'ep active_sessions \<Rightarrow> 'ep system \<Rightarrow> 'ep system" where
  "settle_system old sy =
     sy\<lparr>sy_sockets := fold (\<lambda>w f. f(w := ws_close (f w))) (drop (length (as_closed old)) (as_closed (sy_active sy))) (sy_sockets sy),
        sy_observers := fold (\<lambda>(io, i, k, w) f. f(k := Some w)) (drop (length (as_spawned old)) (as_spawned (sy_active sy))) (sy_observers sy)\<rparr>"

text \<open>One round of a connection; its request draws the next number for a web socket.\<close>

definition drawing :: "nat \<Rightarrow> round \<Rightarrow> round" where
  "drawing w rn = rn\<lparr>rn_draws := (rn_draws rn)\<lparr>rd_websocket := w\<rparr>\<rparr>"

definition serve_round :: "'ep router_env \<Rightarrow> nat \<Rightarrow> round \<Rightarrow> 'ep system \<Rightarrow> 'ep system option" where
  "serve_round env c rn sy =
     (case session_round env (drawing (sy_next_socket sy) rn) (sy_connections sy ! c, sy_router sy) of
        None \<Rightarrow> None
      | Some (cn, ro) \<Rightarrow>
          Some (settle_system (sy_active sy)
            (sy\<lparr>sy_router := ro, sy_connections := (sy_connections sy)[c := cn], sy_next_socket := Suc (sy_next_socket sy)\<rparr>)))"

text \<open>What a session told its observer in a step.\<close>

definition new_notifications :: "'ep session \<Rightarrow> 'ep session \<Rightarrow> notification list" where
  "new_notifications s s' =
     (case (se_observer s, se_observer s') of (Some ns, Some ns') \<Rightarrow> drop (length ns) ns' | _ \<Rightarrow> [])"

text \<open>The coroutine of a session owns its web socket, so the weak pointer of the observer locks whenever the
  session notifies it.\<close>

definition tell :: "(json \<Rightarrow> string) \<Rightarrow> notification list \<Rightarrow> nat option \<Rightarrow> (nat \<Rightarrow> ws_session) \<Rightarrow> nat \<Rightarrow> ws_session" where
  "tell serialize ns w f =
     (case w of None \<Rightarrow> f
      | Some w \<Rightarrow> (case fold (observe serialize) ns (Some (f w)) of None \<Rightarrow> f | Some ws \<Rightarrow> f(w := ws)))"

definition set_object :: "nat \<Rightarrow> 'ep session \<Rightarrow> 'ep system \<Rightarrow> 'ep system" where
  "set_object k s sy = sy\<lparr>sy_router := (sy_router sy)\<lparr>ro_active := (sy_active sy)\<lparr>as_objects := (sy_objects sy)[k := s]\<rparr>\<rparr>\<rparr>"

definition session_moves :: "'ep router_env \<Rightarrow> nat \<Rightarrow> 'ep session \<Rightarrow> 'ep system \<Rightarrow> 'ep system option" where
  "session_moves env k s sy =
     (if se_control s = Crashed then None
      else Some (set_object k s
        (sy\<lparr>sy_sockets := tell (ha_serialize (re_api env)) (new_notifications (sy_objects sy ! k) s) (sy_observers sy k) (sy_sockets sy)\<rparr>)))"

text \<open>The end of a coroutine that \<open>spawn_session_coroutine\<close> started.\<close>

definition coroutine_ends :: "nat \<times> string \<times> nat \<times> nat \<Rightarrow> 'ep system \<Rightarrow> 'ep system" where
  "coroutine_ends e sy =
    (let st = sy_active sy; (io, i, k, w) = e
     in settle_system (st\<lparr>as_spawned := remove1 e (as_spawned st)\<rparr>)
          (sy\<lparr>sy_router := (sy_router sy)\<lparr>ro_active := snd (remove_session i (st\<lparr>as_spawned := remove1 e (as_spawned st)\<rparr>))\<rparr>\<rparr>))"

text \<open>The steps that a session takes by itself; the others come through the registry.\<close>

fun own_step :: "label \<Rightarrow> bool" where
  "own_step Stop = False"
| "own_step Pause = False"
| "own_step Resume = False"
| "own_step Attach = False"
| "own_step (AddClient ip port) = False"
| "own_step l = True"

fun own_ws :: "ws_label \<Rightarrow> bool" where
  "own_ws (WSend m) = False"
| "own_ws WClose = False"
| "own_ws l = True"

datatype event = SyAccepted | SyRound nat round | SySession nat label | SyEnds "nat \<times> string \<times> nat \<times> nat" | SySocket nat ws_label

inductive system_step :: "'ep router_env \<Rightarrow> 'ep system \<Rightarrow> event \<Rightarrow> 'ep system option \<Rightarrow> bool" for env where
  sy_accepted: "http_session_create (Some (sy_router sy)) = Inr cn \<Longrightarrow>
    system_step env sy SyAccepted (Some (sy\<lparr>sy_connections := sy_connections sy @ [cn]\<rparr>))"
| sy_round: "c < length (sy_connections sy) \<Longrightarrow> cn_state (sy_connections sy ! c) = Reading \<Longrightarrow>
    system_step env sy (SyRound c rn) (serve_round env c rn sy)"
| sy_session: "k < length (sy_objects sy) \<Longrightarrow> own_step l \<Longrightarrow> (l = Start \<longrightarrow> k \<in> (\<lambda>(io, i, k, w). k) ` set (as_spawned (sy_active sy))) \<Longrightarrow>
    session_step (re_session_env env) (sy_objects sy ! k) l s \<Longrightarrow> system_step env sy (SySession k l) (session_moves env k s sy)"
| sy_ends: "(io, i, k, w) \<in> set (as_spawned (sy_active sy)) \<Longrightarrow> se_control (sy_objects sy ! k) = Finished \<Longrightarrow>
    system_step env sy (SyEnds (io, i, k, w)) (Some (coroutine_ends (io, i, k, w) sy))"
| sy_socket: "own_ws l \<Longrightarrow> ws_step (sy_sockets sy w) l r \<Longrightarrow>
    system_step env sy (SySocket w l) (map_option (\<lambda>ws. sy\<lparr>sy_sockets := (sy_sockets sy)(w := ws)\<rparr>) r)"

inductive_cases system_stepE: "system_step env sy ev r"

text \<open>Runs whose events and whose states meet a condition; \<open>None\<close> is undefined behaviour.\<close>

inductive system_run :: "'ep router_env \<Rightarrow> (event \<Rightarrow> bool) \<Rightarrow> ('ep system \<Rightarrow> bool) \<Rightarrow> 'ep system \<Rightarrow> event list \<Rightarrow> 'ep system option \<Rightarrow> bool" for env ok P where
  syr_nil: "P sy \<Longrightarrow> system_run env ok P sy [] (Some sy)"
| syr_fault: "P sy \<Longrightarrow> ok ev \<Longrightarrow> system_step env sy ev None \<Longrightarrow> system_run env ok P sy (ev # evs) None"
| syr_cons: "P sy \<Longrightarrow> ok ev \<Longrightarrow> system_step env sy ev (Some sy') \<Longrightarrow> system_run env ok P sy' evs r \<Longrightarrow> system_run env ok P sy (ev # evs) r"

section \<open>What a request does to the registry\<close>

inductive http_effect :: "'ep router_env \<Rightarrow> request_draws \<Rightarrow> http_request \<Rightarrow> 'ep active_sessions \<Rightarrow> 'ep active_sessions \<Rightarrow> bool" for env rd req where
  he_none: "http_effect env rd req st st"
| he_counted: "http_effect env rd req st (counted st)"
| he_create: "ha_parse (re_api env) (hq_body req) = Some (JObject obj) \<Longrightarrow> parse_graph (re_factory env) (re_parse_env env) obj = Inr g \<Longrightarrow>
    create_session (re_session_env env) (re_cfg env) (rd_stream rd) (rd_session_id rd) g ty st = (r, st') \<Longrightarrow> http_effect env rd req st st'"
| he_connect: "create_and_run_websocket_session i (rd_websocket rd) st = (r, st') \<Longrightarrow> http_effect env rd req st st'"
| he_remove: "remove_session i st = (r, st') \<Longrightarrow> http_effect env rd req st st'"
| he_pause: "pause_session i st = (r, st') \<Longrightarrow> http_effect env rd req st st'"
| he_resume: "resume_session i st = (r, st') \<Longrightarrow> http_effect env rd req st st'"

lemma process_session_request_effect:
  assumes "process_session_request env rd req res ty ro = (r, res', ro')"
  shows "http_effect env rd req (ro_active ro) (ro_active ro')"
proof (cases "\<exists>obj. ha_parse (re_api env) (hq_body req) = Some (JObject obj)")
  case True
  then obtain obj where o: "ha_parse (re_api env) (hq_body req) = Some (JObject obj)" by blast
  obtain r0 st where c: "create_session_json env rd obj ty (ro_active ro) = (r0, st)" by fastforce
  have "ro_active ro' = st" using assms o c by (auto simp: process_session_request_def split: sum.splits)
  moreover have "http_effect env rd req (ro_active ro) st"
    using c by (cases rule: create_session_json_cases) (auto intro: he_counted he_create [OF o])
  ultimately show ?thesis by simp
next
  case False
  then show ?thesis using assms by (auto simp: process_session_request_def intro: he_none split: option.splits)
qed

lemma routed_effect:
  assumes "try_routes req res ro path (routes env rd req) = (r, res', ro')"
  shows "http_effect env rd req (ro_active ro) (ro_active ro')"
proof (cases rule: dispatch_cases [of req res ro path env rd])
  case (create ty)
  then show ?thesis using assms process_session_request_effect by metis
next
  case connect
  then show ?thesis using assms
    by (auto simp: handle_websocket_request_def route_fail_def split: if_splits sum.splits prod.splits intro: he_none he_connect)
next
  case stop
  then show ?thesis using assms
    by (auto simp: handle_stop_def Let_def split: sum.splits prod.splits intro: he_none he_remove)
next
  case pause
  then show ?thesis using assms
    by (auto simp: handle_pause_def Let_def split: sum.splits prod.splits intro: he_none he_pause)
next
  case resume
  then show ?thesis using assms
    by (auto simp: handle_resume_def Let_def split: sum.splits prod.splits intro: he_none he_resume)
qed (use assms in \<open>auto simp: handle_metrics_def intro: he_none\<close>)

lemma route_query_effect:
  assumes "route_query env rd req res ro = Some (res', ro')"
  shows "http_effect env rd req (ro_active ro) (ro_active ro')"
proof -
  let ?ro = "ro\<lparr>ro_http_requests_total := ro_http_requests_total ro + 1\<rparr>"
  let ?h = "case ha_url (re_api env) (hq_target req) of Inl what \<Rightarrow> (Inl (Thrown what), res, ?ro)
      | Inr (path, params) \<Rightarrow> try_routes req res ?ro path (routes env rd req)"
  obtain r res1 ro1 where h: "?h = (r, res1, ro1)" by (metis prod_cases3)
  then have "http_effect env rd req (ro_active ?ro) (ro_active ro1)"
    using routed_effect [of req res ?ro _ env rd] by (auto split: sum.splits intro: he_none)
  moreover have "ro' = ro1" using assms h by (auto simp: route_query_def conclude_def Let_def split: sum.splits escape.splits)
  ultimately show ?thesis by simp
qed

lemma session_round_effect:
  assumes "session_round env rn (cn, ro) = Some (cn', ro')"
  shows "ro_active ro' = ro_active ro \<or> (\<exists>req k. do_read_request rn = Inr (req, k) \<and> http_effect env (rn_draws rn) req (ro_active ro) (ro_active ro'))"
  using assms
  by (auto simp: session_round_def handle_bad_request_def do_write_response_def Let_def handle_websocket_upgrade_def do_build_response_def
      process_single_request_def dest: route_query_effect split: option.splits bool.splits sum.splits if_splits prod.splits)

section \<open>Requests that are in range\<close>

definition edge_count :: "json_object \<Rightarrow> nat" where
  "edge_count request =
     (case map_of request ''flow'' of
        Some (JObject flow) \<Rightarrow> (case map_of flow ''edges'' of Some (JArray edges) \<Rightarrow> length edges | _ \<Rightarrow> 0)
      | _ \<Rightarrow> 0)"

text \<open>Numbers that the program converts without a check are in the range of their types, and a mixer's
  counter of inputs does not wrap.\<close>

definition request_in_range :: "'ep router_env \<Rightarrow> http_request \<Rightarrow> bool" where
  "request_in_range env req =
     (case ha_parse (re_api env) (hq_body req) of
        Some (JObject obj) \<Rightarrow>
          (case parse_graph (re_factory env) (re_parse_env env) obj of
             Inl fault \<Rightarrow> fault \<noteq> Bad_cast
           | Inr (Inl e) \<Rightarrow> True
           | Inr (Inr g) \<Rightarrow> options_in_range (v_float (re_session_env env)) (g_nodes g) \<and> edge_count obj \<le> 65535)
      | _ \<Rightarrow> True)"

fun event_in_range :: "'ep router_env \<Rightarrow> event \<Rightarrow> bool" where
  "event_in_range env (SyRound c rn) = (case rn_header rn of GotRequest req \<Rightarrow> request_in_range env req | _ \<Rightarrow> True)"
| "event_in_range env ev = True"

text \<open>Requests of less than \<open>m\<close> edges.\<close>

definition small_request :: "'ep router_env \<Rightarrow> nat \<Rightarrow> http_request \<Rightarrow> bool" where
  "small_request env m req =
     (case ha_parse (re_api env) (hq_body req) of Some (JObject obj) \<Rightarrow> edge_count obj < m | _ \<Rightarrow> True)"

fun small_event :: "'ep router_env \<Rightarrow> nat \<Rightarrow> event \<Rightarrow> bool" where
  "small_event env m (SyRound c rn) = (case rn_header rn of GotRequest req \<Rightarrow> small_request env m req | _ \<Rightarrow> True)"
| "small_event env m ev = True"

fun ticks :: "event \<Rightarrow> bool" where
  "ticks (SySession k l) = is_tick l"
| "ticks ev = False"

text \<open>Each session may still pull \<open>n\<close> frames before a counter of its nodes overflows.\<close>

definition all_left :: "nat \<Rightarrow> nat \<Rightarrow> 'ep session list \<Rightarrow> bool" where
  "all_left m n ss \<longleftrightarrow> (\<forall>s\<in>set ss. frames_left m n (heap_of s))"

lemma heap_of_control [simp]:
  "heap_of (stop s) = heap_of s" "heap_of (pause s) = heap_of s" "heap_of (resume s) = heap_of s" "heap_of (attach_observer s) = heap_of s"
  by (simp_all add: heap_of_def stop_def pause_def resume_def attach_observer_def)

lemma all_left_update: "all_left m n ss \<Longrightarrow> frames_left m n (heap_of s) \<Longrightarrow> all_left m n (ss[k := s])"
  by (auto simp: all_left_def dest!: set_update_subset_insert [THEN subsetD])

lemma all_left_mono: "all_left m n ss \<Longrightarrow> k \<le> n \<Longrightarrow> all_left m k ss"
  using frames_left_mono by (auto simp: all_left_def)

text \<open>What the theorems ask of the environment: the factory and the key material of a configured server.\<close>

definition env_ok :: "'ep router_env \<Rightarrow> bool" where
  "env_ok env \<longleftrightarrow> float_ok (v_float (re_session_env env)) \<and> re_factory env = builtin_factory \<and> 4 \<le> length (cf_salt (cfg_crypto (re_cfg env)))"

lemma parse_graph_edges:
  assumes "parse_graph builtin_factory pe request = Inr (Inr g)" and "edge_count request \<le> 65535" and "options_in_range e (g_nodes g)"
  shows "wf_heap e (g_nodes g) \<and> indexes_ok g \<and> g_start_node g \<noteq> None
    \<and> (\<forall>m n. edge_count request < m \<longrightarrow> m * n < 2 ^ 31 \<longrightarrow> frames_left m n (g_nodes g))"
proof -
  obtain flow edges where "map_of request ''flow'' = Some (JObject flow)" "map_of flow ''edges'' = Some (JArray edges)"
    using assms(1) by (auto simp: parse_graph_def pbind_ok require_json_Inr_iff)
  then show ?thesis using parse_graph_inv [OF assms(1)] assms(2,3) by (simp add: edge_count_def)
qed

lemma session_create_defined:
  assumes "4 \<le> length (cf_salt crypto)"
  shows "session_create v i g crypto draws w ip port e \<noteq> Inl UndefinedBehaviour"
  using assms
  by (auto simp: session_create_def new_session_def setup_security_def derive_iv_from_ssrc_def create_streamer_def
      Let_def transform_def ssrc_bytes_def create_aes_encryption_strategy_def split: sum.split option.split)

lemma create_session_defined:
  assumes "4 \<le> length (cf_salt (cfg_crypto cfg))" and "create_session v cfg draws i g ty st = (r, st')"
  shows "r \<noteq> Inl UndefinedBehaviour"
  using assms(2)
  by (auto simp: create_session_def Let_def session_create_defined [OF assms(1)] split: sum.splits prod.splits if_splits)

lemma route_query_defined:
  assumes "env_ok env" and "request_in_range env req"
  shows "route_query env rd req res ro \<noteq> None"
proof -
  have p: "fst (process_session_request env rd req res ty ro) \<noteq> Inl Undefined" for res ty and ro :: "'a router"
  proof -
    have salt: "4 \<le> length (cf_salt (cfg_crypto (re_cfg env)))" using assms(1) by (simp add: env_ok_def)
    have c: "fst (create_session_json env rd obj ty st) \<noteq> Inl Undefined" if "ha_parse (re_api env) (hq_body req) = Some (JObject obj)" for obj st
      using assms(2) that
      by (auto dest: create_session_defined [OF salt] simp: create_session_json_def request_in_range_def split: sum.split prod.split parse_fault.split security_fault.split)
    show ?thesis
    proof (cases "\<exists>obj. ha_parse (re_api env) (hq_body req) = Some (JObject obj)")
      case True
      then obtain obj where "ha_parse (re_api env) (hq_body req) = Some (JObject obj)" by blast
      then show ?thesis using c [of obj "ro_active ro"]
        by (auto simp: process_session_request_def route_fail_def split: sum.split prod.split)
    qed (auto simp: process_session_request_def route_fail_def split: option.split)
  qed
  have "fst (try_routes req res ro path (routes env rd req)) \<noteq> Inl Undefined" for res path and ro :: "'a router"
  proof (cases rule: dispatch_cases [of req res ro path env rd])
    case (create ty)
    then show ?thesis using p by metis
  qed (auto simp: route_fail_def handle_websocket_request_def handle_stop_def handle_pause_def handle_resume_def handle_metrics_def
      extract_session_id_def answer_status_def Let_def split: sum.split prod.split option.split session_op_status.split)
  then show ?thesis
    by (auto simp: route_query_def conclude_def Let_def split: sum.split prod.split escape.split) (metis fst_conv)+
qed

lemma session_round_defined:
  assumes "env_ok env" and "event_in_range env (SyRound c rn)"
  shows "session_round env rn (cn, ro) \<noteq> None"
proof -
  have "request_in_range env req" if "do_read_request rn = Inr (req, k)" for req k
    using that assms(2) by (auto simp: do_read_request_def split: header_result.splits option.splits if_splits)
  then show ?thesis
    by (auto simp: route_query_defined [OF assms(1)] session_round_def handle_websocket_upgrade_def do_build_response_def process_single_request_def Let_def
        split: sum.split prod.split bool.split option.split)
qed

section \<open>The parts of the registry that an effect changes\<close>

definition same_outside :: "'ep active_sessions \<Rightarrow> 'ep active_sessions \<Rightarrow> bool" where
  "same_outside st st' \<longleftrightarrow> as_spawned st' = as_spawned st \<and> as_closed st' = as_closed st \<and> as_websocket_sessions st' = as_websocket_sessions st"

lemma same_outside_ports [simp]:
  "same_outside st (push_port p st') = same_outside st st'" "same_outside st (release_guard b p st') = same_outside st st'"
  "same_outside st (snd (allocate_webrtc_port st')) = same_outside st st'" "same_outside st (insert_session i s st') = same_outside st st'"
  "same_outside st (counted st') = same_outside st st'" "same_outside st (update_object k f st') = same_outside st st'"
  by (simp_all add: same_outside_def push_port_def release_guard_def allocate_webrtc_port_def insert_session_def counted_def update_object_def
      split: option.split list.split)

lemma drawn_same_outside: "drawn ty st = (port, st2) \<Longrightarrow> same_outside st st2"
  by (auto simp: drawn_def same_outside_def counted_def allocate_webrtc_port_def split: if_splits list.splits)

lemma create_session_same_outside:
  assumes "create_session v cfg draws i g ty st = (r, st')"
  shows "same_outside st st'"
proof -
  obtain io pool where io: "get_io_context (as_pool st) = (io, pool)" by fastforce
  obtain port st2 where d: "drawn ty st = (port, st2)" by fastforce
  have "(if ty = WebRTC then allocate_webrtc_port (st\<lparr>as_next_session_id := as_next_session_id st + 1, as_pool := pool\<rparr>)
      else (None, st\<lparr>as_next_session_id := as_next_session_id st + 1, as_pool := pool\<rparr>)) = (port, st2)"
    using d unfolding drawn_def counted_def io snd_conv .
  moreover have "same_outside st (counted st)" by (simp add: same_outside_def counted_def)
  ultimately show ?thesis
    using assms drawn_same_outside [OF d] io
    by (auto simp: create_session_def Let_def counted_def split: sum.splits if_splits)
qed

lemma remove_session_parts:
  assumes "registry_inv st" and "remove_session i st = (r, st')"
  obtains (absent) "st' = st"
  | (removed) k ws where "k < length (as_objects st)" "as_objects st' = (as_objects st)[k := stop (as_objects st ! k)]" "as_spawned st' = as_spawned st"
      "as_closed st' = as_closed st @ ws" "set ws \<subseteq> snd ` set (as_websocket_sessions st)"
      "set (as_websocket_sessions st') \<subseteq> set (as_websocket_sessions st)" "as_sessions st' = AList.delete i (as_sessions st)"
proof (cases "map_of (as_sessions st) i")
  case None
  then show thesis using assms absent by (simp add: remove_session_def)
next
  case (Some k)
  note k = registry_objects(1) [OF assms(1) Some]
  show thesis
  proof (cases "map_of (as_websocket_sessions st) i")
    case None
    then show thesis using assms(2) Some k
      by (intro removed [of k "[]"]) (auto simp: remove_session_def Let_def update_object_def push_port_def split: option.splits)
  next
    case (Some w)
    then have "w \<in> snd ` set (as_websocket_sessions st)" by (force dest: map_of_SomeD)
    moreover have "set (AList.delete i (as_websocket_sessions st)) \<subseteq> set (as_websocket_sessions st)" by (auto simp: AList.delete_eq)
    ultimately show thesis using assms(2) \<open>map_of (as_sessions st) i = Some k\<close> Some k
      by (intro removed [of k "[w]"]) (auto simp: remove_session_def Let_def update_object_def push_port_def split: option.splits)
  qed
qed

lemma http_effect_parts:
  assumes "http_effect env rd req st st'" and "registry_inv st"
  obtains (same) "as_objects st' = as_objects st" "same_outside st st'" "as_sessions st' = as_sessions st"
  | (made) obj g ident port ty s where "as_objects st' = as_objects st @ [s]" "same_outside st st'"
      "as_sessions st' = AList.update ident (length (as_objects st)) (as_sessions st)"
      "ha_parse (re_api env) (hq_body req) = Some (JObject obj)" "parse_graph (re_factory env) (re_parse_env env) obj = Inr (Inr g)"
      "session_create (re_session_env env) ident g (cfg_crypto (re_cfg env)) (rd_stream rd) (ty = WebRTC)
         (j_address (cfg_janus (re_cfg env))) port (ty = StandartEncrypted) = Inr (Inr s)"
  | (connected) io i k where "k < length (as_objects st)" "\<not> se_is_running (as_objects st ! k)"
      "as_objects st' = (as_objects st)[k := attach_observer (as_objects st ! k)]" "as_spawned st' = as_spawned st @ [(io, i, k, rd_websocket rd)]"
      "as_closed st' = as_closed st" "as_websocket_sessions st' = AList.update i (rd_websocket rd) (as_websocket_sessions st)"
      "as_sessions st' = as_sessions st" "(i, k) \<in> set (as_sessions st)"
  | (removed) k ws where "k < length (as_objects st)" "as_objects st' = (as_objects st)[k := stop (as_objects st ! k)]" "as_spawned st' = as_spawned st"
      "as_closed st' = as_closed st @ ws" "set ws \<subseteq> snd ` set (as_websocket_sessions st)"
      "set (as_websocket_sessions st') \<subseteq> set (as_websocket_sessions st)" "set (as_sessions st') \<subseteq> set (as_sessions st)"
  | (controlled) k f where "k < length (as_objects st)" "f = pause \<or> f = resume" "as_objects st' = (as_objects st)[k := f (as_objects st ! k)]"
      "same_outside st st'" "as_sessions st' = as_sessions st"
  using assms(1)
proof (cases rule: http_effect.cases)
  case (he_create obj g ty r)
  note so = create_session_same_outside [OF he_create(3)]
  show thesis
    using he_create(3)
  proof (cases rule: create_session_cases)
    case failed
    then show thesis using same so by blast
  next
    case (made g1 s port st2)
    have "as_objects st' = as_objects st @ [s]" "as_sessions st' = AList.update (rd_session_id rd) (length (as_objects st)) (as_sessions st)"
      using made(5) drawn_frame(1,2) [OF made(3)] by (simp_all add: insert_session_def)
    then show thesis using that(2) so he_create(1,2) made(2,4) by blast
  qed
next
  case (he_connect i r)
  show thesis
  proof (cases "map_of (as_sessions st) i")
    case None
    then show thesis using he_connect same by (simp add: create_and_run_websocket_session_def same_outside_def)
  next
    case (Some k)
    note k = registry_objects(1) [OF assms(2) Some]
    show thesis
    proof (cases "se_is_running (as_objects st ! k)")
      case True
      then show thesis using he_connect same Some by (simp add: create_and_run_websocket_session_def same_outside_def)
    next
      case False
      obtain io pool where "get_io_context (as_pool st) = (io, pool)" by fastforce
      then show thesis using he_connect Some k False map_of_SomeD [OF Some]
        by (intro connected [of k io i]) (auto simp: create_and_run_websocket_session_def spawn_session_coroutine_def update_object_def Let_def)
    qed
  qed
next
  case (he_remove i r)
  show thesis
    using assms(2) he_remove
  proof (cases rule: remove_session_parts)
    case (removed k ws)
    moreover have "set (AList.delete i (as_sessions st)) \<subseteq> set (as_sessions st)" by (auto simp: AList.delete_eq)
    ultimately show thesis using that(4) [of k ws] by simp
  qed (auto intro: same simp: same_outside_def)
next
  case (he_pause i r)
  then show thesis
    using registry_objects(1) [OF assms(2), of i]
    by (cases "map_of (as_sessions st) i") (auto simp: pause_session_def same_outside_def update_object_def intro: same controlled [of _ pause])
next
  case (he_resume i r)
  then show thesis
    using registry_objects(1) [OF assms(2), of i]
    by (cases "map_of (as_sessions st) i") (auto simp: resume_session_def same_outside_def update_object_def intro: same controlled [of _ resume])
qed (auto intro: same simp: same_outside_def counted_def)

section \<open>The invariant\<close>

lemma made_left:
  assumes "env_ok env" and "request_in_range env req" and "small_request env m req" and "m * n < 2 ^ 31"
    and "ha_parse (re_api env) (hq_body req) = Some (JObject obj)" and "parse_graph (re_factory env) (re_parse_env env) obj = Inr (Inr g)"
    and "session_create (re_session_env env) ident g crypto draws w ip port e = Inr (Inr s)"
  shows "frames_left m n (heap_of s)"
proof -
  have g: "parse_graph builtin_factory (re_parse_env env) obj = Inr (Inr g)" "edge_count obj \<le> 65535"
    "options_in_range (v_float (re_session_env env)) (g_nodes g)" "edge_count obj < m"
    using assms by (simp_all add: env_ok_def request_in_range_def small_request_def)
  have "frames_left m n (g_nodes g)" using parse_graph_edges [OF g(1-3)] g(4) assms(4) by blast
  then show ?thesis using created_heap [OF assms(7)] by simp
qed

lemma http_effect_left:
  assumes "http_effect env rd req st st'" and "registry_inv st" and "env_ok env" and "request_in_range env req"
    and "small_request env m req" and "m * n < 2 ^ 31" and "all_left m n (as_objects st)"
  shows "all_left m n (as_objects st')"
  using assms(1,2)
proof (cases rule: http_effect_parts)
  case (made obj g ident port ty s)
  have "frames_left m n (heap_of s)" by (rule made_left [OF assms(3-6) made(4,5,6)])
  then show ?thesis using assms(7) made(1) by (simp add: all_left_def)
next
  case (controlled k f)
  have "frames_left m n (heap_of (as_objects st ! k))" using assms(7) controlled(1) by (simp add: all_left_def)
  then show ?thesis using controlled(2,3) all_left_update [OF assms(7), of _ k] by auto
next
  case (connected io i k)
  have "frames_left m n (heap_of (as_objects st ! k))" using assms(7) connected(1) by (simp add: all_left_def)
  then show ?thesis using connected(3) all_left_update [OF assms(7), of _ k] by auto
next
  case (removed k ws)
  have "frames_left m n (heap_of (as_objects st ! k))" using assms(7) removed(1) by (simp add: all_left_def)
  then show ?thesis using removed(2) all_left_update [OF assms(7), of _ k] by auto
qed (use assms(7) in simp)

text \<open>A session that waits for its client is safe once it has an observer; one that has started has one.\<close>

definition object_ok :: "'ep session_env \<Rightarrow> 'ep session \<Rightarrow> bool" where
  "object_ok v s \<longleftrightarrow> (if se_control s = NotStarted then session_ok v (attach_observer s) else session_ok v s \<and> se_observer s \<noteq> None)"

definition messages_of :: "'ep router_env \<Rightarrow> notification list \<Rightarrow> string list" where
  "messages_of env = map (ha_serialize (re_api env) \<circ> observer_message)"

text \<open>Each observer writes to a web socket of its own, which holds exactly what the session told it.\<close>

definition observers_inv :: "'ep router_env \<Rightarrow> 'ep system \<Rightarrow> bool" where
  "observers_inv env sy \<longleftrightarrow> inj_on (sy_observers sy) (dom (sy_observers sy))
     \<and> (\<forall>k w. sy_observers sy k = Some w \<longrightarrow> k < length (sy_objects sy) \<and> w < sy_next_socket sy
          \<and> (\<exists>ns. se_observer (sy_objects sy ! k) = Some ns \<and> ws_messages (sy_sockets sy w) = messages_of env ns))"

definition sockets_inv :: "'ep system \<Rightarrow> bool" where
  "sockets_inv sy \<longleftrightarrow> (\<forall>w. ws_inv (sy_sockets sy w)) \<and> (\<forall>w \<ge> sy_next_socket sy. ws_messages (sy_sockets sy w) = [])
     \<and> (\<forall>w\<in>snd ` set (as_websocket_sessions (sy_active sy)). w < sy_next_socket sy)"

definition spawned_inv :: "'ep system \<Rightarrow> bool" where
  "spawned_inv sy \<longleftrightarrow> (\<forall>(io, i, k, w)\<in>set (as_spawned (sy_active sy)). sy_observers sy k \<noteq> None)"

definition system_inv :: "'ep router_env \<Rightarrow> 'ep system \<Rightarrow> bool" where
  "system_inv env sy \<longleftrightarrow> registry_inv (sy_active sy) \<and> (\<forall>s\<in>set (sy_objects sy). object_ok (re_session_env env) s)
     \<and> observers_inv env sy \<and> sockets_inv sy \<and> spawned_inv sy"

lemma object_ok_control:
  assumes "object_ok v s"
  shows "object_ok v (stop s)" "object_ok v (pause s)" "object_ok v (resume s)" "object_ok v (attach_observer s)"
  using assms by (auto simp: object_ok_def session_ok_def stop_def pause_def resume_def attach_observer_def)

lemma control_observer [simp]:
  "se_observer (stop s) = se_observer s" "se_observer (pause s) = se_observer s" "se_observer (resume s) = se_observer s"
  "se_observer (attach_observer s) = Some []"
  by (simp_all add: stop_def pause_def resume_def attach_observer_def)

lemma ws_close_keeps [simp]: "ws_inv (ws_close ws) = ws_inv ws" "ws_messages (ws_close ws) = ws_messages ws"
  by (simp_all add: ws_close_def ws_inv_def ws_messages_def)

lemma close_all:
  "ws_inv (fold (\<lambda>w f. f(w := ws_close (f w))) ws f w) = ws_inv (f w)"
  "ws_messages (fold (\<lambda>w f. f(w := ws_close (f w))) ws f w) = ws_messages (f w)"
  by (induction ws arbitrary: f) auto

lemma settle_system_frame [simp]:
  "sy_router (settle_system old sy) = sy_router sy" "sy_connections (settle_system old sy) = sy_connections sy" "sy_next_socket (settle_system old sy) = sy_next_socket sy"
  "ws_inv (sy_sockets (settle_system old sy) w) = ws_inv (sy_sockets sy w)" "ws_messages (sy_sockets (settle_system old sy) w) = ws_messages (sy_sockets sy w)"
  "sy_observers (settle_system old sy) = fold (\<lambda>(io, i, k, w) f. f(k := Some w)) (drop (length (as_spawned old)) (as_spawned (sy_active sy))) (sy_observers sy)"
  by (simp_all add: settle_system_def close_all)

lemma new_system_inv:
  assumes "server_create pool_exception make_address ac cfg = Some (Inr server)"
  shows "system_inv env (new_system server)"
proof -
  have "registry_inv (ro_active (sr_router server)) \<and> as_objects (ro_active (sr_router server)) = [] \<and> as_spawned (ro_active (sr_router server)) = []
      \<and> as_websocket_sessions (ro_active (sr_router server)) = []"
    using assms by (auto simp: server_create_def new_active_sessions_def registry_inv_def split: sum.splits option.splits)
  then show ?thesis by (simp add: system_inv_def new_system_def observers_inv_def sockets_inv_def spawned_inv_def)
qed

lemma observers_inv_update:
  assumes "observers_inv env sy" and "k < length (sy_objects sy)" and "se_observer s = se_observer (sy_objects sy ! k)"
    and "sy_objects sy' = (sy_objects sy)[k := s]" and "sy_observers sy' = sy_observers sy" and "sy_next_socket sy \<le> sy_next_socket sy'"
    and "\<And>w. ws_messages (sy_sockets sy' w) = ws_messages (sy_sockets sy w)"
  shows "observers_inv env sy'"
proof -
  have "se_observer ((sy_objects sy)[k := s] ! j) = se_observer (sy_objects sy ! j)" if "j < length (sy_objects sy)" for j
    using assms(2,3) that by (cases "j = k") auto
  then show ?thesis using assms(1) order_less_le_trans [OF _ assms(6)]
    unfolding observers_inv_def assms(4,5,7) length_list_update by (simp cong: conj_cong)
qed

lemma made_object_ok:
  assumes "env_ok env" and "request_in_range env req" and "ha_parse (re_api env) (hq_body req) = Some (JObject obj)"
    and "parse_graph (re_factory env) (re_parse_env env) obj = Inr (Inr g)"
    and "session_create (re_session_env env) ident g crypto draws w ip port e = Inr (Inr s)"
  shows "object_ok (re_session_env env) s"
proof -
  have g: "parse_graph builtin_factory (re_parse_env env) obj = Inr (Inr g)" "edge_count obj \<le> 65535"
    "options_in_range (v_float (re_session_env env)) (g_nodes g)"
    using assms(1-4) by (simp_all add: env_ok_def request_in_range_def)
  have "session_ok (re_session_env env) (attach_observer s)"
    using parse_graph_edges [OF g] by (intro created_session_ok [OF _ _ _ assms(5)]) auto
  moreover have "se_control s = NotStarted"
    using assms(5) by (auto simp: session_create_def new_session_def Let_def transform_Inr_iff split: sum.splits)
  ultimately show ?thesis by (simp add: object_ok_def)
qed

lemma update_snd: "snd ` set (AList.update i w al) \<subseteq> insert w (snd ` set al)"
  by (induction al) auto

text \<open>A web socket for an object that has none: its observer is the next socket.\<close>

lemma observers_inv_connected:
  assumes "observers_inv env sy" and "sockets_inv sy" and "k < length (sy_objects sy)"
    and "sy_objects sy' = (sy_objects sy)[k := attach_observer (sy_objects sy ! k)]"
    and "sy_observers sy' = (sy_observers sy)(k \<mapsto> sy_next_socket sy)" and "sy_next_socket sy' = Suc (sy_next_socket sy)"
    and "\<And>w. ws_messages (sy_sockets sy' w) = ws_messages (sy_sockets sy w)"
  shows "observers_inv env sy'"
  unfolding observers_inv_def assms(5)
proof (intro conjI allI impI)
  have "inj_on (sy_observers sy) (dom (sy_observers sy))" and lt: "\<And>j w. sy_observers sy j = Some w \<Longrightarrow> w < sy_next_socket sy"
    using assms(1) by (auto simp: observers_inv_def)
  then show "inj_on ((sy_observers sy)(k \<mapsto> sy_next_socket sy)) (dom ((sy_observers sy)(k \<mapsto> sy_next_socket sy)))"
    by (force simp: inj_on_def)
  fix j w
  assume jw: "((sy_observers sy)(k \<mapsto> sy_next_socket sy)) j = Some w"
  show "j < length (sy_objects sy')" "w < sy_next_socket sy'"
    "\<exists>ns. se_observer (sy_objects sy' ! j) = Some ns \<and> ws_messages (sy_sockets sy' w) = messages_of env ns"
    using assms jw lt by (auto simp: observers_inv_def sockets_inv_def messages_of_def split: if_splits intro: less_SucI)
qed

text \<open>One object has changed and keeps its observer.\<close>

lemma system_inv_update:
  assumes "system_inv env sy" and "registry_inv (sy_active sy')" and "sockets_inv sy'"
    and "sy_objects sy' = (sy_objects sy)[k := s]" and "k < length (sy_objects sy)" and "object_ok (re_session_env env) s"
    and "se_observer s = se_observer (sy_objects sy ! k)" and "as_spawned (sy_active sy') = as_spawned (sy_active sy)"
    and "sy_observers sy' = sy_observers sy" and "sy_next_socket sy \<le> sy_next_socket sy'"
    and "\<And>w. ws_messages (sy_sockets sy' w) = ws_messages (sy_sockets sy w)"
  shows "system_inv env sy'"
proof -
  note inv = assms(1) [unfolded system_inv_def]
  have "observers_inv env sy'"
    using observers_inv_update [OF _ assms(5,7,4,9,10,11)] inv by blast
  moreover have "\<forall>s\<in>set (sy_objects sy'). object_ok (re_session_env env) s"
    using inv assms(4,6) by (auto dest!: set_update_subset_insert [THEN subsetD])
  moreover have "spawned_inv sy'" using inv assms(8,9) by (simp add: spawned_inv_def)
  ultimately show ?thesis using assms(2,3) by (simp add: system_inv_def)
qed

lemma round_inv:
  assumes "system_inv env sy" and "env_ok env" and "st = sy_active sy \<or> (\<exists>req. request_in_range env req \<and> http_effect env rd req (sy_active sy) st)"
    and "rd_websocket rd = sy_next_socket sy" and "registry_inv st"
    and "sy' = sy\<lparr>sy_router := ro, sy_connections := cs, sy_next_socket := Suc (sy_next_socket sy)\<rparr>" and "ro_active ro = st"
  shows "system_inv env (settle_system (sy_active sy) sy')"
proof -
  let ?sy = "settle_system (sy_active sy) sy'"
  note inv = assms(1) [unfolded system_inv_def]
  have ok: "object_ok (re_session_env env) (sy_objects sy ! k)" if "k < length (sy_objects sy)" for k
    using inv that by simp
  have act: "sy_active sy' = st" "sy_observers sy' = sy_observers sy" "sy_next_socket sy' = Suc (sy_next_socket sy)" "sy_sockets sy' = sy_sockets sy"
    using assms(6,7) by simp_all
  have socks: "sockets_inv ?sy" if "snd ` set (as_websocket_sessions st) \<subseteq> insert (sy_next_socket sy) (snd ` set (as_websocket_sessions (sy_active sy)))"
    using inv that by (fastforce simp: sockets_inv_def act)
  have plain: "system_inv env ?sy" if o: "as_objects st = (as_objects (sy_active sy))[k := s]" "k < length (sy_objects sy)"
      "object_ok (re_session_env env) s" "se_observer s = se_observer (sy_objects sy ! k)" and sp: "as_spawned st = as_spawned (sy_active sy)"
      and ws: "set (as_websocket_sessions st) \<subseteq> set (as_websocket_sessions (sy_active sy))" for k s
  proof -
    have "sockets_inv ?sy" using ws by (intro socks) auto
    then show ?thesis
      by (intro system_inv_update [OF assms(1) _ _ _ o(2,3,4)]) (simp_all add: act assms(5) o(1) sp)
  qed
  have kept: "system_inv env ?sy" if "as_objects st = as_objects (sy_active sy)" "same_outside (sy_active sy) st"
  proof -
    have "observers_inv env ?sy" using inv that by (auto simp: observers_inv_def act same_outside_def intro: less_SucI)
    moreover have "spawned_inv ?sy" using inv that by (simp add: spawned_inv_def act same_outside_def)
    moreover have "sockets_inv ?sy" using that by (intro socks) (auto simp: same_outside_def)
    ultimately show ?thesis using inv assms(5) that by (simp add: system_inv_def act)
  qed
  consider (unchanged) "st = sy_active sy" | (changed) req where "request_in_range env req" "http_effect env rd req (sy_active sy) st"
    using assms(3) by blast
  then show ?thesis
  proof cases
    case unchanged
    then show ?thesis by (intro kept) (simp_all add: same_outside_def)
  next
    case (changed req)
    show ?thesis
      using changed(2) inv [THEN conjunct1]
    proof (cases rule: http_effect_parts)
      case same
      from same(1,2) show ?thesis by (rule kept)
    next
      case (made obj g ident port ty s)
      have made_ok: "object_ok (re_session_env env) s" by (rule made_object_ok [OF assms(2) changed(1) made(4,5,6)])
      have "observers_inv env ?sy"
        using inv made(1,2) by (fastforce simp: observers_inv_def act same_outside_def nth_append intro: less_SucI)
      moreover have "spawned_inv ?sy" using inv made(2) by (simp add: spawned_inv_def act same_outside_def)
      moreover have "sockets_inv ?sy" using made(2) by (intro socks) (auto simp: same_outside_def)
      ultimately show ?thesis using inv assms(5) made(1) made_ok by (auto simp: system_inv_def act)
    next
      case (removed k ws)
      then show ?thesis using object_ok_control(1) [OF ok] by (intro plain [of k "stop (sy_objects sy ! k)"]) auto
    next
      case (controlled k f)
      then show ?thesis using object_ok_control(2,3) [OF ok] by (intro plain [of k "f (sy_objects sy ! k)"]) (auto simp: same_outside_def)
    next
      case (connected io i k)
      have obs: "sy_observers ?sy = (sy_observers sy)(k \<mapsto> sy_next_socket sy)" using connected(4) assms(4) by (simp add: act)
      have "observers_inv env ?sy"
        using inv connected(1,3) by (intro observers_inv_connected [OF _ _ connected(1) _ obs]) (simp_all add: act)
      moreover have "spawned_inv ?sy" using inv connected(4) by (auto simp: spawned_inv_def act obs)
      moreover have "\<forall>s\<in>set (as_objects st). object_ok (re_session_env env) s"
        using inv connected(1,3) object_ok_control(4) by (auto dest!: set_update_subset_insert [THEN subsetD])
      moreover have "sockets_inv ?sy" using assms(4) connected(6) update_snd [of i "rd_websocket rd"] by (intro socks) simp
      ultimately show ?thesis using assms(5) by (simp add: system_inv_def act)
    qed
  qed
qed

section \<open>A session moves\<close>

lemma observe_all:
  "\<exists>ws'. fold (observe serialize) ns (Some ws) = Some ws' \<and> ws_inv ws' = ws_inv ws
     \<and> ws_messages ws' = ws_messages ws @ map (serialize \<circ> observer_message) ns"
proof (induction ns arbitrary: ws)
  case (Cons n ns)
  show ?case using Cons.IH [of "ws_send (serialize (observer_message n)) ws"]
    by (auto simp: observe_def ws_send_def ws_inv_def ws_messages_def)
qed simp

lemma own_step_observer:
  assumes "session_step v s l s'" and "own_step l"
  shows "\<exists>ns. se_observer s' = map_option (\<lambda>os. os @ ns) (se_observer s)"
proof -
  have n: "\<exists>ns. se_observer (notify n t) = map_option (\<lambda>os. os @ ns) (se_observer t)" for n and t :: "'a session"
    by (auto simp: notify_def)
  have trans: "\<exists>ns. se_observer c = map_option (\<lambda>os. os @ ns) (se_observer a)"
    if "\<exists>ns. se_observer b = map_option (\<lambda>os. os @ ns) (se_observer a)" "\<exists>ns. se_observer c = map_option (\<lambda>os. os @ ns) (se_observer b)"
    for a b c :: "'a session"
    using that by (cases "se_observer a") auto
  have refl: "\<exists>ns. se_observer b = map_option (\<lambda>os. os @ ns) (se_observer a)" if "se_observer b = se_observer a" for a b :: "'a session"
    using that by (cases "se_observer a") auto
  have t: "\<exists>ns. se_observer (teardown r t) = map_option (\<lambda>os. os @ ns) (se_observer t)" for r and t :: "'a session"
    by (cases "se_observer t") (auto simp: teardown_def finalize_session_def notify_def)
  have h: "\<exists>ns. se_observer (loop_head t) = map_option (\<lambda>os. os @ ns) (se_observer t)" for t :: "'a session"
    using t [of no_error t] refl by (auto simp: loop_head_def)
  have c: "\<exists>ns. se_observer t' = map_option (\<lambda>os. os @ ns) (se_observer t)" if "configure_streamer_from_graph v t = Some t'" for t t'
    using that by (cases "se_observer t") (auto simp: configure_streamer_from_graph_def notify_def split: option.splits if_splits node_body.splits)
  have p: "\<exists>ns. se_observer t' = map_option (\<lambda>os. os @ ns) (se_observer t)" if "process_and_stream_single_frame v draw due t = Some (r, sends, t')" for draw due t r sends t'
    using that by (cases "se_observer t") (auto simp: process_and_stream_single_frame_def bump_packets_def update_stats_if_needed_def notify_def Let_def
        split: option.splits if_splits prod.splits)
  show ?thesis
    using assms(1)
  proof (cases rule: session_step.cases)
    case (ss_prepared received)
    have "\<exists>ns. se_observer t' = map_option (\<lambda>os. os @ ns) (se_observer s)" if "configure_streamer_from_graph v (s\<lparr>se_executor := x\<rparr>) = Some t'" for x t'
      using c [OF that] by simp
    moreover have "\<exists>ns. se_observer (notify e (s\<lparr>se_executor := x\<rparr>)) = map_option (\<lambda>os. os @ ns) (se_observer s)" for e x
      using n [of e "s\<lparr>se_executor := x\<rparr>"] by simp
    moreover have "\<exists>ns. se_observer (s\<lparr>se_control := Crashed\<rparr>) = map_option (\<lambda>os. os @ ns) (se_observer s)" by (rule refl) simp
    ultimately show ?thesis using ss_prepared trans [OF _ t] trans [OF _ h]
      by (simp add: after_prepare_def split: option.split sum.split)
  next
    case ss_aborted
    then show ?thesis using t by blast
  next
    case (ss_tick draw due)
    moreover have "\<exists>ns. se_observer (s\<lparr>se_control := Crashed\<rparr>) = map_option (\<lambda>os. os @ ns) (se_observer s)" by (rule refl) simp
    ultimately show ?thesis using trans [OF p t] trans [OF p h]
      by (simp add: tick_def split: option.split sum.split)
  next
    case ss_woken
    then show ?thesis using h [of "s\<lparr>se_resume_channel := se_resume_channel s - 1\<rparr>"] by (simp add: woken_def)
  qed (use assms(2) in \<open>auto intro!: refl simp: start_session_def refilled_def reinitialised_def\<close>)
qed

lemma own_step_control:
  assumes "session_step v s l s'" and "own_step l"
  shows "se_control s \<noteq> NotStarted \<Longrightarrow> se_control s' \<noteq> NotStarted"
    and "se_control s = NotStarted \<Longrightarrow> l \<noteq> Start \<Longrightarrow> se_control s' = NotStarted \<and> session_step v (attach_observer s) l (attach_observer s')"
proof -
  show "se_control s' \<noteq> NotStarted" if "se_control s \<noteq> NotStarted"
  proof (cases "resumes l")
    case True
    then show ?thesis using step_resumes(3) [OF assms(1)] by (auto split: if_splits)
  next
    case False
    then show ?thesis using step_outside(1) [OF assms(1)] assms(1) that by (cases "l = Start") (auto elim: session_stepE)
  qed
  assume "se_control s = NotStarted" and "l \<noteq> Start"
  then consider p where "l = Refilled p" "s' = refilled v p s"
    | p where "l = Reinitialised p" "s' = reinitialised v p s" "p < length (x_heap (se_executor s))" "spawned_init (x_heap (se_executor s) ! p)"
    | ec n where "l = DatagramSent ec n" "s' = s\<lparr>se_streamer := on_datagram_sent ec n (se_streamer s)\<rparr>"
    using assms by (auto elim!: session_stepE)
  then show "se_control s' = NotStarted \<and> session_step v (attach_observer s) l (attach_observer s')"
  proof cases
    case 1
    then have "attach_observer s' = refilled v p (attach_observer s)" by (simp add: refilled_def attach_observer_def)
    then show ?thesis using 1 \<open>se_control s = NotStarted\<close> ss_refilled [of v "attach_observer s" p] by (simp add: refilled_def)
  next
    case 2
    then have "attach_observer s' = reinitialised v p (attach_observer s)" by (simp add: reinitialised_def attach_observer_def)
    moreover have "session_step v (attach_observer s) (Reinitialised p) (reinitialised v p (attach_observer s))"
      using 2 by (intro ss_reinitialised) (simp_all add: attach_observer_def)
    ultimately show ?thesis using 2 \<open>se_control s = NotStarted\<close> by (simp add: reinitialised_def)
  next
    case 3
    then have "attach_observer s' = (attach_observer s)\<lparr>se_streamer := on_datagram_sent ec n (se_streamer (attach_observer s))\<rparr>"
      by (simp add: attach_observer_def)
    then show ?thesis using 3 \<open>se_control s = NotStarted\<close> ss_sent [of v "attach_observer s" ec n] by simp
  qed
qed

lemma own_step_ok:
  assumes "session_step v s l s'" and "own_step l" and "float_ok (v_float v)" and "object_ok v s"
    and "l = Start \<Longrightarrow> se_observer s \<noteq> None"
  shows "(se_control s' \<noteq> Crashed \<longrightarrow> object_ok v s')
    \<and> (\<forall>m n. frames_left m ((if is_tick l then 1 else 0) + n) (heap_of s) \<longrightarrow> se_control s' \<noteq> Crashed \<and> frames_left m n (heap_of s'))"
proof (cases "se_control s = NotStarted \<and> l \<noteq> Start")
  case True
  note c = own_step_control(2) [OF assms(1,2)]
  have ok: "session_ok v (attach_observer s)" using True assms(4) by (simp add: object_ok_def)
  have step: "session_step v (attach_observer s) l (attach_observer s')" and ctl: "se_control s' = NotStarted" using c True by simp_all
  have "se_control (attach_observer s') = NotStarted" using ctl by (simp add: attach_observer_def)
  then show ?thesis using session_ok_step [OF step assms(3) ok] ctl by (simp add: object_ok_def)
next
  case False
  have o: "session_ok v s \<and> se_observer s \<noteq> None"
  proof (cases "se_control s = NotStarted")
    case True
    then show ?thesis using False assms(4,5) by (auto simp: object_ok_def session_ok_def attach_observer_def)
  qed (use assms(4) in \<open>simp add: object_ok_def\<close>)
  have "se_observer s' \<noteq> None" using own_step_observer [OF assms(1,2)] o by auto
  moreover have "se_control s' \<noteq> NotStarted"
  proof (cases "se_control s = NotStarted")
    case True
    then show ?thesis using False assms(1) by (auto elim!: session_stepE simp: start_session_def)
  qed (use own_step_control(1) [OF assms(1,2)] in simp)
  ultimately show ?thesis using session_ok_step [OF assms(1,3)] o by (simp add: object_ok_def)
qed

lemma set_object_frame [simp]:
  "sy_objects (set_object k s sy) = (sy_objects sy)[k := s]" "sy_observers (set_object k s sy) = sy_observers sy"
  "sy_sockets (set_object k s sy) = sy_sockets sy" "sy_next_socket (set_object k s sy) = sy_next_socket sy"
  "as_spawned (sy_active (set_object k s sy)) = as_spawned (sy_active sy)"
  "as_websocket_sessions (sy_active (set_object k s sy)) = as_websocket_sessions (sy_active sy)"
  by (simp_all add: set_object_def)

lemma registry_inv_object:
  assumes "registry_inv st" and "k < length (as_objects st)" and "se_id s = se_id (as_objects st ! k)"
  shows "registry_inv (st\<lparr>as_objects := (as_objects st)[k := s]\<rparr>)"
  using registry_inv_update [of st k "\<lambda>_. s"] assms by (simp add: update_object_def)

lemma session_moves_inv:
  assumes "system_inv env sy" and "env_ok env" and "k < length (sy_objects sy)" and "own_step l"
    and "l = Start \<Longrightarrow> k \<in> (\<lambda>(io, i, k, w). k) ` set (as_spawned (sy_active sy))"
    and "session_step (re_session_env env) (sy_objects sy ! k) l s"
  shows "(session_moves env k s sy = Some sy' \<longrightarrow> system_inv env sy')
    \<and> (all_left m ((if is_tick l then 1 else 0) + n) (sy_objects sy) \<longrightarrow>
         (\<exists>sy'. session_moves env k s sy = Some sy' \<and> all_left m n (sy_objects sy')))"
proof -
  let ?s = "sy_objects sy ! k"
  let ?f = "tell (ha_serialize (re_api env)) (new_notifications ?s s) (sy_observers sy k) (sy_sockets sy)"
  let ?sy = "set_object k s (sy\<lparr>sy_sockets := ?f\<rparr>)"
  have inv: "registry_inv (sy_active sy)" "\<And>s. s \<in> set (sy_objects sy) \<Longrightarrow> object_ok (re_session_env env) s" "observers_inv env sy" "sockets_inv sy" "spawned_inv sy"
    using assms(1) by (auto simp: system_inv_def)
  have obs: "\<exists>ns. se_observer ?s = Some ns \<and> ws_messages (sy_sockets sy w) = messages_of env ns \<and> w < sy_next_socket sy"
    if "sy_observers sy k = Some w" for w using inv(3) that by (auto simp: observers_inv_def)
  have "se_observer ?s \<noteq> None" if "l = Start"
    using assms(5) [OF that] inv(5) obs by (fastforce simp: spawned_inv_def)
  then have own: "(se_control s \<noteq> Crashed \<longrightarrow> object_ok (re_session_env env) s)
      \<and> (\<forall>m n. frames_left m ((if is_tick l then 1 else 0) + n) (heap_of ?s) \<longrightarrow> se_control s \<noteq> Crashed \<and> frames_left m n (heap_of s))"
    using own_step_ok [OF assms(6,4)] assms(2,3) inv(2) by (auto simp: env_ok_def)
  obtain ns where ns: "se_observer s = map_option (\<lambda>os. os @ ns) (se_observer ?s)" using own_step_observer [OF assms(6,4)] by blast
  have keep: "ws_inv (?f w) = ws_inv (sy_sockets sy w)
      \<and> ws_messages (?f w) = ws_messages (sy_sockets sy w) @ (if sy_observers sy k = Some w then messages_of env ns else [])" for w
  proof (cases "sy_observers sy k")
    case (Some w0)
    then have "new_notifications ?s s = ns" using obs ns by (auto simp: new_notifications_def)
    moreover obtain ws where "fold (observe (ha_serialize (re_api env))) ns (Some (sy_sockets sy w0)) = Some ws" "ws_inv ws = ws_inv (sy_sockets sy w0)"
        "ws_messages ws = ws_messages (sy_sockets sy w0) @ messages_of env ns"
      using observe_all [of "ha_serialize (re_api env)" ns "sy_sockets sy w0"] by (auto simp: messages_of_def)
    ultimately show ?thesis using Some by (simp add: tell_def)
  qed (simp add: tell_def)
  have "registry_inv (sy_active ?sy)"
    using registry_inv_object [OF inv(1) assms(3)] session_step_id [OF assms(6)] by (simp add: set_object_def)
  moreover have "\<forall>s\<in>set (sy_objects ?sy). object_ok (re_session_env env) s" if "se_control s \<noteq> Crashed"
    using inv(2) own that by (auto dest!: set_update_subset_insert [THEN subsetD])
  moreover have "observers_inv env ?sy"
    unfolding observers_inv_def
  proof (intro conjI allI impI)
    show "inj_on (sy_observers ?sy) (dom (sy_observers ?sy))" using inv(3) by (simp add: observers_inv_def)
    fix j w
    assume j: "sy_observers ?sy j = Some w"
    then have lt: "j < length (sy_objects sy)" "w < sy_next_socket sy" using inv(3) by (auto simp: observers_inv_def)
    then show "j < length (sy_objects ?sy)" "w < sy_next_socket ?sy" by simp_all
    have "sy_observers sy k = Some w \<longleftrightarrow> j = k"
      using inv(3) j by (auto simp: observers_inv_def inj_on_def dom_def)
    moreover obtain os where "se_observer (sy_objects sy ! j) = Some os" "ws_messages (sy_sockets sy w) = messages_of env os"
      using inv(3) j by (auto simp: observers_inv_def)
    ultimately show "\<exists>ns. se_observer (sy_objects ?sy ! j) = Some ns \<and> ws_messages (sy_sockets ?sy w) = messages_of env ns"
      using keep [of w] ns lt(1) by (cases "j = k") (auto simp: messages_of_def)
  qed
  moreover have "sockets_inv ?sy"
  proof -
    have "sy_observers sy k \<noteq> Some w" if "w \<ge> sy_next_socket sy" for w using obs that by force
    then show ?thesis using inv(4) keep by (simp add: sockets_inv_def)
  qed
  moreover have "spawned_inv ?sy" using inv(5) by (simp add: spawned_inv_def)
  ultimately have "system_inv env ?sy" if "se_control s \<noteq> Crashed" using that by (simp add: system_inv_def)
  moreover have "se_control s \<noteq> Crashed \<and> all_left m n (sy_objects ?sy)"
    if left: "all_left m ((if is_tick l then 1 else 0) + n) (sy_objects sy)"
  proof -
    have "frames_left m ((if is_tick l then 1 else 0) + n) (heap_of ?s)" using left assms(3) by (simp add: all_left_def)
    then have "se_control s \<noteq> Crashed" "frames_left m n (heap_of s)" using own by blast+
    then show ?thesis using all_left_update [OF all_left_mono [OF left], of n s k] by simp
  qed
  ultimately show ?thesis by (auto simp: session_moves_def)
qed

lemma coroutine_ends_inv:
  assumes "system_inv env sy" and "e \<in> set (as_spawned (sy_active sy))"
  shows "system_inv env (coroutine_ends e sy)"
proof -
  obtain io i k0 w0 where e: "e = (io, i, k0, w0)" by (metis prod_cases4)
  define st0 where "st0 = (sy_active sy)\<lparr>as_spawned := remove1 e (as_spawned (sy_active sy))\<rparr>"
  define st where "st = snd (remove_session i st0)"
  let ?sy = "coroutine_ends e sy"
  have eq: "?sy = settle_system st0 (sy\<lparr>sy_router := (sy_router sy)\<lparr>ro_active := st\<rparr>\<rparr>)"
    by (simp add: coroutine_ends_def e st_def st0_def Let_def)
  have inv: "registry_inv (sy_active sy)" "\<And>s. s \<in> set (sy_objects sy) \<Longrightarrow> object_ok (re_session_env env) s" "observers_inv env sy" "sockets_inv sy" "spawned_inv sy"
    using assms(1) by (auto simp: system_inv_def)
  have r0: "registry_inv st0" using inv(1) by (simp add: st0_def)
  have r: "registry_inv st" unfolding st_def by (rule active.inv_remove [OF r0])
  obtain res where rs: "remove_session i st0 = (res, st)" unfolding st_def by (metis prod.collapse)
  have sub: "set (as_spawned st0) \<subseteq> set (as_spawned (sy_active sy))" using set_remove1_subset [of e] by (simp add: st0_def)
  have plain: "system_inv env ?sy" if o: "as_objects st = (as_objects (sy_active sy))[k := s]" "k < length (sy_objects sy)"
      "object_ok (re_session_env env) s" "se_observer s = se_observer (sy_objects sy ! k)" and sp: "as_spawned st = as_spawned st0"
      and ws: "set (as_websocket_sessions st) \<subseteq> set (as_websocket_sessions (sy_active sy))" for k s
  proof -
    have "observers_inv env ?sy"
      by (rule observers_inv_update [OF _ o(2,4)]) (use inv(3) o(1) sp in \<open>simp_all add: eq\<close>)
    moreover have "\<forall>s\<in>set (as_objects st). object_ok (re_session_env env) s"
      using inv(2) o(1,3) by (auto dest!: set_update_subset_insert [THEN subsetD])
    moreover have "spawned_inv ?sy" using inv(5) sp sub by (fastforce simp: spawned_inv_def eq)
    moreover have "sockets_inv ?sy" using inv(4) ws by (fastforce simp: sockets_inv_def eq)
    ultimately show ?thesis using r by (simp add: system_inv_def eq)
  qed
  show ?thesis
    using r0 rs
  proof (cases rule: remove_session_parts)
    case absent
    have "observers_inv env ?sy" using inv(3) absent by (simp add: observers_inv_def eq st0_def)
    moreover have "spawned_inv ?sy" using inv(5) absent sub by (fastforce simp: spawned_inv_def eq)
    moreover have "sockets_inv ?sy" using inv(4) absent by (simp add: sockets_inv_def eq st0_def)
    ultimately show ?thesis using r inv(2) absent by (simp add: system_inv_def eq st0_def)
  next
    case (removed k ws)
    then show ?thesis using object_ok_control(1) [OF inv(2)] by (intro plain [of k "stop (sy_objects sy ! k)"]) (auto simp: st0_def)
  qed
qed

lemma coroutine_ends_left:
  assumes "system_inv env sy" and "all_left m n (sy_objects sy)"
  shows "all_left m n (sy_objects (coroutine_ends (io, i, k0, w0) sy))"
proof -
  define st0 where "st0 = (sy_active sy)\<lparr>as_spawned := remove1 (io, i, k0, w0) (as_spawned (sy_active sy))\<rparr>"
  obtain res st where rs: "remove_session i st0 = (res, st)" by fastforce
  have o: "sy_objects (coroutine_ends (io, i, k0, w0) sy) = as_objects st"
    using rs by (simp add: coroutine_ends_def st0_def Let_def)
  have "registry_inv st0" using assms(1) by (simp add: system_inv_def st0_def)
  then have "all_left m n (as_objects st)"
    using rs
  proof (cases rule: remove_session_parts)
    case absent
    then show ?thesis using assms(2) by (simp add: st0_def)
  next
    case (removed k ws)
    then have "frames_left m n (heap_of (sy_objects sy ! k))" using assms(2) by (simp add: all_left_def st0_def)
    then show ?thesis using removed(2) all_left_update [OF assms(2), of _ k] by (simp add: st0_def)
  qed
  then show ?thesis by (simp add: o)
qed

text \<open>A step keeps the invariant; it has a result unless a counter of a session is at its end.\<close>

lemma system_step_inv:
  assumes "system_step env sy ev r" and "system_inv env sy" and "env_ok env" and "event_in_range env ev"
  shows "(\<forall>sy'. r = Some sy' \<longrightarrow> system_inv env sy')
    \<and> (\<forall>m n. small_event env m ev \<longrightarrow> m * n < 2 ^ 31 \<longrightarrow> all_left m ((if ticks ev then 1 else 0) + n) (sy_objects sy) \<longrightarrow>
         (\<exists>sy'. r = Some sy' \<and> all_left m n (sy_objects sy')))"
  using assms(1)
proof (cases rule: system_step.cases)
  case (sy_accepted cn)
  then show ?thesis using assms(2) by (simp add: system_inv_def observers_inv_def sockets_inv_def spawned_inv_def)
next
  case (sy_round c rn)
  let ?rn = "drawing (sy_next_socket sy) rn" and ?cn = "sy_connections sy ! c"
  have rn: "event_in_range env (SyRound c ?rn)" "do_read_request ?rn = do_read_request rn" "rd_websocket (rn_draws ?rn) = sy_next_socket sy"
    using assms(4) sy_round(1) by (simp_all add: drawing_def do_read_request_def split: header_result.split)
  obtain cn ro where s: "session_round env ?rn (?cn, sy_router sy) = Some (cn, ro)"
    using session_round_defined [OF assms(3) rn(1)] by (metis not_Some_eq prod.collapse)
  have reg0: "registry_inv (sy_active sy)" using assms(2) by (simp add: system_inv_def)
  then have reg: "registry_inv (ro_active ro)" using session_round_registry [OF s] by simp
  have read: "request_in_range env req \<and> (\<forall>m. small_event env m ev \<longrightarrow> small_request env m req)" if "do_read_request rn = Inr (req, b)" for req b
    using that assms(4) sy_round(1) by (auto simp: do_read_request_def split: header_result.splits option.splits if_splits)
  have h: "ro_active ro = sy_active sy \<or> (\<exists>req. request_in_range env req \<and> (\<forall>m. small_event env m ev \<longrightarrow> small_request env m req)
      \<and> http_effect env (rn_draws ?rn) req (sy_active sy) (ro_active ro))"
    using session_round_effect [OF s] read unfolding rn(2) by blast
  then have h': "ro_active ro = sy_active sy \<or> (\<exists>req. request_in_range env req \<and> http_effect env (rn_draws ?rn) req (sy_active sy) (ro_active ro))"
    by blast
  have "all_left m n (as_objects (ro_active ro))"
    if "small_event env m ev" "m * n < 2 ^ 31" "all_left m n (sy_objects sy)" for m n
    using h http_effect_left [OF _ reg0 assms(3) _ _ that(2,3)] that by fastforce
  then show ?thesis
    using round_inv [OF assms(2,3) h' rn(3) reg refl refl] sy_round s by (simp add: serve_round_def)
next
  case (sy_session k l s)
  then show ?thesis using session_moves_inv [OF assms(2,3) sy_session(3,4) _ sy_session(6)] by simp
next
  case (sy_ends io i k w)
  then show ?thesis using coroutine_ends_inv [OF assms(2)] coroutine_ends_left [OF assms(2)] by auto
next
  case (sy_socket l w r0)
  have "ws_inv (sy_sockets sy w)" using assms(2) by (simp add: system_inv_def sockets_inv_def)
  then obtain ws where ws: "r0 = Some ws" "ws_inv ws" "ws_messages ws = ws_messages (sy_sockets sy w) @ sends_of [l]"
    using ws_step_ok [OF sy_socket(4)] by blast
  moreover have "sends_of [l] = []" using sy_socket(3) by (cases l) simp_all
  ultimately show ?thesis using assms(2) sy_socket
    by (auto simp: system_inv_def observers_inv_def sockets_inv_def spawned_inv_def)
qed

lemma system_run_inv:
  assumes "system_run env ok P sy evs r" and "system_inv env sy" and "env_ok env" and "\<And>ev. ok ev \<Longrightarrow> event_in_range env ev"
    and "\<And>ev. ok ev \<Longrightarrow> small_event env m ev" and "all_left m (length (filter ticks evs)) (sy_objects sy)" and "m * length (filter ticks evs) < 2 ^ 31"
  shows "\<exists>sy'. r = Some sy' \<and> system_inv env sy'"
  using assms
proof (induction rule: system_run.induct)
  case (syr_fault sy ev evs)
  have m: "m * length (filter ticks evs) < 2 ^ 31"
    by (rule order_le_less_trans [OF _ syr_fault.prems(6)]) simp
  have "all_left m ((if ticks ev then 1 else 0) + length (filter ticks evs)) (sy_objects sy)"
    using syr_fault.prems(5) by (simp split: if_splits)
  then show ?case
    using system_step_inv [OF syr_fault.hyps(3) syr_fault.prems(1,2) syr_fault.prems(3) [OF syr_fault.hyps(2)]]
      syr_fault.prems(4) [OF syr_fault.hyps(2)] m by blast
next
  case (syr_cons sy ev sy' evs r)
  have m: "m * length (filter ticks evs) < 2 ^ 31"
    by (rule order_le_less_trans [OF _ syr_cons.prems(6)]) simp
  have "all_left m ((if ticks ev then 1 else 0) + length (filter ticks evs)) (sy_objects sy)"
    using syr_cons.prems(5) by (simp split: if_splits)
  then have "system_inv env sy' \<and> all_left m (length (filter ticks evs)) (sy_objects sy')"
    using system_step_inv [OF syr_cons.hyps(3) syr_cons.prems(1,2) syr_cons.prems(3) [OF syr_cons.hyps(2)]]
      syr_cons.prems(4) [OF syr_cons.hyps(2)] m by blast
  then show ?case using syr_cons.IH syr_cons.prems(2-4) m by blast
qed simp

end
