(* ===== verification/Server_Properties.thy ===== *)
theory Server_Properties
  imports Server_Runs
begin

text \<open>
  What the composed server promises: it never runs into undefined behaviour, every web socket gets
  exactly what its session reported, in order, and every session that ends reports its end.
\<close>

section \<open>What a session has reported\<close>

fun is_final :: "notification \<Rightarrow> bool" where
  "is_final OnSessionComplete = True"
| "is_final (OnError e) = True"
| "is_final n = False"

text \<open>Before its end a session reports no end; then its last report is one, and the only completion.\<close>

definition reported :: "'ep session \<Rightarrow> bool" where
  "reported s \<longleftrightarrow> (case se_observer s of None \<Rightarrow> True
     | Some ns \<Rightarrow> if se_control s = Finished then ns \<noteq> [] \<and> is_final (last ns) \<and> OnSessionComplete \<notin> set (butlast ns)
                  else \<forall>n\<in>set ns. \<not> is_final n)"

lemma reported_teardown:
  assumes "se_observer s = Some ns" and "OnSessionComplete \<notin> set ns"
  shows "reported (teardown r s)"
  using assms by (simp add: reported_def teardown_def finalize_session_def notify_def)

lemma not_final: "\<forall>n\<in>set ns. \<not> is_final n \<Longrightarrow> OnSessionComplete \<notin> set ns"
  by auto

lemma reported_loop_head:
  assumes "\<And>ns. se_observer s = Some ns \<Longrightarrow> \<forall>n\<in>set ns. \<not> is_final n"
  shows "reported (loop_head s)"
proof (cases "se_observer s")
  case None
  then show ?thesis by (simp add: reported_def loop_head_def teardown_def finalize_session_def)
next
  case (Some ns)
  then show ?thesis using assms reported_teardown [OF Some not_final, of no_error] by (simp add: loop_head_def reported_def)
qed

lemma configure_reported:
  assumes "configure_streamer_from_graph v s = Some s'" and "\<And>ns. se_observer s = Some ns \<Longrightarrow> \<forall>n\<in>set ns. \<not> is_final n"
    and "se_observer s' = Some ns'"
  shows "\<forall>n\<in>set ns'. \<not> is_final n"
  using assms by (auto simp: configure_streamer_from_graph_def notify_def split: option.splits if_splits node_body.splits)

lemma process_reported:
  assumes "process_and_stream_single_frame v draw due s = Some (r, sends, s')" and "\<And>ns. se_observer s = Some ns \<Longrightarrow> \<forall>n\<in>set ns. \<not> is_final n"
    and "se_observer s' = Some ns'"
  shows "\<forall>n\<in>set ns'. \<not> is_final n"
  using assms by (auto simp: process_and_stream_single_frame_def bump_packets_def update_stats_if_needed_def notify_def Let_def
      split: option.splits if_splits prod.splits)

lemma reported_step:
  assumes "session_step v s l s'" and "own_step l" and "reported s"
  shows "reported s'"
proof (cases "se_observer s")
  case None
  then have "se_observer s' = None" using own_step_observer [OF assms(1,2)] by auto
  then show ?thesis by (simp add: reported_def)
next
  case (Some ns)
  have open_ns: "\<forall>n\<in>set ns. \<not> is_final n" if "se_control s \<noteq> Finished" using assms(3) that Some by (simp add: reported_def)
  show ?thesis
    using assms(1)
  proof (cases rule: session_step.cases)
    case (ss_prepared received)
    have o: "\<forall>n\<in>set ns. \<not> is_final n" using open_ns ss_prepared by simp
    have c: "reported (loop_head s1)" if "configure_streamer_from_graph v (s\<lparr>se_executor := x\<rparr>) = Some s1" for x s1
      using reported_loop_head [OF configure_reported [OF that]] Some o by simp
    have "reported (teardown r (notify (OnError e) (s\<lparr>se_executor := x\<rparr>)))" for r e x
      using o Some by (intro reported_teardown [where ns = "ns @ [OnError e]"]) (auto simp: notify_def)
    moreover have "reported (s\<lparr>se_control := Crashed\<rparr>)" using o Some by (simp add: reported_def)
    ultimately show ?thesis using ss_prepared c by (simp add: after_prepare_def split: option.split sum.split)
  next
    case ss_aborted
    then show ?thesis using reported_teardown [OF Some not_final [OF open_ns]] by simp
  next
    case (ss_tick draw due)
    have o: "\<forall>n\<in>set ns. \<not> is_final n" using open_ns ss_tick by simp
    have c: "reported (loop_head s1) \<and> reported (teardown st s1)" if "process_and_stream_single_frame v draw due s = Some (r, sends, s1)" for r sends s1 st
    proof -
      have f: "\<And>ns. se_observer s1 = Some ns \<Longrightarrow> \<forall>n\<in>set ns. \<not> is_final n" using process_reported [OF that] Some o by simp
      have "se_observer s1 \<noteq> None" using process_fields(5) [OF that] Some by simp
      then obtain ns1 where "se_observer s1 = Some ns1" by blast
      then show ?thesis using reported_loop_head [OF f] reported_teardown [OF _ not_final [OF f]] by blast
    qed
    moreover have "reported (s\<lparr>se_control := Crashed\<rparr>)" using o Some by (simp add: reported_def)
    ultimately show ?thesis using ss_tick by (simp add: tick_def split: option.split sum.split)
  next
    case ss_woken
    then show ?thesis using reported_loop_head [of "s\<lparr>se_resume_channel := se_resume_channel s - 1\<rparr>"] open_ns Some by (simp add: woken_def)
  qed (use assms(2,3) Some open_ns in \<open>auto simp: reported_def start_session_def refilled_def reinitialised_def\<close>)
qed

lemma reported_cong:
  "se_observer s' = se_observer s \<Longrightarrow> se_control s' = se_control s \<Longrightarrow> reported s' = reported s"
  by (simp only: reported_def)

lemma reported_control:
  assumes "reported s"
  shows "reported (stop s)" "reported (pause s)" "reported (resume s)"
  using assms reported_cong [of "stop s" s] reported_cong [of "pause s" s] reported_cong [of "resume s" s]
  by (simp_all add: stop_def pause_def resume_def)

section \<open>One client for each session\<close>

text \<open>The condition on the states of a run: no second coroutine waits to run a session. The server does not
  ensure it, as \<open>second_connection_accepted\<close> shows.\<close>

definition connected_once :: "'ep system \<Rightarrow> bool" where
  "connected_once sy \<longleftrightarrow> distinct (map (\<lambda>(io, i, k, w). k) (as_spawned (sy_active sy)))"

text \<open>Only observers that were attached know of a session; a registered session that has a client still has
  its coroutine.\<close>

definition clients_inv :: "'ep system \<Rightarrow> bool" where
  "clients_inv sy \<longleftrightarrow> (\<forall>s\<in>set (sy_objects sy). reported s)
     \<and> (\<forall>k < length (sy_objects sy). sy_observers sy k = None \<longrightarrow> se_observer (sy_objects sy ! k) = None)
     \<and> (\<forall>(i, k)\<in>set (as_sessions (sy_active sy)). sy_observers sy k \<noteq> None \<longrightarrow>
          k \<in> (\<lambda>(io, i, k, w). k) ` set (as_spawned (sy_active sy)))
     \<and> (\<forall>(io, i, k, w)\<in>set (as_spawned (sy_active sy)). k < length (sy_objects sy) \<and> i = se_id (sy_objects sy ! k))"

text \<open>Changes that leave the observers alone.\<close>

lemma clients_inv_update:
  assumes "clients_inv sy" and "registry_inv (sy_active sy)" and "k < length (sy_objects sy)" and "reported s" and "se_observer s = None \<longleftrightarrow> se_observer (sy_objects sy ! k) = None"
    and "se_id s = se_id (sy_objects sy ! k)"
    and "sy_objects sy' = (sy_objects sy)[k := s]" and "sy_observers sy' = sy_observers sy" and "as_spawned (sy_active sy') = as_spawned (sy_active sy)"
    and "set (as_sessions (sy_active sy')) \<subseteq> set (as_sessions (sy_active sy))"
  shows "clients_inv sy'"
proof -
  have nth: "(se_observer ((sy_objects sy)[k := s] ! j) = None) = (se_observer (sy_objects sy ! j) = None)"
    "se_id ((sy_objects sy)[k := s] ! j) = se_id (sy_objects sy ! j)" for j
    using assms(3,5,6) by (cases "j = k"; simp)+
  have "\<forall>t\<in>set ((sy_objects sy)[k := s]). reported t"
    using assms(1,4) by (auto simp: clients_inv_def dest!: set_update_subset_insert [THEN subsetD])
  then show ?thesis using assms(1,10) unfolding clients_inv_def assms(7,8,9) nth length_list_update by blast
qed

text \<open>Changes of the registry that touch no session.\<close>

lemma clients_inv_cong:
  assumes "clients_inv sy" and "sy_objects sy' = sy_objects sy" and "sy_observers sy' = sy_observers sy"
    and "as_spawned (sy_active sy') = as_spawned (sy_active sy)" and "set (as_sessions (sy_active sy')) \<subseteq> set (as_sessions (sy_active sy))"
  shows "clients_inv sy'"
  using assms(1,5) unfolding clients_inv_def assms(2,3,4) by blast

lemma update_set: "set (AList.update i w al) \<subseteq> insert (i, w) (set al)"
  by (induction al) auto

lemma clients_inv_append:
  assumes "clients_inv sy" and "sy_objects sy' = sy_objects sy @ [s]" and "sy_observers sy' = sy_observers sy"
    and "as_spawned (sy_active sy') = as_spawned (sy_active sy)" and "reported s" and "se_observer s = None"
    and "as_sessions (sy_active sy') = AList.update i (length (sy_objects sy)) (as_sessions (sy_active sy))"
    and "sy_observers sy (length (sy_objects sy)) = None"
  shows "clients_inv sy'"
  unfolding clients_inv_def assms(2,3,4,7)
proof (intro conjI)
  note inv = assms(1) [unfolded clients_inv_def]
  show "\<forall>t\<in>set (sy_objects sy @ [s]). reported t" using inv assms(5) by simp
  show "\<forall>k < length (sy_objects sy @ [s]). sy_observers sy k = None \<longrightarrow> se_observer ((sy_objects sy @ [s]) ! k) = None"
    using inv assms(6) by (simp add: nth_append less_Suc_eq)
  have "\<forall>(i, k)\<in>insert (i, length (sy_objects sy)) (set (as_sessions (sy_active sy))). sy_observers sy k \<noteq> None \<longrightarrow>
      k \<in> (\<lambda>(io, i, k, w). k) ` set (as_spawned (sy_active sy))"
    using inv assms(8) by simp
  then show "\<forall>(i, k)\<in>set (AList.update i (length (sy_objects sy)) (as_sessions (sy_active sy))). sy_observers sy k \<noteq> None \<longrightarrow>
      k \<in> (\<lambda>(io, i, k, w). k) ` set (as_spawned (sy_active sy))"
    by (meson update_set subsetD)
  show "\<forall>(io, i, k, w)\<in>set (as_spawned (sy_active sy)). k < length (sy_objects sy @ [s]) \<and> i = se_id ((sy_objects sy @ [s]) ! k)"
    using inv by (auto simp: nth_append)
qed

lemma clients_inv_round:
  assumes "clients_inv sy" and "system_inv env sy"
    and "st = sy_active sy \<or> (\<exists>req. http_effect env rd req (sy_active sy) st)"
    and "sy' = sy\<lparr>sy_router := ro, sy_connections := cs, sy_next_socket := Suc (sy_next_socket sy)\<rparr>" and "ro_active ro = st"
    and "connected_once (settle_system (sy_active sy) sy')"
  shows "clients_inv (settle_system (sy_active sy) sy')"
proof -
  let ?sy = "settle_system (sy_active sy) sy'"
  have act: "sy_active sy' = st" "sy_observers sy' = sy_observers sy" using assms(4,5) by simp_all
  have reg: "registry_inv (sy_active sy)" using assms(2) by (simp add: system_inv_def)
  have rep: "reported (sy_objects sy ! k)" if "k < length (sy_objects sy)" for k using assms(1) that by (simp add: clients_inv_def)
  have plain: "clients_inv ?sy" if "as_objects st = (sy_objects sy)[k := s]" "k < length (sy_objects sy)" "reported s"
      "se_observer s = se_observer (sy_objects sy ! k)" "se_id s = se_id (sy_objects sy ! k)" "as_spawned st = as_spawned (sy_active sy)"
      "set (as_sessions st) \<subseteq> set (as_sessions (sy_active sy))" for k s
    using clients_inv_update [OF assms(1) reg that(2,3) _ that(5), of ?sy] that by (simp add: act)
  consider (unchanged) "st = sy_active sy" | (changed) req where "http_effect env rd req (sy_active sy) st" using assms(3) by blast
  then show ?thesis
  proof cases
    case unchanged
    then show ?thesis using clients_inv_cong [OF assms(1), of ?sy] by (simp add: act)
  next
    case (changed req)
    show ?thesis
      using changed reg
    proof (cases rule: http_effect_parts)
      case same
      then show ?thesis using clients_inv_cong [OF assms(1), of ?sy] by (simp add: act same_outside_def)
    next
      case (made obj g ident port ty s)
      have s: "se_observer s = None" using made(6) by (auto simp: session_create_def new_session_def Let_def transform_Inr_iff split: sum.splits)
      have "sy_observers sy (length (sy_objects sy)) = None"
        using assms(2) by (cases "sy_observers sy (length (sy_objects sy))") (auto simp: system_inv_def observers_inv_def)
      moreover have "sy_observers ?sy = sy_observers sy" "as_spawned st = as_spawned (sy_active sy)"
        using made(2) by (simp_all add: act same_outside_def)
      moreover have "reported s" using s by (simp add: reported_def)
      ultimately show ?thesis by (intro clients_inv_append [OF assms(1), of ?sy s ident]) (simp_all add: act made(1,3) s)
    next
      case (removed k ws)
      then show ?thesis using reported_control(1) [OF rep] by (intro plain [of k "stop (sy_objects sy ! k)"]) auto
    next
      case (controlled k f)
      then show ?thesis using reported_control(2,3) [OF rep] by (intro plain [of k "f (sy_objects sy ! k)"]) (auto simp: same_outside_def)
    next
      case (connected io i k)
      have obs: "sy_observers ?sy = (sy_observers sy)(k \<mapsto> rd_websocket rd)" using connected(4) by (simp add: act)
      have "k \<notin> (\<lambda>(io, i, k, w). k) ` set (as_spawned (sy_active sy))"
        using assms(6) connected(4) by (auto simp: connected_once_def act)
      then have "sy_observers sy k = None" using assms(1) connected(8) by (auto simp: clients_inv_def)
      then have "se_observer (sy_objects sy ! k) = None" using assms(1) connected(1) by (simp add: clients_inv_def)
      then have "se_control (sy_objects sy ! k) = NotStarted"
        using assms(2) connected(1) by (auto simp: system_inv_def object_ok_def split: if_splits)
      then have r: "reported (attach_observer (sy_objects sy ! k))" by (simp add: reported_def attach_observer_def)
      have id: "i = se_id (sy_objects sy ! k)" using reg connected(8) by (auto simp: registry_inv_def)
      have nth: "se_id ((sy_objects sy)[k := attach_observer (sy_objects sy ! k)] ! j) = se_id (sy_objects sy ! j)"
        "se_observer ((sy_objects sy)[k := attach_observer (sy_objects sy ! k)] ! j) = (if j = k then Some [] else se_observer (sy_objects sy ! j))" for j
        using connected(1) by (cases "j = k"; simp)+
      have "\<forall>s\<in>set ((sy_objects sy)[k := attach_observer (sy_objects sy ! k)]). reported s"
        using assms(1) r by (auto simp: clients_inv_def dest!: set_update_subset_insert [THEN subsetD])
      then show ?thesis using assms(1) connected(1,3,4,7) id
        unfolding clients_inv_def obs by (auto simp: act nth)
    qed
  qed
qed

lemma clients_inv_moves:
  assumes "clients_inv sy" and "system_inv env sy" and "k < length (sy_objects sy)" and "own_step l"
    and "session_step (re_session_env env) (sy_objects sy ! k) l s" and "session_moves env k s sy = Some sy'"
  shows "clients_inv sy'"
proof -
  have "registry_inv (sy_active sy)" using assms(2) by (simp add: system_inv_def)
  moreover have "reported s" using reported_step [OF assms(5,4)] assms(1,3) by (simp add: clients_inv_def)
  moreover have "se_observer s = None \<longleftrightarrow> se_observer (sy_objects sy ! k) = None" using own_step_observer [OF assms(5,4)] by auto
  ultimately show ?thesis
    using assms(6) session_step_id [OF assms(5)]
    by (intro clients_inv_update [OF assms(1) _ assms(3), of s]) (auto simp: session_moves_def set_object_def split: if_splits)
qed

lemma remove_session_sessions:
  "as_sessions (snd (remove_session i st)) = AList.delete i (as_sessions st)"
  by (cases "map_of (as_sessions st) i")
    (auto simp: remove_session_def Let_def update_object_def map_of_eq_None_iff split: option.split)

lemma clients_inv_ends:
  assumes "clients_inv sy" and "system_inv env sy" and "e \<in> set (as_spawned (sy_active sy))"
  shows "clients_inv (coroutine_ends e sy)"
proof -
  obtain io i k0 w0 where e: "e = (io, i, k0, w0)" by (metis prod_cases4)
  define st0 where "st0 = (sy_active sy)\<lparr>as_spawned := remove1 e (as_spawned (sy_active sy))\<rparr>"
  define st where "st = snd (remove_session i st0)"
  let ?sy = "coroutine_ends e sy" and ?k = "\<lambda>(io :: nat, i :: string, k :: nat, w :: nat). k"
  have eq: "?sy = settle_system st0 (sy\<lparr>sy_router := (sy_router sy)\<lparr>ro_active := st\<rparr>\<rparr>)"
    by (simp add: coroutine_ends_def e st_def st0_def Let_def)
  have reg: "registry_inv (sy_active sy)" using assms(2) by (simp add: system_inv_def)
  have r0: "registry_inv st0" using reg by (simp add: st0_def)
  obtain res where rs: "remove_session i st0 = (res, st)" unfolding st_def by (metis prod.collapse)
  note inv = assms(1) [unfolded clients_inv_def]
  have left: "?k ` set (as_spawned (sy_active sy)) \<subseteq> insert k0 (?k ` set (as_spawned st0))"
  proof (intro image_subsetI)
    fix x
    assume "x \<in> set (as_spawned (sy_active sy))"
    then have "x = e \<or> x \<in> set (as_spawned st0)" by (cases "x = e") (auto simp: st0_def)
    then show "?k x \<in> insert k0 (?k ` set (as_spawned st0))" by (auto simp: e)
  qed
  have sub: "set (as_spawned st0) \<subseteq> set (as_spawned (sy_active sy))" using set_remove1_subset [of e] by (simp add: st0_def)
  have k0: "i = se_id (sy_objects sy ! k0)" using inv assms(3) by (auto simp: e)
  have sess: "(j, k) \<in> set (as_sessions (sy_active sy)) \<and> j \<noteq> i \<and> k \<noteq> k0" if "(j, k) \<in> set (as_sessions st)" for j k
  proof -
    have "(j, k) \<in> set (as_sessions (sy_active sy))" "j \<noteq> i"
      using that unfolding st_def remove_session_sessions by (auto simp: st0_def AList.delete_eq)
    then show ?thesis using reg k0 by (auto simp: registry_inv_def)
  qed
  have keeps: "as_spawned st = as_spawned st0 \<and> length (as_objects st) = length (sy_objects sy)
      \<and> (\<forall>j. se_id (as_objects st ! j) = se_id (sy_objects sy ! j) \<and> se_observer (as_objects st ! j) = se_observer (sy_objects sy ! j))
      \<and> (\<forall>s\<in>set (as_objects st). reported s)"
    using r0 rs
  proof (cases rule: remove_session_parts)
    case absent
    then show ?thesis using inv by (simp add: st0_def)
  next
    case (removed k ws)
    have "\<forall>s\<in>set ((sy_objects sy)[k := stop (sy_objects sy ! k)]). reported s"
      using inv reported_control(1) removed(1) by (auto simp: st0_def dest!: set_update_subset_insert [THEN subsetD])
    moreover have "se_id ((sy_objects sy)[k := stop (sy_objects sy ! k)] ! j) = se_id (sy_objects sy ! j)"
      "se_observer ((sy_objects sy)[k := stop (sy_objects sy ! k)] ! j) = se_observer (sy_objects sy ! j)" for j
      using removed(1) by (cases "j = k"; simp add: st0_def)+
    ultimately show ?thesis using removed by (simp add: st0_def)
  qed
  have "sy_objects ?sy = as_objects st" "sy_observers ?sy = sy_observers sy" "as_spawned (sy_active ?sy) = as_spawned st0" "as_sessions (sy_active ?sy) = as_sessions st"
    using keeps by (simp_all add: eq)
  then show ?thesis
    unfolding clients_inv_def using inv keeps sess left sub by (intro conjI) (simp; blast)+
qed

definition good_state :: "'ep router_env \<Rightarrow> 'ep system \<Rightarrow> bool" where
  "good_state env sy \<longleftrightarrow> system_inv env sy \<and> clients_inv sy"

lemma good_state_step:
  assumes "system_step env sy ev (Some sy')" and "good_state env sy" and "env_ok env" and "event_in_range env ev" and "connected_once sy'"
  shows "good_state env sy'"
proof -
  have s: "system_inv env sy" and c: "clients_inv sy" using assms(2) by (simp_all add: good_state_def)
  have s': "system_inv env sy'" using system_step_inv [OF assms(1) s assms(3,4)] by blast
  have "clients_inv sy'"
    using assms(1)
  proof (cases rule: system_step.cases)
    case (sy_accepted cn)
    then show ?thesis using clients_inv_cong [OF c] by simp
  next
    case (sy_round n rn)
    obtain cn ro where r: "session_round env (drawing (sy_next_socket sy) rn) (sy_connections sy ! n, sy_router sy) = Some (cn, ro)"
      using sy_round(2) by (auto simp: serve_round_def split: option.splits)
    have e: "sy' = settle_system (sy_active sy) (sy\<lparr>sy_router := ro, sy_connections := (sy_connections sy)[n := cn], sy_next_socket := Suc (sy_next_socket sy)\<rparr>)"
      using sy_round(2) r by (simp add: serve_round_def)
    show ?thesis
      unfolding e using session_round_effect [OF r] assms(5)
      by (intro clients_inv_round [OF c s _ refl refl, where rd = "rn_draws (drawing (sy_next_socket sy) rn)"]) (auto simp: e)
  next
    case (sy_session k l s1)
    then show ?thesis using clients_inv_moves [OF c s] by metis
  next
    case (sy_ends io i k w)
    then show ?thesis using clients_inv_ends [OF c s] by simp
  next
    case (sy_socket l w r0)
    then show ?thesis using clients_inv_cong [OF c, of sy'] by (cases r0) simp_all
  qed
  then show ?thesis using s' by (simp add: good_state_def)
qed

lemma good_state_run:
  assumes "system_run env ok connected_once sy evs r" and "r = Some sy'" and "good_state env sy" and "env_ok env"
    and "\<And>ev. ok ev \<Longrightarrow> event_in_range env ev"
  shows "good_state env sy'"
  using assms
proof (induction rule: system_run.induct)
  case (syr_cons sy ev sy1 evs r)
  have "connected_once sy1" using syr_cons.hyps(4) by (cases rule: system_run.cases) auto
  then show ?case using syr_cons good_state_step by blast
qed simp_all

lemma new_system_good:
  assumes "server_create pool_exception make_address ac cfg = Some (Inr server)"
  shows "good_state env (new_system server)"
  using new_system_inv [OF assms] assms
  by (auto simp: good_state_def clients_inv_def new_system_def server_create_def new_active_sessions_def split: sum.splits option.splits)

lemma object_ok_runs: "object_ok v s \<Longrightarrow> se_control s \<noteq> Crashed"
  by (cases "se_control s") (simp_all add: object_ok_def session_ok_def)

section \<open>Properties\<close>


text \<open>C9: What a session tells its observer is what its client is sent: the messages on the wire, in the queue and
  in the posted handlers of its web socket are the session's notifications, all of them, once each
  and in their order, with at most one write in progress.\<close>

theorem notifications_delivered:
  assumes "server_create pool_exception make_address ac cfg = Some (Inr server)" and "env_ok env"
    and "system_run env (event_in_range env) connected_once (new_system server) evs (Some sy)" and "sy_observers sy k = Some w"
  shows "\<exists>ns. se_observer (sy_objects sy ! k) = Some ns
    \<and> ws_wire (sy_sockets sy w) @ ws_send_queue (sy_sockets sy w) @ posted_messages (ws_posted (sy_sockets sy w))
        = map (\<lambda>n. ha_serialize (re_api env) (observer_message n)) ns
    \<and> length (ws_in_flight (sy_sockets sy w)) \<le> 1"
proof -
  have i: "observers_inv env sy" "ws_inv (sy_sockets sy w)"
    using good_state_run [OF assms(3) refl new_system_good [OF assms(1)] assms(2)] by (auto simp: good_state_def system_inv_def sockets_inv_def)
  then obtain ns where "se_observer (sy_objects sy ! k) = Some ns" "ws_messages (sy_sockets sy w) = messages_of env ns"
    using assms(4) by (auto simp: observers_inv_def)
  then show ?thesis using i(2) by (auto simp: ws_messages_def messages_of_def ws_inv_def comp_def)
qed

text \<open>C23: Every session that ends reports it: the last message that its web socket holds is the completion or an
  error, a completion comes once and last, and before the session has ended none of its messages
  announces an end.\<close>

theorem end_announced:
  assumes "server_create pool_exception make_address ac cfg = Some (Inr server)" and "env_ok env"
    and "system_run env (event_in_range env) connected_once (new_system server) evs (Some sy)" and "sy_observers sy k = Some w"
  shows "\<exists>ns. ws_messages (sy_sockets sy w) = map (\<lambda>n. ha_serialize (re_api env) (observer_message n)) ns
    \<and> (if se_control (sy_objects sy ! k) = Finished then ns \<noteq> [] \<and> is_final (last ns) \<and> OnSessionComplete \<notin> set (butlast ns)
       else \<forall>n\<in>set ns. \<not> is_final n)"
proof -
  have i: "observers_inv env sy" "clients_inv sy"
    using good_state_run [OF assms(3) refl new_system_good [OF assms(1)] assms(2)] by (auto simp: good_state_def system_inv_def)
  then obtain ns where n: "se_observer (sy_objects sy ! k) = Some ns" "ws_messages (sy_sockets sy w) = messages_of env ns"
      "k < length (sy_objects sy)"
    using assms(4) by (auto simp: observers_inv_def)
  then have "reported (sy_objects sy ! k)" using i(2) by (simp add: clients_inv_def)
  then show ?thesis using n by (intro exI [of _ ns]) (simp add: messages_of_def reported_def comp_def)
qed

section \<open>A server that serves one client\<close>

definition one_client_config :: app_config where
  "one_client_config = default_config\<lparr>cfg_janus := \<lparr>j_address = '''', j_port_start = Some 10000, j_port_end = Some 10000\<rparr>,
     cfg_crypto := \<lparr>cf_master_key = [], cf_salt = replicate 16 0\<rparr>\<rparr>"

definition one_client_env :: "nat router_env" where
  "one_client_env = \<lparr>re_session_env = demo_env, re_cfg = one_client_config, re_factory = builtin_factory, re_parse_env = exact_parse_env,
     re_api = \<lparr>ha_url = (\<lambda>t. Inr (t, [(''id'', ''n'')])), ha_parse = (\<lambda>b. Some (JObject delay_request)), ha_serialize = (\<lambda>j. if j = on_session_complete then ''done'' else ''{}''),
       ha_json_what = '''', ha_server = ''Beast''\<rparr>\<rparr>"

definition one_client_server :: "nat server" where
  "one_client_server = projr (the (server_create None (\<lambda>_. Inr ()) \<lparr>ac_open = None, ac_set_option = None, ac_bind = None, ac_listen = None\<rparr> one_client_config))"

definition one_pool :: io_context_pool where "one_pool = \<lparr>pl_io_contexts = [0], pl_work_guards = 1, pl_threads = 0, pl_next_io_context = 0, pl_stopped = False\<rparr>"

lemma one_client_created:
  "server_create None (\<lambda>_. Inr ()) \<lparr>ac_open = None, ac_set_option = None, ac_bind = None, ac_listen = None\<rparr> one_client_config = Some (Inr one_client_server)"
  "one_client_server = \<lparr>sr_pool = one_pool, sr_router = \<lparr>ro_active = \<lparr>as_objects = [], as_sessions = [], as_websocket_sessions = [],
         as_available_webrtc_ports = [10000], as_next_session_id = 0, as_pool = one_pool, as_spawned = [], as_closed = []\<rparr>, ro_http_requests_total = 0\<rparr>\<rparr>"
  using fill_ports_run [of 10000 10000 "[]"]
  by (simp_all add: one_client_server_def server_create_def new_active_sessions_def one_client_config_def default_config_def pool_create_def
      listener_create_def run_step_def and_then_def one_pool_def upt_rec)

lemma one_client_ok: "env_ok one_client_env" "event_in_range one_client_env ev" "small_event one_client_env 1 ev"
proof -
  have e: "edge_count delay_request = 0" by (simp add: edge_count_def delay_request_def)
  have "request_in_range one_client_env req" for req
    using new_delay_total [OF rnd_ok_id, of 20]
    by (simp add: request_in_range_def one_client_env_def delay_request_graph e) (simp add: options_in_range_def delay_graph_def new_node_def)
  then show "event_in_range one_client_env ev" by (cases ev) (simp_all split: header_result.split)
  have "small_request one_client_env 1 req" for req by (simp add: small_request_def one_client_env_def e)
  then show "small_event one_client_env 1 ev" by (cases ev) (simp_all split: header_result.split)
  show "env_ok one_client_env" using float_ok_ideal by (simp add: env_ok_def one_client_env_def demo_env_def one_client_config_def)
qed

definition one_session :: "nat session" where
  "one_session = \<lparr>se_id = ''n'', se_is_running = False, se_is_paused = False, se_is_webrtc = False, se_janus_ip = '''', se_janus_port = None,
     se_executor = \<lparr>x_graph = delay_graph, x_current_node = Some 0, x_stats = empty_stats\<rparr>, se_streamer = create_streamer [] (replicate 16 0) 1 0 0,
     se_resume_channel = 0, se_timer_cancelled = False, se_observer = None, se_control = NotStarted\<rparr>"

definition one_registry :: "u64 \<Rightarrow> nat session \<Rightarrow> (string \<times> nat) list \<Rightarrow> (nat \<times> string \<times> nat \<times> nat) list \<Rightarrow> nat active_sessions" where
  "one_registry n s ws sp = \<lparr>as_objects = [s], as_sessions = [(''n'', 0)], as_websocket_sessions = ws, as_available_webrtc_ports = [10000],
     as_next_session_id = 1, as_pool = one_pool\<lparr>pl_next_io_context := n\<rparr>, as_spawned = sp, as_closed = []\<rparr>"

lemma one_registry_simps [simp]:
  "as_objects (one_registry n s ws sp) = [s]" "as_spawned (one_registry n s ws sp) = sp" "as_closed (one_registry n s ws sp) = []"
  "(one_registry n s ws sp)\<lparr>as_objects := [s']\<rparr> = one_registry n s' ws sp"
  by (simp_all add: one_registry_def)

lemma one_round_create:
  "\<exists>res. session_round one_client_env (drawing 0 (demo_round (demo_request ''POST'' ''/transmit/''))) (\<lparr>cn_sent = [], cn_state = Reading\<rparr>, sr_router one_client_server)
     = Some (\<lparr>cn_sent = [res], cn_state = Reading\<rparr>, \<lparr>ro_active = one_registry 1 one_session [] [], ro_http_requests_total = 1\<rparr>)"
  by (simp add: round_eval drawing_def demo_request_def route_query_def conclude_def one_client_env_def dispatch_eval handle_transmit_def
      process_session_request_def create_session_json_def delay_request_graph one_client_created(2) create_session_def get_io_context_def one_pool_def
      session_create_def executor_create_def delay_graph_def new_session_def release_guard_def insert_session_def push_port_def transform_def
      demo_draws_def one_session_def one_registry_def one_client_config_def default_config_def)

lemma one_round_connect:
  "session_round one_client_env (drawing (Suc 0) (demo_round ((demo_request ''GET'' ''/connect/'')\<lparr>hq_upgrade := True\<rparr>)))
       (cn, \<lparr>ro_active = one_registry 1 one_session [] [], ro_http_requests_total = 1\<rparr>)
     = Some (cn\<lparr>cn_state := Ended\<rparr>, \<lparr>ro_active = one_registry 2 (attach_observer one_session) [(''n'', 1)] [(0, ''n'', 0, 1)], ro_http_requests_total = 2\<rparr>)"
  by (simp add: round_eval drawing_def demo_request_def route_query_def conclude_def one_client_env_def dispatch_eval handle_websocket_request_def
      extract_session_id_def create_and_run_websocket_session_def spawn_session_coroutine_def update_object_def get_io_context_def one_pool_def
      one_registry_def one_session_def demo_draws_def)

lemma delay_prepared:
  "\<exists>x. prepare f [] \<lparr>x_graph = delay_graph, x_current_node = Some 0, x_stats = empty_stats\<rparr> = Some (Inr (), x) \<and> on_delay 0 0 1 None x
     \<and> g_clients_node (x_graph x) = None"
  by (simp add: prepare_def await_all_dynamic_def delay_graph_def update_mixers_def initialize_nodes_def initialize_buffers_def new_delay_def
      new_node_def detect_and_flag_loops_def on_delay_def set_heap_def truncate_rat_def cast_i32_def FRAME_DURATION_def Let_def)

text \<open>Started, prepared and ticked once, the session completes.\<close>

lemma one_session_runs:
  "\<exists>s2 s3. session_step demo_env (start_session (attach_observer one_session)) (Prepared []) s2 \<and> se_observer s2 = Some [] \<and> se_control s2 = WaitTick
     \<and> session_step demo_env s2 (Tick (\<lambda>_. 0) False) s3 \<and> se_observer s3 = Some [OnSessionComplete] \<and> se_control s3 = Finished"
proof -
  let ?s1 = "start_session (attach_observer one_session)"
  obtain x where x: "prepare (v_files demo_env) [] (se_executor ?s1) = Some (Inr (), x)" "on_delay 0 0 1 None x" "g_clients_node (x_graph x) = None"
    using delay_prepared [of "v_files demo_env"] by (auto simp: one_session_def start_session_def attach_observer_def)
  let ?s2 = "after_prepare demo_env [] ?s1"
  have s2: "?s2 = loop_head (?s1\<lparr>se_executor := x\<rparr>)"
    using x by (simp add: after_prepare_def configure_streamer_from_graph_def one_session_def start_session_def attach_observer_def)
  have f2: "se_observer ?s2 = Some []" "se_control ?s2 = WaitTick" "se_executor ?s2 = x"
    unfolding s2 by (simp_all add: loop_head_def one_session_def start_session_def attach_observer_def)
  let ?s3 = "tick demo_env (\<lambda>_. 0) False ?s2"
  obtain x' where "get_next_frame (v_float demo_env) (v_files demo_env) (replicate 320 0) x = Some ((False, no_error), replicate 320 0, x')"
    using get_next_frame_delay [OF x(2)] by fastforce
  then have "?s3 = teardown no_error (?s2\<lparr>se_executor := x'\<rparr>)"
    using f2(3) by (simp add: tick_def process_and_stream_single_frame_def)
  then have f3: "se_observer ?s3 = Some [OnSessionComplete]" "se_control ?s3 = Finished"
    using f2(1) by (simp_all add: teardown_def finalize_session_def notify_def no_error_def)
  have "session_step demo_env ?s1 (Prepared []) ?s2" by (rule ss_prepared) (simp add: start_session_def)
  moreover have "session_step demo_env ?s2 (Tick (\<lambda>_. 0) False) ?s3" by (rule ss_tick) (rule f2)
  ultimately show ?thesis using f2 f3 by blast
qed

definition one_client_events :: "event list" where
  "one_client_events = [SyAccepted, SyRound 0 (demo_round (demo_request ''POST'' ''/transmit/'')),
     SyRound 0 (demo_round ((demo_request ''GET'' ''/connect/'')\<lparr>hq_upgrade := True\<rparr>)),
     SySession 0 Start, SySession 0 (Prepared []), SySession 0 (Tick (\<lambda>_. 0) False), SySocket 1 WRun, SySocket 1 (WWritten EcOk)]"

lemma one_client_run:
  "\<exists>sy. system_run one_client_env (event_in_range one_client_env) connected_once (new_system one_client_server) one_client_events (Some sy)
     \<and> sy_observers sy 0 = Some 1 \<and> se_control (sy_objects sy ! 0) = Finished \<and> ws_wire (sy_sockets sy 1) = [''done'']"
proof -
  let ?env = one_client_env and ?r0 = "sr_router one_client_server" and ?run = "system_run one_client_env (event_in_range one_client_env) connected_once"
  let ?r2 = "\<lambda>s. \<lparr>ro_active = one_registry 2 s [(''n'', 1)] [(0, ''n'', 0, 1)], ro_http_requests_total = 2\<rparr>"
  obtain res where c: "session_round ?env (drawing 0 (demo_round (demo_request ''POST'' ''/transmit/''))) (\<lparr>cn_sent = [], cn_state = Reading\<rparr>, ?r0)
     = Some (\<lparr>cn_sent = [res], cn_state = Reading\<rparr>, \<lparr>ro_active = one_registry 1 one_session [] [], ro_http_requests_total = 1\<rparr>)"
    using one_round_create by blast
  obtain s2 s3 where s: "session_step demo_env (start_session (attach_observer one_session)) (Prepared []) s2" "se_observer s2 = Some []" "se_control s2 = WaitTick"
      "session_step demo_env s2 (Tick (\<lambda>_. 0) False) s3" "se_observer s3 = Some [OnSessionComplete]" "se_control s3 = Finished"
    using one_session_runs by blast
  let ?ended = "\<lparr>cn_sent = [res], cn_state = Ended\<rparr>"
  let ?at = "\<lambda>s f. \<lparr>sy_router = ?r2 s, sy_connections = [?ended], sy_sockets = f, sy_next_socket = 2, sy_observers = (\<lambda>_. None)(0 \<mapsto> 1)\<rparr> :: nat system"
  let ?sy1 = "\<lparr>sy_router = ?r0, sy_connections = [\<lparr>cn_sent = [], cn_state = Reading\<rparr>], sy_sockets = (\<lambda>_. new_ws_session), sy_next_socket = 0, sy_observers = (\<lambda>_. None)\<rparr>"
  let ?sy2 = "\<lparr>sy_router = \<lparr>ro_active = one_registry 1 one_session [] [], ro_http_requests_total = 1\<rparr>, sy_connections = [\<lparr>cn_sent = [res], cn_state = Reading\<rparr>],
      sy_sockets = (\<lambda>_. new_ws_session), sy_next_socket = 1, sy_observers = (\<lambda>_. None)\<rparr>"
  let ?m = "\<lambda>ws. (\<lambda>_. new_ws_session)(1 := ws)"
  let ?ws1 = "ws_send ''done'' new_ws_session"
  let ?ws2 = "new_ws_session\<lparr>ws_send_queue := [''done''], ws_in_flight := [''done'']\<rparr>"
  let ?ws3 = "new_ws_session\<lparr>ws_wire := [''done'']\<rparr>"
  have once: "connected_once ?sy1" "connected_once (new_system one_client_server)" "connected_once ?sy2" "connected_once (?at s f)" for s f
    by (simp_all add: connected_once_def one_client_created(2) new_system_def)
  have e1: "system_step ?env (new_system one_client_server) SyAccepted (Some ?sy1)"
    using sy_accepted [of "new_system one_client_server" _ ?env] by (simp add: new_system_def http_session_create_def)
  have e2: "system_step ?env ?sy1 (SyRound 0 (demo_round (demo_request ''POST'' ''/transmit/''))) (Some ?sy2)"
    using sy_round [of 0 ?sy1 ?env "demo_round (demo_request ''POST'' ''/transmit/'')"] c
    by (simp add: serve_round_def settle_system_def one_client_created(2))
  have e3: "system_step ?env ?sy2 (SyRound 0 (demo_round ((demo_request ''GET'' ''/connect/'')\<lparr>hq_upgrade := True\<rparr>)))
      (Some (?at (attach_observer one_session) (\<lambda>_. new_ws_session)))"
    using sy_round [of 0 ?sy2 ?env "demo_round ((demo_request ''GET'' ''/connect/'')\<lparr>hq_upgrade := True\<rparr>)"]
    by (simp add: serve_round_def settle_system_def one_round_connect numeral_2_eq_2)
  have move: "system_step ?env (?at s f) (SySession 0 l) (Some (?at s' (tell (ha_serialize (re_api ?env)) (new_notifications s s') (Some 1) f)))"
    if "session_step demo_env s l s'" "own_step l" "se_control s' \<noteq> Crashed" for s l s' f
    using sy_session [of 0 "?at s f" l ?env s'] that
    by (simp add: session_moves_def set_object_def one_client_env_def)
  have e4: "system_step ?env (?at (attach_observer one_session) (\<lambda>_. new_ws_session)) (SySession 0 Start)
      (Some (?at (start_session (attach_observer one_session)) (\<lambda>_. new_ws_session)))"
    using move [of "attach_observer one_session" Start "start_session (attach_observer one_session)" "\<lambda>_. new_ws_session"] ss_start [of "attach_observer one_session"]
    by (simp add: one_session_def attach_observer_def start_session_def new_notifications_def tell_def fun_upd_idem)
  have e5: "system_step ?env (?at (start_session (attach_observer one_session)) (\<lambda>_. new_ws_session)) (SySession 0 (Prepared [])) (Some (?at s2 (\<lambda>_. new_ws_session)))"
    using move [OF s(1)] s(2,3) by (simp add: new_notifications_def tell_def fun_upd_idem attach_observer_def start_session_def)
  have e6: "system_step ?env (?at s2 (\<lambda>_. new_ws_session)) (SySession 0 (Tick (\<lambda>_. 0) False)) (Some (?at s3 (?m ?ws1)))"
    using move [OF s(4)] s(2,5,6) by (simp add: new_notifications_def tell_def observe_def one_client_env_def)
  have e7: "system_step ?env (?at s3 (?m ?ws1)) (SySocket 1 WRun) (Some (?at s3 (?m ?ws2)))"
    using sy_socket [of WRun "?at s3 (?m ?ws1)" 1 "Some ?ws2" ?env] wst_run [of ?ws1] by (simp add: ws_defs new_ws_session_def)
  have e8: "system_step ?env (?at s3 (?m ?ws2)) (SySocket 1 (WWritten EcOk)) (Some (?at s3 (?m ?ws3)))"
    using sy_socket [of "WWritten EcOk" "?at s3 (?m ?ws2)" 1 "Some ?ws3" ?env] wst_written [of ?ws2 EcOk] by (simp add: ws_defs new_ws_session_def)
  have "?run (new_system one_client_server) one_client_events (Some (?at s3 (?m ?ws3)))"
    unfolding one_client_events_def
    by (intro syr_cons [OF _ one_client_ok(2) e1] syr_cons [OF _ one_client_ok(2) e2] syr_cons [OF _ one_client_ok(2) e3] syr_cons [OF _ one_client_ok(2) e4]
        syr_cons [OF _ one_client_ok(2) e5] syr_cons [OF _ one_client_ok(2) e6] syr_cons [OF _ one_client_ok(2) e7] syr_cons [OF _ one_client_ok(2) e8] syr_nil once)
  then show ?thesis using s(6) by (intro exI [of _ "?at s3 (?m ?ws3)"]) simp
qed

section \<open>Witnesses\<close>


lemma notifications_delivered_witness:
  "\<exists>sy ns. system_run one_client_env (event_in_range one_client_env) connected_once (new_system one_client_server) one_client_events (Some sy)
     \<and> se_observer (sy_objects sy ! 0) = Some ns \<and> ws_wire (sy_sockets sy 1) = [''done''] \<and> ns \<noteq> []"
proof -
  obtain sy where r: "system_run one_client_env (event_in_range one_client_env) connected_once (new_system one_client_server) one_client_events (Some sy)"
      "sy_observers sy 0 = Some 1" "ws_wire (sy_sockets sy 1) = [''done'']"
    using one_client_run by blast
  show ?thesis using notifications_delivered [OF one_client_created(1) one_client_ok(1) r(1,2)] r by auto
qed

lemma end_announced_witness:
  "\<exists>sy. system_run one_client_env (event_in_range one_client_env) connected_once (new_system one_client_server) one_client_events (Some sy)
     \<and> se_control (sy_objects sy ! 0) = Finished \<and> ws_messages (sy_sockets sy 1) \<noteq> []"
proof -
  obtain sy where r: "system_run one_client_env (event_in_range one_client_env) connected_once (new_system one_client_server) one_client_events (Some sy)"
      "sy_observers sy 0 = Some 1" "se_control (sy_objects sy ! 0) = Finished"
    using one_client_run by blast
  show ?thesis using end_announced [OF one_client_created(1) one_client_ok(1) r(1,2)] r by auto
qed

end
