(* ===== verification/Graph_Types.thy ===== *)
theory Graph_Types
  imports Json_Properties
begin

text \<open>
  The kinds of nodes as types. The code reads a node's kind when the graph is parsed and casts without a
  check from then on: the lists of file nodes and mixers, the clients node, the inputs of a mixer, the
  options of a file input. A graph whose pointers have their types keeps them through every step of a
  session.
\<close>

section \<open>Typing\<close>

text \<open>What a node is: its identifier, its kind and where its edge leads. None of it changes after parsing.\<close>

definition node_type :: "node \<Rightarrow> string \<times> node_kind \<times> nat option" where
  "node_type nd = (n_id nd, kind nd, n_target nd)"

text \<open>A node is well typed in a heap if the pointers of its body are.\<close>

definition node_typed :: "heap \<Rightarrow> node \<Rightarrow> bool" where
  "node_typed h nd \<longleftrightarrow> (case n_body nd of
     FileInput f \<Rightarrow> (case fi_options f of None \<Rightarrow> True | Some p \<Rightarrow> ptr_ok h KFileOptions p)
   | Mixer inputs \<Rightarrow> list_all (ptr_ok h KFileInput) inputs
   | _ \<Rightarrow> True)
   \<and> (case n_target nd of None \<Rightarrow> True | Some q \<Rightarrow> q < length h)"

definition graph_typed :: "'z graph_scheme \<Rightarrow> bool" where
  "graph_typed g \<longleftrightarrow> indexes_ok g \<and> list_all (node_typed (g_nodes g)) (g_nodes g)"

lemma wf_heap_typed:
  assumes "wf_heap e h"
  shows "list_all (node_typed h) h"
proof -
  have "node_typed h nd" if "nd \<in> set h" for nd
  proof -
    have b: "body_ok e h (n_body nd)" and t: "\<And>q. n_target nd = Some q \<Longrightarrow> q < length h"
      using assms that by (auto simp: wf_heap_def wf_targets_def in_set_conv_nth)
    have "case n_body nd of FileInput f \<Rightarrow> (case fi_options f of None \<Rightarrow> True | Some p \<Rightarrow> ptr_ok h KFileOptions p)
        | Mixer inputs \<Rightarrow> list_all (ptr_ok h KFileInput) inputs | _ \<Rightarrow> True"
    proof (cases "n_body nd")
      case (FileInput f)
      then show ?thesis using b by (auto simp: body_ok_def ptr_ok_def split: option.split)
    next
      case (Mixer inputs)
      then show ?thesis using b is_file_kind by (auto simp: body_ok_def ptr_ok_def list_all_iff simp del: is_file.simps kind.simps)
    qed simp_all
    then show ?thesis using t by (simp add: node_typed_def split: option.split)
  qed
  then show ?thesis by (simp add: list_all_iff)
qed

section \<open>Steps that keep the graph\<close>

definition same_graph :: "executor \<Rightarrow> executor \<Rightarrow> bool" where
  "same_graph x x' \<longleftrightarrow> same_wiring (x_heap x) (x_heap x') \<and> (\<exists>h. x_graph x' = (x_graph x)\<lparr>g_nodes := h\<rparr>)"

lemma same_graph_refl [simp]: "same_graph x x"
  by (auto simp: same_graph_def intro: exI [of _ "x_heap x"])

lemma same_graph_trans:
  assumes "same_graph x y" and "same_graph y z"
  shows "same_graph x z"
proof -
  obtain g h where "x_graph y = (x_graph x)\<lparr>g_nodes := g\<rparr>" "x_graph z = (x_graph y)\<lparr>g_nodes := h\<rparr>"
    using assms by (auto simp: same_graph_def)
  then have "x_graph z = (x_graph x)\<lparr>g_nodes := h\<rparr>" by simp
  then show ?thesis using assms same_wiring_trans unfolding same_graph_def by blast
qed

lemma same_graph_heap: "same_wiring (x_heap x) h \<Longrightarrow> same_graph x (set_heap h x)"
  by (auto simp: same_graph_def set_heap_def)

lemma same_graph_cong: "x_graph x' = x_graph y \<Longrightarrow> same_graph x x' = same_graph x y"
  by (simp add: same_graph_def)

lemma same_kind_kind: "same_kind (n_body nd) (n_body nd') \<Longrightarrow> kind nd' = kind nd"
  by (cases "n_body nd"; cases "n_body nd'") (simp_all add: same_kind_def)

lemma same_wiring_types:
  assumes "same_wiring h h'"
  shows "map node_type h' = map node_type h" and "ptr_ok h' k p = ptr_ok h k p"
  using assms same_kind_kind
  by (auto simp: same_wiring_def node_type_def ptr_ok_def intro!: nth_equalityI simp del: kind.simps)

lemma same_graph_indexes:
  assumes "same_graph x x'"
  shows "indexes_ok (x_graph x') = indexes_ok (x_graph x)"
proof -
  obtain h where "x_graph x' = (x_graph x)\<lparr>g_nodes := h\<rparr>" and w: "same_wiring (x_heap x) (x_heap x')"
    using assms by (auto simp: same_graph_def)
  then have h: "x_graph x' = (x_graph x)\<lparr>g_nodes := x_heap x'\<rparr>" by simp
  have l: "length (x_heap x') = length (x_heap x)" using w by (simp add: same_wiring_def)
  have "indexes_ok ((x_graph x)\<lparr>g_nodes := x_heap x'\<rparr>) = indexes_ok (x_graph x)"
    by (simp add: indexes_ok_def same_wiring_types(2) [OF w] l)
  then show ?thesis using h by simp
qed

lemma advance_graph:
  assumes "wf_heap e (x_heap x)" and "p < length (x_heap x)" and "advance_to_next_node env p x = (t, x')"
  shows "same_graph x x'"
proof -
  obtain r h where c: "close env p (x_heap x) = (r, h)" by fastforce
  then have "same_wiring (x_heap x) h" using close_wf [OF assms(1,2), of env] by simp
  then have "same_graph x (set_heap h x)" by (rule same_graph_heap)
  moreover have "x_graph x' = x_graph (set_heap h x)"
    using assms(3) c by (auto simp: advance_to_next_node_def Let_def split: sum.splits option.splits)
  ultimately show ?thesis using same_graph_cong by blast
qed

lemma get_next_frame_graph:
  assumes "float_ok e" and "executor_inv e x" and "length buffer = 320" and "get_next_frame e env buffer x = Some (r, out, x')"
  shows "same_graph x x'"
proof (cases "x_current_node x")
  case None
  then show ?thesis using assms(4) by (auto simp: get_next_frame_def)
next
  case (Some p)
  then have p: "p < length (x_heap x)" and wf: "wf_heap e (x_heap x)" using assms(2) by (simp_all add: executor_inv_def)
  have ne: "buffer \<noteq> []" using assms(3) by auto
  obtain res b h where f: "process_frame e p (x_heap x) (replicate (length buffer) 0) = Some (res, b, h)"
    "wf_heap e h" "same_wiring (x_heap x) h"
    using process_frame_outcome [OF assms(1) wf p, of "replicate (length buffer) 0"] assms(3,4) Some ne
    by (auto simp: get_next_frame_def frame_outcome_def split: option.splits)
  let ?x = "set_heap h x"
  obtain t x2 where a: "advance_to_next_node env p ?x = (t, x2)" by fastforce
  have "x_heap ?x = h" "p < length h" using p f(3) by (simp_all add: set_heap_def same_wiring_def)
  then have "same_graph ?x x2" using advance_graph [OF _ _ a, of e] f(2) by simp
  then have 2: "same_graph x x2" using same_graph_trans [OF same_graph_heap [OF f(3)]] by blast
  have "x_graph x' = x_graph ?x \<or> x_graph x' = x_graph x2"
    using assms(4) Some ne f(1) a by (cases res; cases t) (auto simp: get_next_frame_def Let_def split: if_splits)
  then show ?thesis using 2 same_graph_heap [OF f(3)] same_graph_cong by blast
qed

lemma prepare_graph:
  assumes "wf_heap e (x_heap x)" and "g_start_node (x_graph x) = Some s" and "s < length (x_heap x)" and "prepare env received x = Some (r, x')"
  shows "same_graph x x'"
proof -
  let ?h = "update_mixers (g_mixer_nodes (x_graph x)) (initialize_nodes env (x_heap x))"
  have 1: "wf_heap e ?h" "same_wiring (x_heap x) ?h"
    using initialize_nodes_wf [OF assms(1), of env] update_mixers_wf same_wiring_trans by blast+
  then have "s < length ?h" using assms(3) by (simp add: same_wiring_def)
  then obtain h where h: "detect_and_flag_loops (Some s) ?h = Some h" "same_wiring ?h h" using detect_and_flag_wf [OF 1(1)] by blast
  have "same_graph x (set_heap h x)" using same_graph_heap same_wiring_trans [OF 1(2) h(2)] by blast
  moreover have "x' = x \<or> x_graph x' = x_graph (set_heap h x)"
    using assms(2,4) h(1) by (auto simp: prepare_def Let_def split: if_splits sum.splits)
  ultimately show ?thesis using same_graph_cong same_graph_refl by metis
qed

section \<open>Sessions\<close>

lemma session_step_graph:
  assumes "session_step v s l s'" and "float_ok (v_float v)" and "session_ok v s"
  shows "same_graph (se_executor s) (se_executor s')"
  using assms(1)
proof (cases rule: session_step.cases)
  case (ss_prepared received)
  obtain p where p: "g_start_node (x_graph (se_executor s)) = Some p" "p < length (x_heap (se_executor s))"
    using assms(3) ss_prepared by (auto simp: session_ok_def)
  have "wf_heap (v_float v) (x_heap (se_executor s))" using assms(3) by (simp add: session_ok_def executor_inv_def)
  then have "same_graph (se_executor s) x" if "prepare (v_files v) received (se_executor s) = Some (r, x)" for r x
    using prepare_graph [OF _ p that] by blast
  then show ?thesis
    using ss_prepared by (auto simp: after_prepare_def notify_def split: option.split sum.split dest: configure_fields(4))
next
  case (ss_tick draw due)
  have "same_graph (se_executor s) (se_executor s1)" if p: "process_and_stream_single_frame v draw due s = Some (r, sends, s1)" for r sends s1
  proof -
    obtain r0 out x where g: "get_next_frame (v_float v) (v_files v) (replicate FRAME_SIZE_BYTES 0) (se_executor s) = Some (r0, out, x)"
      using p by (auto simp: process_and_stream_single_frame_def split: option.splits)
    have "same_graph (se_executor s) x"
      using get_next_frame_graph [OF assms(2) _ _ g] assms(3) by (simp add: session_ok_def FRAME_SIZE_BYTES_def)
    moreover have "x_graph (se_executor s1) = x_graph x"
      using p g by (auto simp: process_and_stream_single_frame_def Let_def bump_packets_def update_stats_if_needed_def notify_def
          split: prod.splits if_splits)
    ultimately show ?thesis using same_graph_cong by blast
  qed
  then show ?thesis using ss_tick by (auto simp: tick_def split: option.split sum.split)
next
  case (ss_refilled p)
  have "wf_heap (v_float v) (x_heap (se_executor s))" using assms(3) by (simp add: session_ok_def executor_inv_def)
  then show ?thesis
    using ss_refilled run_refills_wf [of "v_float v" "x_heap (se_executor s)" p "v_files v"]
    by (auto simp: refilled_def intro: same_graph_heap)
next
  case (ss_reinitialised p)
  have "wf_heap (v_float v) (x_heap (se_executor s))" using assms(3) by (simp add: session_ok_def executor_inv_def)
  then show ?thesis
    using ss_reinitialised reinitialize_buffers_wf [of "v_float v" "x_heap (se_executor s)" p "v_files v"]
    by (auto simp: reinitialised_def intro: same_graph_heap)
qed (simp_all add: steps_defs same_graph_refl)

text \<open>A session whose counters overflowed: its graph is as it was, and what its nodes spawned still runs.\<close>

lemma crash_keeps:
  assumes "session_step v s l s'" and "se_control s \<noteq> Crashed" and "se_control s' = Crashed"
  shows "se_executor s' = se_executor s"
  using assms(1)
proof (cases rule: session_step.cases)
  case (ss_prepared received)
  then show ?thesis using assms(3) by (auto simp: after_prepare_def split: option.splits sum.splits prod.splits if_splits)
next
  case (ss_tick draw due)
  then show ?thesis using assms(3) by (auto simp: tick_def split: option.splits sum.splits prod.splits if_splits)
qed (use assms(2,3) in \<open>auto simp: steps_defs split: if_splits\<close>)

lemma crashed_step:
  assumes "session_step v s l s'" and "se_control s = Crashed" and "executor_inv (v_float v) (se_executor s)"
  shows "se_control s' = Crashed \<and> executor_inv (v_float v) (se_executor s') \<and> same_graph (se_executor s) (se_executor s')"
proof -
  have wf: "wf_heap (v_float v) (x_heap (se_executor s))" using assms(3) by (simp add: executor_inv_def)
  have moved: "executor_inv (v_float v) (set_heap h (se_executor s)) \<and> same_graph (se_executor s) (set_heap h (se_executor s))"
    if "wf_heap (v_float v) h" "same_wiring (x_heap (se_executor s)) h" for h
    using that assms(3) same_graph_heap by (auto simp: executor_inv_def set_heap_def same_wiring_def)
  show ?thesis
    using assms(1)
  proof (cases rule: session_step.cases)
    case (ss_refilled p)
    then show ?thesis using assms(2,3) moved run_refills_wf [OF wf, of p "v_files v"] by (simp add: refilled_def)
  next
    case (ss_reinitialised p)
    then show ?thesis using assms(2) moved reinitialize_buffers_wf [OF wf, of p "v_files v"] by (simp add: reinitialised_def)
  qed (use assms(2,3) in \<open>auto simp: steps_defs split: if_splits\<close>)
qed

lemma session_step_kept:
  assumes "session_step v s l s'" and "float_ok (v_float v)"
    and "session_ok v s \<or> se_control s = Crashed \<and> executor_inv (v_float v) (se_executor s)"
  shows "(session_ok v s' \<or> se_control s' = Crashed \<and> executor_inv (v_float v) (se_executor s'))
    \<and> same_graph (se_executor s) (se_executor s')"
proof (cases "se_control s = Crashed")
  case True
  then show ?thesis using crashed_step [OF assms(1)] assms(3) by (auto simp: session_ok_def)
next
  case False
  then have ok: "session_ok v s" using assms(3) by blast
  then have "executor_inv (v_float v) (se_executor s)" by (simp add: session_ok_def)
  then show ?thesis
    using session_ok_step [OF assms(1,2) ok] session_step_graph [OF assms(1,2) ok] crash_keeps [OF assms(1) False]
    by (cases "se_control s' = Crashed") auto
qed

lemma session_run_graph:
  assumes "session_run v s ls s'" and "float_ok (v_float v)"
    and "session_ok v s \<or> se_control s = Crashed \<and> executor_inv (v_float v) (se_executor s)"
  shows "same_graph (se_executor s) (se_executor s') \<and> executor_inv (v_float v) (se_executor s')"
  using assms
proof (induction rule: session_run.induct)
  case (sr_cons s l s1 ls s2)
  then show ?case
    using session_step_kept [OF sr_cons.hyps(1)] same_graph_trans by blast
qed (auto simp: session_ok_def)

section \<open>Properties\<close>

text \<open>C24: The types of a graph are kept: a request that is accepted, with options in range, gives a graph in which
  every list of nodes, every input, every option and every edge points at a node of the kind that the
  code casts it to, and so it stays, with the same nodes and edges, whatever its session does; the
  executor stands on one of the nodes or has reached the end.\<close>

theorem graph_types_kept:
  assumes "parse_graph builtin_factory pe request = Inr (Inr g)"
    and "map_of request ''flow'' = Some (JObject flow)" and "map_of flow ''edges'' = Some (JArray edges)"
    and "length edges \<le> 65535" and "options_in_range (v_float v) (g_nodes g)" and "float_ok (v_float v)"
    and "session_create v ident g crypto draws webrtc janus_ip janus_port encrypted = Inr (Inr s)"
    and "session_run v (attach_observer s) ls s'"
  shows "graph_typed g \<and> graph_typed (x_graph (se_executor s'))
    \<and> map node_type (x_heap (se_executor s')) = map node_type (g_nodes g)
    \<and> (\<forall>p. x_current_node (se_executor s') = Some p \<longrightarrow> p < length (g_nodes g))"
proof -
  have g: "wf_heap (v_float v) (g_nodes g)" "indexes_ok g" "g_start_node g \<noteq> None" using parse_graph_inv [OF assms(1-5)] by blast+
  have ok: "session_ok v (attach_observer s)" by (rule created_session_ok [OF g assms(7)])
  have x: "x_graph (se_executor (attach_observer s)) = g"
    using assms(7) by (auto simp: session_create_def new_session_def executor_create_def attach_observer_def Let_def transform_Inr_iff split: if_splits)
  have sg: "same_graph (se_executor (attach_observer s)) (se_executor s')" and e: "executor_inv (v_float v) (se_executor s')"
    using session_run_graph [OF assms(8,6)] ok by blast+
  then have w: "same_wiring (g_nodes g) (x_heap (se_executor s'))" using x by (simp add: same_graph_def)
  have "graph_typed g" using g(2) wf_heap_typed [OF g(1)] by (simp add: graph_typed_def)
  moreover have "graph_typed (x_graph (se_executor s'))"
    using same_graph_indexes [OF sg] x g(2) wf_heap_typed [of "v_float v" "x_heap (se_executor s')"] e by (simp add: graph_typed_def executor_inv_def)
  moreover have "length (x_heap (se_executor s')) = length (g_nodes g)" using w by (simp add: same_wiring_def)
  ultimately show ?thesis using same_wiring_types(1) [OF w] e by (simp add: executor_inv_def)
qed

lemma graph_types_kept_witness:
  "\<exists>g s. parse_graph builtin_factory exact_parse_env (readme_request [(''gain'', JDouble 0.8), (''pitch_shift'', JInt64 0)]) = Inr (Inr g)
     \<and> session_create demo_env ''s'' g \<lparr>cf_master_key = [], cf_salt = []\<rparr> \<lparr>dr_ssrc = 1, dr_seq = 0, dr_ts = 0\<rparr> False '''' None False = Inr (Inr s)
     \<and> graph_typed (x_graph (se_executor (start_session (attach_observer s))))"
proof -
  let ?r = "readme_request [(''gain'', JDouble 0.8), (''pitch_shift'', JInt64 0)]"
  obtain g where g: "parse_graph builtin_factory exact_parse_env ?r = Inr (Inr g)" "options_in_range ideal_float (g_nodes g)"
    using readme_graph by blast
  obtain flow edges where f: "map_of ?r ''flow'' = Some (JObject flow)" "map_of flow ''edges'' = Some (JArray edges)" "length edges \<le> 65535"
    using readme_flow by blast
  have "g_start_node g \<noteq> None" using parse_graph_inv [OF g(1) f g(2)] by blast
  then obtain s where s: "session_create demo_env ''s'' g \<lparr>cf_master_key = [], cf_salt = []\<rparr> \<lparr>dr_ssrc = 1, dr_seq = 0, dr_ts = 0\<rparr> False '''' None False = Inr (Inr s)"
      and n: "se_control s = NotStarted"
    by (auto simp: session_create_def executor_create_def new_session_def)
  have "session_run demo_env (attach_observer s) [Start] (start_session (attach_observer s))"
    using n by (intro run_one ss_start) (simp add: attach_observer_def)
  then have "graph_typed (x_graph (se_executor (start_session (attach_observer s))))"
    using graph_types_kept [OF g(1) f _ _ s] g(2) float_ok_ideal by (simp add: demo_env_def)
  then show ?thesis using g(1) s by blast
qed

end
