(* ===== verification/Downloads.thy ===== *)
theory Downloads
  imports Config Hermes_Types
begin

text \<open>
  The download of a missing asset: \<open>infra/io/PartialFileGuard.hpp\<close>, \<open>infra/io/FileSink.hpp\<close>,
  \<open>network/http/HttpStreamer.hpp\<close>, \<open>network/s3\<close> and \<open>FileInputNode::ensure_file_exists\<close>. The files are a
  map from paths to bytes. What the disk and the network answer are parameters. An operation that
  still waits for the network has no result yet, \<open>None\<close>; the state it gives is the one it waits in.
\<close>

section \<open>The file system\<close>

type_synonym filesystem = "string \<Rightarrow> bytes option"

text \<open>The error of creating the directory, of opening the file, of the \<open>k\<close>-th write with the number of
  bytes it stored before it failed, of removing the file.\<close>

record disk =
  dk_mkdir_ec :: "string option"
  dk_open_ec :: "string option"
  dk_write_ec :: "nat \<Rightarrow> (string \<times> nat) option"
  dk_remove_ec :: "string option"

record partial_file_guard =
  pg_path :: string
  pg_engaged :: bool

definition new_guard :: "string \<Rightarrow> partial_file_guard" where
  "new_guard path = \<lparr>pg_path = path, pg_engaged = True\<rparr>"

definition disarm :: "partial_file_guard \<Rightarrow> partial_file_guard" where
  "disarm g = g\<lparr>pg_engaged := False\<rparr>"

definition destroy_guard :: "disk \<Rightarrow> partial_file_guard \<Rightarrow> filesystem \<Rightarrow> filesystem" where
  "destroy_guard dk g fs =
     (if pg_engaged g \<and> pg_path g \<noteq> '''' \<and> fs (pg_path g) \<noteq> None \<and> dk_remove_ec dk = None
      then fs(pg_path g := None) else fs)"

section \<open>The sink\<close>

record file_sink =
  sk_fs :: filesystem
  sk_path :: "string option"
  sk_guard :: "partial_file_guard option"
  sk_writes :: nat

definition new_sink :: "filesystem \<Rightarrow> file_sink" where
  "new_sink fs = \<lparr>sk_fs = fs, sk_path = None, sk_guard = None, sk_writes = 0\<rparr>"

definition has_parent :: "string \<Rightarrow> bool" where
  "has_parent path \<longleftrightarrow> CHR ''/'' \<in> set path"

definition sink_prepare :: "disk \<Rightarrow> string \<Rightarrow> file_sink \<Rightarrow> (string, unit) expected \<times> file_sink" where
  "sink_prepare dk path sink =
     (case (if has_parent path then dk_mkdir_ec dk else None) of
        Some e \<Rightarrow> (Inl (''Dir error: '' @ e), sink)
      | None \<Rightarrow>
          (case dk_open_ec dk of
             Some e \<Rightarrow> (Inl (''File open error: '' @ e), sink)
           | None \<Rightarrow> (Inr (), sink\<lparr>sk_fs := (sk_fs sink)(path \<mapsto> []), sk_path := Some path, sk_guard := Some (new_guard path)\<rparr>)))"

definition sink_commit :: "file_sink \<Rightarrow> file_sink" where
  "sink_commit sink = sink\<lparr>sk_guard := map_option disarm (sk_guard sink)\<rparr>"

text \<open>The destructor closes the file and destroys the guard.\<close>

definition destroy_sink :: "disk \<Rightarrow> file_sink \<Rightarrow> filesystem" where
  "destroy_sink dk sink =
     (case sk_guard sink of None \<Rightarrow> sk_fs sink | Some g \<Rightarrow> destroy_guard dk g (sk_fs sink))"

definition sink_contents :: "file_sink \<Rightarrow> bytes" where
  "sink_contents sink =
     (case sk_path sink of None \<Rightarrow> [] | Some p \<Rightarrow> (case sk_fs sink p of None \<Rightarrow> [] | Some b \<Rightarrow> b))"

text \<open>\<open>async_write\<close> to the file: the error, the bytes written, the sink.\<close>

definition sink_write :: "disk \<Rightarrow> bytes \<Rightarrow> file_sink \<Rightarrow> string option \<times> nat \<times> file_sink" where
  "sink_write dk buffers sink =
     (let (ec, n) = (case dk_write_ec dk (sk_writes sink) of
            None \<Rightarrow> (None, length buffers) | Some (e, n) \<Rightarrow> (Some e, min n (length buffers)));
          sink = sink\<lparr>sk_writes := sk_writes sink + 1\<rparr>
      in (ec, n, case sk_path sink of
            None \<Rightarrow> sink
          | Some p \<Rightarrow> sink\<lparr>sk_fs := (sk_fs sink)(p \<mapsto> sink_contents sink @ take n buffers)\<rparr>))"

section \<open>The HTTP client\<close>

datatype read_event = ReadBytes bytes | ReadEof | ReadFails string

datatype error_body = ErrorBody string | ErrorBodyEof | ErrorBodyFails string

text \<open>The head of a response, with the bytes of the body that were read with it. The parser of
  Boost.Beast has checked that the length is a number.\<close>

record response_head =
  rh_status :: nat
  rh_content_length :: "nat option"
  rh_residual :: bytes
  rh_error_body :: error_body

record exchange =
  ex_resolve_ec :: "string option"
  ex_connect_ec :: "string option"
  ex_write_ec :: "string option"
  ex_head :: "(string, response_head) expected"
  ex_reads :: "read_event list"

definition net_error :: "string \<Rightarrow> (error_info, 'a) expected" where
  "net_error message = Inl (error_info_From NetworkError message)"

definition connect :: "exchange \<Rightarrow> (error_info, unit) expected" where
  "connect ex = (case ex_resolve_ec ex of
     Some e \<Rightarrow> net_error (''Resolve failed: '' @ e)
   | None \<Rightarrow> (case ex_connect_ec ex of
       Some e \<Rightarrow> net_error (''Connect failed: '' @ e)
     | None \<Rightarrow> Inr ()))"

definition handle_error_response :: "response_head \<Rightarrow> (error_info, 'a) expected" where
  "handle_error_response rh =
     (let error_body = (case rh_error_body rh of ErrorBody b \<Rightarrow> b | ErrorBodyEof \<Rightarrow> ''No Body''
            | ErrorBodyFails e \<Rightarrow> ''Failed to parse error body: '' @ e)
      in net_error (''HTTP Error '' @ show_nat (rh_status rh) @ '': '' @ error_body))"

definition get_content_length :: "response_head \<Rightarrow> nat" where
  "get_content_length rh = (case rh_content_length rh of Some n \<Rightarrow> n | None \<Rightarrow> 0)"

text \<open>The template parameter \<open>Sink\<close> is the function \<open>write\<close> on its states.\<close>

type_synonym 's writer = "bytes \<Rightarrow> 's \<Rightarrow> string option \<times> nat \<times> 's"

definition drain_residual_buffer :: "'s writer \<Rightarrow> bytes \<Rightarrow> 's \<Rightarrow> (error_info, nat) expected \<times> 's" where
  "drain_residual_buffer write buffer sink =
     (if 0 < length buffer
      then (let (ec, written, sink) = write buffer sink
            in (case ec of Some e \<Rightarrow> net_error (''Drain error: '' @ e) | None \<Rightarrow> Inr written, sink))
      else (Inr 0, sink))"

fun transfer_loop :: "'s writer \<Rightarrow> nat \<Rightarrow> nat \<Rightarrow> read_event list \<Rightarrow> 's \<Rightarrow> (error_info, nat) expected option \<times> 's" where
  "transfer_loop write remaining_size total_written reads sink =
     (if remaining_size = 0 \<or> total_written < remaining_size
      then (case reads of
              [] \<Rightarrow> (None, sink)
            | ReadEof # rs \<Rightarrow> (Some (Inr total_written), sink)
            | ReadFails e # rs \<Rightarrow> (Some (net_error (''Read error: '' @ e)), sink)
            | ReadBytes buffer # rs \<Rightarrow>
                if buffer = [] then (Some (Inr total_written), sink)
                else
                  (let (ec, written, sink) = write buffer sink
                   in case ec of
                        Some e \<Rightarrow> (Some (net_error (''Write error: '' @ e)), sink)
                      | None \<Rightarrow> transfer_loop write remaining_size (total_written + written) rs sink))
      else (Some (Inr total_written), sink))"

declare transfer_loop.simps [simp del]

definition transfer_stream_data :: "'s writer \<Rightarrow> nat \<Rightarrow> read_event list \<Rightarrow> 's \<Rightarrow> (error_info, nat) expected option \<times> 's" where
  "transfer_stream_data write remaining_size reads sink = transfer_loop write remaining_size 0 reads sink"

definition check_length :: "nat \<Rightarrow> nat \<Rightarrow> (error_info, unit) expected" where
  "check_length expected_size total_written =
     (if 0 < expected_size \<and> total_written \<noteq> expected_size
      then net_error (''Download truncated. Expected: '' @ show_nat expected_size @ '', Got: '' @ show_nat total_written)
      else Inr ())"

definition stream_to_sink :: "'s writer \<Rightarrow> bytes \<Rightarrow> nat \<Rightarrow> read_event list \<Rightarrow> 's \<Rightarrow> (error_info, unit) expected option \<times> 's" where
  "stream_to_sink write buffer expected_size reads sink =
     (case drain_residual_buffer write buffer sink of
        (Inl e, sink) \<Rightarrow> (Some (Inl e), sink)
      | (Inr drained, sink) \<Rightarrow>
          if expected_size = 0 \<or> drained < expected_size
          then (case transfer_stream_data write (if 0 < expected_size then expected_size - drained else 0) reads sink of
                  (None, sink) \<Rightarrow> (None, sink)
                | (Some (Inl e), sink) \<Rightarrow> (Some (Inl e), sink)
                | (Some (Inr n), sink) \<Rightarrow> (Some (check_length expected_size (drained + n)), sink))
          else (Some (check_length expected_size drained), sink))"

definition execute :: "'s writer \<Rightarrow> exchange \<Rightarrow> 's \<Rightarrow> (error_info, unit) expected option \<times> 's" where
  "execute write ex sink =
     (case connect ex of
        Inl e \<Rightarrow> (Some (Inl e), sink)
      | Inr u \<Rightarrow>
          (case ex_write_ec ex of
             Some e \<Rightarrow> (Some (net_error (''Write request failed: '' @ e)), sink)
           | None \<Rightarrow>
               (case ex_head ex of
                  Inl e \<Rightarrow> (Some (net_error (''Read header failed: '' @ e)), sink)
                | Inr rh \<Rightarrow>
                    if rh_status rh \<noteq> 200 then (Some (handle_error_response rh), sink)
                    else stream_to_sink write (rh_residual rh) (get_content_length rh) (ex_reads ex) sink)))"

section \<open>Signed requests\<close>

text \<open>\<open>strftime\<close> of \<open>gmtime_r\<close>, with the format of the date header: the civil date of a day number, in eras
  of 400 years that start in March.\<close>

definition civil :: "nat \<Rightarrow> nat \<times> nat \<times> nat" where
  "civil days =
     (let z = days + 719468; era = z div 146097; doe = z mod 146097;
          yoe = (doe - doe div 1460 + doe div 36524 - doe div 146096) div 365;
          doy = doe - (365 * yoe + yoe div 4 - yoe div 100);
          mp = (5 * doy + 2) div 153; d = doy - (153 * mp + 2) div 5 + 1; m = (if mp < 10 then mp + 3 else mp - 9)
      in (yoe + era * 400 + (if m \<le> 2 then 1 else 0), m, d))"

definition pad2 :: "nat \<Rightarrow> string" where
  "pad2 n = (if n < 10 then CHR ''0'' # show_nat n else show_nat n)"

definition amz_date :: "nat \<Rightarrow> string" where
  "amz_date now =
     (let (y, m, d) = civil (now div 86400); s = now mod 86400
      in show_nat y @ pad2 m @ pad2 d @ ''T'' @ pad2 (s div 3600) @ pad2 (s div 60 mod 60) @ pad2 (s mod 60) @ ''Z'')"

record signed_headers =
  sh_authorization :: string
  sh_date :: string
  sh_content_sha256 :: string

text \<open>The signer of the library \<open>awssigv4\<close>.\<close>

record 'g sigv4 =
  g_signature :: "string \<Rightarrow> string \<Rightarrow> string \<Rightarrow> string \<Rightarrow> string \<Rightarrow> nat \<Rightarrow> 'g"
  g_createCanonicalRequest :: "'g \<Rightarrow> string \<Rightarrow> string \<Rightarrow> string \<Rightarrow> (string \<times> string list) list \<Rightarrow> string \<Rightarrow> string"
  g_createStringToSign :: "'g \<Rightarrow> string \<Rightarrow> string"
  g_createSignature :: "'g \<Rightarrow> string \<Rightarrow> string"
  g_createAuthorizationHeader :: "'g \<Rightarrow> string \<Rightarrow> string"

definition empty_payload_hash :: string where
  "empty_payload_hash = ''e3b0c44298fc1c149afbf4c8996fb92427ae41e4649b934ca495991b7852b855''"

definition sign :: "'g sigv4 \<Rightarrow> nat \<Rightarrow> s3_config \<Rightarrow> string \<Rightarrow> string \<Rightarrow> string \<Rightarrow> signed_headers" where
  "sign api now cfg method_str host uri_path =
     (let signer = g_signature api (s3_service cfg) host (s3_region cfg) (s3_secret_key cfg) (s3_access_key cfg) now;
          payload_hash = empty_payload_hash;
          amzdate = amz_date now;
          headers = [(''host'', [host]), (''x-amz-content-sha256'', [payload_hash]), (''x-amz-date'', [amzdate])];
          canonical_req = g_createCanonicalRequest api signer method_str uri_path '''' headers '''';
          signature = g_createSignature api signer (g_createStringToSign api signer canonical_req)
      in \<lparr>sh_authorization = g_createAuthorizationHeader api signer signature, sh_date = amzdate,
          sh_content_sha256 = payload_hash\<rparr>)"

record s3_request =
  rq3_method :: string
  rq3_target :: string
  rq3_fields :: "(string \<times> string) list"

definition contains_text :: "string \<Rightarrow> string \<Rightarrow> bool" where
  "contains_text needle text \<longleftrightarrow> list_ex (\<lambda>k. take (length needle) (drop k text) = needle) [0..<Suc (length text)]"

text \<open>The host of the request and the path of the object.\<close>

definition s3_address :: "s3_config \<Rightarrow> string \<Rightarrow> string \<times> string" where
  "s3_address cfg file_key =
     (if contains_text ''amazonaws.com'' (s3_host cfg)
      then (s3_bucket cfg @ ''.s3.'' @ s3_region cfg @ ''.amazonaws.com'', ''/'' @ file_key)
      else (s3_host cfg @ (if s3_port cfg \<noteq> '''' \<and> s3_port cfg \<noteq> ''80'' \<and> s3_port cfg \<noteq> ''443'' then '':'' @ s3_port cfg else ''''),
            ''/'' @ s3_bucket cfg @ ''/'' @ file_key))"

definition create_signed_get_request :: "'g sigv4 \<Rightarrow> nat \<Rightarrow> s3_config \<Rightarrow> string \<Rightarrow> string \<Rightarrow> s3_request" where
  "create_signed_get_request api now cfg method_str file_key =
     (let (full_host, canonical_uri) = s3_address cfg file_key;
          signed_headers = sign api now cfg method_str full_host canonical_uri
      in \<lparr>rq3_method = method_str, rq3_target = canonical_uri,
          rq3_fields = [(''Host'', full_host), (''Authorization'', sh_authorization signed_headers),
            (''x-amz-date'', sh_date signed_headers), (''x-amz-content-sha256'', sh_content_sha256 signed_headers)]\<rparr>)"

section \<open>Downloading an asset\<close>

definition s3_session_create :: "s3_config \<Rightarrow> (error_info, s3_config) expected" where
  "s3_session_create manual_cfg =
     (if s3_access_key manual_cfg = '''' then Inl (error_info_From ConfigError ''Missing S3 Configuration'') else Inr manual_cfg)"

text \<open>\<open>net\<close>: what the network answers to a request for a host and a port.\<close>

record 'g download_env =
  de_sigv4 :: "'g sigv4"
  de_now :: nat
  de_net :: "string \<Rightarrow> string \<Rightarrow> s3_request \<Rightarrow> exchange"
  de_disk :: disk

definition request_file :: "'g download_env \<Rightarrow> s3_config \<Rightarrow> string \<Rightarrow> 's writer \<Rightarrow> 's \<Rightarrow> (error_info, unit) expected option \<times> 's" where
  "request_file de cfg file_key write destination =
     (let req = create_signed_get_request (de_sigv4 de) (de_now de) cfg ''GET'' file_key
      in execute write (de_net de (s3_host cfg) (s3_port cfg) req) destination)"

definition download_from_s3 ::
  "'g download_env \<Rightarrow> s3_config \<Rightarrow> string \<Rightarrow> string \<Rightarrow> filesystem \<Rightarrow> (error_info, unit) expected option \<times> filesystem" where
  "download_from_s3 de s3_config file_name file_path fs =
     (case s3_session_create s3_config of
        Inl e \<Rightarrow> (Some (Inl e), fs)
      | Inr cfg \<Rightarrow>
          (case sink_prepare (de_disk de) file_path (new_sink fs) of
             (Inl e, sink) \<Rightarrow> (Some (Inl (error_info_From FileSystemError (''Sink Prep Failed: '' @ e))), destroy_sink (de_disk de) sink)
           | (Inr u, sink) \<Rightarrow>
               (case request_file de cfg file_name (sink_write (de_disk de)) sink of
                  (None, sink) \<Rightarrow> (None, sk_fs sink)
                | (Some (Inl e), sink) \<Rightarrow> (Some (Inl e), destroy_sink (de_disk de) sink)
                | (Some (Inr u), sink) \<Rightarrow> (Some (Inr ()), destroy_sink (de_disk de) (sink_commit sink)))))"

definition ensure_file_exists ::
  "'g download_env \<Rightarrow> s3_config \<Rightarrow> string \<Rightarrow> string \<Rightarrow> filesystem \<Rightarrow> (error_info, unit) expected option \<times> filesystem" where
  "ensure_file_exists de s3_config file_name file_path fs =
     (if fs file_path \<noteq> None then (Some (Inr ()), fs) else download_from_s3 de s3_config file_name file_path fs)"

end
