(* ===== verification/Download_Safety.thy ===== *)
theory Download_Safety
  imports Downloads
begin

text \<open>
  What the download of an asset promises. The contract between the HTTP client and its sink is a
  locale; the file sink provides it, so that what the client stores is what the network sent.
\<close>

section \<open>The contract of a sink\<close>

text \<open>The bytes that the reads give before the stream ends.\<close>

fun body_of :: "read_event list \<Rightarrow> bytes" where
  "body_of (ReadBytes b # rs) = (if b = [] then [] else b @ body_of rs)"
| "body_of rs = []"

locale byte_sink =
  fixes put_bytes :: "bytes \<Rightarrow> 's \<Rightarrow> string option \<times> nat \<times> 's"
    and contents :: "'s \<Rightarrow> bytes"
    and valid :: "'s \<Rightarrow> bool"
  assumes write_ok: "valid s \<Longrightarrow> put_bytes d s = (None, n, s') \<Longrightarrow> n = length d \<and> contents s' = contents s @ d"
    and write_valid: "valid s \<Longrightarrow> put_bytes d s = (ec, n, s') \<Longrightarrow> valid s'"
begin

lemma loop_contents:
  assumes "transfer_loop put_bytes R T rs s = (r, s')" and "valid s"
  shows "valid s' \<and> (\<forall>n. r = Some (Inr n) \<longrightarrow> (\<exists>m. n = T + m \<and> m \<le> length (body_of rs)
    \<and> contents s' = contents s @ take m (body_of rs) \<and> (R = 0 \<longrightarrow> m = length (body_of rs))))"
  using assms
proof (induction rs arbitrary: T s)
  case Nil
  then show ?case by (auto simp: transfer_loop.simps split: if_splits)
next
  case (Cons e rs)
  show ?case
  proof (cases "R = 0 \<or> T < R")
    case False
    then show ?thesis using Cons.prems by (auto simp: transfer_loop.simps)
  next
    case True
    show ?thesis
    proof (cases "\<exists>b. e = ReadBytes b \<and> b \<noteq> []")
      case False
      then show ?thesis using Cons.prems True
        by (cases e) (auto simp: transfer_loop.simps net_error_def)
    next
      case nonempty: True
      then obtain b where b: "e = ReadBytes b" "b \<noteq> []" by blast
      obtain ec n s1 where w: "put_bytes b s = (ec, n, s1)" by (metis prod_cases3)
      have v: "valid s1" by (rule write_valid [OF Cons.prems(2) w])
      show ?thesis
      proof (cases ec)
        case (Some e')
        then show ?thesis using Cons.prems True b w v by (simp add: transfer_loop.simps net_error_def) blast
      next
        case None
        have c: "n = length b" "contents s1 = contents s @ b" using write_ok [OF Cons.prems(2)] w None by simp_all
        have rec: "transfer_loop put_bytes R (T + length b) rs s1 = (r, s')"
          using Cons.prems(1) True b w None c(1) by (simp add: transfer_loop.simps)
        have "\<exists>m. k = T + m \<and> m \<le> length (body_of (e # rs)) \<and> contents s' = contents s @ take m (body_of (e # rs))
            \<and> (R = 0 \<longrightarrow> m = length (body_of (e # rs)))" if r: "r = Some (Inr k)" for k
        proof -
          obtain m where "k = T + length b + m" "m \<le> length (body_of rs)" "contents s' = contents s1 @ take m (body_of rs)"
              "R = 0 \<longrightarrow> m = length (body_of rs)"
            using Cons.IH [OF rec v] r by blast
          then show ?thesis using b c by (intro exI [of _ "length b + m"]) simp
        qed
        then show ?thesis using Cons.IH [OF rec v] by blast
      qed
    qed
  qed
qed

lemma drain_contents:
  assumes "drain_residual_buffer put_bytes buffer s = (r, s')" and "valid s"
  shows "valid s' \<and> (\<forall>n. r = Inr n \<longrightarrow> n = length buffer \<and> contents s' = contents s @ buffer)"
  using assms write_ok [of s buffer] write_valid [of s buffer]
  by (cases "put_bytes buffer s") (auto simp: drain_residual_buffer_def net_error_def split: if_splits option.splits)

text \<open>A body of a known length is stored completely or refused; one of an unknown length is whatever was
  read before the stream ended.\<close>

lemma stream_contents:
  assumes "stream_to_sink put_bytes buffer N rs s = (r, s')" and "valid s"
  shows "valid s' \<and> (r = Some (Inr ()) \<longrightarrow> (if N = 0 then contents s' = contents s @ buffer @ body_of rs
    else N \<le> length (buffer @ body_of rs) \<and> contents s' = contents s @ take N (buffer @ body_of rs)))"
proof -
  obtain d s1 where d: "drain_residual_buffer put_bytes buffer s = (d, s1)" by fastforce
  have v: "valid s1" using drain_contents [OF d assms(2)] by blast
  show ?thesis
  proof (cases d)
    case (Inl e)
    then show ?thesis using assms(1) d v by (auto simp: stream_to_sink_def)
  next
    case (Inr n)
    have n: "n = length buffer" "contents s1 = contents s @ buffer" using drain_contents [OF d assms(2)] Inr by blast+
    show ?thesis
    proof (cases "N = 0 \<or> n < N")
      case False
      then show ?thesis using assms(1) d v n Inr by (auto simp: stream_to_sink_def check_length_def net_error_def split: if_splits)
    next
      case True
      obtain t s2 where t: "transfer_loop put_bytes (if 0 < N then N - n else 0) 0 rs s1 = (t, s2)" by fastforce
      have c: "valid s2" "\<And>k. t = Some (Inr k) \<Longrightarrow> k \<le> length (body_of rs) \<and> contents s2 = contents s1 @ take k (body_of rs)
          \<and> (N = 0 \<longrightarrow> k = length (body_of rs))"
        using loop_contents [OF t v] by auto
      have r: "(r, s') = (case t of None \<Rightarrow> (None, s2) | Some (Inl e) \<Rightarrow> (Some (Inl e), s2) | Some (Inr k) \<Rightarrow> (Some (check_length N (n + k)), s2))"
        using assms(1) d Inr True t by (auto simp: stream_to_sink_def transfer_stream_data_def split: option.splits sum.splits)
      show ?thesis
      proof (cases "\<exists>k. t = Some (Inr k)")
        case False
        then show ?thesis using r c(1) by (auto split: option.splits sum.splits)
      next
        case got: True
        then obtain k where k: "t = Some (Inr k)" by blast
        then show ?thesis using r c(1) c(2) [OF k] n
          by (auto simp: check_length_def net_error_def split: if_splits)
      qed
    qed
  qed
qed

lemma execute_contents:
  assumes "execute put_bytes ex s = (r, s')" and "valid s"
  shows "valid s' \<and> (r = Some (Inr ()) \<longrightarrow> (\<exists>rh. ex_head ex = Inr rh \<and> rh_status rh = 200 \<and>
    (let body = rh_residual rh @ body_of (ex_reads ex) in
     if get_content_length rh = 0 then contents s' = contents s @ body
     else get_content_length rh \<le> length body \<and> contents s' = contents s @ take (get_content_length rh) body)))"
proof (cases "\<exists>rh. connect ex = Inr () \<and> ex_write_ec ex = None \<and> ex_head ex = Inr rh \<and> rh_status rh = 200")
  case True
  then obtain rh where rh: "connect ex = Inr ()" "ex_write_ec ex = None" "ex_head ex = Inr rh" "rh_status rh = 200" by blast
  then have st: "stream_to_sink put_bytes (rh_residual rh) (get_content_length rh) (ex_reads ex) s = (r, s')"
    using assms(1) by (simp add: execute_def)
  then show ?thesis using stream_contents [OF st assms(2)] rh by (auto simp: Let_def intro!: exI [of _ rh])
next
  case False
  then show ?thesis using assms
    by (auto simp: execute_def handle_error_response_def net_error_def Let_def split: sum.splits option.splits if_splits)
qed

end

section \<open>The file sink provides it\<close>

text \<open>A prepared sink on the path \<open>p\<close>: the guard is engaged, and no other file is touched.\<close>

definition file_valid :: "filesystem \<Rightarrow> string \<Rightarrow> file_sink \<Rightarrow> bool" where
  "file_valid fs p sink \<longleftrightarrow> sk_path sink = Some p \<and> sk_guard sink = Some (new_guard p) \<and> sk_fs sink p \<noteq> None
     \<and> (\<forall>q. q \<noteq> p \<longrightarrow> sk_fs sink q = fs q)"

interpretation files: byte_sink "sink_write dk" sink_contents "file_valid fs p" for dk fs p
  by unfold_locales (auto simp: sink_write_def Let_def file_valid_def sink_contents_def split: option.splits prod.splits)

lemma prepared_valid:
  assumes "sink_prepare dk p (new_sink fs) = (Inr u, sink)"
  shows "file_valid fs p sink \<and> sink_contents sink = []"
  using assms by (auto simp: sink_prepare_def new_sink_def file_valid_def sink_contents_def split: option.splits if_splits)

section \<open>The whole download\<close>

text \<open>The address of the request and the exchange that answers it.\<close>

definition exchange_of :: "'g download_env \<Rightarrow> s3_config \<Rightarrow> string \<Rightarrow> exchange" where
  "exchange_of de cfg name = de_net de (s3_host cfg) (s3_port cfg) (create_signed_get_request (de_sigv4 de) (de_now de) cfg ''GET'' name)"

text \<open>The body that the client takes for complete.\<close>

definition accepted_body :: "exchange \<Rightarrow> bytes option" where
  "accepted_body ex = (case ex_head ex of
     Inl e \<Rightarrow> None
   | Inr rh \<Rightarrow>
       (let body = rh_residual rh @ body_of (ex_reads ex); n = get_content_length rh in
        if rh_status rh \<noteq> 200 then None
        else if n = 0 then Some body
        else if n \<le> length body then Some (take n body) else None))"

lemma destroyed_valid:
  assumes "file_valid fs p sink" and "fs p = None" and "p \<noteq> ''''" and "dk_remove_ec dk = None"
  shows "destroy_sink dk sink = fs"
  using assms by (auto simp: destroy_sink_def file_valid_def destroy_guard_def new_guard_def)

lemma committed_valid:
  assumes "file_valid fs p sink"
  shows "destroy_sink dk (sink_commit sink) = fs(p \<mapsto> sink_contents sink)"
  using assms by (auto simp: destroy_sink_def sink_commit_def disarm_def destroy_guard_def new_guard_def file_valid_def sink_contents_def)

lemma download_cases:
  assumes "download_from_s3 de cfg name p fs = (r, fs')" and "fs p = None" and "p \<noteq> ''''" and "dk_remove_ec (de_disk de) = None"
  shows "(\<exists>e. r = Some (Inl e) \<and> fs' = fs)
    \<or> (r = Some (Inr ()) \<and> (\<exists>body. accepted_body (exchange_of de cfg name) = Some body \<and> fs' = fs(p \<mapsto> body)))
    \<or> (r = None \<and> (\<exists>part. fs' = fs(p \<mapsto> part)))"
proof -
  let ?dk = "de_disk de"
  consider (early) e where "s3_session_create cfg = Inl e" | (unprepared) e sink where "s3_session_create cfg = Inr cfg" "sink_prepare ?dk p (new_sink fs) = (Inl e, sink)"
    | (prepared) sink where "s3_session_create cfg = Inr cfg" "sink_prepare ?dk p (new_sink fs) = (Inr (), sink)"
  proof -
    have "(\<exists>e. s3_session_create cfg = Inl e) \<or> s3_session_create cfg = Inr cfg" by (simp add: s3_session_create_def)
    moreover obtain r1 sink where "sink_prepare ?dk p (new_sink fs) = (r1, sink)" by fastforce
    ultimately show thesis using that by (cases r1) auto
  qed
  then show ?thesis
  proof cases
    case early
    then show ?thesis using assms(1) by (auto simp: download_from_s3_def)
  next
    case unprepared
    then have "destroy_sink ?dk sink = fs" by (auto simp: sink_prepare_def new_sink_def destroy_sink_def split: option.splits if_splits)
    then show ?thesis using assms(1) unprepared by (auto simp: download_from_s3_def)
  next
    case prepared
    have v: "file_valid fs p sink" "sink_contents sink = []" using prepared_valid [OF prepared(2)] by simp_all
    obtain t sink1 where t: "execute (sink_write ?dk) (exchange_of de cfg name) sink = (t, sink1)" by fastforce
    have c: "file_valid fs p sink1" "t = Some (Inr ()) \<Longrightarrow> accepted_body (exchange_of de cfg name) = Some (sink_contents sink1)"
      using files.execute_contents [OF t v(1)] v(2) by (auto simp: accepted_body_def Let_def split: if_splits)
    have r: "(r, fs') = (case t of None \<Rightarrow> (None, sk_fs sink1) | Some (Inl e) \<Rightarrow> (Some (Inl e), destroy_sink ?dk sink1)
        | Some (Inr u) \<Rightarrow> (Some (Inr ()), destroy_sink ?dk (sink_commit sink1)))"
      using assms(1) prepared t by (auto simp: download_from_s3_def request_file_def exchange_of_def split: option.splits sum.splits)
    consider (waits) "t = None" | (fails) e where "t = Some (Inl e)" | (finished) "t = Some (Inr ())"
      by (cases t; cases "the t") auto
    then show ?thesis
    proof cases
      case waits
      have "sk_fs sink1 = fs(p \<mapsto> the (sk_fs sink1 p))" using c(1) by (auto simp: file_valid_def fun_eq_iff)
      then show ?thesis using r waits by auto
    next
      case fails
      then show ?thesis using r destroyed_valid [OF c(1) assms(2-4)] by simp
    next
      case finished
      then show ?thesis using r committed_valid [OF c(1)] c(2) by simp
    qed
  qed
qed

section \<open>Properties\<close>

text \<open>C13: Ensuring that a missing asset exists leaves, once it has an answer, either an error and the files as
  they were, or success and the file with exactly the accepted body of the response: all the bytes
  that its length announces, or, without a length, all that came before the connection ended.\<close>

theorem download_atomic:
  assumes "ensure_file_exists de cfg name p fs = (Some r, fs')" and "fs p = None" and "p \<noteq> ''''" and "dk_remove_ec (de_disk de) = None"
  shows "if r = Inr () then \<exists>body. accepted_body (exchange_of de cfg name) = Some body \<and> fs' = fs(p \<mapsto> body) else fs' = fs"
  using download_cases [of de cfg name p fs "Some r" fs'] assms by (auto simp: ensure_file_exists_def)

definition demo_sigv4 :: "unit sigv4" where
  "demo_sigv4 = \<lparr>g_signature = (\<lambda>_ _ _ _ _ _. ()), g_createCanonicalRequest = (\<lambda>_ _ _ _ _ _. ''c''), g_createStringToSign = (\<lambda>_ _. ''s''),
     g_createSignature = (\<lambda>_ _. ''x''), g_createAuthorizationHeader = (\<lambda>_ _. ''a'')\<rparr>"

definition demo_download :: "nat option \<Rightarrow> read_event list \<Rightarrow> unit download_env" where
  "demo_download n reads = \<lparr>de_sigv4 = demo_sigv4, de_now = 0,
     de_net = (\<lambda>_ _ _. \<lparr>ex_resolve_ec = None, ex_connect_ec = None, ex_write_ec = None,
        ex_head = Inr \<lparr>rh_status = 200, rh_content_length = n, rh_residual = [1], rh_error_body = ErrorBodyEof\<rparr>, ex_reads = reads\<rparr>),
     de_disk = \<lparr>dk_mkdir_ec = None, dk_open_ec = None, dk_write_ec = (\<lambda>_. None), dk_remove_ec = None\<rparr>\<rparr>"

definition demo_s3 :: s3_config where
  "demo_s3 = \<lparr>s3_access_key = ''k'', s3_secret_key = ''s'', s3_region = ''r'', s3_host = ''localhost'', s3_port = ''9000'',
     s3_service = ''s3'', s3_bucket = ''b''\<rparr>"

lemmas download_eval = ensure_file_exists_def download_from_s3_def s3_session_create_def demo_s3_def sink_prepare_def new_sink_def
  demo_download_def request_file_def Let_def execute_def connect_def stream_to_sink_def drain_residual_buffer_def sink_write_def
  sink_contents_def transfer_stream_data_def transfer_loop.simps get_content_length_def check_length_def net_error_def
  destroy_sink_def sink_commit_def disarm_def new_guard_def destroy_guard_def has_parent_def

lemma download_atomic_witness:
  "\<exists>fs'. ensure_file_exists (demo_download (Some 3) [ReadBytes [2], ReadBytes [3]]) demo_s3 ''a.wav'' ''d/a.wav'' (\<lambda>_. None) = (Some (Inr ()), fs')
     \<and> fs' ''d/a.wav'' = Some [1, 2, 3]"
proof -
  let ?de = "demo_download (Some 3) [ReadBytes [2], ReadBytes [3]]"
  obtain fs' where e: "ensure_file_exists ?de demo_s3 ''a.wav'' ''d/a.wav'' (\<lambda>_. None) = (Some (Inr ()), fs')"
    by (simp add: download_eval)
  then obtain body where "accepted_body (exchange_of ?de demo_s3 ''a.wav'') = Some body" "fs' = (\<lambda>_. None)(''d/a.wav'' \<mapsto> body)"
    using download_atomic [OF e] by (auto simp: demo_download_def)
  then show ?thesis using e by (auto simp: accepted_body_def exchange_of_def demo_download_def get_content_length_def)
qed

text \<open>While a download waits for the network its partial file is there, and ensuring that the same asset
  exists succeeds at once: another session plays the partial file.\<close>

theorem partial_file_taken:
  assumes "ensure_file_exists de cfg name p fs = (None, fs')" and "fs p = None" and "p \<noteq> ''''" and "dk_remove_ec (de_disk de) = None"
  shows "ensure_file_exists de' cfg name p fs' = (Some (Inr ()), fs')"
  using download_cases [of de cfg name p fs None fs'] assms by (auto simp: ensure_file_exists_def)

lemma partial_file_taken_witness:
  "\<exists>fs'. ensure_file_exists (demo_download (Some 3) [ReadBytes [2]]) demo_s3 ''a.wav'' ''d/a.wav'' (\<lambda>_. None) = (None, fs')
     \<and> ensure_file_exists (demo_download None []) demo_s3 ''a.wav'' ''d/a.wav'' fs' = (Some (Inr ()), fs')"
proof -
  obtain fs' where e: "ensure_file_exists (demo_download (Some 3) [ReadBytes [2]]) demo_s3 ''a.wav'' ''d/a.wav'' (\<lambda>_. None) = (None, fs')"
    by (simp add: download_eval)
  then show ?thesis using partial_file_taken [OF e] by (auto simp: demo_download_def)
qed

text \<open>The headers that the signature covers are the ones that the request carries, with the method and
  the target that it uses.\<close>

theorem signature_covers_request:
  assumes "req = create_signed_get_request api now cfg verb key"
  shows "\<exists>host signer. (''Host'', host) \<in> set (rq3_fields req)
     \<and> (''Authorization'', g_createAuthorizationHeader api signer (g_createSignature api signer (g_createStringToSign api signer
          (g_createCanonicalRequest api signer (rq3_method req) (rq3_target req) ''''
             [(''host'', [host]), (''x-amz-content-sha256'', [the (map_of (rq3_fields req) ''x-amz-content-sha256'')]),
              (''x-amz-date'', [the (map_of (rq3_fields req) ''x-amz-date'')])] '''')))) \<in> set (rq3_fields req)"
  unfolding assms create_signed_get_request_def sign_def Let_def by (simp add: split_def) blast

lemma signature_covers_request_witness:
  "\<exists>host. (''Host'', host) \<in> set (rq3_fields (create_signed_get_request demo_sigv4 0 demo_s3 ''GET'' ''a.wav''))"
  using signature_covers_request [OF refl, of demo_sigv4 0 demo_s3 "''GET''" "''a.wav''"] by blast

end

