(* ===== verification/Assets.thy ===== *)
theory Assets
  imports Download_Safety Prepare_Safety "HOL-Library.Multiset"
begin

text \<open>
  \<open>AudioExecutor::ensure_assets_exist\<close>: the downloads of a graph's files run at the same time. A download is a
  coroutine with a state between its suspensions; the files are shared. Run alone it is the function
  of \<open>Downloads\<close>; several run like one after the other, in any interleaving, as long as their paths differ.
\<close>

section \<open>One download as a coroutine\<close>

text \<open>Not started; waiting for the head of the response; waiting for bytes, with the expected length, the bytes
  drained and transferred so far and what the network still gives; answered. The files of the sink are
  the shared ones and are not kept in the task.\<close>

datatype asset_task =
    Asked
  | Connecting file_sink
  | Transferring file_sink nat nat nat "read_event list"
  | Answered "(error_info, unit) expected"

definition detach :: "file_sink \<Rightarrow> file_sink" where
  "detach sink = sink\<lparr>sk_fs := (\<lambda>_. None)\<rparr>"

definition finish_download :: "disk \<Rightarrow> (error_info, unit) expected \<Rightarrow> file_sink \<Rightarrow> asset_task \<times> filesystem" where
  "finish_download dk r sink =
     (Answered r, destroy_sink dk (if has_value r then sink_commit sink else sink))"

definition begin_transfer :: "disk \<Rightarrow> response_head \<Rightarrow> read_event list \<Rightarrow> file_sink \<Rightarrow> asset_task \<times> filesystem" where
  "begin_transfer dk rh reads sink =
     (let expected_size = get_content_length rh in
      case drain_residual_buffer (sink_write dk) (rh_residual rh) sink of
        (Inl e, sink) \<Rightarrow> finish_download dk (Inl e) sink
      | (Inr drained, sink) \<Rightarrow>
          if expected_size = 0 \<or> drained < expected_size
          then (Transferring (detach sink) expected_size drained 0 reads, sk_fs sink)
          else finish_download dk (check_length expected_size drained) sink)"

definition resume_connecting :: "disk \<Rightarrow> exchange \<Rightarrow> file_sink \<Rightarrow> asset_task \<times> filesystem" where
  "resume_connecting dk ex sink =
     (case connect ex of
        Inl e \<Rightarrow> finish_download dk (Inl e) sink
      | Inr u \<Rightarrow>
          (case ex_write_ec ex of
             Some e \<Rightarrow> finish_download dk (net_error (''Write request failed: '' @ e)) sink
           | None \<Rightarrow>
               (case ex_head ex of
                  Inl e \<Rightarrow> finish_download dk (net_error (''Read header failed: '' @ e)) sink
                | Inr rh \<Rightarrow>
                    if rh_status rh \<noteq> 200 then finish_download dk (handle_error_response rh) sink
                    else begin_transfer dk rh (ex_reads ex) sink)))"

text \<open>One round of the loop of \<open>transfer_stream_data\<close>, and what \<open>stream_to_sink\<close> does after it.\<close>

definition resume_transfer :: "disk \<Rightarrow> nat \<Rightarrow> nat \<Rightarrow> nat \<Rightarrow> read_event list \<Rightarrow> file_sink \<Rightarrow> asset_task \<times> filesystem" where
  "resume_transfer dk expected_size drained total_written reads sink =
     (let remaining_size = (if 0 < expected_size then expected_size - drained else 0);
          stop = finish_download dk (check_length expected_size (drained + total_written)) sink
      in if remaining_size = 0 \<or> total_written < remaining_size
         then (case reads of
                 [] \<Rightarrow> (Transferring (detach sink) expected_size drained total_written [], sk_fs sink)
               | ReadEof # rs \<Rightarrow> stop
               | ReadFails e # rs \<Rightarrow> finish_download dk (net_error (''Read error: '' @ e)) sink
               | ReadBytes buffer # rs \<Rightarrow>
                   if buffer = [] then stop
                   else (case sink_write dk buffer sink of
                           (Some e, written, sink) \<Rightarrow> finish_download dk (net_error (''Write error: '' @ e)) sink
                         | (None, written, sink) \<Rightarrow>
                             (Transferring (detach sink) expected_size drained (total_written + written) rs, sk_fs sink)))
         else stop)"

definition begin_asset :: "'g download_env \<Rightarrow> s3_config \<Rightarrow> string \<Rightarrow> filesystem \<Rightarrow> asset_task \<times> filesystem" where
  "begin_asset de cfg path fs =
     (if fs path \<noteq> None then (Answered (Inr ()), fs)
      else case s3_session_create cfg of
             Inl e \<Rightarrow> (Answered (Inl e), fs)
           | Inr cfg \<Rightarrow>
               (case sink_prepare (de_disk de) path (new_sink fs) of
                  (Inl e, sink) \<Rightarrow>
                    (Answered (Inl (error_info_From FileSystemError (''Sink Prep Failed: '' @ e))), destroy_sink (de_disk de) sink)
                | (Inr u, sink) \<Rightarrow> (Connecting (detach sink), sk_fs sink)))"

fun asset_step :: "'g download_env \<Rightarrow> s3_config \<Rightarrow> string \<times> string \<Rightarrow> asset_task \<times> filesystem \<Rightarrow> asset_task \<times> filesystem" where
  "asset_step de cfg (name, path) (Asked, fs) = begin_asset de cfg path fs"
| "asset_step de cfg (name, path) (Connecting sink, fs) = resume_connecting (de_disk de) (exchange_of de cfg name) (sink\<lparr>sk_fs := fs\<rparr>)"
| "asset_step de cfg (name, path) (Transferring sink n d t reads, fs) = resume_transfer (de_disk de) n d t reads (sink\<lparr>sk_fs := fs\<rparr>)"
| "asset_step de cfg (name, path) (Answered r, fs) = (Answered r, fs)"

fun answer_of :: "asset_task \<Rightarrow> (error_info, unit) expected option" where
  "answer_of (Answered r) = Some r"
| "answer_of t = None"

section \<open>Alone it is the download\<close>

lemma attach_detach [simp]: "(detach sink)\<lparr>sk_fs := sk_fs sink\<rparr> = sink"
  by (simp add: detach_def)

lemma answered_steps [simp]: "(asset_step de cfg (name, path) ^^ n) (Answered r, fs) = (Answered r, fs)"
  by (induction n) simp_all

text \<open>What becomes of the result of \<open>execute\<close>.\<close>

definition outcome :: "disk \<Rightarrow> (error_info, unit) expected option \<times> file_sink \<Rightarrow> (error_info, unit) expected option \<times> filesystem" where
  "outcome dk rs = (case rs of
     (None, sink) \<Rightarrow> (None, sk_fs sink)
   | (Some r, sink) \<Rightarrow> (Some r, destroy_sink dk (if has_value r then sink_commit sink else sink)))"

definition reached :: "(error_info, unit) expected option \<times> filesystem \<Rightarrow> asset_task \<times> filesystem \<Rightarrow> bool" where
  "reached rf tf \<longleftrightarrow> answer_of (fst tf) = fst rf \<and> snd tf = snd rf"

lemma reached_finish:
  "reached (outcome dk (Some r, sink)) ((asset_step de cfg (name, path) ^^ n) (finish_download dk r sink))"
  by (simp add: reached_def outcome_def finish_download_def)

text \<open>The result of \<open>stream_to_sink\<close> after the transfer.\<close>

definition transferred :: "nat \<Rightarrow> nat \<Rightarrow> (error_info, nat) expected option \<times> file_sink \<Rightarrow> (error_info, unit) expected option \<times> file_sink" where
  "transferred N d rs = (case rs of
     (None, sink) \<Rightarrow> (None, sink)
   | (Some (Inl e), sink) \<Rightarrow> (Some (Inl e), sink)
   | (Some (Inr k), sink) \<Rightarrow> (Some (check_length N (d + k)), sink))"

lemma transferred_simps [simp]:
  "transferred N d (None, sink) = (None, sink)" "transferred N d (Some (Inl e), sink) = (Some (Inl e), sink)"
  "transferred N d (Some (Inr k), sink) = (Some (check_length N (d + k)), sink)"
  by (simp_all add: transferred_def)

lemma transfer_alone:
  assumes "length reads < n" and "R = (if 0 < N then N - d else 0)"
  shows "reached (outcome (de_disk de) (transferred N d (transfer_loop (sink_write (de_disk de)) R t reads sink)))
    ((asset_step de cfg (name, path) ^^ n) (Transferring (detach sink) N d t reads, sk_fs sink))"
  using assms(1)
proof (induction reads arbitrary: n t sink)
  case Nil
  then obtain m where n: "n = Suc m" by (cases n) auto
  show ?case
  proof (cases "R = 0 \<or> t < R")
    case True
    have "(asset_step de cfg (name, path) ^^ k) (Transferring (detach sink) N d t [], sk_fs sink) = (Transferring (detach sink) N d t [], sk_fs sink)" for k
      by (induction k) (use True in \<open>simp_all add: resume_transfer_def assms(2) [symmetric]\<close>)
    then show ?thesis using True by (simp add: transfer_loop.simps reached_def outcome_def)
  next
    case False
    then show ?thesis
      unfolding n funpow_Suc_right using reached_finish [of "de_disk de"]
      by (simp add: transfer_loop.simps resume_transfer_def assms(2) [symmetric])
  qed
next
  case (Cons e reads)
  then obtain m where n: "n = Suc m" and m: "length reads < m" by (cases n) auto
  have step: "(asset_step de cfg (name, path) ^^ n) tf = (asset_step de cfg (name, path) ^^ m) (asset_step de cfg (name, path) tf)" for tf
    unfolding n funpow_Suc_right by simp
  note loop = transfer_loop.simps [of "sink_write (de_disk de)" R t "e # reads" sink]
  show ?case
  proof (cases "(R = 0 \<or> t < R) \<and> (\<exists>b. e = ReadBytes b \<and> b \<noteq> [])")
    case True
    then obtain b where b: "e = ReadBytes b" "b \<noteq> []" by blast
    obtain ec k sink1 where w: "sink_write (de_disk de) b sink = (ec, k, sink1)" by (metis prod_cases3)
    show ?thesis
      unfolding step loop using True b w Cons.IH [OF m, of "t + k" sink1] reached_finish [of "de_disk de"]
      by (cases ec) (simp_all add: resume_transfer_def net_error_def assms(2) [symmetric])
  next
    case False
    then show ?thesis
      unfolding step loop using reached_finish [of "de_disk de"]
      by (cases e) (auto simp: resume_transfer_def net_error_def assms(2) [symmetric])
  qed
qed

lemma connecting_alone:
  assumes "length (ex_reads (exchange_of de cfg name)) + 1 < n"
  shows "reached (outcome (de_disk de) (execute (sink_write (de_disk de)) (exchange_of de cfg name) sink))
    ((asset_step de cfg (name, path) ^^ n) (Connecting (detach sink), sk_fs sink))"
proof -
  let ?ex = "exchange_of de cfg name" and ?w = "sink_write (de_disk de)"
  obtain m where n: "n = Suc m" and m: "length (ex_reads ?ex) < m" using assms by (cases n) auto
  have step: "(asset_step de cfg (name, path) ^^ n) tf = (asset_step de cfg (name, path) ^^ m) (asset_step de cfg (name, path) tf)" for tf
    unfolding n funpow_Suc_right by simp
  note fin = reached_finish [of "de_disk de"]
  have transfer: "reached (outcome (de_disk de) (stream_to_sink ?w (rh_residual rh) (get_content_length rh) (ex_reads ?ex) sink))
      ((asset_step de cfg (name, path) ^^ m) (begin_transfer (de_disk de) rh (ex_reads ?ex) sink))" for rh
  proof -
    obtain r sink1 where d: "drain_residual_buffer ?w (rh_residual rh) sink = (r, sink1)" by fastforce
    have t: "stream_to_sink ?w (rh_residual rh) (get_content_length rh) (ex_reads ?ex) sink
        = transferred (get_content_length rh) k (transfer_loop ?w (if 0 < get_content_length rh then get_content_length rh - k else 0) 0 (ex_reads ?ex) sink1)"
      if "r = Inr k" "get_content_length rh = 0 \<or> k < get_content_length rh" for k
      using d that by (simp add: stream_to_sink_def transfer_stream_data_def transferred_def)
    show ?thesis
    proof (cases "\<exists>k. r = Inr k \<and> (get_content_length rh = 0 \<or> k < get_content_length rh)")
      case True
      then obtain k where k: "r = Inr k" "get_content_length rh = 0 \<or> k < get_content_length rh" by blast
      then show ?thesis using d by (simp add: t [OF k] begin_transfer_def transfer_alone [OF m])
    next
      case False
      then show ?thesis using d fin by (cases r) (auto simp: stream_to_sink_def begin_transfer_def)
    qed
  qed
  show ?thesis
    unfolding step using transfer fin
    by (auto simp: resume_connecting_def execute_def handle_error_response_def net_error_def split: sum.split option.split)
qed

lemma asset_alone:
  assumes "length (ex_reads (exchange_of de cfg name)) + 3 \<le> n"
  shows "reached (ensure_file_exists de cfg name path fs) ((asset_step de cfg (name, path) ^^ n) (Asked, fs))"
proof -
  obtain m where n: "n = Suc m" and m: "length (ex_reads (exchange_of de cfg name)) + 1 < m" using assms by (cases n) auto
  have step: "(asset_step de cfg (name, path) ^^ n) (Asked, fs) = (asset_step de cfg (name, path) ^^ m) (begin_asset de cfg path fs)"
    unfolding n funpow_Suc_right by simp
  have d: "outcome (de_disk de) (request_file de cfg name (sink_write (de_disk de)) sink)
      = (case request_file de cfg name (sink_write (de_disk de)) sink of
            (None, sink) \<Rightarrow> (None, sk_fs sink)
          | (Some (Inl e), sink) \<Rightarrow> (Some (Inl e), destroy_sink (de_disk de) sink)
          | (Some (Inr u), sink) \<Rightarrow> (Some (Inr ()), destroy_sink (de_disk de) (sink_commit sink)))" for sink
    by (auto simp: outcome_def split: prod.split option.split sum.split)
  have r: "request_file de cfg name w sink = execute w (exchange_of de cfg name) sink" for w :: "file_sink writer" and sink
    by (simp add: request_file_def exchange_of_def)
  show ?thesis
  proof (cases "fs path = None \<and> s3_session_create cfg = Inr cfg \<and> (\<exists>sink. sink_prepare (de_disk de) path (new_sink fs) = (Inr (), sink))")
    case True
    then obtain sink where s: "sink_prepare (de_disk de) path (new_sink fs) = (Inr (), sink)" by blast
    then have "begin_asset de cfg path fs = (Connecting (detach sink), sk_fs sink)" using True by (simp add: begin_asset_def)
    moreover have "ensure_file_exists de cfg name path fs = outcome (de_disk de) (execute (sink_write (de_disk de)) (exchange_of de cfg name) sink)"
      using True s by (simp add: ensure_file_exists_def download_from_s3_def r d [unfolded r])
    ultimately show ?thesis unfolding step using connecting_alone [OF m] by simp
  next
    case False
    have "s3_session_create cfg = Inr cfg \<or> (\<exists>e. s3_session_create cfg = Inl e)" by (simp add: s3_session_create_def)
    then show ?thesis
      unfolding step using False
      by (auto simp: begin_asset_def ensure_file_exists_def download_from_s3_def reached_def split: prod.split sum.split)
  qed
qed

section \<open>Downloads of different paths\<close>

text \<open>What belongs to the task of a path.\<close>

definition task_sink :: "string \<Rightarrow> file_sink \<Rightarrow> bool" where
  "task_sink p sink \<longleftrightarrow> sk_path sink = Some p \<and> (\<forall>g. sk_guard sink = Some g \<longrightarrow> pg_path g = p)"

fun asset_task_ok :: "string \<Rightarrow> asset_task \<Rightarrow> bool" where
  "asset_task_ok p (Connecting sink) = task_sink p sink"
| "asset_task_ok p (Transferring sink n d t reads) = task_sink p sink"
| "asset_task_ok p t = True"

text \<open>Two file systems that agree at the path of a task: it makes the same step in both, and changes them only there.\<close>

definition agree :: "string \<Rightarrow> filesystem \<Rightarrow> filesystem \<Rightarrow> asset_task \<times> filesystem \<Rightarrow> asset_task \<times> filesystem \<Rightarrow> bool" where
  "agree p f g tf tg \<longleftrightarrow> fst tg = fst tf \<and> asset_task_ok p (fst tf) \<and> snd tg p = snd tf p
     \<and> (\<forall>q. q \<noteq> p \<longrightarrow> snd tf q = f q \<and> snd tg q = g q)"

text \<open>Two sinks that differ only in files of other paths.\<close>

definition alike :: "string \<Rightarrow> filesystem \<Rightarrow> filesystem \<Rightarrow> file_sink \<Rightarrow> file_sink \<Rightarrow> bool" where
  "alike p f g s t \<longleftrightarrow> task_sink p s \<and> t = s\<lparr>sk_fs := sk_fs t\<rparr> \<and> sk_fs t p = sk_fs s p
     \<and> (\<forall>q. q \<noteq> p \<longrightarrow> sk_fs s q = f q \<and> sk_fs t q = g q)"

lemma alike_finish:
  assumes "alike p f g s t"
  shows "agree p f g (finish_download dk r s) (finish_download dk r t)"
proof -
  obtain h where t: "t = s\<lparr>sk_fs := h\<rparr>" using assms by (auto simp: alike_def)
  show ?thesis
    using assms unfolding t
    by (cases "sk_guard s") (auto simp: agree_def alike_def finish_download_def destroy_sink_def sink_commit_def disarm_def
        destroy_guard_def task_sink_def)
qed

lemma alike_write:
  assumes "alike p f g s t" and "sink_write dk b s = (ec, n, s')"
  shows "\<exists>t'. sink_write dk b t = (ec, n, t') \<and> alike p f g s' t'"
proof -
  obtain h where t: "t = s\<lparr>sk_fs := h\<rparr>" using assms(1) by (auto simp: alike_def)
  show ?thesis
    using assms unfolding t
    by (auto simp: sink_write_def sink_contents_def alike_def task_sink_def Let_def split: prod.splits)
qed

lemma alike_transferring:
  assumes "alike p f g s t"
  shows "agree p f g (Transferring (detach s) n d k reads, sk_fs s) (Transferring (detach t) n d k reads, sk_fs t)"
proof -
  obtain h where t: "t = s\<lparr>sk_fs := h\<rparr>" using assms by (auto simp: alike_def)
  show ?thesis using assms unfolding t by (simp add: agree_def alike_def detach_def task_sink_def)
qed

lemma alike_transfer:
  assumes "alike p f g s t"
  shows "agree p f g (resume_transfer dk n d k reads s) (resume_transfer dk n d k reads t)"
proof (cases "\<exists>b rs. reads = ReadBytes b # rs \<and> b \<noteq> []")
  case True
  then obtain b rs where b: "reads = ReadBytes b # rs" "b \<noteq> []" by blast
  obtain ec m s' where w: "sink_write dk b s = (ec, m, s')" by (metis prod_cases3)
  obtain t' where w': "sink_write dk b t = (ec, m, t')" "alike p f g s' t'" using alike_write [OF assms w] by blast
  show ?thesis
    using alike_finish [OF assms] alike_finish [OF w'(2)] alike_transferring [OF w'(2)] b w w'(1)
    by (cases ec) (simp_all add: resume_transfer_def Let_def)
next
  case False
  then show ?thesis
    using alike_finish [OF assms] alike_transferring [OF assms]
    by (auto simp: resume_transfer_def Let_def split: list.split read_event.split)
qed

lemma alike_connecting:
  assumes "alike p f g s t"
  shows "agree p f g (resume_connecting dk ex s) (resume_connecting dk ex t)"
proof -
  have "agree p f g (begin_transfer dk rh reads s) (begin_transfer dk rh reads t)" for rh reads
  proof (cases "rh_residual rh = []")
    case True
    then show ?thesis using alike_finish [OF assms] alike_transferring [OF assms]
      by (auto simp: begin_transfer_def drain_residual_buffer_def Let_def)
  next
    case False
    obtain ec m s' where w: "sink_write dk (rh_residual rh) s = (ec, m, s')" by (metis prod_cases3)
    obtain t' where w': "sink_write dk (rh_residual rh) t = (ec, m, t')" "alike p f g s' t'" using alike_write [OF assms w] by blast
    show ?thesis
      using alike_finish [OF w'(2)] alike_transferring [OF w'(2)] False w w'(1)
      by (cases ec) (simp_all add: begin_transfer_def drain_residual_buffer_def net_error_def Let_def)
  qed
  then show ?thesis using alike_finish [OF assms] by (simp add: resume_connecting_def split: sum.split option.split)
qed

lemma begin_agree:
  assumes "f p = g p"
  shows "agree p f g (begin_asset de cfg p f) (begin_asset de cfg p g)"
  using assms
  by (auto simp: agree_def begin_asset_def s3_session_create_def sink_prepare_def new_sink_def destroy_sink_def detach_def task_sink_def new_guard_def
      split: option.split)

text \<open>A step depends only on the file at its path and changes no other.\<close>

lemma asset_step_local:
  assumes "asset_task_ok p task" and "f p = g p"
  shows "agree p f g (asset_step de cfg (name, p) (task, f)) (asset_step de cfg (name, p) (task, g))"
proof (cases task)
  case Asked
  then show ?thesis using begin_agree [of f p g de cfg] assms(2) by simp
next
  case (Connecting sink)
  then have "alike p f g (sink\<lparr>sk_fs := f\<rparr>) (sink\<lparr>sk_fs := g\<rparr>)" using assms by (simp add: alike_def task_sink_def)
  then show ?thesis using Connecting alike_connecting by simp
next
  case (Transferring sink n d t reads)
  then have "alike p f g (sink\<lparr>sk_fs := f\<rparr>) (sink\<lparr>sk_fs := g\<rparr>)" using assms by (simp add: alike_def task_sink_def)
  then show ?thesis using Transferring alike_transfer by simp
next
  case (Answered r)
  then show ?thesis using assms by (simp add: agree_def)
qed

section \<open>All files of a graph\<close>

text \<open>The tasks with the files they share, and the answers in the order in which the channel gets them.\<close>

record fetching =
  ft_tasks :: "asset_task list"
  ft_fs :: filesystem
  ft_received :: "(error_info, unit) expected option list"

definition start_fetching :: "(string \<times> string) list \<Rightarrow> filesystem \<Rightarrow> fetching" where
  "start_fetching items fs = \<lparr>ft_tasks = map (\<lambda>_. Asked) items, ft_fs = fs, ft_received = []\<rparr>"

text \<open>Task \<open>i\<close> is resumed; when it answers it sends its result to the channel.\<close>

definition fetch_step :: "'g download_env \<Rightarrow> s3_config \<Rightarrow> (string \<times> string) list \<Rightarrow> nat \<Rightarrow> fetching \<Rightarrow> fetching" where
  "fetch_step de cfg items i ft =
     (if i < length items
      then (let before = ft_tasks ft ! i; (t, fs) = asset_step de cfg (items ! i) (before, ft_fs ft)
            in \<lparr>ft_tasks = (ft_tasks ft)[i := t], ft_fs = fs,
                ft_received = ft_received ft @ (if answer_of before = None \<and> answer_of t \<noteq> None then [answer_of t] else [])\<rparr>)
      else ft)"

definition fetch_run :: "'g download_env \<Rightarrow> s3_config \<Rightarrow> (string \<times> string) list \<Rightarrow> nat list \<Rightarrow> fetching \<Rightarrow> fetching" where
  "fetch_run de cfg items schedule ft = fold (fetch_step de cfg items) schedule ft"

text \<open>\<open>ensure_assets_exist\<close>: nothing while a task has not answered.\<close>

definition ensure_assets_exist ::
  "'g download_env \<Rightarrow> s3_config \<Rightarrow> (string \<times> string) list \<Rightarrow> nat list \<Rightarrow> filesystem
     \<Rightarrow> (error_info, unit) expected option list option \<times> filesystem" where
  "ensure_assets_exist de cfg items schedule fs =
     (let ft = fetch_run de cfg items schedule (start_fetching items fs)
      in (if length (ft_received ft) = length items then Some (ft_received ft) else None, ft_fs ft))"

text \<open>What task \<open>i\<close> would have done alone, with as many resumptions.\<close>

definition as_alone :: "'g download_env \<Rightarrow> s3_config \<Rightarrow> (string \<times> string) list \<Rightarrow> nat list \<Rightarrow> filesystem \<Rightarrow> nat \<Rightarrow> asset_task \<times> filesystem" where
  "as_alone de cfg items schedule fs i = (asset_step de cfg (items ! i) ^^ count_list schedule i) (Asked, fs)"

definition fetching_inv :: "'g download_env \<Rightarrow> s3_config \<Rightarrow> (string \<times> string) list \<Rightarrow> nat list \<Rightarrow> filesystem \<Rightarrow> fetching \<Rightarrow> bool" where
  "fetching_inv de cfg items schedule fs ft \<longleftrightarrow> length (ft_tasks ft) = length items
     \<and> (\<forall>i < length items. ft_tasks ft ! i = fst (as_alone de cfg items schedule fs i)
          \<and> ft_fs ft (snd (items ! i)) = snd (as_alone de cfg items schedule fs i) (snd (items ! i))
          \<and> asset_task_ok (snd (items ! i)) (ft_tasks ft ! i))
     \<and> (\<forall>q. q \<notin> snd ` set items \<longrightarrow> ft_fs ft q = fs q)
     \<and> mset (ft_received ft) = mset (filter (\<lambda>r. r \<noteq> None) (map answer_of (ft_tasks ft)))"

lemma count_list_snoc: "count_list (xs @ [y]) x = count_list xs x + (if x = y then 1 else 0)"
  by simp

lemma mset_answers_update:
  assumes "i < length ts"
  shows "mset (filter (\<lambda>r. r \<noteq> None) (map answer_of (ts[i := t]))) + (if answer_of (ts ! i) = None then {#} else {#answer_of (ts ! i)#})
    = mset (filter (\<lambda>r. r \<noteq> None) (map answer_of ts)) + (if answer_of t = None then {#} else {#answer_of t#})"
proof -
  have "ts = take i ts @ ts ! i # drop (Suc i) ts" using assms by (rule id_take_nth_drop)
  then have "mset (filter (\<lambda>r. r \<noteq> None) (map answer_of ts))
      = mset (filter (\<lambda>r. r \<noteq> None) (map answer_of (take i ts @ ts ! i # drop (Suc i) ts)))" by metis
  then show ?thesis using assms by (simp add: upd_conv_take_nth_drop)
qed

lemma answered_stays: "answer_of t \<noteq> None \<Longrightarrow> fst (asset_step de cfg item (t, fs)) = t"
  by (cases t; cases item) simp_all

lemma fetching_inv_step:
  assumes "fetching_inv de cfg items schedule fs ft" and "distinct (map snd items)"
  shows "fetching_inv de cfg items (schedule @ [i]) fs (fetch_step de cfg items i ft)"
proof (cases "i < length items")
  case False
  then have "as_alone de cfg items (schedule @ [i]) fs j = as_alone de cfg items schedule fs j" if "j < length items" for j
    using that by (auto simp: as_alone_def)
  moreover have "fetch_step de cfg items i ft = ft" using False by (simp add: fetch_step_def)
  ultimately show ?thesis using assms(1) unfolding fetching_inv_def by metis
next
  case True
  let ?p = "snd (items ! i)" and ?b = "ft_tasks ft ! i" and ?a = "as_alone de cfg items schedule fs"
  note inv = assms(1) [unfolded fetching_inv_def]
  obtain t h where s: "asset_step de cfg (items ! i) (?b, ft_fs ft) = (t, h)" by fastforce
  have same: "?b = fst (?a i)" "ft_fs ft ?p = snd (?a i) ?p" "asset_task_ok ?p ?b" using inv True by blast+
  obtain t' h' where s': "asset_step de cfg (items ! i) (?a i) = (t', h')" by fastforce
  have "agree ?p (ft_fs ft) (snd (?a i)) (t, h) (t', h')"
    using asset_step_local [where f = "ft_fs ft" and g = "snd (?a i)" and de = de and cfg = cfg and name = "fst (items ! i)", OF same(3,2)] s s' same(1) by simp
  then have ag: "t' = t" "asset_task_ok ?p t" "h' ?p = h ?p" "\<And>q. q \<noteq> ?p \<Longrightarrow> h q = ft_fs ft q" by (auto simp: agree_def)
  have alone: "as_alone de cfg items (schedule @ [i]) fs j = (if j = i then (t', h') else ?a j)" for j
    using s' by (simp add: as_alone_def)
  have ft: "fetch_step de cfg items i ft = \<lparr>ft_tasks = (ft_tasks ft)[i := t], ft_fs = h,
      ft_received = ft_received ft @ (if answer_of ?b = None \<and> answer_of t \<noteq> None then [answer_of t] else [])\<rparr>"
    using True s by (simp add: fetch_step_def Let_def)
  have len: "i < length (ft_tasks ft)" using inv True by simp
  have other: "snd (items ! j) \<noteq> ?p" if "j < length items" "j \<noteq> i" for j
    using assms(2) that True by (auto simp: distinct_conv_nth)
  have "answer_of t = answer_of ?b" if "answer_of ?b \<noteq> None"
    using answered_stays [OF that, of de cfg "items ! i" "ft_fs ft"] s by simp
  then have "mset (ft_received ft @ (if answer_of ?b = None \<and> answer_of t \<noteq> None then [answer_of t] else []))
      = mset (filter (\<lambda>r. r \<noteq> None) (map answer_of ((ft_tasks ft)[i := t])))"
    using inv mset_answers_update [OF len, of t] by (auto split: if_splits)
  moreover have "h q = fs q" if "q \<notin> snd ` set items" for q
    using inv that ag(4) True by (metis image_eqI nth_mem)
  ultimately show ?thesis
    unfolding fetching_inv_def ft alone
    using inv ag other len by (auto simp: nth_list_update)
qed

lemma fetching_inv_run:
  assumes "distinct (map snd items)"
  shows "fetching_inv de cfg items schedule fs (fetch_run de cfg items schedule (start_fetching items fs))"
proof (induction schedule rule: rev_induct)
  case Nil
  have "filter (\<lambda>r. r \<noteq> None) (map answer_of (map (\<lambda>_. Asked) items)) = []" by (induction items) simp_all
  then show ?case by (simp add: fetching_inv_def fetch_run_def start_fetching_def as_alone_def)
next
  case (snoc i schedule)
  then show ?case using fetching_inv_step [OF snoc assms] by (simp add: fetch_run_def)
qed

section \<open>Properties\<close>

text \<open>C21: Downloads of different paths do not disturb one another: in whatever order they are resumed, once each
  was resumed often enough every one has the answer that it would have alone and has left, at its
  path, the file that it would have left, and no other file has changed.\<close>

theorem downloads_in_parallel:
  assumes "distinct (map snd items)"
    and "\<And>i. i < length items \<Longrightarrow> length (ex_reads (exchange_of de cfg (fst (items ! i)))) + 3 \<le> count_list schedule i"
  shows "let ft = fetch_run de cfg items schedule (start_fetching items fs) in
    (\<forall>i < length items. answer_of (ft_tasks ft ! i) = fst (ensure_file_exists de cfg (fst (items ! i)) (snd (items ! i)) fs)
      \<and> ft_fs ft (snd (items ! i)) = snd (ensure_file_exists de cfg (fst (items ! i)) (snd (items ! i)) fs) (snd (items ! i)))
    \<and> (\<forall>q. q \<notin> snd ` set items \<longrightarrow> ft_fs ft q = fs q)"
proof -
  note inv = fetching_inv_run [OF assms(1), of de cfg schedule fs]
  have "reached (ensure_file_exists de cfg (fst (items ! i)) (snd (items ! i)) fs) (as_alone de cfg items schedule fs i)" if "i < length items" for i
    using asset_alone [OF assms(2) [OF that], of "snd (items ! i)" fs] by (simp add: as_alone_def)
  then show ?thesis using inv by (auto simp: fetching_inv_def reached_def Let_def)
qed

text \<open>What an answer means for the file.\<close>

lemma answered_alone:
  assumes "answer_of (fst ((asset_step de cfg (name, path) ^^ n) (Asked, fs))) = Some r"
  shows "ensure_file_exists de cfg name path fs = (Some r, snd ((asset_step de cfg (name, path) ^^ n) (Asked, fs)))"
proof -
  obtain t fs' where t: "(asset_step de cfg (name, path) ^^ n) (Asked, fs) = (t, fs')" by fastforce
  then have a: "t = Answered r" using assms by (cases t) simp_all
  have "(asset_step de cfg (name, path) ^^ (m + n)) (Asked, fs) = (Answered r, fs')" for m
    using t a by (simp add: funpow_add)
  then have "reached (ensure_file_exists de cfg name path fs) (Answered r, fs')"
    using asset_alone [of de cfg name "length (ex_reads (exchange_of de cfg name)) + 3 + n" path fs] by simp
  then show ?thesis using t by (cases "ensure_file_exists de cfg name path fs") (simp add: reached_def)
qed

text \<open>The names and the paths of the file nodes.\<close>

definition assets :: "executor \<Rightarrow> (string \<times> string) list" where
  "assets x = map (\<lambda>p. case n_body (x_heap x ! p) of FileInput f \<Rightarrow> (fi_file_name f, fi_file_path f) | _ \<Rightarrow> ('''', '''')) (g_file_nodes (x_graph x))"

text \<open>C14: A preparation that succeeds has all its files, in a graph whose file inputs have distinct paths, none of them empty,
  on a disk where a partial download can be removed: each file of the graph was there before and is unchanged,
  or has been downloaded whole, for every order in which the downloads take their steps. Nothing is claimed of a graph that uses one file in two nodes.\<close>

theorem prepared_files_complete:
  assumes "ensure_assets_exist de cfg (assets x) schedule fs = (Some received, fs')"
    and "prepare env received x = Some (Inr (), x')"
    and "distinct (map snd (assets x))" and "'''' \<notin> snd ` set (assets x)" and "dk_remove_ec (de_disk de) = None" and "(name, path) \<in> set (assets x)"
  shows "case fs path of
      Some bytes \<Rightarrow> fs' path = Some bytes
    | None \<Rightarrow> \<exists>body. accepted_body (exchange_of de cfg name) = Some body \<and> fs' path = Some body"
proof -
  let ?items = "assets x"
  let ?ft = "fetch_run de cfg ?items schedule (start_fetching ?items fs)"
  have ft: "length (ft_received ?ft) = length ?items" "received = ft_received ?ft" "fs' = ft_fs ?ft"
    using assms(1) by (auto simp: ensure_assets_exist_def Let_def split: if_splits)
  note inv = fetching_inv_run [OF assms(3), of de cfg schedule fs, unfolded fetching_inv_def]
  have len: "length ?items = length (g_file_nodes (x_graph x))" by (simp add: assets_def)
  have "has_value (await_all_dynamic (g_file_nodes (x_graph x)) received)"
    using assms(2) by (auto simp: prepare_def split: if_splits sum.splits)
  moreover have "take (length (g_file_nodes (x_graph x))) received = received" using ft(1,2) len by simp
  ultimately have ok: "\<forall>r\<in>set received. r = Some (Inr ())" by (simp add: await_all_has_value)
  obtain i where i: "i < length ?items" "?items ! i = (name, path)" using assms(6) by (auto simp: in_set_conv_nth)
  let ?as = "map answer_of (ft_tasks ?ft)"
  have m: "mset received = mset (filter (\<lambda>r. r \<noteq> None) ?as)" using inv ft(2) by blast
  have n: "length (ft_tasks ?ft) = length ?items" using inv by blast
  have here: "?as ! i \<in> set ?as" using n i(1) by (intro nth_mem) simp
  have "?as ! i \<noteq> None"
  proof
    assume "?as ! i = None"
    then have "length (filter (\<lambda>r. r \<noteq> None) ?as) < length ?as" using length_filter_less [OF here, of "\<lambda>r. r \<noteq> None"] by simp
    moreover have "length received = length (filter (\<lambda>r. r \<noteq> None) ?as)" by (rule mset_eq_length [OF m])
    ultimately show False using ft(1,2) n by simp
  qed
  then have "?as ! i \<in> set received" using here arg_cong [OF m, of set_mset] by simp
  then have "answer_of (ft_tasks ?ft ! i) = Some (Inr ())" using ok n i(1) by simp
  then have "answer_of (fst ((asset_step de cfg (name, path) ^^ count_list schedule i) (Asked, fs))) = Some (Inr ())"
    using inv i by (simp add: as_alone_def)
  from answered_alone [OF this] have e: "ensure_file_exists de cfg name path fs = (Some (Inr ()), snd (as_alone de cfg ?items schedule fs i))"
    using i(2) by (simp add: as_alone_def)
  have f: "fs' path = snd (as_alone de cfg ?items schedule fs i) path" using inv i ft(3) by force
  show ?thesis
  proof (cases "fs path")
    case (Some b)
    then show ?thesis using e f by (simp add: ensure_file_exists_def)
  next
    case None
    have "path \<noteq> ''''" using assms(4,6) by force
    then show ?thesis
      using download_cases [of de cfg name path fs "Some (Inr ())"] e None assms(5) f by (auto simp: ensure_file_exists_def)
  qed
qed

section \<open>Witnesses\<close>

text \<open>Two files, fetched in turns.\<close>

definition two_items :: "(string \<times> string) list" where
  "two_items = [(''a.wav'', ''d/a.wav''), (''b.wav'', ''d/b.wav'')]"

definition in_turns :: "nat list" where
  "in_turns = [0, 1, 0, 1, 0, 1, 0, 1, 1, 0]"

lemma two_distinct: "distinct (map snd two_items)"
  by (simp add: two_items_def)

lemma turns_enough:
  "i < length two_items \<Longrightarrow> length (ex_reads (exchange_of (demo_download (Some 3) [ReadBytes [2], ReadBytes [3]]) demo_s3 (fst (two_items ! i)))) + 3
     \<le> count_list in_turns i"
  by (auto simp: two_items_def in_turns_def exchange_of_def demo_download_def less_Suc_eq nth_Cons split: nat.split)

lemma downloads_in_parallel_witness:
  "ft_fs (fetch_run (demo_download (Some 3) [ReadBytes [2], ReadBytes [3]]) demo_s3 two_items in_turns (start_fetching two_items (\<lambda>_. None))) ''d/b.wav'' = Some [1, 2, 3]"
proof -
  let ?de = "demo_download (Some 3) [ReadBytes [2], ReadBytes [3]]"
  have "ft_fs (fetch_run ?de demo_s3 two_items in_turns (start_fetching two_items (\<lambda>_. None))) (snd (two_items ! 1))
      = snd (ensure_file_exists ?de demo_s3 (fst (two_items ! 1)) (snd (two_items ! 1)) (\<lambda>_. None)) (snd (two_items ! 1))"
    using downloads_in_parallel [of two_items ?de demo_s3 in_turns "\<lambda>_. None", OF two_distinct turns_enough, unfolded Let_def]
    by (simp only: two_items_def length_Cons)
  then show ?thesis by (simp add: two_items_def download_eval)
qed

lemma demo_prepared: "\<exists>x'. prepare (\<lambda>_. plain_file 1000) [Some (Inr ())] demo_executor = Some (Inr (), x')"
proof -
  have inv: "executor_inv ideal_float demo_executor" by (rule demo_executor_inv)
  have f: "g_file_nodes (x_graph demo_executor) = [1]" "g_start_node (x_graph demo_executor) = Some 0" "0 < length (x_heap demo_executor)" "x_current_node demo_executor = Some 0"
    by (simp_all add: demo_executor_def connect_input_defs wire_standard_def upd_def set_next_def new_mixer_def new_file_input_def new_node_def Let_def)
  have t: "wf_targets (x_heap demo_executor)" using inv by (simp add: executor_inv_def wf_heap_def)
  let ?h = "update_mixers (g_mixer_nodes (x_graph demo_executor)) (initialize_nodes (\<lambda>_. plain_file 1000) (x_heap demo_executor))"
  have s: "same_targets (x_heap demo_executor) ?h"
    using same_targets_trans [OF initialize_nodes_targets update_mixers_targets] .
  have l: "0 < length ?h" using s f(3) by (simp add: same_targets_def)
  obtain h' where "detect_and_flag_loops (Some 0) ?h = Some h'"
    using detect_and_flag_spec [OF same_targets_wf [OF s t] l] by blast
  then show ?thesis using f by (simp add: prepare_def await_all_dynamic_def)
qed

lemma prepared_files_complete_witness:
  "\<exists>received fs'. ensure_assets_exist (demo_download (Some 3) [ReadBytes [2], ReadBytes [3]]) demo_s3 (assets demo_executor) (replicate 5 0) (\<lambda>_. None)
       = (Some received, fs') \<and> fs' ''a.wav'' = Some [1, 2, 3]"
proof -
  let ?de = "demo_download (Some 3) [ReadBytes [2], ReadBytes [3]]"
  have a: "assets demo_executor = [(''a'', ''a.wav'')]"
    by (simp add: assets_def demo_executor_def connect_input_defs wire_standard_def upd_def set_next_def new_mixer_def new_file_input_def new_node_def Let_def)
  obtain fs' where e: "ensure_assets_exist ?de demo_s3 (assets demo_executor) (replicate 5 0) (\<lambda>_. None) = (Some [Some (Inr ())], fs')"
    unfolding a
    by (simp add: ensure_assets_exist_def fetch_run_def start_fetching_def eval_nat_numeral fetch_step_def begin_asset_def detach_def
        resume_connecting_def begin_transfer_def resume_transfer_def finish_download_def exchange_of_def download_eval)
  obtain x' where p: "prepare (\<lambda>_. plain_file 1000) [Some (Inr ())] demo_executor = Some (Inr (), x')"
    using demo_prepared by blast
  have "\<exists>body. accepted_body (exchange_of ?de demo_s3 ''a'') = Some body \<and> fs' ''a.wav'' = Some body"
    using prepared_files_complete [OF e p, of "''a''" "''a.wav''"] by (simp add: a demo_download_def)
  then show ?thesis using e by (auto simp: accepted_body_def exchange_of_def demo_download_def get_content_length_def)
qed

end
