(* ===== verification/Alaw_Reference.thy ===== *)
theory Alaw_Reference
  imports Alaw
begin

text \<open>
  The A-law encoder against the standard it implements. ITU-T G.711 gives the law as a table of
  128 decision values for the magnitude of a 13-bit sample: the code of a magnitude is the number of
  the last decision value that is not above it. A 16-bit sample is shifted to 13 bits, and the magnitude of a negative one is
  its complement. The tables, masks and shifts of \<open>infra/audio/Alaw.cpp\<close> compute that code, but for a negative sample they
  negate first, take 8 away and shift then.
\<close>

section \<open>The standard\<close>

definition steps :: "int \<Rightarrow> int \<Rightarrow> int list" where "steps first width = map (\<lambda>q. first + width * int q) [0..<16]"

definition decision_values :: "int list" where
  "decision_values = steps 0 2 @ steps 32 2 @ steps 64 4 @ steps 128 8 @ steps 256 16 @ steps 512 32 @ steps 1024 64 @ steps 2048 128"

definition g711_alaw :: "int \<Rightarrow> u8" where
  "g711_alaw k =
     (let m = (if 0 \<le> k then k else - k - 1);
          code = length (filter (\<lambda>d. d \<le> m) decision_values) - 1
      in of_nat (code + (if 0 \<le> k then 128 else 0)) XOR 0x55)"

text \<open>The 13 high bits of a 16-bit sample: an arithmetic shift.\<close>

definition linear13 :: "i16 \<Rightarrow> int" where "linear13 x = sint (signed_drop_bit 3 x)"

lemma linear13_eq: "linear13 x = sint x div 8"
  by (simp add: linear13_def sint_signed_drop_bit_eq drop_bit_eq_div)

section \<open>The table of decision values\<close>

lemma decision_values_all:
  "sorted decision_values \<and> length decision_values = 128
   \<and> list_all (\<lambda>s. list_all (\<lambda>q. decision_values ! (16 * s + q) = (if s = 0 then 2 * int q else (16 + int q) * 2 ^ s)) [0..<16]) [0..<8]"
  by code_simp

lemma decision_value:
  "s < 8 \<Longrightarrow> q < 16 \<Longrightarrow> decision_values ! (16 * s + q) = (if s = 0 then 2 * int q else (16 + int q) * 2 ^ s)"
  using decision_values_all by (simp add: list_all_iff)

lemma decisions_below:
  assumes "i < 128" and "decision_values ! i \<le> m" and "i < 127 \<longrightarrow> m < decision_values ! Suc i"
  shows "length (filter (\<lambda>d. d \<le> m) decision_values) = Suc i"
proof -
  note mono = sorted_nth_mono [OF decision_values_all [THEN conjunct1]]
  have len: "length decision_values = 128" using decision_values_all by blast
  have "j \<le> i" if "j < 128" "decision_values ! j \<le> m" for j
  proof (rule ccontr)
    assume "\<not> j \<le> i"
    with that have "i < 127" "decision_values ! Suc i \<le> decision_values ! j" using mono [of "Suc i" j] by (auto simp: len)
    with assms(3) that(2) show False by simp
  qed
  moreover have "decision_values ! j \<le> m" if "j \<le> i" for j
    using mono [of j i] that assms(1,2) by (simp add: len)
  ultimately have "{j. j < length decision_values \<and> decision_values ! j \<le> m} = {..i}"
    using assms(1) by (auto simp: len)
  then show ?thesis by (simp add: length_filter_conv_card)
qed

lemma assemble_code_all:
  "list_all (\<lambda>s. list_all (\<lambda>q.
      assemble s q XOR 0xD5 = of_nat (16 * s + q + 128) XOR 0x55 \<and> assemble s q XOR 0x55 = of_nat (16 * s + q) XOR 0x55) [0..<16]) [0..<8]"
  by code_simp

lemma assemble_code:
  "s < 8 \<Longrightarrow> q < 16 \<Longrightarrow> assemble s q XOR (if b then 0xD5 else 0x55) = of_nat (16 * s + q + (if b then 128 else 0)) XOR 0x55"
  using assemble_code_all by (simp add: list_all_iff)

text \<open>The segment search and the shift find the last decision value.\<close>

lemma next_decision:
  assumes "s < 8" "q < 16" "16 * s + q < 127"
  shows "decision_values ! Suc (16 * s + q) = (if s = 0 then 2 * int (Suc q) else (16 + int (Suc q)) * 2 ^ s)"
proof (cases "q < 15")
  case True
  then show ?thesis using decision_value [of s "Suc q"] assms by simp
next
  case False
  then have "q = 15" "s < 7" using assms by auto
  then show ?thesis using decision_value [of "Suc s" 0] by (auto simp: algebra_simps)
qed

lemma segment_decision:
  assumes "0 \<le> n" "n < 32768"
  defines "s \<equiv> segment_of n"
  defines "q \<equiv> nat (n div 2 ^ pcm_shift_of s mod 16)"
  shows "s < 8 \<and> q < 16 \<and> length (filter (\<lambda>d. d \<le> n div 8) decision_values) = Suc (16 * s + q)"
  using assms(1,2)
proof (cases rule: segment_cases)
  case linear
  then have s: "s = 0" by (simp add: s_def)
  have q: "int q = n div 16" "q < 16"
    using linear assms(1) by (simp_all add: q_def s pcm_shift_of_def nat_less_iff)
  have "decision_values ! q \<le> n div 8" using decision_value [of 0 q] q by simp
  moreover have "n div 8 < decision_values ! Suc q" using next_decision [of 0 q] q by simp
  ultimately show ?thesis using s q(2) decisions_below [of q "n div 8"] by simp
next
  case (chord t)
  then have s: "s = t" by (simp add: s_def)
  define v where "v = n div 8 div 2 ^ t"
  have v_eq: "n div 2 ^ (3 + t) = v" by (simp add: v_def power_add zdiv_zmult2_eq)
  have le: "v * 2 ^ t \<le> n div 8" and less: "n div 8 < (v + 1) * 2 ^ t"
    using div_mult_mod_eq [of "n div 8" "2 ^ t"] pos_mod_bound [of "2 ^ t" "n div 8", OF zero_less_power [OF zero_less_numeral]]
      pos_mod_sign [of "2 ^ t" "n div 8", OF zero_less_power [OF zero_less_numeral]]
    unfolding v_def [symmetric] distrib_right mult_1_left by linarith+
  have "16 * 2 ^ t \<le> n div 8" "n div 8 < 32 * 2 ^ t" using chord(4,5) by (simp_all add: power_add)
  with le less have "16 * 2 ^ t < (v + 1) * 2 ^ t" "v * 2 ^ t < 32 * (2::int) ^ t" by linarith+
  then have low: "16 \<le> v" "v < 32" by simp_all
  have q: "int q = v - 16" "q < 16"
    using low chord(2) mod_pos_geq [of 16 v] mod_pos_pos_trivial [of "v - 16" 16] by (simp_all add: q_def s pcm_shift_of_def v_eq)
  have "decision_values ! (16 * t + q) \<le> n div 8" using decision_value [of t q] q le chord(2,3) by simp
  moreover have "n div 8 < decision_values ! Suc (16 * t + q)" if "16 * t + q < 127"
    using next_decision [of t q] that q less chord(2,3) by (simp add: add.commute)
  ultimately show ?thesis using s q(2) chord(3) decisions_below [of "16 * t + q" "n div 8"] by simp
qed

text \<open>The code goes by the 13 bits that rounding towards zero gives, but for the samples from -7 to -1.\<close>

lemma alaw_of_sample_code:
  assumes "sint x \<notin> {- 7..- 1}"
  shows "alaw_of_sample x = g711_alaw (if 0 \<le> sint x then sint x div 8 else - ((- sint x) div 8))" (is "_ = g711_alaw ?k")
proof -
  let ?n = "sint (normalized_pcm x)"
  have n: "?n = (if 0 \<le> sint x then sint x else - sint x - 8)" by (rule sint_normalized_pcm)
  have pos: "0 \<le> ?n" using assms by (auto simp: n)
  have "(- sint x) div 8 = (- sint x - 8) div 8 + 1" by simp
  then have m: "?n div 8 = (if 0 \<le> sint x then ?k else - ?k - 1)" by (simp add: n)
  have sign: "0 \<le> ?k \<longleftrightarrow> 0 \<le> sint x" using assms by auto
  let ?s = "segment_of ?n" let ?q = "nat (?n div 2 ^ pcm_shift_of ?s mod 16)"
  have d: "?s < 8" "?q < 16" "length (filter (\<lambda>d. d \<le> ?n div 8) decision_values) = Suc (16 * ?s + ?q)"
    using segment_decision [OF pos sint_i16_range(2)] by blast+
  have "g711_alaw ?k = of_nat (16 * ?s + ?q + (if 0 \<le> sint x then 128 else 0)) XOR 0x55"
    unfolding g711_alaw_def Let_def sign m [symmetric] d(3) by simp
  also have "\<dots> = alaw_of_sample x"
    by (simp only: alaw_of_sample_assemble [OF pos refl] assemble_code [OF d(1,2)])
  finally show ?thesis by simp
qed

lemma small_negatives_all:
  "list_all (\<lambda>n. alaw_of_sample (word_of_int n) = 0x5A) [- 7, - 6, - 5, - 4, - 3, - 2, - 1]" "g711_alaw (- 1) = 0x55"
  by code_simp+

lemma small_negatives:
  assumes "sint x \<in> {- 7..- 1}"
  shows "alaw_of_sample x = 0x5A" and "linear13 x = - 1"
proof -
  have "sint x \<in> set [- 7, - 6, - 5, - 4, - 3, - 2, - 1]" using assms by auto
  then have "alaw_of_sample (word_of_int (sint x)) = 0x5A" using small_negatives_all(1) unfolding list_all_iff by blast
  then show "alaw_of_sample x = 0x5A" by simp
  show "linear13 x = - 1" using assms unfolding linear13_eq atLeastAtMost_iff by presburger
qed

lemma zero_decision: "0 \<in> set decision_values"
proof -
  have "decision_values ! 0 = 0" using decision_value [of 0 0] by simp
  moreover have "0 < length decision_values" using decision_values_all by simp
  ultimately show ?thesis by (metis nth_mem)
qed

text \<open>The codes of a magnitude and of the next smaller one differ where a decision value comes in.\<close>

lemma magnitude_codes:
  assumes "k \<le> - 2"
  shows "g711_alaw (k + 1) = g711_alaw k \<longleftrightarrow> - k - 1 \<notin> set decision_values"
proof -
  let ?c = "\<lambda>m. length (filter (\<lambda>d. d \<le> m) decision_values)" and ?m = "- k - 1"
  have "length (filter (\<lambda>d. d \<le> m) ds) = length (filter (\<lambda>d. d \<le> m - 1) ds) + length (filter (\<lambda>d. d = m) ds)" for m :: int and ds
    by (induction ds) auto
  note split = this [of _ decision_values]
  have c: "?c m \<le> 128" for m using length_filter_le [of "\<lambda>d. d \<le> m" decision_values] decision_values_all by simp
  from zero_decision have pos: "0 < ?c (?m - 1)" using assms by (force simp: length_greater_0_conv filter_empty_conv)
  have inj: "(of_nat a :: u8) XOR 0x55 = of_nat b XOR 0x55 \<longleftrightarrow> a = b" if "a < 128" "b < 128" for a b
  proof
    assume "(of_nat a :: u8) XOR 0x55 = of_nat b XOR 0x55"
    then have "((of_nat a :: u8) XOR 0x55) XOR 0x55 = (of_nat b XOR 0x55) XOR 0x55" by (rule arg_cong)
    then have "(of_nat a :: u8) = of_nat b" by (simp add: xor.assoc)
    then have "unat (of_nat a :: u8) = unat (of_nat b :: u8)" by simp
    then show "a = b" using that by (simp add: unat_of_nat)
  qed simp
  have "g711_alaw (k + 1) = g711_alaw k \<longleftrightarrow> ?c (?m - 1) - 1 = ?c ?m - 1"
    using assms c [of "?m - 1"] c [of ?m] pos split [of ?m] by (simp add: g711_alaw_def inj algebra_simps)
  also have "\<dots> \<longleftrightarrow> length (filter (\<lambda>d. d = ?m) decision_values) = 0" using pos split [of ?m] by linarith
  also have "\<dots> \<longleftrightarrow> ?m \<notin> set decision_values" by (auto simp: filter_empty_conv)
  finally show ?thesis .
qed

text \<open>Where the encoder leaves the standard, and what it gives there.\<close>

lemma alaw_of_sample_g711:
  "(alaw_of_sample x = g711_alaw (linear13 x) \<longleftrightarrow> 0 \<le> sint x \<or> sint x mod 8 = 0 \<or> - linear13 x - 1 \<notin> set decision_values)
   \<and> (alaw_of_sample x \<noteq> g711_alaw (linear13 x) \<longrightarrow> alaw_of_sample x = (if linear13 x = - 1 then 0x5A else g711_alaw (linear13 x + 1)))"
proof (cases "sint x \<in> {- 7..- 1}")
  case True
  have "sint x mod 8 \<noteq> 0" using True unfolding atLeastAtMost_iff by presburger
  then show ?thesis using zero_decision small_negatives [OF True] small_negatives_all(2) True by simp
next
  case False
  note code = alaw_of_sample_code [OF False]
  show ?thesis
  proof (cases "0 \<le> sint x \<or> sint x mod 8 = 0")
    case True
    then have "(if 0 \<le> sint x then sint x div 8 else - ((- sint x) div 8)) = linear13 x" unfolding linear13_eq by presburger
    then have "alaw_of_sample x = g711_alaw (linear13 x)" using code by simp
    then show ?thesis using True by blast
  next
    case neg: False
    then have "(if 0 \<le> sint x then sint x div 8 else - ((- sint x) div 8)) = linear13 x + 1" "linear13 x \<le> - 2"
      using False unfolding linear13_eq by auto presburger+
    then show ?thesis using code magnitude_codes [of "linear13 x"] neg by simp
  qed
qed

section \<open>Properties\<close>

text \<open>
  C18: The encoder against the A-law of ITU-T G.711. For every buffer that fits the output span, each byte that the table lookup
  writes is the code of the standard for the 13 high bits of its sample, except exactly where the
  sample is negative, not a multiple of 8, and its 13-bit magnitude is one of the 128 decision values. There the encoder gives the
  code of the next smaller magnitude, and for the samples from -7 to -1 the byte 0x5A, the code of magnitudes
  from 30 on, instead of 0x55. The rest of the output span is not touched.
\<close>

theorem alaw_against_g711:
  assumes "length pcm \<le> length out"
  shows "\<exists>codes. encode_alaw pcm out = codes @ drop (length pcm) out \<and> length codes = length pcm
    \<and> (\<forall>i < length pcm. let x = pcm ! i; k = linear13 x in
        (codes ! i = g711_alaw k \<longleftrightarrow> 0 \<le> sint x \<or> sint x mod 8 = 0 \<or> - k - 1 \<notin> set decision_values)
        \<and> (codes ! i \<noteq> g711_alaw k \<longrightarrow> codes ! i = (if k = - 1 then 0x5A else g711_alaw (k + 1))))"
  using assms alaw_of_sample_g711 by (intro exI [of _ "map alaw_of_sample pcm"]) (simp add: encode_alaw_eq Let_def)

text \<open>A sample whose code differs: -20, whose 13-bit magnitude is the decision value 2.\<close>

lemma alaw_against_g711_witness:
  "\<exists>codes. encode_alaw [1000, - 1000, - 20, - 3] [0, 0, 0, 0] = codes \<and> codes ! 0 = g711_alaw 125 \<and> codes ! 1 = g711_alaw (- 125)
     \<and> codes ! 2 = g711_alaw (- 2) \<and> g711_alaw (- 2) \<noteq> g711_alaw (linear13 (- 20)) \<and> codes ! 3 = 0x5A"
proof -
  let ?pcm = "[1000, - 1000, - 20, - 3] :: i16 list"
  have v: "sint (1000 :: i16) = 1000" "sint (- 1000 :: i16) = - 1000" "sint (- 20 :: i16) = - 20" "sint (- 3 :: i16) = - 3" by simp_all
  have k: "linear13 1000 = 125" "linear13 (- 1000) = - 125" "linear13 (- 20) = - 3" "linear13 (- 3) = - 1"
    unfolding linear13_eq v by simp_all
  have d: "2 \<in> set decision_values" "0 \<in> set decision_values" "g711_alaw (- 2) \<noteq> g711_alaw (- 3)" by code_simp+
  obtain codes where c: "encode_alaw ?pcm [0, 0, 0, 0] = codes @ drop (length ?pcm) [0, 0, 0, 0]" "length codes = length ?pcm"
      and all: "\<forall>i < length ?pcm. let x = ?pcm ! i; k = linear13 x in
        (codes ! i = g711_alaw k \<longleftrightarrow> 0 \<le> sint x \<or> sint x mod 8 = 0 \<or> - k - 1 \<notin> set decision_values)
        \<and> (codes ! i \<noteq> g711_alaw k \<longrightarrow> codes ! i = (if k = - 1 then 0x5A else g711_alaw (k + 1)))"
    using alaw_against_g711 [of ?pcm "[0, 0, 0, 0]"] by auto
  have "codes ! 0 = g711_alaw 125" using all [rule_format, of 0] v k by (simp add: Let_def)
  moreover have "codes ! 1 = g711_alaw (- 125)" using all [rule_format, of 1] v k by (simp add: Let_def)
  moreover have "codes ! 2 = g711_alaw (- 2)" using all [rule_format, of 2] v k d(1) by (simp add: Let_def)
  moreover have "codes ! 3 = 0x5A" using all [rule_format, of 3] v k d(2) by (simp add: Let_def)
  ultimately show ?thesis using c(1) d(3) k(3) by simp
qed

end
