(* ===== verification/Programme.thy ===== *)
theory Programme
  imports Session_Lifecycle
begin

text \<open>
  What a session has to send: the clips of its graph in the order in which the executor comes to
  them, each with the frames it gives. A clip is a file input, a mixer over file inputs or a delay. The laws that let the executor
  play a clip are a locale; the three kinds of node discharge them.
\<close>

section \<open>A file frame by frame\<close>

definition file_frames :: "file_io \<Rightarrow> nat" where "file_frames io = length (audio io) div 320"

definition piece :: "file_io \<Rightarrow> nat \<Rightarrow> bytes" where
  "piece io n = take 320 (drop (n div 409 * 131072 + n mod 409 * 320) (audio io) @ replicate 320 0)"

lemma length_piece [simp]: "length (piece io n) = 320"
  by (simp add: piece_def)

text \<open>What a step may change: nothing but the nodes of the clip, and no target.\<close>

definition changed :: "nat set \<Rightarrow> heap \<Rightarrow> heap \<Rightarrow> bool" where
  "changed S h h' \<longleftrightarrow> length h' = length h \<and> (\<forall>x. n_target (h' ! x) = n_target (h ! x)) \<and> (\<forall>x. x \<notin> S \<longrightarrow> h' ! x = h ! x)"

lemma changed_refl [simp]: "changed S h h"
  by (simp add: changed_def)

lemma changed_trans: "changed S h h' \<Longrightarrow> changed S h' h'' \<Longrightarrow> changed S h h''"
  by (simp add: changed_def)

lemma changed_mono: "changed S h h' \<Longrightarrow> S \<subseteq> T \<Longrightarrow> changed T h h'"
  by (auto simp: changed_def)

lemma changed_update: "n_target nd = n_target (h ! p) \<Longrightarrow> changed {p} h (h[p := nd])"
  by (cases "p < length h") (auto simp: changed_def nth_list_update list_update_beyond)

text \<open>A track is a file with the options it is played with: the node that holds them, the gain and the pitch shift.\<close>

datatype track = Track (t_path: string) (t_options: "(nat \<times> rat \<times> rat) option")

abbreviation track_frames :: "(string \<Rightarrow> file_io) \<Rightarrow> track \<Rightarrow> nat" where
  "track_frames env t \<equiv> file_frames (env (t_path t))"

definition file_effects :: "float_env \<Rightarrow> rat \<Rightarrow> rat \<Rightarrow> pitch_shifter \<Rightarrow> bytes \<Rightarrow> (pitch_shifter \<times> bytes) option" where
  "file_effects e g shift ps pcm =
     do {
       samples \<leftarrow> (if g \<noteq> 1 then apply_gain (e_rnd e) (e_rnd e g) (as_samples pcm) else Some (as_samples pcm));
       (ps, samples) \<leftarrow> (if shift \<noteq> 0 then process_pitch (e_rnd e) (e_powf e) ps samples (e_rnd e shift) else Some (ps, samples));
       Some (ps, store_samples samples pcm)
     }"

text \<open>The pitch shifter goes from frame to frame.\<close>

primrec shifter_after :: "float_env \<Rightarrow> file_io \<Rightarrow> rat \<Rightarrow> rat \<Rightarrow> nat \<Rightarrow> pitch_shifter" where
  "shifter_after e io g shift 0 = default_pitch_shifter"
| "shifter_after e io g shift (Suc n) = fst (the (file_effects e g shift (shifter_after e io g shift n) (piece io n)))"

definition track_frame :: "float_env \<Rightarrow> (string \<Rightarrow> file_io) \<Rightarrow> track \<Rightarrow> nat \<Rightarrow> bytes" where
  "track_frame e env t n =
     (let io = env (t_path t) in
      case t_options t of
        None \<Rightarrow> piece io n
      | Some (q, g, shift) \<Rightarrow> snd (the (file_effects e g shift (shifter_after e io g shift n) (piece io n))))"

fun is_options :: "node \<Rightarrow> bool" where
  "is_options nd = (case n_body nd of FileOptions g s \<Rightarrow> True | _ \<Rightarrow> False)"

definition has_options :: "heap \<Rightarrow> track \<Rightarrow> bool" where
  "has_options h t \<longleftrightarrow> (case t_options t of None \<Rightarrow> True | Some (q, g, shift) \<Rightarrow> q < length h \<and> n_body (h ! q) = FileOptions g shift)"

text \<open>What the file input holds of its options when \<open>n\<close> frames have been pulled.\<close>

definition options_at :: "float_env \<Rightarrow> (string \<Rightarrow> file_io) \<Rightarrow> track \<Rightarrow> nat \<Rightarrow> file_input \<Rightarrow> bool" where
  "options_at e env t n f \<longleftrightarrow>
     (case t_options t of
        None \<Rightarrow> fi_options f = None
      | Some (q, g, shift) \<Rightarrow> fi_options f = Some q \<and> fi_pitch_shifter f = shifter_after e (env (t_path t)) g shift n
          \<and> float_ok e \<and> options_ok e g shift \<and> shifter_inv (fi_pitch_shifter f))"

lemma apply_file_effects:
  assumes "has_options h t" and "options_at e env t n f"
  shows "\<exists>ps. apply_effects e h f (piece (env (t_path t)) n) = Some (f\<lparr>fi_pitch_shifter := ps\<rparr>, track_frame e env t n)
    \<and> options_at e env t (Suc n) (f\<lparr>fi_pitch_shifter := ps\<rparr>) \<and> length (track_frame e env t n) = 320"
proof (cases "t_options t")
  case None
  then have "apply_effects e h f (piece (env (t_path t)) n) = Some (f\<lparr>fi_pitch_shifter := fi_pitch_shifter f\<rparr>, track_frame e env t n)"
    using assms(2) by (simp add: options_at_def apply_effects_def track_frame_def)
  then show ?thesis
    using None assms(2) by (intro exI [of _ "fi_pitch_shifter f"]) (simp add: options_at_def track_frame_def)
next
  case (Some opt)
  obtain q g shift where o: "opt = (q, g, shift)" by (metis prod_cases3)
  let ?pcm = "piece (env (t_path t)) n" and ?ps = "shifter_after e (env (t_path t)) g shift n"
  have f: "n_body (h ! q) = FileOptions g shift" "fi_options f = Some q" "fi_pitch_shifter f = ?ps" "float_ok e" "options_ok e g shift"
      "shifter_inv ?ps"
    using assms Some by (auto simp: has_options_def options_at_def o)
  have ae: "apply_effects e h f ?pcm = map_option (\<lambda>(ps, out). (f\<lparr>fi_pitch_shifter := ps\<rparr>, out)) (file_effects e g shift ?ps ?pcm)"
    using f(1-3) by (auto simp: apply_effects_def file_effects_def Let_def split: Option.bind_split prod.split)
  let ?f = "f\<lparr>fi_controller := new_controller\<rparr>" and ?h = "[new_node (FileOptions g shift)]"
  define f0 where "f0 = f\<lparr>fi_controller := new_controller, fi_options := Some 0\<rparr>"
  have "body_ok e ?h (FileInput f0)" using f(3,5,6) by (simp add: f0_def body_ok_def new_node_def inv_intros)
  then obtain f' out where "apply_effects e ?h f0 ?pcm = Some (f', out)" "length out = 320" "shifter_inv (fi_pitch_shifter f')"
    using apply_effects_total [OF f(4), of ?h f0 ?pcm] by auto
  moreover have "apply_effects e ?h f0 ?pcm = map_option (\<lambda>(ps, out). (f0\<lparr>fi_pitch_shifter := ps\<rparr>, out)) (file_effects e g shift ?ps ?pcm)"
    using f(3) by (auto simp: apply_effects_def file_effects_def f0_def new_node_def Let_def split: Option.bind_split prod.split)
  ultimately obtain ps where fe: "file_effects e g shift ?ps ?pcm = Some (ps, out)" "shifter_inv ps" "length out = 320" by auto
  then show ?thesis
    using ae f Some by (intro exI [of _ ps]) (simp add: options_at_def track_frame_def o)
qed

text \<open>Between two frames the buffers are settled, or the refill of the last swap has not come yet and at most \<open>d\<close> frames
  have been pulled since.\<close>

definition streaming ::
  "(nat \<Rightarrow> 's \<Rightarrow> bool) \<Rightarrow> (nat \<Rightarrow> bytes) \<Rightarrow> nat \<Rightarrow> nat \<Rightarrow> nat \<Rightarrow> 's \<times> controller \<Rightarrow> bool" where
  "streaming src blk d q k sc \<longleftrightarrow> playing src blk q k sc \<or> k \<le> d \<and> awaiting src blk q k sc"

text \<open>The node of a track of which \<open>n\<close> frames have been asked for.\<close>

definition input_at :: "float_env \<Rightarrow> (string \<Rightarrow> file_io) \<Rightarrow> track \<Rightarrow> nat \<Rightarrow> nat \<Rightarrow> node \<Rightarrow> bool" where
  "input_at e env t d n nd \<longleftrightarrow>
     (let m = min n (track_frames env t) in
      \<exists>q k f. m = q * 409 + k \<and> n_body nd = FileInput f \<and> fi_file_path f = t_path t \<and> n_processed_frames nd = int m
        \<and> options_at e env t m f \<and> streaming (file_at env (t_path t)) (audio_block (env (t_path t))) d q k (nd, fi_controller f))"

definition file_of :: "string \<Rightarrow> node \<Rightarrow> bool" where
  "file_of path nd \<longleftrightarrow> (\<exists>f. n_body nd = FileInput f \<and> fi_file_path f = path)"

lemma input_at_file: "input_at e env t d n nd \<Longrightarrow> file_of (t_path t) nd"
  by (auto simp: input_at_def file_of_def Let_def)

lemma input_at_frames:
  "input_at e env t d n nd \<Longrightarrow> n_total_frames nd = int (track_frames env t) \<and> n_processed_frames nd = int (min n (track_frames env t))"
  by (auto simp: input_at_def streaming_def file_frames_def playing_def awaiting_def file_at_def Let_def)

text \<open>The counters stay within an \<open>int\<close>: a file of at most \<open>2 ^ 31 - 1\<close> bytes has fewer frames than that.\<close>

lemma input_at_bound: "input_at e env t d n nd \<Longrightarrow> track_frames env t < 2 ^ 31"
  using audio_frames_bound [of "env (t_path t)"]
  by (auto simp: input_at_def streaming_def file_frames_def playing_def awaiting_def file_at_def Let_def)

lemma next_count_Suc: "n < m \<Longrightarrow> m < 2 ^ 31 \<Longrightarrow> next_count (int n) = Some (int (Suc n))"
  by (simp add: next_count_def)

lemma input_at_over: "track_frames env t \<le> n \<Longrightarrow> input_at e env t d (Suc n) nd = input_at e env t d n nd"
  by (simp add: input_at_def min_absorb2)

lemma input_at_mono: "input_at e env t d n nd \<Longrightarrow> d \<le> d' \<Longrightarrow> input_at e env t d' n nd"
  unfolding input_at_def Let_def streaming_def by (meson le_trans)

lemma set_same_controller: "n_body nd = FileInput f \<Longrightarrow> set_controller (fi_controller f) nd = nd"
  by (cases nd) (simp add: set_controller_def)

text \<open>Before its first frame the node awaits nothing.\<close>

lemma input_at_start:
  assumes "input_at e env t d 0 nd"
  shows "run_refills env nd = nd" and "input_at e env t d' 0 nd"
proof -
  obtain f where f: "n_body nd = FileInput f" "fi_file_path f = t_path t" "n_processed_frames nd = 0" "options_at e env t 0 f"
      "streaming (file_at env (t_path t)) (audio_block (env (t_path t))) d 0 0 (nd, fi_controller f)"
    using assms by (auto simp: input_at_def)
  then have p: "playing (file_at env (t_path t)) (audio_block (env (t_path t))) 0 0 (nd, fi_controller f)"
    by (simp add: streaming_def awaiting_def)
  then show "run_refills env nd = nd" using f(1) by (simp add: playing_def run_refills_def settle_def set_same_controller)
  show "input_at e env t d' 0 nd" using f p by (auto simp: input_at_def streaming_def)
qed

text \<open>A full buffer is overwritten whole.\<close>

lemma get_frame_buffer:
  assumes "buffer_inv (bf c)" and "length buffer = 320"
  shows "get_frame buffer 0 c = get_frame (replicate 320 0) 0 c"
proof -
  have len: "length (block k (bf c)) = 131072" if "k < 2" for k
    using assms(1) that by (auto simp: buffer_inv_def block_def less_2_cases_iff)
  have r: "get_read_span (bf c) < 2" "get_read_span (bf (swap_and_trigger_refill c)) < 2"
    using assms(1) by (auto simp: buffer_inv_def get_read_span_def swap_and_trigger_refill_def swap_blocks_def)
  have "block (get_read_span (bf (swap_and_trigger_refill c))) (bf (swap_and_trigger_refill c))
      = block (get_read_span (bf (swap_and_trigger_refill c))) (bf c)"
    by (simp add: swap_and_trigger_refill_def swap_blocks_def block_def)
  then show ?thesis
    using assms(2) len [OF r(1)] len [OF r(2)] by (simp add: get_frame_def Let_def put_0)
qed

lemma run_refills_fields:
  "n_target (run_refills env nd) = n_target nd \<and> n_processed_frames (run_refills env nd) = n_processed_frames nd"
proof (cases "n_body nd")
  case (FileInput f)
  obtain nd1 c where i: "settle (fetch_bytes env) (nd, fi_controller f) = (nd1, c)" by fastforce
  then show ?thesis
    using FileInput settle_same [of nd env "fi_controller f"]
    by (simp add: run_refills_def same_but_file_def set_controller_def split: node_body.split)
qed (simp_all add: run_refills_def)

lemma same_target_refills: "n_target (run_refills env nd) = n_target nd"
  using run_refills_fields by blast

lemma run_refills_options: "is_options (run_refills env nd) = is_options nd" "is_options nd \<Longrightarrow> run_refills env nd = nd"
proof -
  show "is_options nd \<Longrightarrow> run_refills env nd = nd" by (simp add: run_refills_def split: node_body.splits)
  show "is_options (run_refills env nd) = is_options nd"
  proof (cases "n_body nd")
    case (FileInput f)
    obtain nd1 c where "settle (fetch_bytes env) (nd, fi_controller f) = (nd1, c)" by fastforce
    then show ?thesis
      using FileInput settle_same [of nd env "fi_controller f"] by (auto simp: run_refills_def same_but_file_def set_controller_def)
  qed (simp_all add: run_refills_def)
qed

text \<open>The refill, when it comes.\<close>

lemma options_at_controller: "options_at e env t n (f\<lparr>fi_controller := c\<rparr>) = options_at e env t n f"
  by (simp add: options_at_def split: option.splits)

lemma input_refilled:
  assumes "input_at e env t d n nd"
  shows "input_at e env t 0 n (run_refills env nd)"
proof -
  let ?at = "file_at env (t_path t)" and ?blk = "audio_block (env (t_path t))" and ?m = "min n (track_frames env t)"
  obtain q k f where f: "?m = q * 409 + k" "n_body nd = FileInput f" "fi_file_path f = t_path t" "n_processed_frames nd = int ?m"
      "options_at e env t ?m f" "streaming ?at ?blk d q k (nd, fi_controller f)"
    using assms by (auto simp: input_at_def Let_def)
  obtain nd2 c2 where s: "settle (fetch_bytes env) (nd, fi_controller f) = (nd2, c2)" by fastforce
  have "playing ?at ?blk q k (nd2, c2)"
    using f(6) file_source.settle_awaiting [of env "t_path t" q k nd "fi_controller f"] s by (auto simp: streaming_def playing_def settle_def)
  moreover have "same_but_file nd nd2" using settle_same [of nd env "fi_controller f"] s by simp
  then obtain f2 where f2: "n_body nd2 = FileInput f2" "fi_options f2 = fi_options f" "fi_pitch_shifter f2 = fi_pitch_shifter f"
      "fi_file_path f2 = t_path t" "n_processed_frames nd2 = int ?m"
    using f(2-4) by (auto simp: same_but_file_def)
  moreover have "run_refills env nd = set_controller c2 nd2" using s f(2) by (simp add: run_refills_def)
  moreover have "options_at e env t ?m f2" using f(5) f2(2,3) by (auto simp: options_at_def split: option.splits)
  ultimately show ?thesis
    using f(1) playing_set_controller [of env "t_path t" ?blk q k nd2 c2 f2] unfolding input_at_def Let_def streaming_def
    by (intro exI [of _ q] exI [of _ k]) (simp add: set_controller_def options_at_controller)
qed

text \<open>A frame, when the refill of the last block is in time.\<close>

lemma input_pulled:
  assumes "input_at e env t d n (h ! p)" and "d < 409" and "has_options h t" and "p < length h" and "n < track_frames env t" and "length buffer = 320"
  shows "\<exists>nd. process_frame_fuel e j p h buffer = Some (Inr (), track_frame e env t n, h[p := nd]) \<and> n_target nd = n_target (h ! p)
    \<and> n_processed_frames nd = int (Suc n) \<and> n_total_frames nd = int (track_frames env t) \<and> file_of (t_path t) nd
    \<and> input_at e env t (Suc d) (Suc n) nd \<and> length (track_frame e env t n) = 320"
proof -
  let ?nd = "h ! p" and ?at = "file_at env (t_path t)" and ?blk = "audio_block (env (t_path t))"
  obtain q k f where f: "n = q * 409 + k" "n_body ?nd = FileInput f" "fi_file_path f = t_path t" "n_processed_frames ?nd = int n"
      "options_at e env t n f" "streaming ?at ?blk d q k (?nd, fi_controller f)"
    using assms(1,5) by (auto simp: input_at_def Let_def)
  have k: "k \<le> 409" and inv: "buffer_inv (bf (fi_controller f))" using f(6) by (auto simp: streaming_def playing_def awaiting_def)
  have due: "due_frame ?blk q k = piece (env (t_path t)) n"
    using due_frame_audio [OF k, of "env (t_path t)" q] by (simp add: piece_def f(1))
  obtain r out c where g: "get_frame (replicate 320 0) 0 (fi_controller f) = (r, out, c)" by (metis prod_cases3)
  have "options_at e env t n (f\<lparr>fi_controller := c\<rparr>)" using f(5) by (simp add: options_at_controller)
  then obtain ps where ps: "apply_effects e h (f\<lparr>fi_controller := c\<rparr>) (piece (env (t_path t)) n)
        = Some (f\<lparr>fi_controller := c, fi_pitch_shifter := ps\<rparr>, track_frame e env t n)"
      "options_at e env t (Suc n) (f\<lparr>fi_controller := c, fi_pitch_shifter := ps\<rparr>)" "length (track_frame e env t n) = 320"
    using apply_file_effects [OF assms(3), of e env n "f\<lparr>fi_controller := c\<rparr>"] by auto
  define nd where "nd = ?nd\<lparr>n_body := FileInput (f\<lparr>fi_controller := c, fi_pitch_shifter := ps\<rparr>), n_processed_frames := int (Suc n)\<rparr>"
  have at: "?at j nd = ?at j ?nd" for j
    using file_at_cong [of nd ?nd f "f\<lparr>fi_controller := c, fi_pitch_shifter := ps\<rparr>"] f(2) by (simp add: nd_def)
  define q' k' where "q' = (if k < 409 then q else q + 1)" and "k' = (if k < 409 then k + 1 else 1)"
  have res: "r = Inr () \<and> out = due_frame ?blk q k \<and> streaming ?at ?blk (Suc d) q' k' (nd, c)"
  proof (cases "playing ?at ?blk q k (?nd, fi_controller f)")
    case True
    then have here: "?at (q + 2) nd" by (simp add: at playing_def)
    show ?thesis
    proof (cases "k < 409")
      case False
      then have "k = 409" using k by simp
      then show ?thesis using file_source.get_frame_swaps [OF True [unfolded \<open>k = 409\<close>] here g] by (simp add: q'_def k'_def streaming_def)
    next
      case less: True
      then show ?thesis using file_source.get_frame_plays [OF True less here g] by (simp add: q'_def k'_def streaming_def)
    qed
  next
    case False
    then have a: "awaiting ?at ?blk q k (?nd, fi_controller f)" "k \<le> d" using f(6) by (simp_all add: streaming_def)
    then have less: "k < 409" and here: "?at (q + 1) nd" using assms(2) by (auto simp: at awaiting_def)
    show ?thesis using file_source.get_frame_awaiting [OF a(1) less here g] less a(2) by (simp add: q'_def k'_def streaming_def)
  qed
  have total: "n_total_frames ?nd = int (track_frames env t)" using input_at_frames [OF assms(1)] by simp
  have "process_frame_fuel e j p h buffer = Some (Inr (), track_frame e env t n, h[p := nd])"
    using f(2,4) total assms(5) next_count_Suc [OF assms(5) input_at_bound [OF assms(1)]] get_frame_buffer [OF inv assms(6)] g res ps(1) due
    by (simp add: process_frame_fuel.simps file_process_frame_def nd_def Let_def add.commute)
  moreover have "Suc n = q' * 409 + k'" using f(1) k by (auto simp: q'_def k'_def)
  then have "input_at e env t (Suc d) (Suc n) nd"
    using assms(5) res ps(2) f(3) unfolding input_at_def Let_def by (intro exI [of _ q'] exI [of _ k']) (simp add: nd_def)
  moreover have "file_of (t_path t) nd" using f(3) by (simp add: file_of_def nd_def)
  ultimately show ?thesis using total ps(3) by (intro exI [of _ nd]) (simp add: nd_def)
qed

lemma input_over:
  assumes "input_at e env t d n (h ! p)" and "track_frames env t \<le> n" and "0 < track_frames env t"
  shows "\<exists>err. process_frame_fuel e k p h buffer = Some (Inl err, replicate (length buffer) 0, h) \<and> ne_code err = EndOfStream"
proof -
  obtain f where "n_body (h ! p) = FileInput f" using input_at_file [OF assms(1)] by (auto simp: file_of_def)
  then show ?thesis
    using input_at_frames [OF assms(1)] assms(2,3)
    by (simp add: process_frame_fuel.simps file_process_frame_def fail_node_def Let_def)
qed

text \<open>Refilling several nodes.\<close>

definition refill_all :: "(string \<Rightarrow> file_io) \<Rightarrow> nat list \<Rightarrow> heap \<Rightarrow> heap" where
  "refill_all env ps h = fold (\<lambda>p. upd p (run_refills env)) ps h"

lemma refill_all_nth:
  "distinct ps \<Longrightarrow> x < length h \<Longrightarrow> refill_all env ps h ! x = (if x \<in> set ps then run_refills env (h ! x) else h ! x)"
  unfolding refill_all_def
proof (induction ps arbitrary: h)
  case (Cons p ps)
  then show ?case by (cases "x = p") (simp_all add: upd_def)
qed simp

lemma refill_all_changed: "changed (set ps) h (refill_all env ps h)"
  unfolding refill_all_def
proof (induction ps arbitrary: h)
  case (Cons p ps)
  have "changed {p} h (upd p (run_refills env) h)" unfolding upd_def by (rule changed_update) (rule same_target_refills)
  then show ?case
    using changed_trans [OF changed_mono changed_mono [OF Cons.IH], of "{p}" h _ "set (p # ps)"] by auto
qed simp

text \<open>How many rounds each node has gone without a refill.\<close>

definition waited :: "nat list \<Rightarrow> (nat \<Rightarrow> nat) \<Rightarrow> nat \<Rightarrow> nat" where
  "waited ps since p = (if p \<in> set ps then 0 else Suc (since p))"

lemma input_after_refills:
  assumes "input_at e env t (Suc (since p)) n (h ! p)" and "distinct ps" and "p < length h"
  shows "input_at e env t (waited ps since p) n (refill_all env ps h ! p)"
  using assms input_refilled by (auto simp: refill_all_nth waited_def)

section \<open>Mixing\<close>

lemma has_options_update: "has_options h t \<Longrightarrow> \<not> is_options (h ! p) \<Longrightarrow> has_options (h[p := nd]) t"
  by (cases "p < length h") (auto simp: has_options_def nth_list_update list_update_beyond split: option.splits)

lemma has_options_cong:
  "has_options h t \<Longrightarrow> length h' = length h \<Longrightarrow> \<forall>x < length h. is_options (h ! x) \<longrightarrow> h' ! x = h ! x \<Longrightarrow> has_options h' t"
  by (auto simp: has_options_def split: option.splits)

lemma file_of_options: "file_of path nd \<Longrightarrow> \<not> is_options nd"
  by (auto simp: file_of_def)

text \<open>Frame \<open>n\<close> of a mixer: the tracks that still have one, summed and clipped.\<close>

definition active_tracks :: "(string \<Rightarrow> file_io) \<Rightarrow> track list \<Rightarrow> nat \<Rightarrow> track list" where
  "active_tracks env ts n = filter (\<lambda>t. n < track_frames env t) ts"

definition mix_sum :: "float_env \<Rightarrow> (string \<Rightarrow> file_io) \<Rightarrow> track list \<Rightarrow> nat \<Rightarrow> i32 list" where
  "mix_sum e env ts n = fold (\<lambda>t acc. sum_buffers acc (as_samples (track_frame e env t n))) (active_tracks env ts n) (replicate 160 0)"

definition mixed_frame :: "float_env \<Rightarrow> (string \<Rightarrow> file_io) \<Rightarrow> track list \<Rightarrow> nat \<Rightarrow> bytes" where
  "mixed_frame e env ts n = the (compress_and_export (e_rnd e) (e_tanhf e) (mix_sum e env ts n) (replicate 320 0))"

definition mix_frames :: "(string \<Rightarrow> file_io) \<Rightarrow> track list \<Rightarrow> nat" where
  "mix_frames env ts = fold (\<lambda>t m. max m (track_frames env t)) ts 0"

definition inputs_at :: "float_env \<Rightarrow> (string \<Rightarrow> file_io) \<Rightarrow> (nat \<times> track) list \<Rightarrow> (nat \<Rightarrow> nat) \<Rightarrow> nat \<Rightarrow> heap \<Rightarrow> bool" where
  "inputs_at e env ins since n h \<longleftrightarrow> distinct (map fst ins)
     \<and> (\<forall>(p, t)\<in>set ins. p < length h \<and> 0 < track_frames env t \<and> input_at e env t (since p) n (h ! p) \<and> has_options h t)"

lemma inputs_at_Cons:
  "inputs_at e env ((p, t) # ins) since n h \<longleftrightarrow> p \<notin> fst ` set ins \<and> p < length h \<and> 0 < track_frames env t
     \<and> input_at e env t (since p) n (h ! p) \<and> has_options h t \<and> inputs_at e env ins since n h"
  by (auto simp: inputs_at_def)

lemma inputs_at_update:
  assumes "inputs_at e env ins since n h" and "p \<notin> fst ` set ins" and "\<not> is_options (h ! p)"
  shows "inputs_at e env ins since n (h[p := nd])"
  using assms(1,2)
proof (induction ins)
  case (Cons i ins)
  then show ?case using has_options_update [OF _ assms(3)] by (cases i) (auto simp: inputs_at_Cons)
qed (simp add: inputs_at_def)

text \<open>What the loop over the inputs leaves behind.\<close>

definition inputs_pulled :: "float_env \<Rightarrow> (string \<Rightarrow> file_io) \<Rightarrow> (nat \<times> track) list \<Rightarrow> (nat \<Rightarrow> nat) \<Rightarrow> nat \<Rightarrow> heap \<Rightarrow> bool" where
  "inputs_pulled e env ins since n h \<longleftrightarrow> (\<forall>(p, t)\<in>set ins. file_of (t_path t) (h ! p) \<and> input_at e env t (Suc (since p)) (Suc n) (h ! p))"

lemma mix_inputs_played:
  assumes "inputs_at e env ins since n h" and "\<forall>p\<in>fst ` set ins. since p < 409" and "length temp = 320"
  shows "\<exists>h1. mix_inputs (process_frame_fuel e k) (map fst ins) acc active h temp
      = Some (Inr (fold (\<lambda>t acc. sum_buffers acc (as_samples (track_frame e env t n))) (active_tracks env (map snd ins) n) acc,
          active \<or> active_tracks env (map snd ins) n \<noteq> []), h1)
    \<and> changed (fst ` set ins) h h1 \<and> inputs_pulled e env ins since n h1"
  using assms
proof (induction ins arbitrary: acc active h temp)
  case Nil
  then show ?case by (simp add: inputs_pulled_def active_tracks_def)
next
  case (Cons i ins)
  obtain p t where i: "i = (p, t)" by fastforce
  have at: "p \<notin> fst ` set ins" "p < length h" "0 < track_frames env t" "input_at e env t (since p) n (h ! p)" "has_options h t" "inputs_at e env ins since n h"
    using Cons.prems(1) by (simp_all add: i inputs_at_Cons)
  have due: "since p < 409" and rest: "\<forall>p\<in>fst ` set ins. since p < 409" using Cons.prems(2) by (simp_all add: i)
  show ?case
  proof (cases "n < track_frames env t")
    case True
    obtain nd where nd: "process_frame_fuel e k p h temp = Some (Inr (), track_frame e env t n, h[p := nd])" "n_target nd = n_target (h ! p)"
        "file_of (t_path t) nd" "input_at e env t (Suc (since p)) (Suc n) nd" "length (track_frame e env t n) = 320"
      using input_pulled [OF at(4) due at(5,2) True Cons.prems(3), of k] by blast
    have "inputs_at e env ins since n (h[p := nd])"
      using inputs_at_update [OF at(6,1)] file_of_options [OF input_at_file [OF at(4)]] by blast
    then obtain h1 where h1: "mix_inputs (process_frame_fuel e k) (map fst ins) (sum_buffers acc (as_samples (track_frame e env t n))) True
          (h[p := nd]) (track_frame e env t n)
        = Some (Inr (fold (\<lambda>t acc. sum_buffers acc (as_samples (track_frame e env t n))) (active_tracks env (map snd ins) n)
            (sum_buffers acc (as_samples (track_frame e env t n))), True), h1)"
        "changed (fst ` set ins) (h[p := nd]) h1" "inputs_pulled e env ins since n h1"
      using Cons.IH [of "h[p := nd]" "track_frame e env t n" "sum_buffers acc (as_samples (track_frame e env t n))" True] nd(5) rest by auto
    have "h1 ! p = nd" using h1(2) at(1,2) by (simp add: changed_def)
    then have "inputs_pulled e env (i # ins) since n h1" using h1(3) nd(3,4) by (simp add: i inputs_pulled_def)
    moreover have "changed (fst ` set (i # ins)) h h1"
      using changed_trans [OF changed_mono [OF changed_update [of nd h p]] changed_mono [OF h1(2)]] nd(2) by (auto simp: i)
    ultimately show ?thesis using nd(1) h1(1) True by (auto simp: i active_tracks_def)
  next
    case False
    then obtain err where err: "process_frame_fuel e k p h temp = Some (Inl err, replicate (length temp) 0, h)" "ne_code err = EndOfStream"
      using input_over [OF at(4) _ at(3)] by (meson not_less)
    obtain h1 where h1: "mix_inputs (process_frame_fuel e k) (map fst ins) acc active h (replicate (length temp) 0)
        = Some (Inr (fold (\<lambda>t acc. sum_buffers acc (as_samples (track_frame e env t n))) (active_tracks env (map snd ins) n) acc,
          active \<or> active_tracks env (map snd ins) n \<noteq> []), h1)"
        "changed (fst ` set ins) h h1" "inputs_pulled e env ins since n h1"
      using Cons.IH [OF at(6) rest, of "replicate (length temp) 0" acc active] Cons.prems(3) by auto
    have "h1 ! p = h ! p" using h1(2) at(1) by (simp add: changed_def)
    then have "inputs_pulled e env (i # ins) since n h1"
      using h1(3) at(4) False input_at_file input_at_over input_at_mono [of e env t "since p" n "h ! p" "Suc (since p)"] by (auto simp: i inputs_pulled_def)
    moreover have "changed (fst ` set (i # ins)) h h1" using changed_mono [OF h1(2)] by (auto simp: i)
    ultimately show ?thesis using err h1(1) False by (auto simp: i active_tracks_def)
  qed
qed

lemma mix_frames_fold: "fold (\<lambda>t m. max m (track_frames env t)) ts k = max k (mix_frames env ts)"
  unfolding mix_frames_def
proof (induction ts arbitrary: k)
  case (Cons t ts)
  show ?case using Cons [of "max k (track_frames env t)"] Cons [of "track_frames env t"] by simp
qed simp

lemma mix_frames_active: "n < mix_frames env ts \<longleftrightarrow> active_tracks env ts n \<noteq> []"
proof (induction ts)
  case (Cons t ts)
  then show ?case using mix_frames_fold [of env ts "track_frames env t"] by (auto simp: mix_frames_def active_tracks_def)
qed (simp add: mix_frames_def active_tracks_def)

lemma mix_frames_bound:
  assumes "\<And>t. t \<in> set ts \<Longrightarrow> track_frames env t < b" and "0 < b"
  shows "mix_frames env ts < b"
  using assms(1)
proof (induction ts)
  case (Cons t ts)
  then show ?case using mix_frames_fold [of env ts "track_frames env t"] by (simp add: mix_frames_def)
qed (simp add: mix_frames_def assms(2))

lemma inputs_at_bound: "inputs_at e env ins since n h \<Longrightarrow> mix_frames env (map snd ins) < 2 ^ 31"
  by (rule mix_frames_bound) (auto simp: inputs_at_def simp del: of_nat_less_numeral_iff dest!: bspec input_at_bound)

lemma mix_total:
  assumes "\<And>p t. (p, t) \<in> set ins \<Longrightarrow> n_total_frames (h ! p) = int (track_frames env t)"
  shows "fold (\<lambda>s m. max m (n_total_frames (h ! s))) (map fst ins) (int k) = max (int k) (int (mix_frames env (map snd ins)))"
  using assms
proof (induction ins arbitrary: k)
  case (Cons i ins)
  obtain p t where i: "i = (p, t)" by fastforce
  have total: "n_total_frames (h ! p) = int (track_frames env t)" using Cons.prems by (simp add: i)
  have "n_total_frames (h ! s) = int (track_frames env x)" if "(s, x) \<in> set ins" for s x using Cons.prems that by simp
  from Cons.IH [OF this, of "max k (track_frames env t)"] total show ?case
    using mix_frames_fold [of env "map snd ins" "track_frames env t"]
    by (simp add: i mix_frames_def of_nat_max)
qed (simp add: mix_frames_def)

lemma mix_sum_length [simp]: "length (mix_sum e env ts n) = 160"
proof -
  have "length (fold (\<lambda>t acc. sum_buffers acc (as_samples (track_frame e env t n))) xs acc) = length acc" for xs and acc :: "i32 list"
    by (induction xs arbitrary: acc) simp_all
  then show ?thesis by (simp add: mix_sum_def)
qed

lemma mixed_frame_exported:
  assumes "float_ok e"
  shows "compress_and_export (e_rnd e) (e_tanhf e) (mix_sum e env ts n) (replicate 320 0) = Some (mixed_frame e env ts n)
    \<and> length (mixed_frame e env ts n) = 320"
  using compress_and_export_total [of "e_rnd e" "e_tanhf e" "replicate 320 0" "mix_sum e env ts n"] assms
  by (auto simp: float_ok_def mixed_frame_def)

section \<open>Clips\<close>

datatype clip =
    File_Clip nat track
  | Mix_Clip nat "(nat \<times> track) list"
  | Delay_Clip nat nat

fun clip_node :: "clip \<Rightarrow> nat" where
  "clip_node (File_Clip p t) = p"
| "clip_node (Mix_Clip p ins) = p"
| "clip_node (Delay_Clip p k) = p"

text \<open>The file inputs, whose buffers are refilled.\<close>

fun clip_inputs :: "clip \<Rightarrow> nat list" where
  "clip_inputs (File_Clip p t) = [p]"
| "clip_inputs (Mix_Clip p ins) = map fst ins"
| "clip_inputs (Delay_Clip p k) = []"

fun clip_tracks :: "clip \<Rightarrow> track list" where
  "clip_tracks (File_Clip p t) = [t]"
| "clip_tracks (Mix_Clip p ins) = map snd ins"
| "clip_tracks (Delay_Clip p k) = []"

fun clip_frames :: "(string \<Rightarrow> file_io) \<Rightarrow> clip \<Rightarrow> nat" where
  "clip_frames env (File_Clip p t) = track_frames env t"
| "clip_frames env (Mix_Clip p ins) = mix_frames env (map snd ins)"
| "clip_frames env (Delay_Clip p k) = k"

fun clip_frame :: "float_env \<Rightarrow> (string \<Rightarrow> file_io) \<Rightarrow> clip \<Rightarrow> nat \<Rightarrow> bytes" where
  "clip_frame e env (File_Clip p t) n = track_frame e env t n"
| "clip_frame e env (Mix_Clip p ins) n = mixed_frame e env (map snd ins) n"
| "clip_frame e env (Delay_Clip p k) n = replicate 320 0"

text \<open>Closing the files of the clip does not fail.\<close>

definition clip_closes :: "(string \<Rightarrow> file_io) \<Rightarrow> clip \<Rightarrow> bool" where
  "clip_closes env c \<longleftrightarrow> (\<forall>t\<in>set (clip_tracks c). io_close_ec (env (t_path t)) = None)"

text \<open>The nodes of the clip when \<open>n\<close> of its frames have been pulled.\<close>

fun clip_ready :: "float_env \<Rightarrow> (string \<Rightarrow> file_io) \<Rightarrow> clip \<Rightarrow> (nat \<Rightarrow> nat) \<Rightarrow> nat \<Rightarrow> heap \<Rightarrow> bool" where
  "clip_ready e env (File_Clip p t) since n h \<longleftrightarrow> p < length h \<and> n \<le> track_frames env t \<and> input_at e env t (since p) n (h ! p) \<and> has_options h t"
| "clip_ready e env (Mix_Clip p ins) since n h \<longleftrightarrow> float_ok e \<and> p < length h \<and> p \<notin> fst ` set ins \<and> n_body (h ! p) = Mixer (map fst ins)
     \<and> n_processed_frames (h ! p) = int n \<and> n_in_buffer_processed_frames (h ! p) = int n
     \<and> n_total_frames (h ! p) = int (clip_frames env (Mix_Clip p ins)) \<and> inputs_at e env ins since n h"
| "clip_ready e env (Delay_Clip p k) since n h \<longleftrightarrow> p < length h \<and> (\<exists>d. n_body (h ! p) = Delay d)
     \<and> n_processed_frames (h ! p) = int n \<and> n_in_buffer_processed_frames (h ! p) = int n \<and> n_total_frames (h ! p) = int k \<and> k < 2 ^ 31"

definition clip_nodes :: "clip \<Rightarrow> nat set" where
  "clip_nodes c = insert (clip_node c) (set (clip_inputs c))"

text \<open>One pull from the clip: the frame, and what it leaves once some refills, those in \<open>ps\<close>, have run or, after the last
  frame, once the clip is closed.\<close>

definition pull_result :: "float_env \<Rightarrow> (string \<Rightarrow> file_io) \<Rightarrow> nat \<Rightarrow> nat list \<Rightarrow> bytes \<Rightarrow> bool \<Rightarrow> bool \<Rightarrow> (nat list \<Rightarrow> heap \<Rightarrow> bool) \<Rightarrow> heap \<Rightarrow> bool" where
  "pull_result e env p inputs out over closes P h \<longleftrightarrow>
     (\<exists>h1 r h2. process_frame e p h (replicate 320 0) = Some (Inr (), out, h1) \<and> changed (insert p (set inputs)) h h1
        \<and> is_complete (h1 ! p) = over \<and> (\<forall>ps. distinct ps \<longrightarrow> P ps (refill_all env ps h1))
        \<and> close env p h1 = (r, h2) \<and> changed (insert p (set inputs)) h1 h2 \<and> (closes \<longrightarrow> r = Inr ()))"

lemma close_file_kept:
  assumes "close_file_input env nd f = (r, nd')"
  shows "n_target nd' = n_target nd" and "io_close_ec (env (fi_file_path f)) = None \<Longrightarrow> r = Inr ()"
  using assms by (auto simp: close_file_input_def Let_def fail_node_def split: option.splits if_splits)

lemma close_file_of:
  assumes "file_of path (h ! p)"
  shows "\<exists>r nd. close_fuel env k p h = (r, h[p := nd]) \<and> n_target nd = n_target (h ! p) \<and> (io_close_ec (env path) = None \<longrightarrow> r = Inr ())"
proof -
  obtain f where f: "n_body (h ! p) = FileInput f" "fi_file_path f = path" using assms by (auto simp: file_of_def)
  obtain r nd where "close_file_input env (h ! p) f = (r, nd)" by fastforce
  then show ?thesis using close_file_kept [of env "h ! p" f r nd] f by (auto simp: close_fuel.simps Let_def)
qed

text \<open>The options stay where they are.\<close>

lemma options_kept:
  assumes "has_options h t" and "changed S h h2" and "\<forall>x\<in>S. \<not> is_options (h ! x)" and "distinct ps"
  shows "has_options (refill_all env ps h2) t"
proof (rule has_options_cong [OF assms(1)], goal_cases)
  case 1
  then show ?case using assms(2) refill_all_changed [of ps h2 env] by (simp add: changed_def)
next
  case 2
  show ?case
  proof (intro allI impI)
    fix x
    assume x: "x < length h" "is_options (h ! x)"
    then have "h2 ! x = h ! x" "x < length h2" using assms(2,3) by (auto simp: changed_def simp del: is_options.simps)
    then show "refill_all env ps h2 ! x = h ! x"
      using refill_all_nth [OF assms(4), of x h2 env] run_refills_options(2) x(2) by simp
  qed
qed

lemma file_pull:
  assumes "clip_ready e env (File_Clip p t) since n h" and "n < track_frames env t" and "since p < 409"
  shows "pull_result e env p [p] (track_frame e env t n) (track_frames env t \<le> Suc n) (clip_closes env (File_Clip p t))
    (\<lambda>ps. clip_ready e env (File_Clip p t) (waited ps since) (Suc n)) h"
proof -
  have p: "p < length h" "input_at e env t (since p) n (h ! p)" "has_options h t" using assms(1) by simp_all
  obtain nd where nd: "process_frame_fuel e 1 p h (replicate 320 0) = Some (Inr (), track_frame e env t n, h[p := nd])" "n_target nd = n_target (h ! p)"
      "n_processed_frames nd = int (Suc n)" "n_total_frames nd = int (track_frames env t)" "file_of (t_path t) nd"
      "input_at e env t (Suc (since p)) (Suc n) nd"
    using input_pulled [OF p(2) assms(3) p(3,1) assms(2), of "replicate 320 0" 1] by auto
  note ch = changed_update [OF nd(2)]
  obtain r nd2 where c: "close env p (h[p := nd]) = (r, h[p := nd2])" "n_target nd2 = n_target nd" "io_close_ec (env (t_path t)) = None \<longrightarrow> r = Inr ()"
    using close_file_of [of "t_path t" "h[p := nd]" p env 1] nd(5) p(1) by (auto simp: close_def)
  have "is_complete nd = (track_frames env t \<le> Suc n)" using nd(3,4) assms(2) by (auto simp: is_complete_def)
  moreover have "changed {p} (h[p := nd]) (h[p := nd2])" using changed_update [of nd2 "h[p := nd]" p] c(2) p(1) by simp
  moreover have "clip_ready e env (File_Clip p t) (waited ps since) (Suc n) (refill_all env ps (h[p := nd]))" if "distinct ps" for ps
  proof -
    have "has_options (refill_all env ps (h[p := nd])) t"
      using options_kept [OF p(3) ch _ that] file_of_options [OF input_at_file [OF p(2)]] by blast
    moreover have "length (refill_all env ps (h[p := nd])) = length h" using refill_all_changed [of ps "h[p := nd]" env] by (simp add: changed_def)
    ultimately show ?thesis using input_after_refills [of e env t since p "Suc n" "h[p := nd]" ps] nd(6) p(1) assms(2) that by simp
  qed
  moreover have "process_frame e p h (replicate 320 0) = Some (Inr (), track_frame e env t n, h[p := nd])"
    using nd(1) by (simp only: process_frame_def)
  ultimately show ?thesis
    using p(1) c ch unfolding pull_result_def by (intro exI [of _ "h[p := nd]"] exI [of _ r] exI [of _ "h[p := nd2]"]) (simp add: clip_closes_def)
qed

lemma inputs_of_update:
  "p \<notin> fst ` set ins \<Longrightarrow> (\<forall>(s, t)\<in>set ins. file_of (t_path t) (h[p := nd] ! s)) = (\<forall>(s, t)\<in>set ins. file_of (t_path t) (h ! s))"
  by (induction ins) auto

text \<open>A mixer closes its inputs up to the first that fails.\<close>

lemma close_inputs:
  assumes "\<forall>(p, t)\<in>set ins. file_of (t_path t) (h ! p)" and "distinct (map fst ins)"
  shows "\<exists>r' h'. fold (\<lambda>s (r, h). if has_value r then close_fuel env k s h else (r, h)) (map fst ins) (r, h) = (r', h')
    \<and> changed (fst ` set ins) h h' \<and> (r = Inr () \<longrightarrow> (\<forall>(s, t)\<in>set ins. io_close_ec (env (t_path t)) = None) \<longrightarrow> r' = Inr ())"
  using assms
proof (induction ins arbitrary: r h)
  case (Cons i ins)
  obtain p t where i: "i = (p, t)" by fastforce
  show ?case
  proof (cases "has_value r")
    case True
    obtain r1 nd where c: "close_fuel env k p h = (r1, h[p := nd])" "n_target nd = n_target (h ! p)" "io_close_ec (env (t_path t)) = None \<longrightarrow> r1 = Inr ()"
      using close_file_of [of "t_path t" h p env k] Cons.prems(1) by (auto simp: i)
    have d: "distinct (map fst ins)" using Cons.prems(2) by simp
    have "\<forall>(s, t)\<in>set ins. file_of (t_path t) (h[p := nd] ! s)" using Cons.prems inputs_of_update by (simp add: i)
    then obtain r' h' where h': "fold (\<lambda>s (r, h). if has_value r then close_fuel env k s h else (r, h)) (map fst ins) (r1, h[p := nd]) = (r', h')"
        "changed (fst ` set ins) (h[p := nd]) h'" "r1 = Inr () \<longrightarrow> (\<forall>(s, t)\<in>set ins. io_close_ec (env (t_path t)) = None) \<longrightarrow> r' = Inr ()"
      using Cons.IH [OF _ d, of "h[p := nd]" r1] by blast
    have "changed (fst ` set (i # ins)) h h'"
      using changed_trans [OF changed_mono [OF changed_update [OF c(2)]] changed_mono [OF h'(2)]] by (auto simp: i)
    then show ?thesis using True c h'(1,3) by (auto simp: i)
  next
    case False
    obtain r' h' where "fold (\<lambda>s (r, h). if has_value r then close_fuel env k s h else (r, h)) (map fst ins) (r, h) = (r', h')"
        "changed (fst ` set ins) h h'"
      using Cons.IH [of h r] Cons.prems by auto
    then show ?thesis using False changed_mono [of "fst ` set ins" h h' "fst ` set (i # ins)"] by (cases r) (auto simp: i)
  qed
qed simp

lemma mix_close:
  assumes "n_body (h ! p) = Mixer (map fst ins)" and "\<forall>(s, t)\<in>set ins. file_of (t_path t) (h ! s)" and "distinct (map fst ins)"
  shows "\<exists>r h'. close env p h = (r, h') \<and> changed (insert p (fst ` set ins)) h h' \<and> (clip_closes env (Mix_Clip p ins) \<longrightarrow> r = Inr ())"
proof -
  let ?S = "insert p (fst ` set ins)"
  obtain r h1 where c: "fold (\<lambda>s (r, h). if has_value r then close_fuel env 0 s h else (r, h)) (map fst ins) (Inr (), h) = (r, h1)"
      "changed (fst ` set ins) h h1" "(\<forall>(s, t)\<in>set ins. io_close_ec (env (t_path t)) = None) \<longrightarrow> r = Inr ()"
    using close_inputs [OF assms(2,3), of env 0 "Inr ()"] by blast
  have cl: "close env p h = (if has_value r then (Inr (), upd p reset_state h1) else (r, h1))"
    using c(1) assms(1) by (simp add: close_def close_fuel.simps [of _ "Suc 0"] Let_def)
  have ch: "changed ?S h h1" using c(2) by (rule changed_mono) auto
  have "changed ?S h1 (upd p reset_state h1)"
    unfolding upd_def by (rule changed_mono [OF changed_update]) (auto simp: reset_state_def)
  then have "changed ?S h (snd (close env p h))" using ch changed_trans [OF ch] unfolding cl by (cases "has_value r") auto
  moreover have "clip_closes env (Mix_Clip p ins) \<Longrightarrow> fst (close env p h) = Inr ()" using c(3) cl by (auto simp: clip_closes_def)
  ultimately show ?thesis by (metis prod.collapse)
qed

lemma inputs_options: "inputs_at e env ins since n h \<Longrightarrow> x \<in> fst ` set ins \<Longrightarrow> \<not> is_options (h ! x)"
  using file_of_options input_at_file by (fastforce simp: inputs_at_def simp del: is_options.simps)

lemma inputs_ready_again:
  assumes "inputs_at e env ins since n h" and "inputs_pulled e env ins since n h2" and "changed (insert p (fst ` set ins)) h h2"
    and "\<not> is_options (h ! p)" and "distinct ps"
  shows "inputs_at e env ins (waited ps since) (Suc n) (refill_all env ps h2)"
  unfolding inputs_at_def
proof (intro conjI ballI, goal_cases)
  case 1
  then show ?case using assms(1) by (simp add: inputs_at_def)
next
  case (2 i)
  obtain s t where i: "i = (s, t)" by fastforce
  have s: "s < length h" "0 < track_frames env t" "has_options h t" using 2 assms(1) i by (auto simp: inputs_at_def)
  have len: "length h2 = length h" "length (refill_all env ps h2) = length h"
    using assms(3) refill_all_changed [of ps h2 env] by (simp_all add: changed_def)
  have "has_options (refill_all env ps h2) t"
    using options_kept [OF s(3) assms(3) _ assms(5)] inputs_options [OF assms(1)] assms(4) by blast
  moreover have "input_at e env t (Suc (since s)) (Suc n) (h2 ! s)" using 2 assms(2) i by (auto simp: inputs_pulled_def)
  ultimately show ?case using s len input_after_refills [of e env t since s "Suc n" h2 ps] assms(5) by (simp add: i)
qed

text \<open>Both counters of a mixer or a delay stand at \<open>n\<close>.\<close>

definition counted :: "node \<Rightarrow> nat \<Rightarrow> node" where
  "counted nd n = nd\<lparr>n_in_buffer_processed_frames := int n, n_processed_frames := int n\<rparr>"

lemma counted_fields [simp]:
  "n_body (counted nd n) = n_body nd" "n_target (counted nd n) = n_target nd" "n_total_frames (counted nd n) = n_total_frames nd"
  "n_processed_frames (counted nd n) = int n" "n_in_buffer_processed_frames (counted nd n) = int n"
  by (simp_all add: counted_def)

lemma count_frame_Suc:
  assumes "n_processed_frames nd = int n" and "n_in_buffer_processed_frames nd = int n" and "n < m" and "m < 2 ^ 31"
  shows "count_frame nd = Some (counted nd (Suc n))"
  using next_count_Suc [OF assms(3,4)] assms(1,2) by (simp add: count_frame_def counted_def)

lemma mix_step:
  assumes "clip_ready e env (Mix_Clip p ins) since n h" and "n < clip_frames env (Mix_Clip p ins)" and "\<forall>s\<in>fst ` set ins. since s < 409"
  shows "\<exists>h2. process_frame e p h (replicate 320 0) = Some (Inr (), mixed_frame e env (map snd ins) n, h2)
    \<and> changed (insert p (fst ` set ins)) h h2 \<and> inputs_pulled e env ins since n h2
    \<and> h2 ! p = counted (h ! p) (Suc n)"
proof -
  let ?ts = "map snd ins"
  have p: "float_ok e" "p < length h" "p \<notin> fst ` set ins" "n_body (h ! p) = Mixer (map fst ins)" "n_processed_frames (h ! p) = int n"
      "inputs_at e env ins since n h" "n_in_buffer_processed_frames (h ! p) = int n"
    using assms(1) by simp_all
  have active: "active_tracks env ?ts n \<noteq> []" using assms(2) by (simp add: mix_frames_active)
  obtain h1 where h1: "mix_inputs (process_frame_fuel e 0) (map fst ins) (replicate 160 0) False h (replicate 320 0) = Some (Inr (mix_sum e env ?ts n, True), h1)"
      "changed (fst ` set ins) h h1" "inputs_pulled e env ins since n h1"
    using mix_inputs_played [OF p(6) assms(3), of "replicate 320 0" 0 "replicate 160 0" False] active by (auto simp: mix_sum_def)
  define h2 where "h2 = h1[p := counted (h ! p) (Suc n)]"
  have h1p: "h1 ! p = h ! p" "length h1 = length h" using h1(2) p(3) by (simp_all add: changed_def)
  have count: "count_frame (h1 ! p) = Some (counted (h ! p) (Suc n))"
    using count_frame_Suc [OF p(5,7)] inputs_at_bound [OF p(6)] assms(2) h1p(1) by simp
  have "h2 ! s = h1 ! s" if "s \<in> fst ` set ins" for s
  proof -
    have "p \<noteq> s" using that p(3) by auto
    then show ?thesis by (simp add: h2_def)
  qed
  then have "inputs_pulled e env ins since n h2" using h1(3) by (fastforce simp: inputs_pulled_def)
  moreover have "process_frame e p h (replicate 320 0) = Some (Inr (), mixed_frame e env ?ts n, h2)"
    using p(4) h1(1) mixed_frame_exported [OF p(1)] count
    by (simp add: process_frame_def process_frame_fuel.simps [of _ "Suc 0"] h2_def Let_def SAMPLES_PER_FRAME_def)
  moreover have "changed {p} h1 h2" unfolding h2_def by (rule changed_update) (simp add: h1p)
  then have "changed (insert p (fst ` set ins)) h h2"
    using changed_trans [OF changed_mono [OF h1(2)] changed_mono] by blast
  moreover have "h2 ! p = counted (h ! p) (Suc n)" using p(2) h1p by (simp add: h2_def)
  ultimately show ?thesis by (intro exI [of _ h2]) simp
qed

lemma mix_pull:
  assumes "clip_ready e env (Mix_Clip p ins) since n h" and "n < clip_frames env (Mix_Clip p ins)" and "\<forall>s\<in>fst ` set ins. since s < 409"
  shows "pull_result e env p (map fst ins) (mixed_frame e env (map snd ins) n) (clip_frames env (Mix_Clip p ins) \<le> Suc n)
    (clip_closes env (Mix_Clip p ins)) (\<lambda>ps. clip_ready e env (Mix_Clip p ins) (waited ps since) (Suc n)) h"
proof -
  have p: "float_ok e" "p < length h" "p \<notin> fst ` set ins" "n_body (h ! p) = Mixer (map fst ins)"
      "n_total_frames (h ! p) = int (mix_frames env (map snd ins))" "inputs_at e env ins since n h"
    using assms(1) by simp_all
  obtain h2 where h2: "process_frame e p h (replicate 320 0) = Some (Inr (), mixed_frame e env (map snd ins) n, h2)"
      "changed (insert p (fst ` set ins)) h h2" "inputs_pulled e env ins since n h2"
      "h2 ! p = counted (h ! p) (Suc n)"
    using mix_step [OF assms] by blast
  have over: "is_complete (h2 ! p) = (mix_frames env (map snd ins) \<le> Suc n)" using h2(4) p(5) assms(2) by (auto simp: is_complete_def)
  have len: "length h2 = length h" using h2(2) by (simp add: changed_def)
  have ready: "clip_ready e env (Mix_Clip p ins) (waited ps since) (Suc n) (refill_all env ps h2)" if "distinct ps" for ps
  proof -
    have "inputs_at e env ins (waited ps since) (Suc n) (refill_all env ps h2)"
      using inputs_ready_again [OF p(6) h2(3,2) _ that] p(4) by simp
    moreover have "run_refills env (h2 ! p) = h2 ! p" using h2(4) p(4) by (simp add: run_refills_def)
    moreover have "length (refill_all env ps h2) = length h" using refill_all_changed [of ps h2 env] len by (simp add: changed_def)
    ultimately show ?thesis using p h2(4) refill_all_nth [OF that, of p h2 env] len by simp
  qed
  have files: "\<forall>(s, t)\<in>set ins. file_of (t_path t) (h2 ! s)" using h2(3) by (auto simp: inputs_pulled_def)
  have d: "distinct (map fst ins)" using p(6) by (simp add: inputs_at_def)
  obtain r h3 where "close env p h2 = (r, h3)" "changed (insert p (fst ` set ins)) h2 h3" "clip_closes env (Mix_Clip p ins) \<longrightarrow> r = Inr ()"
    using mix_close [OF _ files d, of p env] h2(4) p(4) by auto
  then show ?thesis
    unfolding pull_result_def using h2(1,2) over ready by (intro exI [of _ h2] exI [of _ r] exI [of _ h3]) simp
qed

lemma delay_pull:
  assumes "clip_ready e env (Delay_Clip p k) since n h" and "n < k"
  shows "pull_result e env p [] (replicate 320 0) (k \<le> Suc n) True (\<lambda>ps. clip_ready e env (Delay_Clip p k) (waited ps since) (Suc n)) h"
proof -
  obtain d where p: "p < length h" "n_body (h ! p) = Delay d" "n_processed_frames (h ! p) = int n"
      "n_in_buffer_processed_frames (h ! p) = int n" "n_total_frames (h ! p) = int k" "k < 2 ^ 31"
    using assms(1) by auto
  let ?h1 = "h[p := counted (h ! p) (Suc n)]"
  have h1: "?h1 ! p = counted (h ! p) (Suc n)" "length ?h1 = length h" using p(1) by simp_all
  have "process_frame e p h (replicate 320 0) = Some (Inr (), replicate 320 0, ?h1)"
    using p(2) count_frame_Suc [OF p(3,4) assms(2) p(6)] by (simp add: process_frame_def process_frame_fuel.simps delay_process_frame_def)
  moreover have "changed {p} h ?h1" by (rule changed_update) simp
  moreover have "changed {p} ?h1 (upd p reset_state ?h1)" unfolding upd_def by (rule changed_update) (simp add: reset_state_def)
  moreover have "is_complete (?h1 ! p) = (k \<le> Suc n)" using p assms(2) by (auto simp: is_complete_def)
  moreover have "clip_ready e env (Delay_Clip p k) (waited ps since) (Suc n) (refill_all env ps ?h1)" if "distinct ps" for ps
  proof -
    have "run_refills env (?h1 ! p) = ?h1 ! p" using p(1,2) by (simp add: run_refills_def)
    then have "refill_all env ps ?h1 ! p = ?h1 ! p" using refill_all_nth [OF that, of p ?h1 env] p(1) by simp
    moreover have "length (refill_all env ps ?h1) = length h" using refill_all_changed [of ps ?h1 env] h1(2) by (simp only: changed_def)
    ultimately show ?thesis using p assms(2) by simp
  qed
  moreover have "close env p ?h1 = (Inr (), upd p reset_state ?h1)" using p by (simp add: close_def close_fuel.simps)
  ultimately show ?thesis unfolding pull_result_def
    by (intro exI [of _ ?h1] exI [of _ "Inr ()"] exI [of _ "upd p reset_state ?h1"]) simp
qed

text \<open>The nodes of a clip hold no options.\<close>

lemma clip_nodes_options:
  assumes "clip_ready e env c since n h" and "x \<in> clip_nodes c"
  shows "\<not> is_options (h ! x)"
proof (cases c)
  case (File_Clip p t)
  then show ?thesis using assms file_of_options input_at_file by (fastforce simp: clip_nodes_def simp del: is_options.simps)
next
  case (Mix_Clip p ins)
  then consider "x = p" | t where "(x, t) \<in> set ins" using assms(2) by (auto simp: clip_nodes_def)
  then show ?thesis
  proof cases
    case 2
    then have "input_at e env t (since x) n (h ! x)" using assms(1) Mix_Clip by (auto simp: inputs_at_def)
    then show ?thesis using file_of_options input_at_file by blast
  qed (use assms(1) Mix_Clip in simp)
next
  case (Delay_Clip p k)
  then show ?thesis using assms by (auto simp: clip_nodes_def)
qed

lemma clip_ready_cong:
  assumes "clip_ready e env c since n h" and "length h' = length h" and "\<forall>x\<in>clip_nodes c. h' ! x = h ! x"
    and "\<forall>x < length h. is_options (h ! x) \<longrightarrow> h' ! x = h ! x"
  shows "clip_ready e env c since n h'"
proof (cases c)
  case (File_Clip p t)
  then show ?thesis using assms has_options_cong [OF _ assms(2,4)] by (simp add: clip_nodes_def)
next
  case (Mix_Clip p ins)
  have "inputs_at e env ins since n h'"
    unfolding inputs_at_def
  proof (intro conjI ballI, goal_cases)
    case (2 i)
    obtain s t where i: "i = (s, t)" by fastforce
    then have "s < length h" "0 < track_frames env t" "input_at e env t (since s) n (h ! s)" "has_options h t" "s \<in> clip_nodes c"
      using assms(1) 2 by (auto simp: Mix_Clip inputs_at_def clip_nodes_def intro: rev_image_eqI)
    then show ?case using assms(2,3) has_options_cong [OF _ assms(2,4)] by (simp add: i)
  qed (use assms(1) in \<open>simp add: Mix_Clip inputs_at_def\<close>)
  then show ?thesis using assms(1-3) Mix_Clip by (simp add: clip_nodes_def)
next
  case (Delay_Clip p k)
  then show ?thesis using assms by (auto simp: clip_nodes_def)
qed

text \<open>A clip that waits for its turn awaits no refill.\<close>

lemma clip_ready_start:
  assumes "clip_ready e env c since 0 h" and "distinct ps"
  shows "clip_ready e env c since' 0 (refill_all env ps h)"
proof -
  have same: "refill_all env ps h ! x = h ! x" if "x < length h" "run_refills env (h ! x) = h ! x" for x
    using that refill_all_nth [OF assms(2)] by simp
  have here: "clip_ready e env c since' 0 h"
    using assms(1) input_at_start(2) by (cases c) (fastforce simp: inputs_at_def)+
  show ?thesis
  proof (rule clip_ready_cong [OF here])
    show "length (refill_all env ps h) = length h" using refill_all_changed [of ps h env] by (simp add: changed_def)
    show "\<forall>x < length h. is_options (h ! x) \<longrightarrow> refill_all env ps h ! x = h ! x" using same run_refills_options(2) by blast
    show "\<forall>x\<in>clip_nodes c. refill_all env ps h ! x = h ! x"
    proof
      fix x
      assume "x \<in> clip_nodes c"
      then have "x < length h \<and> run_refills env (h ! x) = h ! x"
        using assms(1) input_at_start(1)
        by (cases c) (fastforce simp: clip_nodes_def inputs_at_def run_refills_def split: node_body.splits)+
      then show "refill_all env ps h ! x = h ! x" using same by blast
    qed
  qed
qed

lemma track_frame_length:
  assumes "input_at e env t d n nd" and "has_options h t" and "n < track_frames env t"
  shows "length (track_frame e env t n) = 320"
  using assms apply_file_effects [OF assms(2)] by (auto simp: input_at_def Let_def)

lemma clip_frame_length:
  assumes "clip_ready e env c since n h" and "n < clip_frames env c"
  shows "length (clip_frame e env c n) = 320"
proof (cases c)
  case (File_Clip p t)
  then show ?thesis using track_frame_length [of e env t "since p" n "h ! p" h] assms by simp
next
  case (Mix_Clip p ins)
  then show ?thesis using mixed_frame_exported [of e env "map snd ins" n] assms(1) by simp
qed simp

section \<open>What lets the executor play a clip\<close>

text \<open>
  The client is the executor, the provider the nodes of a clip: \<open>ready since n h\<close> says that \<open>n\<close> frames have been
  pulled, and that an input \<open>p\<close> awaits no refill or has given at most \<open>since p\<close> frames of its block. A clip is a matter of
  its own nodes and of nodes that hold options; a pull gives the next frame, if no input has used up the 409 frames of a
  block whose successor is awaited, and says at the last one that it is over; until its first frame it needs no refill.
\<close>

locale frame_source =
  fixes e :: float_env and env :: "string \<Rightarrow> file_io" and p :: nat and inputs :: "nat list"
    and ready :: "(nat \<Rightarrow> nat) \<Rightarrow> nat \<Rightarrow> heap \<Rightarrow> bool" and frames :: nat and frame :: "nat \<Rightarrow> bytes" and closes :: bool
  assumes own_nodes: "ready since n h \<Longrightarrow> length h' = length h \<Longrightarrow> \<forall>x\<in>insert p (set inputs). h' ! x = h ! x
      \<Longrightarrow> \<forall>x < length h. is_options (h ! x) \<longrightarrow> h' ! x = h ! x \<Longrightarrow> ready since n h'"
    and not_started: "ready since 0 h \<Longrightarrow> distinct ps \<Longrightarrow> ready since' 0 (refill_all env ps h)"
    and frame_length: "ready since n h \<Longrightarrow> n < frames \<Longrightarrow> length (frame n) = 320"
    and pull: "ready since n h \<Longrightarrow> n < frames \<Longrightarrow> \<forall>x\<in>set inputs. since x < 409
      \<Longrightarrow> pull_result e env p inputs (frame n) (frames \<le> Suc n) closes (\<lambda>ps. ready (waited ps since) (Suc n)) h"
begin

text \<open>A frame after which the clip, or the one after it, goes on.\<close>

lemma next_frame:
  assumes "ready since n (x_heap x)" and "n < frames" and "\<forall>y\<in>set inputs. since y < 409" and "x_current_node x = Some p"
    and "frames \<le> Suc n \<longrightarrow> closes \<and> n_target (x_heap x ! p) = Some q"
  shows "\<exists>x'. get_next_frame e env (replicate 320 0) x = Some ((True, no_error), frame n, x')
    \<and> x_current_node x' = Some (if frames \<le> Suc n then q else p) \<and> changed (insert p (set inputs)) (x_heap x) (x_heap x')
    \<and> (Suc n < frames \<longrightarrow> (\<forall>ps. distinct ps \<longrightarrow> ready (waited ps since) (Suc n) (refill_all env ps (x_heap x'))))"
proof -
  obtain h1 r h2 where h1: "process_frame e p (x_heap x) (replicate 320 0) = Some (Inr (), frame n, h1)"
      "changed (insert p (set inputs)) (x_heap x) h1" "is_complete (h1 ! p) = (frames \<le> Suc n)"
      "\<forall>ps. distinct ps \<longrightarrow> ready (waited ps since) (Suc n) (refill_all env ps h1)"
      "close env p h1 = (r, h2)" "changed (insert p (set inputs)) h1 h2" "closes \<longrightarrow> r = Inr ()"
    using pull [OF assms(1-3)] unfolding pull_result_def by blast
  show ?thesis
  proof (cases "frames \<le> Suc n")
    case True
    then have "n_target (h2 ! p) = Some q" "r = Inr ()" using assms(5) h1(2,6,7) by (simp_all add: changed_def)
    then show ?thesis
      using True h1(1,3,5) assms(4) changed_trans [OF h1(2,6)]
      by (simp add: get_next_frame_def set_heap_def advance_to_next_node_def Let_def)
  next
    case False
    then show ?thesis using h1(1-4) assms(4) by (simp add: get_next_frame_def set_heap_def)
  qed
qed

text \<open>The last frame of the last clip is pulled and not handed on.\<close>

lemma last_frame:
  assumes "ready since n (x_heap x)" and "n < frames" and "\<forall>y\<in>set inputs. since y < 409" and "frames \<le> Suc n"
    and "x_current_node x = Some p" and "n_target (x_heap x ! p) = None"
  shows "\<exists>status out x'. get_next_frame e env (replicate 320 0) x = Some ((False, status), out, x')"
proof -
  obtain h1 r h2 where h1: "process_frame e p (x_heap x) (replicate 320 0) = Some (Inr (), frame n, h1)" "is_complete (h1 ! p)"
      "changed (insert p (set inputs)) (x_heap x) h1" "close env p h1 = (r, h2)" "changed (insert p (set inputs)) h1 h2"
    using pull [OF assms(1-3)] assms(4) unfolding pull_result_def by blast
  then have "n_target (h2 ! p) = None" using assms(6) by (simp add: changed_def)
  then show ?thesis
    using h1(1,2,4) assms(5) by (cases r) (simp_all add: get_next_frame_def set_heap_def advance_to_next_node_def Let_def)
qed

end

lemma clip_in_heap: "clip_ready e env c since n h \<Longrightarrow> x \<in> clip_nodes c \<Longrightarrow> x < length h"
  by (cases c) (auto simp: clip_nodes_def inputs_at_def)

interpretation clip: frame_source e env "clip_node c" "clip_inputs c" "clip_ready e env c" "clip_frames env c" "clip_frame e env c" "clip_closes env c"
  for e env c
proof (unfold_locales, unfold clip_nodes_def [symmetric])
  show "clip_ready e env c since n h'" if "clip_ready e env c since n h" "length h' = length h" "\<forall>x\<in>clip_nodes c. h' ! x = h ! x"
    "\<forall>x < length h. is_options (h ! x) \<longrightarrow> h' ! x = h ! x" for since n h h'
    using clip_ready_cong that by blast
  show "clip_ready e env c since' 0 (refill_all env ps h)" if "clip_ready e env c since 0 h" "distinct ps" for since since' h ps
    using clip_ready_start that by blast
  show "length (clip_frame e env c n) = 320" if "clip_ready e env c since n h" "n < clip_frames env c" for since n h
    using clip_frame_length that by blast
  show "pull_result e env (clip_node c) (clip_inputs c) (clip_frame e env c n) (clip_frames env c \<le> Suc n) (clip_closes env c)
      (\<lambda>ps. clip_ready e env c (waited ps since) (Suc n)) h"
    if "clip_ready e env c since n h" "n < clip_frames env c" "\<forall>x\<in>set (clip_inputs c). since x < 409" for since n h
  proof (cases c)
    case (File_Clip p t)
    then show ?thesis using file_pull [of e env p t since n h] that by (simp del: clip_ready.simps)
  next
    case (Mix_Clip p ins)
    then show ?thesis using mix_pull [of e env p ins since n h] that by (simp del: clip_ready.simps)
  next
    case (Delay_Clip p k)
    then show ?thesis using delay_pull [of e env p k since n h] that by (simp add: clip_closes_def del: clip_ready.simps)
  qed
qed

section \<open>A list of clips\<close>

definition programme_frames :: "float_env \<Rightarrow> (string \<Rightarrow> file_io) \<Rightarrow> clip list \<Rightarrow> bytes list" where
  "programme_frames e env cs = concat (map (\<lambda>c. map (clip_frame e env c) [0..<clip_frames env c]) cs)"

definition programme_inputs :: "clip list \<Rightarrow> nat list" where
  "programme_inputs cs = concat (map clip_inputs cs)"

text \<open>Each clip leads to the next one, and the last one nowhere.\<close>

fun linked :: "heap \<Rightarrow> clip list \<Rightarrow> bool" where
  "linked h [] \<longleftrightarrow> True"
| "linked h [c] \<longleftrightarrow> n_target (h ! clip_node c) = None"
| "linked h (c # d # cs) \<longleftrightarrow> n_target (h ! clip_node c) = Some (clip_node d) \<and> linked h (d # cs)"

fun apart :: "clip list \<Rightarrow> bool" where
  "apart [] \<longleftrightarrow> True"
| "apart (c # cs) \<longleftrightarrow> (\<forall>d\<in>set cs. clip_nodes c \<inter> clip_nodes d = {}) \<and> apart cs"

definition scheduled :: "float_env \<Rightarrow> (string \<Rightarrow> file_io) \<Rightarrow> (nat \<Rightarrow> nat) \<Rightarrow> clip list \<Rightarrow> nat \<Rightarrow> heap \<Rightarrow> bool" where
  "scheduled e env since cs n h \<longleftrightarrow> apart cs \<and> linked h cs \<and> (\<forall>c\<in>set (butlast cs). clip_closes env c)
     \<and> (case cs of [] \<Rightarrow> False
        | c # cs \<Rightarrow> clip_ready e env c since n h \<and> n < clip_frames env c \<and> (\<forall>d\<in>set cs. clip_ready e env d since 0 h \<and> 0 < clip_frames env d))"

lemma linked_cong:
  "(\<And>c. c \<in> set cs \<Longrightarrow> n_target (h' ! clip_node c) = n_target (h ! clip_node c)) \<Longrightarrow> linked h' cs = linked h cs"
  by (induction h cs rule: linked.induct) auto

text \<open>What is due after \<open>n\<close> frames of the first clip, and what is due after one more.\<close>

definition after_frame :: "(string \<Rightarrow> file_io) \<Rightarrow> clip list \<Rightarrow> nat \<Rightarrow> clip list \<times> nat" where
  "after_frame env cs n = (case cs of [] \<Rightarrow> ([], 0) | c # cs \<Rightarrow> if clip_frames env c \<le> Suc n then (cs, 0) else (c # cs, Suc n))"

lemma programme_frame:
  assumes "n < clip_frames env c" and "after_frame env (c # cs) n = (cs', n')"
  shows "drop n (programme_frames e env (c # cs)) = clip_frame e env c n # drop n' (programme_frames e env cs')"
proof -
  let ?f = "map (clip_frame e env c) [0..<clip_frames env c]"
  have "n < length (programme_frames e env (c # cs))" using assms(1) by (simp add: programme_frames_def)
  then have "drop n (programme_frames e env (c # cs)) = clip_frame e env c n # drop (Suc n) (programme_frames e env (c # cs))"
    using assms(1) by (subst Cons_nth_drop_Suc [symmetric]) (simp_all add: programme_frames_def nth_append)
  moreover have "drop (Suc n) (programme_frames e env (c # cs)) = drop n' (programme_frames e env cs')"
    using assms by (auto simp: after_frame_def programme_frames_def split: if_splits)
  ultimately show ?thesis by simp
qed

lemma scheduled_frames: "scheduled e env since cs n h \<Longrightarrow> drop n (programme_frames e env cs) \<noteq> []"
  by (cases cs) (simp_all add: scheduled_def programme_frames_def)

text \<open>A pull that does not end the list.\<close>

lemma scheduled_next:
  assumes "scheduled e env since (c # cs) n (x_heap x)" and "x_current_node x = Some (clip_node c)"
    and "\<forall>y\<in>set (clip_inputs c). since y < 409" and after: "after_frame env (c # cs) n = (cs', n')" and "cs' \<noteq> []"
  shows "\<exists>x'. get_next_frame e env (replicate 320 0) x = Some ((True, no_error), clip_frame e env c n, x')
    \<and> x_current_node x' = Some (clip_node (hd cs'))
    \<and> (\<forall>ps. distinct ps \<longrightarrow> scheduled e env (waited ps since) cs' n' (refill_all env ps (x_heap x')))"
proof -
  have s: "apart (c # cs)" "linked (x_heap x) (c # cs)" "\<forall>c\<in>set (butlast (c # cs)). clip_closes env c"
      "clip_ready e env c since n (x_heap x)" "n < clip_frames env c" "\<forall>d\<in>set cs. clip_ready e env d since 0 (x_heap x) \<and> 0 < clip_frames env d"
    using assms(1) by (simp_all add: scheduled_def)
  have lead: "clip_frames env c \<le> Suc n \<longrightarrow> clip_closes env c \<and> n_target (x_heap x ! clip_node c) = Some (clip_node (hd cs))"
    using after assms(5) s(2,3) by (cases cs) (auto simp: after_frame_def)
  obtain x' where x': "get_next_frame e env (replicate 320 0) x = Some ((True, no_error), clip_frame e env c n, x')"
      "x_current_node x' = Some (if clip_frames env c \<le> Suc n then clip_node (hd cs) else clip_node c)"
      "changed (clip_nodes c) (x_heap x) (x_heap x')"
      "Suc n < clip_frames env c \<longrightarrow> (\<forall>ps. distinct ps \<longrightarrow> clip_ready e env c (waited ps since) (Suc n) (refill_all env ps (x_heap x')))"
    using clip.next_frame [OF s(4,5) assms(3,2) lead] unfolding clip_nodes_def by metis
  have "scheduled e env (waited ps since) cs' n' (refill_all env ps (x_heap x'))" if ps: "distinct ps" for ps
  proof -
    let ?h = "refill_all env ps (x_heap x')"
    have rest: "clip_ready e env d since' 0 ?h" if "d \<in> set cs" for d since'
    proof -
      have "\<forall>y\<in>clip_nodes d. x_heap x' ! y = x_heap x ! y" using s(1) that x'(3) by (auto simp: changed_def)
      moreover have "\<forall>y < length (x_heap x). is_options (x_heap x ! y) \<longrightarrow> x_heap x' ! y = x_heap x ! y"
        using clip_nodes_options [OF s(4)] x'(3) by (auto simp: changed_def simp del: is_options.simps)
      ultimately have "clip_ready e env d since 0 (x_heap x')"
        using clip_ready_cong [of e env d since 0 "x_heap x" "x_heap x'"] s(6) that x'(3) by (simp add: changed_def)
      then show ?thesis using clip.not_started ps by blast
    qed
    have targets: "n_target (?h ! y) = n_target (x_heap x ! y)" for y
      using x'(3) refill_all_changed [of ps "x_heap x'" env] by (simp add: changed_def)
    have "linked ?h xs = linked (x_heap x) xs" for xs by (rule linked_cong) (rule targets)
    then have linked: "linked ?h (c # cs)" using s(2) by simp
    then have rest_linked: "linked ?h cs" by (cases cs) simp_all
    show ?thesis
    proof (cases "clip_frames env c \<le> Suc n")
      case True
      then have "cs' = cs" "n' = 0" "cs \<noteq> []" using after assms(5) by (simp_all add: after_frame_def)
      then show ?thesis using s(1,3,6) rest rest_linked by (cases cs) (simp_all add: scheduled_def)
    next
      case False
      then have cs': "cs' = c # cs" "n' = Suc n" using after by (simp_all add: after_frame_def)
      have "clip_ready e env c (waited ps since) (Suc n) ?h" using x'(4) False ps by simp
      then show ?thesis using False cs' s(1,3,6) rest linked by (simp add: scheduled_def)
    qed
  qed
  moreover have "x_current_node x' = Some (clip_node (hd cs'))"
    using x'(2) after by (cases "clip_frames env c \<le> Suc n") (auto simp: after_frame_def)
  ultimately show ?thesis using x'(1) by blast
qed

lemma scheduled_last:
  assumes "scheduled e env since (c # cs) n (x_heap x)" and "x_current_node x = Some (clip_node c)"
    and "\<forall>y\<in>set (clip_inputs c). since y < 409" and "fst (after_frame env (c # cs) n) = []"
  shows "\<exists>status out x'. get_next_frame e env (replicate 320 0) x = Some ((False, status), out, x')"
proof -
  have "cs = []" "clip_frames env c \<le> Suc n" using assms(4) by (auto simp: after_frame_def split: if_splits)
  then show ?thesis
    using assms(1-3) clip.last_frame [of e env c since n x] by (simp add: scheduled_def)
qed

end
