(* ===== verification/Broadcast.thy ===== *)
theory Broadcast
  imports Programme
begin

text \<open>
  What a session sends: the clips of its graph, the executor, the session and the streamer together,
  from the spawned coroutine to the last packet. A round is a tick and the refills that the I/O threads run
  before the next one. They may come late: the two buffers leave them the 409 frames of a block.
\<close>

section \<open>Rounds\<close>

text \<open>The datagrams of a tick: destinations and bytes.\<close>

definition transmitted :: "'ep session_env \<Rightarrow> (nat \<Rightarrow> rat) \<Rightarrow> bool \<Rightarrow> 'ep session \<Rightarrow> ('ep \<times> bytes) list" where
  "transmitted v draw due s =
     (case process_and_stream_single_frame v draw due s of
        None \<Rightarrow> []
      | Some (r, sends, s') \<Rightarrow> map (\<lambda>(ep, slot, n). (ep, take n (s_packet_ring (se_streamer s') ! slot))) sends)"

text \<open>The draws of the loss simulation, whether statistics are due, and the nodes that are refilled.\<close>

type_synonym tick_round = "(nat \<Rightarrow> rat) \<times> bool \<times> nat list"

fun broadcast :: "'ep session_env \<Rightarrow> tick_round list \<Rightarrow> 'ep session \<Rightarrow> ('ep \<times> bytes) list list \<times> 'ep session" where
  "broadcast v [] s = ([], s)"
| "broadcast v ((draw, due, ps) # rounds) s =
     (let (outs, s') = broadcast v rounds (fold (refilled v) ps (tick v draw due s)) in (transmitted v draw due s # outs, s'))"

definition round_labels :: "tick_round list \<Rightarrow> label list" where
  "round_labels rounds = concat (map (\<lambda>(draw, due, ps). Tick draw due # map Refilled ps) rounds)"

text \<open>No input goes 409 rounds without a refill and then one more.\<close>

definition in_time :: "nat list \<Rightarrow> tick_round list \<Rightarrow> bool" where
  "in_time ins rounds \<longleftrightarrow> (\<forall>(draw, due, ps)\<in>set rounds. distinct ps)
     \<and> (\<forall>p\<in>set ins. \<forall>i. i + 409 < length rounds \<longrightarrow> (\<exists>j < 409. p \<in> set (snd (snd (rounds ! (i + j))))))"

lemma in_time_always:
  "\<forall>(draw, due, ps)\<in>set rounds. distinct ps \<and> set ins \<subseteq> set ps \<Longrightarrow> in_time ins rounds"
proof -
  assume every: "\<forall>(draw, due, ps)\<in>set rounds. distinct ps \<and> set ins \<subseteq> set ps"
  have "p \<in> set (snd (snd (rounds ! (i + 0))))" if "p \<in> set ins" "i + 409 < length rounds" for p i
  proof -
    obtain draw due ps where r: "rounds ! i = (draw, due, ps)" by (metis prod_cases3)
    have "(draw, due, ps) \<in> set rounds" unfolding r [symmetric] using that(2) by simp
    then show ?thesis using every that(1) by (fastforce simp: r)
  qed
  then show ?thesis using every unfolding in_time_def by (metis (no_types, lifting) case_prodD case_prodI2 zero_less_numeral)
qed

text \<open>The same round by round, from the rounds that each input has waited.\<close>

fun in_time_from :: "nat list \<Rightarrow> (nat \<Rightarrow> nat) \<Rightarrow> tick_round list \<Rightarrow> bool" where
  "in_time_from ins since [] \<longleftrightarrow> True"
| "in_time_from ins since ((draw, due, ps) # rounds) \<longleftrightarrow>
     (\<forall>p\<in>set ins. since p < 409) \<and> distinct ps \<and> in_time_from ins (waited ps since) rounds"

lemma in_time_from_start:
  assumes "\<forall>(draw, due, ps)\<in>set rounds. distinct ps"
    and "\<forall>p\<in>set ins. \<forall>i. i + 409 < length rounds \<longrightarrow> (\<exists>j < 409. p \<in> set (snd (snd (rounds ! (i + j)))))"
    and "\<forall>p\<in>set ins. \<forall>k < length rounds. 409 \<le> since p + k \<longrightarrow> (\<exists>j < k. p \<in> set (snd (snd (rounds ! j))))"
  shows "in_time_from ins since rounds"
  using assms
proof (induction rounds arbitrary: since)
  case (Cons r rounds)
  obtain draw due ps where r: "r = (draw, due, ps)" by (metis prod_cases3)
  have windows: "\<exists>j < 409. p \<in> set (snd (snd (rounds ! (i + j))))" if "p \<in> set ins" "i + 409 < length rounds" for p i
    using Cons.prems(2) [rule_format, OF that(1), of "Suc i"] that(2) by simp
  have "\<exists>j < k. p \<in> set (snd (snd (rounds ! j)))" if p: "p \<in> set ins" and k: "k < length rounds" "409 \<le> waited ps since p + k" for p k
  proof (cases "p \<in> set ps")
    case True
    then have "409 \<le> k" using k(2) by (simp add: waited_def)
    then obtain j where "j < 409" "p \<in> set (snd (snd (rounds ! j)))" using windows [OF p, of 0] k(1) by auto
    then show ?thesis using \<open>409 \<le> k\<close> by (intro exI [of _ j]) simp
  next
    case False
    then obtain j where "j < Suc k" "p \<in> set (snd (snd ((r # rounds) ! j)))"
      using Cons.prems(3) [rule_format, OF p, of "Suc k"] k by (auto simp: waited_def)
    then show ?thesis using False by (cases j) (auto simp: r)
  qed
  moreover have "since p < 409" if "p \<in> set ins" for p using Cons.prems(3) [rule_format, OF that, of 0] by (cases "since p < 409") auto
  ultimately show ?case using Cons.IH [of "waited ps since"] Cons.prems(1) windows by (simp add: r)
qed simp

lemma in_time_round_by_round: "in_time ins rounds \<Longrightarrow> in_time_from ins (\<lambda>_. 0) rounds"
  unfolding in_time_def
proof (elim conjE, rule in_time_from_start, goal_cases)
  case 3
  show ?case
  proof (intro ballI allI impI)
    fix p k
    assume k: "p \<in> set ins" "k < length rounds" "409 \<le> 0 + k"
    have "k - 409 + 409 < length rounds" using k(2,3) by simp
    then obtain j where "j < 409" "p \<in> set (snd (snd (rounds ! (k - 409 + j))))" using 3(2) k(1) by blast
    then show "\<exists>j < k. p \<in> set (snd (snd (rounds ! j)))" using k(3) by (intro exI [of _ "k - 409 + j"]) simp
  qed
qed

text \<open>The session waits for the tick of frame \<open>n\<close> of the first of the clips that are left.\<close>

definition on_air :: "'ep session_env \<Rightarrow> (nat \<Rightarrow> nat) \<Rightarrow> clip list \<Rightarrow> nat \<Rightarrow> 'ep session \<Rightarrow> bool" where
  "on_air v since cs n s \<longleftrightarrow> se_control s = WaitTick \<and> se_is_running s \<and> \<not> se_is_paused s \<and> streamer_inv (se_streamer s)
     \<and> x_current_node (se_executor s) = Some (clip_node (hd cs)) \<and> scheduled (v_float v) (v_files v) since cs n (x_heap (se_executor s))"

section \<open>One frame\<close>

text \<open>The datagrams of a frame.\<close>

lemma frame_datagram:
  assumes "streamer_inv st" and "length pcm = 320" and "s_clients st \<noteq> []" and "send_frame ks draw pcm st = (st', sends)"
  shows "streamer_inv st' \<and> s_clients st' = s_clients st \<and> s_encryptor st' = s_encryptor st \<and> s_packetizer st' = next_packet (s_packetizer st)
    \<and> (\<exists>b. map (\<lambda>(ep, slot, n). (ep, take n (s_packet_ring st' ! slot))) sends = map (\<lambda>ep. (ep, b)) (fan_out draw 0 (s_clients st))
        \<and> from_buffer b = Some \<lparr>pkt_header = packet_header (s_packetizer st) (p_sequence_num (s_packetizer st)),
             pkt_payload = alaw_sealed ks (s_encryptor st) (s_packetizer st) pcm\<rparr>)"
proof -
  note eq = send_frame_eq [OF assms(1,2,3), of ks draw]
  have st': "st' = fst (send_frame ks draw pcm st)" using assms(4) by simp
  have ring: "s_ring_index st < length (s_packet_ring st)" "length (s_packet_ring st ! s_ring_index st) = 332"
      "unat (p_payload_type (s_packetizer st)) < 128"
    using assms(1) by (simp_all add: streamer_inv_def)
  obtain sz pk out' where pk: "packet_to_rtp alaw_encode (map_option (aes_encrypt ks) (s_encryptor st)) pcm
      (s_packetizer st) (s_packet_ring st ! s_ring_index st) = (sz, pk, out')" by (metis prod_cases3)
  have sz: "sz = 172" using pk frame_packet [OF assms(1,2), of ks "s_encryptor st"] by simp
  have slot: "s_packet_ring st' ! s_ring_index st = out'" unfolding st' eq pk using ring(1) by simp
  have "from_buffer (take 172 out') = Some \<lparr>pkt_header = packet_header (s_packetizer st) (p_sequence_num (s_packetizer st)),
      pkt_payload = alaw_sealed ks (s_encryptor st) (s_packetizer st) pcm\<rparr>"
    using alaw_packet_parses [OF _ _ _ pk] ring assms(2) sz by simp
  moreover have "map (\<lambda>(ep, slot, n). (ep, take n (s_packet_ring st' ! slot))) sends
      = map (\<lambda>ep. (ep, take 172 out')) (fan_out draw 0 (s_clients st))"
    using assms(4) unfolding eq by (auto simp: slot [symmetric])
  moreover have "streamer_inv st'" unfolding st' by (rule streamer_inv_send_frame [OF assms(1,2)])
  ultimately show ?thesis unfolding st' eq by auto
qed

definition same_stream :: "'ep rtp_streamer \<Rightarrow> 'ep rtp_streamer \<Rightarrow> bool" where
  "same_stream st st' \<longleftrightarrow> s_clients st' = s_clients st \<and> s_encryptor st' = s_encryptor st"

lemma refilled_fields [simp]:
  "se_control (refilled v p s) = se_control s" "se_is_running (refilled v p s) = se_is_running s"
  "se_is_paused (refilled v p s) = se_is_paused s" "se_streamer (refilled v p s) = se_streamer s"
  by (simp_all add: refilled_def)

lemma refilled_executor:
  "se_executor (refilled v p s) = set_heap (upd p (run_refills (v_files v)) (x_heap (se_executor s))) (se_executor s)"
  by (cases "p < length (x_heap (se_executor s))") (simp_all add: refilled_def set_heap_def upd_def list_update_beyond)

lemma fold_refilled:
  "se_control (fold (refilled v) ps s) = se_control s" "se_is_running (fold (refilled v) ps s) = se_is_running s"
  "se_is_paused (fold (refilled v) ps s) = se_is_paused s" "se_streamer (fold (refilled v) ps s) = se_streamer s"
  "x_current_node (se_executor (fold (refilled v) ps s)) = x_current_node (se_executor s)"
  "x_heap (se_executor (fold (refilled v) ps s)) = refill_all (v_files v) ps (x_heap (se_executor s))"
  by (induction ps arbitrary: s) (simp_all add: refill_all_def refilled_executor set_heap_def)

lemma run_refilled: "session_run v (fold (refilled v) ps s) ls s' \<Longrightarrow> session_run v s (map Refilled ps @ ls) s'"
  by (induction ps arbitrary: s) (auto intro: sr_cons ss_refilled)

definition stream_packet :: "keystream \<Rightarrow> aes_strategy option \<Rightarrow> packetizer \<Rightarrow> bytes \<Rightarrow> rtp_packet" where
  "stream_packet ks a pk pcm = \<lparr>pkt_header = packet_header pk (p_sequence_num pk), pkt_payload = alaw_sealed ks a pk pcm\<rparr>"

text \<open>A frame goes out with the numbers that the packetizer holds.\<close>

definition frame_out :: "keystream \<Rightarrow> 'ep rtp_streamer \<Rightarrow> packetizer \<Rightarrow> bytes \<Rightarrow> (nat \<Rightarrow> rat) \<Rightarrow> ('ep \<times> bytes) list \<Rightarrow> bool" where
  "frame_out ks st pk pcm draw out \<longleftrightarrow> (\<exists>b. out = map (\<lambda>ep. (ep, b)) (fan_out draw 0 (s_clients st))
     \<and> from_buffer b = Some (stream_packet ks (s_encryptor st) pk pcm))"

lemma frame_out_same: "same_stream st st' \<Longrightarrow> frame_out ks st' pk pcm draw out = frame_out ks st pk pcm draw out"
  by (simp add: frame_out_def same_stream_def)

section \<open>Rounds of a programme\<close>

lemma on_air_round:
  assumes "on_air v since (c # cs) n s" and "\<forall>p\<in>set (clip_inputs c). since p < 409" and "distinct ps"
    and "after_frame (v_files v) (c # cs) n = (cs', n')" and "cs' \<noteq> []" and "s_clients (se_streamer s) \<noteq> []"
    and s'_def: "s' = fold (refilled v) ps (tick v draw due s)"
  shows "on_air v (waited ps since) cs' n' s' \<and> same_stream (se_streamer s) (se_streamer s')
    \<and> s_packetizer (se_streamer s') = next_packet (s_packetizer (se_streamer s))
    \<and> frame_out (v_keystream v) (se_streamer s) (s_packetizer (se_streamer s)) (clip_frame (v_float v) (v_files v) c n) draw (transmitted v draw due s)"
proof -
  let ?st = "se_streamer s" and ?pcm = "clip_frame (v_float v) (v_files v) c n"
  have air: "se_control s = WaitTick" "se_is_running s" "\<not> se_is_paused s" "streamer_inv ?st" "x_current_node (se_executor s) = Some (clip_node c)"
      "scheduled (v_float v) (v_files v) since (c # cs) n (x_heap (se_executor s))"
    using assms(1) by (simp_all add: on_air_def)
  obtain x where x: "get_next_frame (v_float v) (v_files v) (replicate 320 0) (se_executor s) = Some ((True, no_error), ?pcm, x)"
      "x_current_node x = Some (clip_node (hd cs'))" "scheduled (v_float v) (v_files v) (waited ps since) cs' n' (refill_all (v_files v) ps (x_heap x))"
    using scheduled_next [OF air(6,5) assms(2,4,5)] assms(3) by blast
  have len: "length ?pcm = 320" using air(6) clip_frame_length [of "v_float v" "v_files v" c since n "x_heap (se_executor s)"] by (simp add: scheduled_def)
  obtain st' sends where f: "send_frame (v_keystream v) draw ?pcm ?st = (st', sends)" by fastforce
  note d = frame_datagram [OF air(4) len assms(6) f]
  define s1 where "s1 = update_stats_if_needed due (bump_packets (s\<lparr>se_executor := x, se_streamer := st'\<rparr>))"
  have s1: "process_and_stream_single_frame v draw due s = Some (Inr (), sends, s1)" "se_streamer s1 = st'"
      "x_heap (se_executor s1) = x_heap x" "x_current_node (se_executor s1) = x_current_node x"
    using x f by (simp_all add: process_and_stream_single_frame_def s1_def Let_def)
      (simp_all add: update_stats_if_needed_def bump_packets_def notify_def)
  note pf = process_fields [OF s1(1)]
  have s': "s' = fold (refilled v) ps (loop_head s1)" using s1(1) by (simp add: s'_def tick_def)
  then have "on_air v (waited ps since) cs' n' s'" using x(2,3) s1 air pf d unfolding on_air_def s' fold_refilled by simp
  moreover have "se_streamer s' = st'" using s1(2) by (simp add: s' fold_refilled)
  moreover have "transmitted v draw due s = map (\<lambda>(ep, slot, n). (ep, take n (s_packet_ring st' ! slot))) sends"
    using s1(1,2) by (simp add: transmitted_def)
  ultimately show ?thesis using d by (simp add: same_stream_def frame_out_def stream_packet_def)
qed

lemma on_air_last:
  assumes "on_air v since (c # cs) n s" and "\<forall>p\<in>set (clip_inputs c). since p < 409" and "fst (after_frame (v_files v) (c # cs) n) = []"
  shows "transmitted v draw due s = [] \<and> se_control (fold (refilled v) ps (tick v draw due s)) = Finished"
proof -
  obtain status out x where "get_next_frame (v_float v) (v_files v) (replicate 320 0) (se_executor s) = Some ((False, status), out, x)"
    using scheduled_last [of "v_float v" "v_files v" since c cs n "se_executor s"] assms by (auto simp: on_air_def)
  then have "process_and_stream_single_frame v draw due s = Some (Inl status, [], s\<lparr>se_executor := x\<rparr>)"
    by (simp add: process_and_stream_single_frame_def)
  then show ?thesis by (simp add: transmitted_def tick_def fold_refilled)
qed

lemma run_round:
  "se_control s = WaitTick \<Longrightarrow> session_run v (fold (refilled v) ps (tick v draw due s)) ls s' \<Longrightarrow> session_run v s (Tick draw due # map Refilled ps @ ls) s'"
  by (blast intro: sr_cons ss_tick run_refilled)

text \<open>The frames that are left go out one by one, but for the last.\<close>

lemma on_air_broadcast:
  assumes "on_air v since cs n s" and "s_clients (se_streamer s) \<noteq> []" and "length rounds = length fs"
    and "fs = drop n (programme_frames (v_float v) (v_files v) cs)" and "broadcast v rounds s = (outs, s')"
    and "in_time_from ins since rounds" and "set (programme_inputs cs) \<subseteq> set ins"
  shows "session_run v s (round_labels rounds) s' \<and> se_control s' = Finished \<and> length outs = length rounds \<and> last outs = []
    \<and> (\<forall>i. Suc i < length rounds \<longrightarrow> frame_out (v_keystream v) (se_streamer s)
          ((next_packet ^^ i) (s_packetizer (se_streamer s))) (fs ! i) (fst (rounds ! i)) (outs ! i))"
  using assms
proof (induction rounds arbitrary: since n s outs fs cs)
  case Nil
  then show ?case using scheduled_frames by (fastforce simp: on_air_def)
next
  case (Cons r rounds)
  obtain draw due ps where r: "r = (draw, due, ps)" by (metis prod_cases3)
  obtain c cs1 where c: "cs = c # cs1" "n < clip_frames (v_files v) c"
    using Cons.prems(1) by (cases cs) (auto simp: on_air_def scheduled_def)
  obtain cs' n' where a: "after_frame (v_files v) (c # cs1) n = (cs', n')" by fastforce
  let ?s1 = "fold (refilled v) ps (tick v draw due s)" and ?pcm = "clip_frame (v_float v) (v_files v) c n"
  define fs1 where "fs1 = drop n' (programme_frames (v_float v) (v_files v) cs')"
  have fs: "fs = ?pcm # fs1" using programme_frame [OF c(2) a, of "v_float v"] Cons.prems(4) c(1) by (simp add: fs1_def)
  have "set cs' \<subseteq> set cs" using a by (auto simp: c(1) after_frame_def split: if_splits)
  then have "set (programme_inputs cs') \<subseteq> set ins" using Cons.prems(7) by (fastforce simp: programme_inputs_def)
  then have inputs: "\<forall>p\<in>set (clip_inputs c). since p < 409" "distinct ps" "in_time_from ins (waited ps since) rounds" "set (programme_inputs cs') \<subseteq> set ins"
    using Cons.prems(6,7) by (auto simp: r c(1) programme_inputs_def)
  have wait: "se_control s = WaitTick" using Cons.prems(1) by (simp add: on_air_def)
  obtain outs1 where outs: "broadcast v rounds ?s1 = (outs1, s')" "outs = transmitted v draw due s # outs1"
    using Cons.prems(5) by (auto simp: r split: prod.splits)
  show ?case
  proof (cases "cs' = []")
    case True
    then have "rounds = []" using Cons.prems(3) fs by (simp add: fs1_def programme_frames_def)
    moreover have "transmitted v draw due s = [] \<and> se_control ?s1 = Finished"
      using on_air_last [of v since c cs1 n s draw due ps] Cons.prems(1) inputs(1) a True c(1) by simp
    ultimately show ?thesis
      using outs run_round [OF wait sr_nil, where v = v and ps = ps and draw = draw and due = due] by (simp add: r round_labels_def)
  next
    case False
    have first: "on_air v (waited ps since) cs' n' ?s1" "same_stream (se_streamer s) (se_streamer ?s1)"
        "s_packetizer (se_streamer ?s1) = next_packet (s_packetizer (se_streamer s))"
        "frame_out (v_keystream v) (se_streamer s) (s_packetizer (se_streamer s)) ?pcm draw (transmitted v draw due s)"
      using on_air_round [OF Cons.prems(1) [unfolded c(1)] inputs(1,2) a False Cons.prems(2) refl, of draw due] by auto
    have ih: "session_run v ?s1 (round_labels rounds) s' \<and> se_control s' = Finished \<and> length outs1 = length rounds \<and> last outs1 = []
      \<and> (\<forall>i. Suc i < length rounds \<longrightarrow> frame_out (v_keystream v) (se_streamer ?s1)
          ((next_packet ^^ i) (s_packetizer (se_streamer ?s1))) (fs1 ! i) (fst (rounds ! i)) (outs1 ! i))"
      using Cons.IH [OF first(1) _ _ fs1_def outs(1) inputs(3,4)] Cons.prems(2,3) first(2) fs by (simp add: same_stream_def)
    then have "frame_out (v_keystream v) (se_streamer s) ((next_packet ^^ i) (s_packetizer (se_streamer s))) (fs ! i)
        (fst ((r # rounds) ! i)) (outs ! i)" if "Suc i < length (r # rounds)" for i
      using that frame_out_same [OF first(2)] first(3,4) outs(2) r fs by (cases i) (simp_all add: funpow_swap1)
    moreover have "fs1 \<noteq> []" using first(1) scheduled_frames by (fastforce simp: fs1_def on_air_def)
    then have "outs1 \<noteq> []" using ih Cons.prems(3) fs by auto
    ultimately show ?thesis using ih outs(2) run_round [OF wait] by (simp add: r round_labels_def)
  qed
qed

section \<open>The start\<close>

text \<open>The nodes of a clip as the parser leaves them.\<close>

definition fresh_track :: "float_env \<Rightarrow> (string \<Rightarrow> file_io) \<Rightarrow> track \<Rightarrow> heap \<Rightarrow> nat \<Rightarrow> bool" where
  "fresh_track e env t h p \<longleftrightarrow> p < length h \<and> n_processed_frames (h ! p) = 0 \<and> file_ok (env (t_path t)) \<and> has_options h t
     \<and> (\<exists>f. n_body (h ! p) = FileInput f \<and> fi_file_path f = t_path t \<and> \<not> fh_open (fi_handle f) \<and> controller_inv (fi_controller f)
          \<and> tasks (fi_controller f) = [] \<and> in_buffer_processed_frames (fi_controller f) = 0 \<and> options_at e env t 0 f)"

lemma fresh_track_plays:
  assumes "fresh_track e env t h p"
  shows "input_at e env t d 0 (initialize_buffers env (h ! p))"
proof -
  obtain f where f: "n_body (h ! p) = FileInput f" "fi_file_path f = t_path t" "\<not> fh_open (fi_handle f)" "controller_inv (fi_controller f)"
      "tasks (fi_controller f) = []" "in_buffer_processed_frames (fi_controller f) = 0" "options_at e env t 0 f"
      and ok: "file_ok (env (t_path t))" "n_processed_frames (h ! p) = 0"
    using assms by (auto simp: fresh_track_def)
  have at: "file_at env (t_path t) 0 (h ! p)" using f ok by (simp add: file_at_def)
  obtain nd c where i: "initialize_now (fetch_bytes env) (h ! p, fi_controller f) = (nd, c)" by fastforce
  have pl: "playing (file_at env (t_path t)) (audio_block (env (t_path t))) 0 0 (nd, c)"
    using file_source.initialize_playing [OF at f(4-6)] i by simp
  have "same_but_file (h ! p) nd" using initialize_now_same [of "h ! p" env "fi_controller f"] i by simp
  then obtain f1 where f1: "n_body nd = FileInput f1" "fi_options f1 = fi_options f" "fi_file_path f1 = t_path t"
      "fi_pitch_shifter f1 = fi_pitch_shifter f" "n_processed_frames nd = 0"
    using f ok by (auto simp: same_but_file_def)
  have r: "initialize_buffers env (h ! p) = set_controller c nd" using f(1) i by (simp add: initialize_buffers_def)
  have "options_at e env t 0 (f1\<lparr>fi_controller := c\<rparr>)" using f(7) f1(2,4) by (auto simp: options_at_def split: option.splits)
  then show ?thesis
    using playing_set_controller [OF pl f1(1)] f1 unfolding r input_at_def streaming_def by (simp add: set_controller_def)
qed

fun clip_fresh :: "float_env \<Rightarrow> (string \<Rightarrow> file_io) \<Rightarrow> graph \<Rightarrow> clip \<Rightarrow> bool" where
  "clip_fresh e env g (File_Clip p t) \<longleftrightarrow> fresh_track e env t (g_nodes g) p"
| "clip_fresh e env g (Mix_Clip p ins) \<longleftrightarrow> float_ok e \<and> p < length (g_nodes g) \<and> p \<in> set (g_mixer_nodes g)
     \<and> n_body (g_nodes g ! p) = Mixer (map fst ins) \<and> n_processed_frames (g_nodes g ! p) = 0
     \<and> n_in_buffer_processed_frames (g_nodes g ! p) = 0 \<and> distinct (map fst ins)
     \<and> (\<forall>(s, t)\<in>set ins. fresh_track e env t (g_nodes g) s \<and> 0 < track_frames env t)"
| "clip_fresh e env g (Delay_Clip p k) \<longleftrightarrow> p < length (g_nodes g) \<and> (\<exists>d. n_body (g_nodes g ! p) = Delay d)
     \<and> n_processed_frames (g_nodes g ! p) = 0 \<and> n_in_buffer_processed_frames (g_nodes g ! p) = 0
     \<and> n_total_frames (g_nodes g ! p) = int k \<and> k < 2 ^ 31"

text \<open>A graph that plays the clips in this order.\<close>

definition programme_graph :: "float_env \<Rightarrow> (string \<Rightarrow> file_io) \<Rightarrow> clip list \<Rightarrow> graph \<Rightarrow> bool" where
  "programme_graph e env cs g \<longleftrightarrow> cs \<noteq> [] \<and> g_start_node g = Some (clip_node (hd cs)) \<and> apart cs \<and> linked (g_nodes g) cs
     \<and> (\<forall>c\<in>set cs. clip_fresh e env g c \<and> 0 < clip_frames env c) \<and> (\<forall>c\<in>set (butlast cs). clip_closes env c)"

lemma set_max_frames_other: "kind (h ! p) \<noteq> KMixer \<Longrightarrow> set_max_frames m h ! p = h ! p"
  by (cases "m = p") (auto simp: set_max_frames_def upd_def split: node_body.splits)

lemma update_mixers_other: "kind (h ! p) \<noteq> KMixer \<Longrightarrow> update_mixers ms h ! p = h ! p \<and> length (update_mixers ms h) = length h"
  unfolding update_mixers_def
proof (induction ms arbitrary: h)
  case (Cons m ms)
  have "length (set_max_frames m h) = length h" by (simp add: set_max_frames_def upd_def split: node_body.split)
  then show ?case using Cons.IH [of "set_max_frames m h"] set_max_frames_other [OF Cons.prems, of m] Cons.prems by simp
qed simp

lemma update_mixers_total:
  assumes "m < length h" and "n_body (h ! m) = Mixer ps" and "\<forall>s\<in>set ps. kind (h ! s) \<noteq> KMixer"
  shows "update_mixers ms h ! m
    = (if m \<in> set ms then (h ! m)\<lparr>n_total_frames := fold (\<lambda>s k. max k (n_total_frames (h ! s))) ps 0\<rparr> else h ! m)"
  using assms
proof (induction ms arbitrary: h)
  case (Cons q ms)
  let ?h = "set_max_frames q h"
  have inputs: "\<forall>s\<in>set ps. ?h ! s = h ! s" using set_max_frames_other Cons.prems(3) by blast
  have len: "length ?h = length h" by (simp add: set_max_frames_def upd_def split: node_body.split)
  have total: "fold (\<lambda>s k. max k (n_total_frames (?h ! s))) ps 0 = fold (\<lambda>s k. max k (n_total_frames (h ! s))) ps (0 :: int)"
    using inputs by (intro fold_cong) simp_all
  have m: "?h ! m = (if m = q then (h ! m)\<lparr>n_total_frames := fold (\<lambda>s k. max k (n_total_frames (h ! s))) ps 0\<rparr> else h ! m)"
    using Cons.prems(1,2) by (auto simp: set_max_frames_def upd_def split: node_body.split)
  have "n_body (?h ! m) = Mixer ps" using m Cons.prems(2) by (cases "m = q") simp_all
  then have "update_mixers ms ?h ! m
      = (if m \<in> set ms then (?h ! m)\<lparr>n_total_frames := fold (\<lambda>s k. max k (n_total_frames (?h ! s))) ps 0\<rparr> else ?h ! m)"
    using Cons.IH [of ?h] Cons.prems inputs len by simp
  then show ?case using m total by (auto simp: update_mixers_def)
qed (simp add: update_mixers_def)

text \<open>The nodes after \<open>prepare\<close> has filled the buffers and told the mixers their lengths.\<close>

lemma fresh_ready:
  assumes "clip_fresh e env g c"
  defines "h \<equiv> update_mixers (g_mixer_nodes g) (initialize_nodes env (g_nodes g))"
  shows "clip_ready e env c since 0 h"
proof -
  let ?h = "initialize_nodes env (g_nodes g)"
  have len: "length h = length (g_nodes g)" using update_mixers_targets [of ?h] by (simp add: h_def same_targets_def initialize_nodes_def)
  have other: "?h ! p = g_nodes g ! p" if "p < length (g_nodes g)" "\<not> is_file (g_nodes g ! p)" for p
    using that by (simp add: initialize_nodes_def initialize_buffers_def split: node_body.splits)
  have options: "has_options h t" if "has_options (g_nodes g) t" for t
  proof (rule has_options_cong [OF that len], intro allI impI)
    fix x
    assume x: "x < length (g_nodes g)" "is_options (g_nodes g ! x)"
    then have kept: "?h ! x = g_nodes g ! x" using other by (auto split: node_body.splits)
    then have "kind (?h ! x) \<noteq> KMixer" using x(2) by (auto split: node_body.splits)
    then show "h ! x = g_nodes g ! x" using update_mixers_other [of ?h x] kept by (simp add: h_def)
  qed
  have played: "p < length (g_nodes g) \<and> input_at e env t d 0 (h ! p) \<and> ?h ! p = h ! p \<and> kind (h ! p) \<noteq> KMixer \<and> has_options h t"
    if "fresh_track e env t (g_nodes g) p" for p t d
  proof -
    have p: "p < length (g_nodes g)" "has_options (g_nodes g) t" using that by (simp_all add: fresh_track_def)
    have "input_at e env t d 0 (?h ! p)" using fresh_track_plays [OF that] p(1) by (simp add: initialize_nodes_def)
    moreover from this have "kind (?h ! p) \<noteq> KMixer" by (auto simp: input_at_def)
    ultimately show ?thesis using update_mixers_other [of ?h p] p options by (simp add: h_def)
  qed
  show ?thesis
  proof (cases c)
    case (File_Clip p t)
    then show ?thesis using assms(1) played len by simp
  next
    case (Mix_Clip p ins)
    then have c: "float_ok e" "p < length (g_nodes g)" "p \<in> set (g_mixer_nodes g)" "n_body (g_nodes g ! p) = Mixer (map fst ins)"
        "n_processed_frames (g_nodes g ! p) = 0" "n_in_buffer_processed_frames (g_nodes g ! p) = 0" "distinct (map fst ins)"
        "\<And>s t. (s, t) \<in> set ins \<Longrightarrow> fresh_track e env t (g_nodes g) s \<and> 0 < track_frames env t"
      using assms(1) by auto
    have "s < length h \<and> 0 < track_frames env t \<and> input_at e env t (since s) 0 (h ! s) \<and> has_options h t" if "(s, t) \<in> set ins" for s t
      using c(8) [OF that] played [of t s "since s"] len by simp
    then have ins: "inputs_at e env ins since 0 h" using c(7) by (auto simp: inputs_at_def)
    have m: "?h ! p = g_nodes g ! p" using other c(2,4) by simp
    have "n_total_frames (?h ! s) = int (track_frames env t)" if "(s, t) \<in> set ins" for s t
      using that c(8) played input_at_frames by metis
    then have "fold (\<lambda>s k. max k (n_total_frames (?h ! s))) (map fst ins) 0 = int (clip_frames env c)"
      using mix_total [of ins ?h env 0] by (simp add: Mix_Clip)
    moreover have "\<forall>s\<in>set (map fst ins). kind (?h ! s) \<noteq> KMixer" using c(8) played by (fastforce simp del: kind.simps)
    ultimately have "h ! p = (g_nodes g ! p)\<lparr>n_total_frames := int (clip_frames env c)\<rparr>"
      using update_mixers_total [of p ?h "map fst ins" "g_mixer_nodes g"] c(2-4) m by (simp add: h_def initialize_nodes_def)
    moreover have "p \<notin> fst ` set ins" using c(4,8) by (fastforce simp: fresh_track_def)
    ultimately show ?thesis using c ins len by (simp add: Mix_Clip)
  next
    case (Delay_Clip p k)
    then have c: "p < length (g_nodes g)" "\<exists>d. n_body (g_nodes g ! p) = Delay d" "n_processed_frames (g_nodes g ! p) = 0"
        "n_in_buffer_processed_frames (g_nodes g ! p) = 0" "n_total_frames (g_nodes g ! p) = int k" "k < 2 ^ 31"
      using assms(1) by auto
    then have "?h ! p = g_nodes g ! p" using other by auto
    moreover have "h ! p = ?h ! p" using update_mixers_other [of ?h p] calculation c(2) by (auto simp: h_def)
    ultimately show ?thesis using c len Delay_Clip by simp
  qed
qed

lemma linked_ends: "linked h (c # cs) \<Longrightarrow> (nxt h ^^ Suc (length cs)) (Some (clip_node c)) = None"
proof (induction cs arbitrary: c)
  case (Cons d cs)
  then show ?case by (simp add: funpow_swap1)
qed simp

lemma linked_no_loop:
  assumes "linked h cs" and "cs \<noteq> []"
  shows "detect_and_flag_loops (Some (clip_node (hd cs))) h = Some h"
proof -
  have "(nxt h ^^ Suc (length (tl cs))) (Some (clip_node (hd cs))) = None" using assms linked_ends [of h "hd cs" "tl cs"] by simp
  then have "\<not> on_cycle h (clip_node (hd cs)) c" for c by (rule ends_no_cycle)
  moreover have "on_cycle h (clip_node (hd cs)) c" if "find_cycle h [] (Some (clip_node (hd cs))) = Some c" for c
    by (rule find_cycle_Some [OF that, of 0]) simp_all
  ultimately show ?thesis by (auto simp: detect_and_flag_loops_def split: option.split)
qed

lemma prepare_programme:
  assumes "programme_graph e env cs (x_graph x)" and "x_current_node x = Some (clip_node (hd cs))"
    and "has_value (await_all_dynamic (g_file_nodes (x_graph x)) received)"
  shows "\<exists>x'. prepare env received x = Some (Inr (), x') \<and> x_current_node x' = Some (clip_node (hd cs))
    \<and> scheduled e env (\<lambda>_. 0) cs 0 (x_heap x') \<and> g_clients_node (x_graph x') = g_clients_node (x_graph x)
    \<and> (\<forall>q cs. q < length (x_heap x) \<longrightarrow> n_body (x_heap x ! q) = Clients cs \<longrightarrow> n_body (x_heap x' ! q) = Clients cs)"
proof -
  let ?g = "x_graph x"
  define h where "h = update_mixers (g_mixer_nodes ?g) (initialize_nodes env (x_heap x))"
  have g: "cs \<noteq> []" "g_start_node ?g = Some (clip_node (hd cs))" "apart cs" "linked (x_heap x) cs"
      "\<forall>c\<in>set cs. clip_fresh e env ?g c \<and> 0 < clip_frames env c" "\<forall>c\<in>set (butlast cs). clip_closes env c"
    using assms(1) by (simp_all add: programme_graph_def)
  have ready: "\<forall>c\<in>set cs. clip_ready e env c (\<lambda>_. 0) 0 h" using g(5) fresh_ready by (auto simp: h_def)
  have "same_targets (x_heap x) h"
    unfolding h_def by (rule same_targets_trans [OF initialize_nodes_targets update_mixers_targets])
  then have "n_target (h ! clip_node c) = n_target (x_heap x ! clip_node c)" if "c \<in> set cs" for c
    using that ready clip_in_heap [of e env c "\<lambda>_. 0" 0 h "clip_node c"] by (simp add: same_targets_def clip_nodes_def)
  then have linked: "linked h cs" using g(4) linked_cong by metis
  have clients: "n_body (h ! q) = Clients cs" if "q < length (x_heap x)" "n_body (x_heap x ! q) = Clients cs" for q cs
  proof -
    have "initialize_nodes env (x_heap x) ! q = x_heap x ! q" using that by (simp add: initialize_nodes_def initialize_buffers_def)
    then show ?thesis using update_mixers_other [of "initialize_nodes env (x_heap x)" q] that(2) by (simp add: h_def)
  qed
  have "scheduled e env (\<lambda>_. 0) cs 0 h"
    using g ready linked by (cases cs) (simp_all add: scheduled_def)
  moreover obtain u where "await_all_dynamic (g_file_nodes ?g) received = Inr u"
    using assms(3) by (cases "await_all_dynamic (g_file_nodes ?g) received") auto
  ultimately show ?thesis
    using assms(2) g(2) clients linked_no_loop [OF linked g(1)] by (simp add: prepare_def Let_def set_heap_def h_def)
qed

lemma add_clients_stream:
  "streamer_inv st \<Longrightarrow> streamer_inv (fold (\<lambda>c. streamer_add_client mk rs (ip c) (port c) (loss c)) cs st)
    \<and> s_packetizer (fold (\<lambda>c. streamer_add_client mk rs (ip c) (port c) (loss c)) cs st) = s_packetizer st
    \<and> s_encryptor (fold (\<lambda>c. streamer_add_client mk rs (ip c) (port c) (loss c)) cs st) = s_encryptor st"
proof (induction cs arbitrary: st)
  case (Cons c cs)
  have "s_packetizer (streamer_add_client mk rs (ip c) (port c) (loss c) st) = s_packetizer st"
    "s_encryptor (streamer_add_client mk rs (ip c) (port c) (loss c) st) = s_encryptor st"
    by (simp_all add: streamer_add_client_def split: option.split)
  then show ?case
    using Cons.IH [OF streamer_inv_add_client [OF Cons.prems, of mk rs "ip c" "port c" "loss c"]] by simp
qed simp

lemma configure_stream:
  assumes "\<not> se_is_webrtc s" and "streamer_inv (se_streamer s)"
  shows "\<exists>st. configure_streamer_from_graph v s = Some (s\<lparr>se_streamer := st\<rparr>) \<and> streamer_inv st
    \<and> s_packetizer st = s_packetizer (se_streamer s) \<and> s_encryptor st = s_encryptor (se_streamer s)"
proof (cases "\<exists>p cs. g_clients_node (x_graph (se_executor s)) = Some p \<and> n_body (x_heap (se_executor s) ! p) = Clients cs")
  case True
  then obtain p cs where c: "g_clients_node (x_graph (se_executor s)) = Some p" "n_body (x_heap (se_executor s) ! p) = Clients cs" by blast
  let ?st = "fold (\<lambda>c. streamer_add_client (v_make_endpoint v) (v_resolve v) (cc_ip c) (cc_port c) (cc_packet_loss_ratio c)) cs (se_streamer s)"
  have "configure_streamer_from_graph v s = Some (s\<lparr>se_streamer := ?st\<rparr>)"
    using c assms(1) by (simp add: configure_streamer_from_graph_def)
  then show ?thesis
    using add_clients_stream [OF assms(2), where mk = "v_make_endpoint v" and rs = "v_resolve v" and ip = cc_ip and port = cc_port
        and loss = cc_packet_loss_ratio and cs = cs] by (intro exI [of _ ?st]) simp
next
  case False
  then show ?thesis using assms
    by (intro exI [of _ "se_streamer s"]) (auto simp: configure_streamer_from_graph_def split: option.split node_body.split)
qed

text \<open>The session once its preparation has succeeded.\<close>

lemma started_on_air:
  assumes "programme_graph (v_float v) (v_files v) cs (x_graph (se_executor s))" and "x_current_node (se_executor s) = Some (clip_node (hd cs))"
    and "has_value (await_all_dynamic (g_file_nodes (x_graph (se_executor s))) received)"
    and "\<not> se_is_paused s" and "\<not> se_is_webrtc s" and "streamer_inv (se_streamer s)"
  defines "s1 \<equiv> after_prepare v received (start_session s)"
  shows "on_air v (\<lambda>_. 0) cs 0 s1 \<and> s_packetizer (se_streamer s1) = s_packetizer (se_streamer s)
    \<and> s_encryptor (se_streamer s1) = s_encryptor (se_streamer s)"
proof -
  let ?s = "start_session s"
  obtain x where x: "prepare (v_files v) received (se_executor s) = Some (Inr (), x)" "x_current_node x = Some (clip_node (hd cs))"
      "scheduled (v_float v) (v_files v) (\<lambda>_. 0) cs 0 (x_heap x)"
    using prepare_programme [OF assms(1-3)] by blast
  obtain st where c: "configure_streamer_from_graph v (?s\<lparr>se_executor := x\<rparr>) = Some (?s\<lparr>se_executor := x, se_streamer := st\<rparr>)"
      "streamer_inv st" "s_packetizer st = s_packetizer (se_streamer s)" "s_encryptor st = s_encryptor (se_streamer s)"
    using configure_stream [of "?s\<lparr>se_executor := x\<rparr>" v] assms(5,6) by (auto simp: start_session_def)
  have s1: "s1 = loop_head (?s\<lparr>se_executor := x, se_streamer := st\<rparr>)"
    using x(1) c(1) by (simp add: s1_def after_prepare_def start_session_def)
  show ?thesis
    using x c(2-4) assms(4) unfolding s1 on_air_def by (simp add: start_session_def)
qed

lemma programme_rounds:
  assumes "programme_graph (v_float v) (v_files v) cs (x_graph (se_executor s))" and "x_current_node (se_executor s) = Some (clip_node (hd cs))"
    and "has_value (await_all_dynamic (g_file_nodes (x_graph (se_executor s))) received)"
    and "se_control s = NotStarted" and "\<not> se_is_paused s" and "\<not> se_is_webrtc s" and "streamer_inv (se_streamer s)"
    and s1: "s1 = after_prepare v received (start_session s)" and "s_clients (se_streamer s1) \<noteq> []"
    and fs: "fs = programme_frames (v_float v) (v_files v) cs" and "length rounds = length fs"
    and "in_time (programme_inputs cs) rounds" and b: "broadcast v rounds s1 = (outs, s')"
  shows "session_run v s (Start # Prepared received # round_labels rounds) s' \<and> se_control s' = Finished
    \<and> length outs = length rounds \<and> last outs = [] \<and> s_encryptor (se_streamer s1) = s_encryptor (se_streamer s)
    \<and> (\<forall>i. Suc i < length rounds \<longrightarrow> frame_out (v_keystream v) (se_streamer s1)
          ((next_packet ^^ i) (s_packetizer (se_streamer s))) (fs ! i) (fst (rounds ! i)) (outs ! i))"
proof -
  note air = started_on_air [where v = v, OF assms(1-3) assms(5-7), folded s1]
  note run = on_air_broadcast [OF conjunct1 [OF air] assms(9,11) _ b in_time_round_by_round [OF assms(12)] subset_refl]
  have "session_step v s Start (start_session s)" "session_step v (start_session s) (Prepared received) s1"
    using ss_start [OF assms(4)] ss_prepared [of "start_session s"] by (simp_all add: start_session_def s1)
  then show ?thesis using run air fs by (auto intro: sr_cons)
qed

text \<open>The plainest programme: a graph that starts with a file input, not played yet and without options, that nothing follows.\<close>

definition file_graph :: "string \<Rightarrow> nat \<Rightarrow> graph \<Rightarrow> bool" where
  "file_graph path p g \<longleftrightarrow> g_start_node g = Some p \<and> p < length (g_nodes g) \<and> n_target (g_nodes g ! p) = None
     \<and> fresh_file_input path 0 (g_nodes g ! p)"

lemma file_programme:
  assumes "file_graph path p g" and "file_ok (env path)" and "0 < file_frames (env path)"
  shows "programme_graph e env [File_Clip p (Track path None)] g"
  using assms by (auto simp: file_graph_def programme_graph_def fresh_track_def fresh_file_input_def has_options_def options_at_def)

lemma plain_track_frame: "track_frame e env (Track path None) = piece (env path)"
  by (rule ext) (simp add: track_frame_def)

lemma file_programme_frames:
  "programme_frames e env [File_Clip p (Track path None)] = map (piece (env path)) [0..<file_frames (env path)]"
proof -
  have "clip_frame e env (File_Clip p (Track path None)) = piece (env path)" by (rule ext) (simp add: plain_track_frame)
  then show ?thesis by (simp add: programme_frames_def)
qed

lemma file_rounds:
  assumes "file_graph path p (x_graph (se_executor s))" and "x_current_node (se_executor s) = Some p" and "file_ok (v_files v path)"
    and "has_value (await_all_dynamic (g_file_nodes (x_graph (se_executor s))) received)"
    and "se_control s = NotStarted" and "\<not> se_is_paused s" and "\<not> se_is_webrtc s" and "streamer_inv (se_streamer s)"
    and s1: "s1 = after_prepare v received (start_session s)" and "s_clients (se_streamer s1) \<noteq> []"
    and "length rounds = file_frames (v_files v path)" and "rounds \<noteq> []" and "in_time [p] rounds" and b: "broadcast v rounds s1 = (outs, s')"
  shows "session_run v s (Start # Prepared received # round_labels rounds) s' \<and> se_control s' = Finished
    \<and> length outs = length rounds \<and> last outs = [] \<and> s_encryptor (se_streamer s1) = s_encryptor (se_streamer s)
    \<and> (\<forall>i. Suc i < length rounds \<longrightarrow> frame_out (v_keystream v) (se_streamer s1)
          ((next_packet ^^ i) (s_packetizer (se_streamer s))) (piece (v_files v path) i) (fst (rounds ! i)) (outs ! i))"
proof -
  have "0 < file_frames (v_files v path)" using assms(11,12) by (cases rounds) auto
  then have g: "programme_graph (v_float v) (v_files v) [File_Clip p (Track path None)] (x_graph (se_executor s))"
    using file_programme [where env = "v_files v", OF assms(1,3)] by blast
  have c: "x_current_node (se_executor s) = Some (clip_node (hd [File_Clip p (Track path None)]))" using assms(2) by simp
  have ps: "programme_inputs [File_Clip p (Track path None)] = [p]" by (simp add: programme_inputs_def)
  have len: "length rounds = length (programme_frames (v_float v) (v_files v) [File_Clip p (Track path None)])"
    using assms(11) by (simp add: file_programme_frames)
  show ?thesis
    using programme_rounds [OF g c assms(4-8) s1 assms(10) refl len assms(13) [folded ps] b] assms(11)
    by (simp add: ps file_programme_frames)
qed

section \<open>Properties\<close>

text \<open>What a session on a file sends, from its start: once its files are there and its clients are known,
  the rounds of the \<open>F\<close> frames of the file end it if the file is refilled in time, and round \<open>i\<close> of the first \<open>F - 1\<close> sends each client that the
  simulated loss spares one datagram. It parses as payload type 8 with the \<open>i\<close>-th sequence number,
  timestamp and the SSRC of the stream, and carries the A-law codes, sealed if the session is
  secure, of piece \<open>i\<close> of the file's audio. The last round sends nothing.\<close>

theorem file_broadcast:
  assumes "file_graph path p (x_graph (se_executor s))" and "x_current_node (se_executor s) = Some p" and "file_ok (v_files v path)"
    and "has_value (await_all_dynamic (g_file_nodes (x_graph (se_executor s))) received)"
    and "se_control s = NotStarted" and "\<not> se_is_paused s" and "\<not> se_is_webrtc s" and "streamer_inv (se_streamer s)"
    and "s_clients (se_streamer (after_prepare v received (start_session s))) \<noteq> []"
    and "length rounds = file_frames (v_files v path)" and "rounds \<noteq> []" and "in_time [p] rounds"
  shows "let s1 = after_prepare v received (start_session s); (outs, s') = broadcast v rounds s1; pk = s_packetizer (se_streamer s)
    in session_run v s (Start # Prepared received # round_labels rounds) s' \<and> se_control s' = Finished
     \<and> length outs = length rounds \<and> last outs = []
     \<and> (\<forall>i. Suc i < length rounds \<longrightarrow> (\<exists>b pkt. outs ! i = map (\<lambda>ep. (ep, b)) (fan_out (fst (rounds ! i)) 0 (s_clients (se_streamer s1)))
          \<and> from_buffer b = Some pkt \<and> h_payload_type (pkt_header pkt) = 8
          \<and> h_sequence_num (pkt_header pkt) = p_sequence_num pk + of_nat i
          \<and> h_timestamp (pkt_header pkt) = p_timestamp pk + 160 * of_nat i \<and> h_ssrc (pkt_header pkt) = p_ssrc pk
          \<and> pkt_payload pkt = alaw_sealed (v_keystream v) (s_encryptor (se_streamer s)) ((next_packet ^^ i) pk) (piece (v_files v path) i)))"
proof -
  let ?s1 = "after_prepare v received (start_session s)" let ?pk = "s_packetizer (se_streamer s)"
  obtain outs s' where b: "broadcast v rounds ?s1 = (outs, s')" by fastforce
  note run = file_rounds [OF assms(1-8) refl assms(9-12) b]
  have pk: "p_payload_type ?pk = 8" "p_timestamp_increment ?pk = 160" using assms(8) by (simp_all add: streamer_inv_def)
  have "\<exists>b pkt. outs ! i = map (\<lambda>ep. (ep, b)) (fan_out (fst (rounds ! i)) 0 (s_clients (se_streamer ?s1)))
      \<and> from_buffer b = Some pkt \<and> h_payload_type (pkt_header pkt) = 8
      \<and> h_sequence_num (pkt_header pkt) = p_sequence_num ?pk + of_nat i
      \<and> h_timestamp (pkt_header pkt) = p_timestamp ?pk + 160 * of_nat i \<and> h_ssrc (pkt_header pkt) = p_ssrc ?pk
      \<and> pkt_payload pkt = alaw_sealed (v_keystream v) (s_encryptor (se_streamer s)) ((next_packet ^^ i) ?pk) (piece (v_files v path) i)"
    if "Suc i < length rounds" for i
  proof -
    have "frame_out (v_keystream v) (se_streamer ?s1) ((next_packet ^^ i) ?pk) (piece (v_files v path) i) (fst (rounds ! i)) (outs ! i)"
      using run that by blast
    then show ?thesis
      using run pk by (auto simp: frame_out_def stream_packet_def packet_header_def next_packet_funpow mult.commute)
  qed
  then show ?thesis using run b by (simp add: Let_def)
qed

text \<open>Three frames of a file to the two clients of a streamer.\<close>

definition one_file :: executor where
  "one_file = \<lparr>x_graph = \<lparr>g_nodes = [new_file_input ''a'' ''a.wav''], g_start_node = Some 0, g_file_nodes = [0], g_mixer_nodes = [], g_clients_node = None\<rparr>,
     x_current_node = Some 0, x_stats = empty_stats\<rparr>"

lemma one_file:
  "file_graph ''a.wav'' 0 (x_graph one_file)" "x_current_node one_file = Some 0"
  "has_value (await_all_dynamic (g_file_nodes (x_graph one_file)) [Some (Inr ())])" "g_clients_node (x_graph one_file) = None"
proof -
  have "n_target (new_file_input ''a'' ''a.wav'') = None" by (simp add: new_file_input_def new_node_def)
  then show "file_graph ''a.wav'' 0 (x_graph one_file)" by (simp add: file_graph_def one_file_def fresh_new_file_input)
qed (simp_all add: one_file_def await_all_dynamic_def)

lemma one_file_clients:
  "s_clients (se_streamer (after_prepare demo_env [Some (Inr ())] (start_session (demo_session one_file NotStarted)))) = s_clients demo_streamer"
proof -
  have ok: "file_ok (v_files demo_env ''a.wav'')" "0 < file_frames (v_files demo_env ''a.wav'')"
    using plain_file [of 1000] by (simp_all add: demo_env_def file_frames_def)
  obtain x where "prepare (v_files demo_env) [Some (Inr ())] one_file = Some (Inr (), x)" "g_clients_node (x_graph x) = None"
    using prepare_programme [where e = "v_float demo_env" and env = "v_files demo_env" and x = one_file and received = "[Some (Inr ())]", OF file_programme [OF one_file(1)]] one_file(2-4) ok by auto
  then show ?thesis by (simp add: after_prepare_def start_session_def configure_streamer_from_graph_def)
qed

lemma file_broadcast_witness:
  "\<exists>outs s' b pkt. broadcast demo_env (replicate 3 (\<lambda>_. 0, False, [0]))
       (after_prepare demo_env [Some (Inr ())] (start_session (demo_session one_file NotStarted))) = (outs, s')
     \<and> se_control s' = Finished \<and> length outs = 3 \<and> last outs = [] \<and> outs ! 1 = [(5004, b), (5006, b)]
     \<and> from_buffer b = Some pkt \<and> h_sequence_num (pkt_header pkt) = p_sequence_num (s_packetizer demo_streamer) + 1
     \<and> pkt_payload pkt = alaw_sealed (\<lambda>_ _. None) (s_encryptor demo_streamer) (next_packet (s_packetizer demo_streamer)) (replicate 320 85)"
proof -
  let ?s = "demo_session one_file NotStarted"
  let ?s1 = "after_prepare demo_env [Some (Inr ())] (start_session ?s)"
  have io: "file_ok (v_files demo_env ''a.wav'')" "audio (v_files demo_env ''a.wav'') = replicate 1000 85"
    using plain_file [of 1000] by (simp_all add: demo_env_def)
  have frames: "file_frames (v_files demo_env ''a.wav'') = 3" using io(2) by (simp add: file_frames_def)
  have p: "piece (v_files demo_env ''a.wav'') 1 = replicate 320 85" using io(2) by (simp add: piece_def min_def)
  have ks: "v_keystream demo_env = (\<lambda>_ _. None)" by (simp add: demo_env_def)
  have c: "s_clients (se_streamer ?s1) \<noteq> []" "fan_out (\<lambda>_. 0) 0 (s_clients (se_streamer ?s1)) = [5004, 5006]"
    unfolding one_file_clients demo_streamer(2) by simp_all
  have s: "file_graph ''a.wav'' 0 (x_graph (se_executor ?s))" "x_current_node (se_executor ?s) = Some 0"
      "has_value (await_all_dynamic (g_file_nodes (x_graph (se_executor ?s))) [Some (Inr ())])" "streamer_inv (se_streamer ?s)"
    using one_file demo_streamer(1) by simp_all
  obtain outs s' where b: "broadcast demo_env (replicate 3 (\<lambda>_. 0, False, [0])) ?s1 = (outs, s')" by fastforce
  have "length (replicate 3 ((\<lambda>_. 0) :: nat \<Rightarrow> rat, False, [0])) = file_frames (v_files demo_env ''a.wav'')" using frames by simp
  note file_broadcast [where v = demo_env, OF s(1,2) io(1) s(3) _ _ _ s(4) c(1) this _ in_time_always, unfolded b Let_def prod.case]
  then have r: "se_control s' = Finished" "length outs = 3" "last outs = []"
      "\<forall>i. Suc i < 3 \<longrightarrow> (\<exists>b pkt. outs ! i = map (\<lambda>ep. (ep, b)) (fan_out (\<lambda>_. 0) 0 (s_clients (se_streamer ?s1)))
        \<and> from_buffer b = Some pkt \<and> h_payload_type (pkt_header pkt) = 8
        \<and> h_sequence_num (pkt_header pkt) = p_sequence_num (s_packetizer demo_streamer) + of_nat i
        \<and> h_timestamp (pkt_header pkt) = p_timestamp (s_packetizer demo_streamer) + 160 * of_nat i \<and> h_ssrc (pkt_header pkt) = p_ssrc (s_packetizer demo_streamer)
        \<and> pkt_payload pkt = alaw_sealed (\<lambda>_ _. None) (s_encryptor demo_streamer) ((next_packet ^^ i) (s_packetizer demo_streamer)) (piece (v_files demo_env ''a.wav'') i))"
    by (simp_all add: ks)
  from r(4) [rule_format, of 1] show ?thesis using b r(1-3) c(2) p by (auto simp: one_file_clients)
qed

end
