(* ===== verification/Request_To_Packets.thy ===== *)
theory Request_To_Packets
  imports Broadcast Json_Properties
begin

text \<open>
  The whole path of the program for the plainest stream: a request names a file and a client, and the
  client is sent the audio of the file. The parser, the factory, the session, the executor, the file
  input, the buffers, the codec, the packetizer and the streamer all take part.
\<close>

section \<open>A request for a file\<close>

definition file_request :: "string \<Rightarrow> string \<Rightarrow> int \<Rightarrow> json_object" where
  "file_request name ip port = [(''flow'', JObject
     [(''start_node'', JObject [(''id'', JString ''in'')]),
      (''nodes'', JArray
         [JObject [(''id'', JString ''in''), (''type'', JString ''fileInput''), (''data'', JObject [(''fileName'', JString name)])],
          JObject [(''id'', JString ''out''), (''type'', JString ''clients''),
            (''data'', JObject [(''clients'', JArray [JObject [(''ip'', JString ip), (''port'', JInt64 port)]])])]]),
      (''edges'', JArray [JObject [(''source'', JString ''in''), (''target'', JString ''out'')]])])]"

definition requested_graph :: "string \<Rightarrow> string \<Rightarrow> int \<Rightarrow> graph" where
  "requested_graph name ip port =
     \<lparr>g_nodes = [(new_file_input name (DOWNLOADS_DIR @ name))\<lparr>n_id := ''in''\<rparr>,
        new_clients\<lparr>n_id := ''out'', n_body := Clients [\<lparr>cc_ip = ip, cc_port = word_of_int port, cc_packet_loss_ratio = 0\<rparr>]\<rparr>],
      g_start_node = Some 0, g_file_nodes = [0], g_mixer_nodes = [], g_clients_node = Some 1\<rparr>"

lemma file_request_graph: "parse_graph builtin_factory pe (file_request name ip port) = Inr (Inr (requested_graph name ip port))"
  by (simp add: file_request_def requested_graph_def parse_eval loss_of_def graph.defs)

lemma requested_file_graph: "file_graph (DOWNLOADS_DIR @ name) 0 (requested_graph name ip port)"
proof -
  have "fresh_file_input (DOWNLOADS_DIR @ name) 0 (new_file_input name (DOWNLOADS_DIR @ name))" by (rule fresh_new_file_input)
  then show ?thesis by (simp add: file_graph_def requested_graph_def fresh_file_input_def new_file_input_def new_node_def)
qed

text \<open>The session on it: no clients until the graph is prepared, then the one of the request.\<close>

definition requested_session :: "string \<Rightarrow> graph \<Rightarrow> crypto_config \<Rightarrow> stream_draws \<Rightarrow> string \<Rightarrow> u16 option \<Rightarrow> 'ep session" where
  "requested_session ident g crypto draws janus_ip janus_port =
     \<lparr>se_id = ident, se_is_running = False, se_is_paused = False, se_is_webrtc = False, se_janus_ip = janus_ip, se_janus_port = janus_port,
      se_executor = \<lparr>x_graph = g, x_current_node = g_start_node g, x_stats = empty_stats\<rparr>,
      se_streamer = create_streamer (cf_master_key crypto) (cf_salt crypto) (dr_ssrc draws) (dr_seq draws) (dr_ts draws),
      se_resume_channel = 0, se_timer_cancelled = False, se_observer = None, se_control = NotStarted\<rparr>"

lemma session_create_plain:
  "g_start_node g \<noteq> None \<Longrightarrow>
   session_create v ident g crypto draws False janus_ip janus_port False = Inr (Inr (requested_session ident g crypto draws janus_ip janus_port))"
  by (simp add: session_create_def executor_create_def new_session_def requested_session_def Let_def)

lemma requested_clients:
  assumes "file_ok (v_files v (DOWNLOADS_DIR @ name))" and "v_make_endpoint v ip (word_of_int port) = Some ep"
    and "0 < file_frames (v_files v (DOWNLOADS_DIR @ name))" and "se_executor s = \<lparr>x_graph = requested_graph name ip port, x_current_node = Some 0, x_stats = empty_stats\<rparr>"
    and "\<not> se_is_webrtc s" and "s_clients (se_streamer s) = []"
  shows "s_clients (se_streamer (after_prepare v [Some (Inr ())] (start_session s))) = [\<lparr>rc_endpoint = ep, rc_packet_loss_ratio = 0\<rparr>]"
proof -
  let ?g = "requested_graph name ip port"
  have g: "g_clients_node ?g = Some 1" "n_body (g_nodes ?g ! 1) = Clients [\<lparr>cc_ip = ip, cc_port = word_of_int port, cc_packet_loss_ratio = 0\<rparr>]"
      "1 < length (g_nodes ?g)" "has_value (await_all_dynamic (g_file_nodes ?g) [Some (Inr ())])"
    by (simp_all add: requested_graph_def await_all_dynamic_def)
  obtain x where x: "prepare (v_files v) [Some (Inr ())] (se_executor s) = Some (Inr (), x)" "g_clients_node (x_graph x) = Some 1"
      "n_body (x_heap x ! 1) = Clients [\<lparr>cc_ip = ip, cc_port = word_of_int port, cc_packet_loss_ratio = 0\<rparr>]"
    using prepare_programme [where e = "v_float v" and env = "v_files v" and x = "se_executor s" and received = "[Some (Inr ())]",
        OF file_programme [where env = "v_files v", OF _ assms(1,3)]] requested_file_graph g assms(4) by auto
  show ?thesis
    using x assms(2,5,6)
    by (simp add: after_prepare_def start_session_def configure_streamer_from_graph_def streamer_add_client_def lookup_endpoint_def)
qed

text \<open>A session on such a request, however its streamer is keyed, up to the last packet.\<close>

lemma requested_rounds:
  assumes "file_ok (v_files v (DOWNLOADS_DIR @ name))" and "v_make_endpoint v ip (word_of_int port) = Some ep"
    and "length rounds = file_frames (v_files v (DOWNLOADS_DIR @ name))" and "rounds \<noteq> []"
    and "s = (requested_session ident (requested_graph name ip port) crypto draws janus_ip janus_port)\<lparr>se_streamer := st\<rparr>"
    and "streamer_inv st" and "s_clients st = []" and "in_time [0] rounds"
    and b: "broadcast v rounds (after_prepare v [Some (Inr ())] (start_session s)) = (outs, s')"
  shows "session_run v s (Start # Prepared [Some (Inr ())] # round_labels rounds) s' \<and> se_control s' = Finished
    \<and> length outs = length rounds \<and> last outs = []
    \<and> (\<forall>i. Suc i < length rounds \<longrightarrow> (\<exists>b. outs ! i = [(ep, b)]
          \<and> from_buffer b = Some (stream_packet (v_keystream v) (s_encryptor st) ((next_packet ^^ i) (s_packetizer st)) (piece (v_files v (DOWNLOADS_DIR @ name)) i))))"
proof -
  let ?path = "DOWNLOADS_DIR @ name"
  define s1 where "s1 = after_prepare v [Some (Inr ())] (start_session s)"
  have x: "se_executor s = \<lparr>x_graph = requested_graph name ip port, x_current_node = Some 0, x_stats = empty_stats\<rparr>"
    by (simp add: assms(5) requested_session_def requested_graph_def)
  have s: "file_graph ?path 0 (x_graph (se_executor s))" "x_current_node (se_executor s) = Some 0"
      "has_value (await_all_dynamic (g_file_nodes (x_graph (se_executor s))) [Some (Inr ())])"
    using requested_file_graph unfolding x by (simp_all add: requested_graph_def await_all_dynamic_def)
  have s': "se_control s = NotStarted" "\<not> se_is_paused s" "\<not> se_is_webrtc s" "streamer_inv (se_streamer s)" "se_streamer s = st"
    using assms(5,6) by (simp_all add: requested_session_def)
  have pos: "0 < file_frames (v_files v ?path)" using assms(3,4) by (cases rounds) auto
  have c: "s_clients (se_streamer s1) = [\<lparr>rc_endpoint = ep, rc_packet_loss_ratio = 0\<rparr>]"
    unfolding s1_def using requested_clients [OF assms(1,2) pos x s'(3)] assms(7) s'(5) by simp
  then have ne: "s_clients (se_streamer s1) \<noteq> []" by simp
  note run = file_rounds [OF s(1,2) assms(1) s(3) s'(1-4) s1_def ne assms(3,4,8) b [folded s1_def]]
  have "\<exists>b. outs ! i = [(ep, b)]
      \<and> from_buffer b = Some (stream_packet (v_keystream v) (s_encryptor st) ((next_packet ^^ i) (s_packetizer st)) (piece (v_files v ?path) i))"
    if "Suc i < length rounds" for i
    using run that c s'(5) by (fastforce simp: frame_out_def)
  then show ?thesis using run by blast
qed

section \<open>Properties\<close>

text \<open>C2: From a request to the packets: all the frames of a file but the last. A request that names a file and a client is parsed, a
  session is made of it, and, once the file is there, as many rounds as the file has frames run the session to its end, whenever
  the refills of the file come, if no 409 rounds in a row pass without one. Every
  round but the last sends the client one datagram: an RTP packet of payload type 8 with the
  next sequence number, a timestamp 160 later, the SSRC that was drawn, and as payload the A-law codes
  of the next piece of the file's audio. The last round sends nothing: the last frame is read and dropped, so a file
  of \<open>n\<close> frames makes \<open>n - 1\<close> packets.\<close>

theorem request_to_packets:
  assumes "file_ok (v_files (v :: 'ep session_env) (DOWNLOADS_DIR @ name))" and "v_make_endpoint v ip (word_of_int port) = Some ep"
    and "length rounds = file_frames (v_files v (DOWNLOADS_DIR @ name))" and "rounds \<noteq> []" and "in_time [0] rounds"
  shows "\<exists>g s. parse_graph builtin_factory pe (file_request name ip port) = Inr (Inr g)
    \<and> session_create v ident g crypto draws False janus_ip janus_port False = Inr (Inr s)
    \<and> (let (outs, s') = broadcast v rounds (after_prepare v [Some (Inr ())] (start_session s))
       in session_run v s (Start # Prepared [Some (Inr ())] # round_labels rounds) s' \<and> se_control s' = Finished
        \<and> length outs = length rounds \<and> last outs = []
        \<and> (\<forall>i. Suc i < length rounds \<longrightarrow> (\<exists>b pkt. outs ! i = [(ep, b)] \<and> from_buffer b = Some pkt
             \<and> h_payload_type (pkt_header pkt) = 8 \<and> h_sequence_num (pkt_header pkt) = dr_seq draws + of_nat i
             \<and> h_timestamp (pkt_header pkt) = dr_ts draws + 160 * of_nat i \<and> h_ssrc (pkt_header pkt) = generate_ssrc (dr_ssrc draws)
             \<and> pkt_payload pkt = alaw_codes (piece (v_files v (DOWNLOADS_DIR @ name)) i))))"
proof -
  let ?g = "requested_graph name ip port"
  let ?s = "requested_session ident ?g crypto draws janus_ip janus_port :: 'ep session"
  let ?st = "create_streamer (cf_master_key crypto) (cf_salt crypto) (dr_ssrc draws) (dr_seq draws) (dr_ts draws) :: 'ep rtp_streamer"
  have s: "?s = ?s\<lparr>se_streamer := ?st\<rparr>" "s_clients ?st = []" "s_encryptor ?st = None"
      "s_packetizer ?st = new_packetizer 8 (generate_ssrc (dr_ssrc draws)) 160 (dr_seq draws) (dr_ts draws)"
    by (simp_all add: requested_session_def create_streamer_def alaw_payload_type_def alaw_timestamp_increment_def)
  obtain outs s' where b: "broadcast v rounds (after_prepare v [Some (Inr ())] (start_session ?s)) = (outs, s')" by fastforce
  note run = requested_rounds [OF assms(1-4) s(1) streamer_inv_create s(2) assms(5) b, unfolded s(3,4)]
  have "\<exists>b pkt. outs ! i = [(ep, b)] \<and> from_buffer b = Some pkt
      \<and> h_payload_type (pkt_header pkt) = 8 \<and> h_sequence_num (pkt_header pkt) = dr_seq draws + of_nat i
      \<and> h_timestamp (pkt_header pkt) = dr_ts draws + 160 * of_nat i \<and> h_ssrc (pkt_header pkt) = generate_ssrc (dr_ssrc draws)
      \<and> pkt_payload pkt = alaw_codes (piece (v_files v (DOWNLOADS_DIR @ name)) i)" if "Suc i < length rounds" for i
    using run that
    by (fastforce simp: stream_packet_def packet_header_def next_packet_funpow new_packetizer_def alaw_sealed_def sealed_def mult.commute)
  then show ?thesis
    using run b session_create_plain [of ?g] file_request_graph
    by (intro exI [of _ ?g] exI [of _ ?s]) (simp add: requested_graph_def)
qed

text \<open>A file of 900 frames whose refills come 400 rounds late.\<close>

definition long_env :: "nat session_env" where
  "long_env = demo_env\<lparr>v_files := \<lambda>_. plain_file 288000\<rparr>"

definition late_rounds :: "tick_round list" where
  "late_rounds = map (\<lambda>i. (\<lambda>_. 0, False, if i mod 409 = 400 then [0] else [])) [0..<900]"

lemma late_rounds: "length late_rounds = 900" "late_rounds \<noteq> []" "in_time [0] late_rounds"
proof -
  show len: "length late_rounds = 900" by (simp add: late_rounds_def del: upt_Suc)
  then show "late_rounds \<noteq> []" by auto
  have "\<exists>j < 409. (i + j) mod 409 = 400" if "i + 409 < 900" for i :: nat
  proof (cases "i \<le> 400")
    case False
    then show ?thesis using that by (intro exI [of _ "809 - i"]) simp
  qed (simp add: exI [of _ "400 - i"])
  then have "\<exists>j < 409. 0 \<in> set (snd (snd (late_rounds ! (i + j))))" if "i + 409 < 900" for i
    using that by (fastforce simp: late_rounds_def)
  moreover have "\<forall>(draw, due, ps)\<in>set late_rounds. distinct ps" by (auto simp: late_rounds_def)
  ultimately show "in_time [0] late_rounds" by (simp add: in_time_def len)
qed

lemma request_to_packets_witness:
  "\<exists>g s outs s' b pkt. parse_graph builtin_factory exact_parse_env (file_request ''a.wav'' ''127.0.0.1'' 5004) = Inr (Inr g)
     \<and> session_create long_env ''s'' g \<lparr>cf_master_key = [], cf_salt = []\<rparr> \<lparr>dr_ssrc = 1, dr_seq = 65535, dr_ts = 7\<rparr> False '''' None False = Inr (Inr s)
     \<and> broadcast long_env late_rounds (after_prepare long_env [Some (Inr ())] (start_session s)) = (outs, s')
     \<and> se_control s' = Finished \<and> length outs = 900 \<and> outs ! 850 = [(1, b)] \<and> from_buffer b = Some pkt
     \<and> h_sequence_num (pkt_header pkt) = 849 \<and> h_timestamp (pkt_header pkt) = 136007 \<and> pkt_payload pkt = alaw_codes (replicate 320 85)"
proof -
  let ?path = "DOWNLOADS_DIR @ ''a.wav''" and ?draws = "\<lparr>dr_ssrc = 1, dr_seq = 65535, dr_ts = 7\<rparr>"
  have v: "v_files long_env ?path = plain_file 288000" "v_make_endpoint long_env ''127.0.0.1'' (word_of_int 5004) = Some 1"
    by (simp_all add: long_env_def demo_env_def)
  have io: "file_ok (v_files long_env ?path)" "audio (v_files long_env ?path) = replicate 288000 85"
    using plain_file [of 288000] by (simp_all add: v)
  have p: "piece (v_files long_env ?path) 850 = replicate 320 85" using io(2) by (simp add: piece_def min_def)
  have len: "length late_rounds = file_frames (v_files long_env ?path)" using io(2) by (simp add: late_rounds(1) file_frames_def)
  obtain g s where r: "parse_graph builtin_factory exact_parse_env (file_request ''a.wav'' ''127.0.0.1'' 5004) = Inr (Inr g)"
      "session_create long_env ''s'' g \<lparr>cf_master_key = [], cf_salt = []\<rparr> ?draws False '''' None False = Inr (Inr s)"
      and l: "let (outs, s') = broadcast long_env late_rounds (after_prepare long_env [Some (Inr ())] (start_session s))
       in session_run long_env s (Start # Prepared [Some (Inr ())] # round_labels late_rounds) s' \<and> se_control s' = Finished
        \<and> length outs = length late_rounds \<and> last outs = []
        \<and> (\<forall>i. Suc i < length late_rounds \<longrightarrow> (\<exists>b pkt. outs ! i = [(1, b)] \<and> from_buffer b = Some pkt
             \<and> h_payload_type (pkt_header pkt) = 8 \<and> h_sequence_num (pkt_header pkt) = dr_seq ?draws + of_nat i
             \<and> h_timestamp (pkt_header pkt) = dr_ts ?draws + 160 * of_nat i
             \<and> h_ssrc (pkt_header pkt) = generate_ssrc (dr_ssrc ?draws)
             \<and> pkt_payload pkt = alaw_codes (piece (v_files long_env ?path) i)))"
    using request_to_packets [where pe = exact_parse_env and ident = "''s''" and crypto = "\<lparr>cf_master_key = [], cf_salt = []\<rparr>"
        and draws = ?draws and janus_ip = "''''" and janus_port = None, OF io(1) v(2) len late_rounds(2,3)] by blast
  obtain outs s' where b: "broadcast long_env late_rounds (after_prepare long_env [Some (Inr ())] (start_session s)) = (outs, s')" by fastforce
  have e: "se_control s' = Finished" "length outs = 900" using l late_rounds(1) unfolding b by simp_all
  have "Suc 850 < length late_rounds" by (simp add: late_rounds(1))
  then obtain d pkt where "outs ! 850 = [(1, d)]" "from_buffer d = Some pkt" "h_sequence_num (pkt_header pkt) = 849"
      "h_timestamp (pkt_header pkt) = 136007" "pkt_payload pkt = alaw_codes (replicate 320 85)"
    using l p unfolding b Let_def prod.case by fastforce
  then show ?thesis using r b e by blast
qed

text \<open>
  A receiver of an encrypted stream, who has the master key, the salt and the datagrams, each one in its place. It keeps a roll-over
  counter of its own, from zero on, and counts it up when it sees sequence number 65535: one packet
  before the number starts again, as the sender does (\<open>index_at_rollover\<close>).
\<close>

fun srtp_receive ::
  "keystream \<Rightarrow> (nat \<Rightarrow> bytes \<Rightarrow> bytes \<Rightarrow> bytes \<Rightarrow> bytes) \<Rightarrow> bytes \<Rightarrow> bytes \<Rightarrow> u32 \<Rightarrow> bytes list \<Rightarrow> bytes list option" where
  "srtp_receive ks hkdf master salt roc [] = Some []"
| "srtp_receive ks hkdf master salt roc (b # bs) =
     do {
       pkt \<leftarrow> from_buffer b;
       let seq = h_sequence_num (pkt_header pkt);
       let ssrc = h_ssrc (pkt_header pkt);
       let roc = (if seq = 65535 then roc + 1 else roc);
       iv \<leftarrow> derive_iv_from_ssrc salt ssrc;
       let codes = snd (aes_encrypt ks \<lparr>aes_key = derive_session_key hkdf master ssrc, aes_base_iv = iv\<rparr> (pkt_payload pkt)
          (of_nat (unat roc * 65536 + unat seq)));
       rest \<leftarrow> srtp_receive ks hkdf master salt roc bs;
       Some (codes # rest)
     }"

lemma sender_index:
  "next_index pk = of_nat (unat (p_roc (next_packet pk)) * 65536 + unat (p_sequence_num pk))"
  "p_roc (next_packet pk) = (if p_sequence_num pk = 65535 then p_roc pk + 1 else p_roc pk)"
proof -
  have "next_index pk = packet_index (p_roc (next_packet pk)) (p_sequence_num pk)"
    by (simp add: next_index_def next_packet_def update_timestamp_def)
  then show "next_index pk = of_nat (unat (p_roc (next_packet pk)) * 65536 + unat (p_sequence_num pk))"
    using unat_packet_index [of "p_roc (next_packet pk)" "p_sequence_num pk"] by (metis of_nat_unat ucast_id)
  have "p_sequence_num pk + 1 = 0 \<longleftrightarrow> p_sequence_num pk = 65535"
  proof -
    have "(65535 :: u16) = - 1" by simp
    then show ?thesis using eq_neg_iff_add_eq_0 [of "p_sequence_num pk" 1] by metis
  qed
  then show "p_roc (next_packet pk) = (if p_sequence_num pk = 65535 then p_roc pk + 1 else p_roc pk)"
    by (simp add: next_packet_def update_timestamp_def advance_sequence_def Let_def)
qed

text \<open>The cipher works with keys and IVs of 16 bytes.\<close>

definition ctr_works :: "keystream \<Rightarrow> bool" where
  "ctr_works ks \<longleftrightarrow> (\<forall>key iv. length key = 16 \<longrightarrow> length iv = 16 \<longrightarrow> ks key iv \<noteq> None)"

lemma srtp_receive_stream:
  assumes "ctr_works ks" and "length (aes_key a) = 16" and "length (aes_base_iv a) = 16"
    and "derive_iv_from_ssrc salt (p_ssrc pk) = Some (aes_base_iv a)" and "derive_session_key hkdf master (p_ssrc pk) = aes_key a"
    and "\<forall>i < length bs. from_buffer (bs ! i) = Some (stream_packet ks (Some a) ((next_packet ^^ i) pk) (pcm i))"
  shows "srtp_receive ks hkdf master salt (p_roc pk) bs = Some (map (\<lambda>i. alaw_codes (pcm i)) [0..<length bs])"
  using assms(4-6)
proof (induction bs arbitrary: pk pcm)
  case (Cons b bs)
  have "length (packet_iv a (next_index pk)) = 16" using assms(3) by (simp add: packet_iv_def AES_XOR_OFFSET_def)
  then obtain k where k: "ks (aes_key a) (packet_iv a (next_index pk)) = Some k" using assms(1,2) by (auto simp: ctr_works_def)
  have b: "from_buffer b = Some (stream_packet ks (Some a) pk (pcm 0))" using Cons.prems(3) by force
  have open': "snd (aes_encrypt ks a (alaw_sealed ks (Some a) pk (pcm 0)) (next_index pk)) = alaw_codes (pcm 0)"
    using aes_encrypt_twice [where a = a and ks = ks, OF assms(3) k] by (simp add: alaw_sealed_def sealed_def next_index_def)
  have ssrc: "p_ssrc (next_packet pk) = p_ssrc pk" using next_packet_funpow(5) [of 1 pk] by simp
  have "\<forall>i < length bs. from_buffer (bs ! i) = Some (stream_packet ks (Some a) ((next_packet ^^ i) (next_packet pk)) (pcm (Suc i)))"
    using Cons.prems(3) by (auto simp flip: funpow_swap1)
  then have ih: "srtp_receive ks hkdf master salt (p_roc (next_packet pk)) bs = Some (map (\<lambda>i. alaw_codes (pcm (Suc i))) [0..<length bs])"
    using Cons.IH [of "next_packet pk" "\<lambda>i. pcm (Suc i)"] Cons.prems(1,2) ssrc by simp
  have a: "\<lparr>aes_key = aes_key a, aes_base_iv = aes_base_iv a\<rparr> = a" by simp
  have "map (\<lambda>i. alaw_codes (pcm i)) [0..<length (b # bs)] = alaw_codes (pcm 0) # map (\<lambda>i. alaw_codes (pcm (Suc i))) [0..<length bs]"
    by (simp add: upt_conv_Cons map_Suc_upt [symmetric] del: upt_Suc map_Suc_upt)
  then show ?case
    using ih b Cons.prems(1,2) open' unfolding sender_index
    by (cases "p_sequence_num pk = 65535") (simp_all add: stream_packet_def packet_header_def Let_def a del: upt_Suc)
qed simp

text \<open>C3: The same with encryption. When the salt has sixteen bytes the session is made, and a receiver who has nothing but the
  master key, the salt and the datagrams recovers the A-law codes of the file, frame by frame up to the last but one (the last
  is not sent): the key and the base IV follow from the SSRC that each packet carries, and the packet index from
  the sequence numbers, if the roll-over counter is taken to go up at number 65535, one
  packet early.\<close>

theorem secure_request_decrypts:
  assumes "file_ok (v_files (v :: 'ep session_env) (DOWNLOADS_DIR @ name))" and "v_make_endpoint v ip (word_of_int port) = Some ep"
    and "length rounds = file_frames (v_files v (DOWNLOADS_DIR @ name))" and "rounds \<noteq> []" and "in_time [0] rounds"
    and "length (cf_salt crypto) = 16" and "\<And>master salt info. length (v_hkdf v 16 master salt info) = 16" and "ctr_works (v_keystream v)"
  shows "\<exists>g s. parse_graph builtin_factory pe (file_request name ip port) = Inr (Inr g)
    \<and> session_create v ident g crypto draws False janus_ip janus_port True = Inr (Inr s)
    \<and> (let (outs, s') = broadcast v rounds (after_prepare v [Some (Inr ())] (start_session s))
       in session_run v s (Start # Prepared [Some (Inr ())] # round_labels rounds) s' \<and> se_control s' = Finished
        \<and> (\<exists>bs. outs = map (\<lambda>b. [(ep, b)]) bs @ [[]] \<and> Suc (length bs) = length rounds
             \<and> srtp_receive (v_keystream v) (v_hkdf v) (cf_master_key crypto) (cf_salt crypto) 0 bs
                = Some (map (\<lambda>i. alaw_codes (piece (v_files v (DOWNLOADS_DIR @ name)) i)) [0..<length bs])))"
proof -
  let ?g = "requested_graph name ip port" and ?pcm = "piece (v_files v (DOWNLOADS_DIR @ name))"
  let ?st = "create_streamer (cf_master_key crypto) (cf_salt crypto) (dr_ssrc draws) (dr_seq draws) (dr_ts draws) :: 'ep rtp_streamer"
  let ?ssrc = "generate_ssrc (dr_ssrc draws)"
  let ?pk = "new_packetizer 8 ?ssrc 160 (dr_seq draws) (dr_ts draws)"
  obtain iv where iv: "derive_iv_from_ssrc (cf_salt crypto) ?ssrc = Some iv" "length iv = 16"
    using assms(6) by (simp add: derive_iv_from_ssrc_def ssrc_bytes_def)
  define a where "a = \<lparr>aes_key = derive_session_key (v_hkdf v) (cf_master_key crypto) ?ssrc, aes_base_iv = iv\<rparr>"
  define st where "st = ?st\<lparr>s_encryptor := Some a, s_encryption_enabled := True\<rparr>"
  define s where "s = (requested_session ident ?g crypto draws janus_ip janus_port)\<lparr>se_streamer := st\<rparr>"
  have st: "s_clients st = []" "s_encryptor st = Some a" "s_packetizer st = ?pk"
    by (simp_all add: st_def create_streamer_def alaw_payload_type_def alaw_timestamp_increment_def)
  have key: "length (derive_session_key (v_hkdf v) (cf_master_key crypto) ?ssrc) = 16" by (simp add: derive_session_key_def assms(7))
  have secure: "setup_security (v_hkdf v) ?st = Inr st"
    using iv key
    by (simp add: setup_security_def create_aes_encryption_strategy_def AES_BLOCK_SIZE_def st_def a_def create_streamer_def new_packetizer_def Let_def)
  have inv: "streamer_inv st" by (rule streamer_inv_setup_security [OF streamer_inv_create secure])
  have made: "session_create v ident ?g crypto draws False janus_ip janus_port True = Inr (Inr s)"
    using secure by (simp add: session_create_def executor_create_def new_session_def requested_graph_def s_def requested_session_def Let_def)
  obtain outs s' where b: "broadcast v rounds (after_prepare v [Some (Inr ())] (start_session s)) = (outs, s')" by fastforce
  note run = requested_rounds [OF assms(1-4) s_def inv st(1) assms(5) b, unfolded st(2,3)]
  define bs where "bs = map (\<lambda>out. snd (hd out)) (butlast outs)"
  have len: "Suc (length bs) = length rounds" "length bs = length outs - 1" using run assms(4) by (simp_all add: bs_def)
  have nth: "outs ! i = [(ep, bs ! i)] \<and> from_buffer (bs ! i) = Some (stream_packet (v_keystream v) (Some a) ((next_packet ^^ i) ?pk) (?pcm i))"
    if "i < length bs" for i
  proof -
    have i: "Suc i < length rounds" using that len(1) by simp
    obtain d where d: "outs ! i = [(ep, d)]" "from_buffer d = Some (stream_packet (v_keystream v) (Some a) ((next_packet ^^ i) ?pk) (?pcm i))"
      using run i by blast
    have "bs ! i = d" using d(1) that len(2) by (simp add: bs_def nth_butlast)
    then show ?thesis using d by simp
  qed
  have "butlast outs = map (\<lambda>b. [(ep, b)]) bs" using nth len(2) by (intro nth_equalityI) (simp_all add: nth_butlast)
  then have "outs = map (\<lambda>b. [(ep, b)]) bs @ [[]]" using run assms(4) append_butlast_last_id [of outs] by fastforce
  moreover have "srtp_receive (v_keystream v) (v_hkdf v) (cf_master_key crypto) (cf_salt crypto) 0 bs = Some (map (\<lambda>i. alaw_codes (?pcm i)) [0..<length bs])"
    using srtp_receive_stream [where pk = ?pk and a = a and bs = bs and pcm = ?pcm and salt = "cf_salt crypto" and hkdf = "v_hkdf v", OF assms(8)]
      key iv nth by (simp add: a_def new_packetizer_def)
  ultimately show ?thesis using run b made file_request_graph len(1) by (intro exI [of _ ?g] exI [of _ s]) auto
qed

text \<open>A cipher that takes nothing but keys and IVs of 16 bytes.\<close>

definition secure_env :: "nat session_env" where
  "secure_env = demo_env\<lparr>v_keystream := \<lambda>key iv. if length key = 16 \<and> length iv = 16 then Some (\<lambda>i. of_nat i + iv ! 8) else None\<rparr>"

lemma secure_request_decrypts_witness:
  "\<exists>g s outs s' b b'. parse_graph builtin_factory exact_parse_env (file_request ''a.wav'' ''127.0.0.1'' 5004) = Inr (Inr g)
     \<and> session_create secure_env ''s'' g \<lparr>cf_master_key = [1], cf_salt = replicate 16 2\<rparr> \<lparr>dr_ssrc = 1, dr_seq = 65535, dr_ts = 7\<rparr> False '''' None True = Inr (Inr s)
     \<and> broadcast secure_env (replicate 3 (\<lambda>_. 0, False, [0])) (after_prepare secure_env [Some (Inr ())] (start_session s)) = (outs, s')
     \<and> outs = [[(1, b)], [(1, b')], []]
     \<and> srtp_receive (v_keystream secure_env) (v_hkdf secure_env) [1] (replicate 16 2) 0 [b, b']
        = Some [alaw_codes (replicate 320 85), alaw_codes (replicate 320 85)]"
proof -
  let ?path = "DOWNLOADS_DIR @ ''a.wav''" and ?crypto = "\<lparr>cf_master_key = [1], cf_salt = replicate 16 2\<rparr>"
  let ?rounds = "replicate 3 ((\<lambda>_. 0) :: nat \<Rightarrow> rat, False, [0 :: nat])"
  have v: "v_files secure_env = (\<lambda>_. plain_file 1000)" "v_hkdf secure_env = (\<lambda>n _ _ _. replicate n 0)"
      "v_make_endpoint secure_env ''127.0.0.1'' (word_of_int 5004) = Some 1" "ctr_works (v_keystream secure_env)"
    by (simp_all add: secure_env_def demo_env_def ctr_works_def)
  have io: "file_ok (v_files secure_env ?path)" "audio (v_files secure_env ?path) = replicate 1000 85"
    using plain_file [of 1000] by (simp_all add: v)
  have p: "piece (v_files secure_env ?path) 0 = replicate 320 85" "piece (v_files secure_env ?path) 1 = replicate 320 85"
    using io(2) by (simp_all add: piece_def min_def)
  have rounds: "length ?rounds = file_frames (v_files secure_env ?path)" "?rounds \<noteq> []" "in_time [0] ?rounds"
    using io(2) in_time_always by (simp_all add: file_frames_def)
  have salt: "length (cf_salt ?crypto) = 16" by simp
  have hk: "length (v_hkdf secure_env 16 m s i) = 16" for m s i by (simp add: v)
  obtain g s where r: "parse_graph builtin_factory exact_parse_env (file_request ''a.wav'' ''127.0.0.1'' 5004) = Inr (Inr g)"
      "session_create secure_env ''s'' g ?crypto \<lparr>dr_ssrc = 1, dr_seq = 65535, dr_ts = 7\<rparr> False '''' None True = Inr (Inr s)"
      and l: "let (outs, s') = broadcast secure_env ?rounds (after_prepare secure_env [Some (Inr ())] (start_session s))
       in session_run secure_env s (Start # Prepared [Some (Inr ())] # round_labels ?rounds) s' \<and> se_control s' = Finished
        \<and> (\<exists>bs. outs = map (\<lambda>b. [(1, b)]) bs @ [[]] \<and> Suc (length bs) = length ?rounds
             \<and> srtp_receive (v_keystream secure_env) (v_hkdf secure_env) (cf_master_key ?crypto) (cf_salt ?crypto) 0 bs
                = Some (map (\<lambda>i. alaw_codes (piece (v_files secure_env ?path) i)) [0..<length bs]))"
    using secure_request_decrypts [where pe = exact_parse_env and ident = "''s''" and draws = "\<lparr>dr_ssrc = 1, dr_seq = 65535, dr_ts = 7\<rparr>"
        and janus_ip = "''''" and janus_port = None, OF io(1) v(3) rounds salt hk v(4)] by blast
  obtain outs s' where b: "broadcast secure_env ?rounds (after_prepare secure_env [Some (Inr ())] (start_session s)) = (outs, s')"
    by fastforce
  obtain bs where bs: "outs = map (\<lambda>b. [(1, b)]) bs @ [[]]" "length bs = 2"
      "srtp_receive (v_keystream secure_env) (v_hkdf secure_env) [1] (replicate 16 2) 0 bs
        = Some (map (\<lambda>i. alaw_codes (piece (v_files secure_env ?path) i)) [0..<length bs])"
    using l unfolding b Let_def prod.case by auto
  from bs(2) obtain x y where xy: "bs = [x, y]" by (auto simp: numeral_2_eq_2 length_Suc_conv)
  have "[0..<2] = [0, 1 :: nat]" by (simp add: upt_rec)
  then have "srtp_receive (v_keystream secure_env) (v_hkdf secure_env) [1] (replicate 16 2) 0 [x, y]
      = Some [alaw_codes (replicate 320 85), alaw_codes (replicate 320 85)]"
    using bs(2,3) xy p by (simp only: list.map)
  moreover have "outs = [[(1, x)], [(1, y)], []]" using bs(1) xy by simp
  ultimately show ?thesis using r b by blast
qed

end
