(* ===== verification/Request_Programme.thy ===== *)
theory Request_Programme
  imports Request_To_Packets
begin

text \<open>
  What any accepted request plays. The clips of a graph are read off it by following the targets from the
  start node; the theorem says that the session on the request sends the frames of those clips, one
  after the other, whatever their number and kinds.
\<close>

section \<open>The clips of a graph\<close>

text \<open>The file of a file input and the options it points at.\<close>

definition track_of :: "heap \<Rightarrow> nat \<Rightarrow> track option" where
  "track_of h p =
     (if p < length h
      then case n_body (h ! p) of
             FileInput f \<Rightarrow>
               (case fi_options f of
                  None \<Rightarrow> Some (Track (fi_file_path f) None)
                | Some q \<Rightarrow>
                    if q < length h
                    then case n_body (h ! q) of FileOptions g shift \<Rightarrow> Some (Track (fi_file_path f) (Some (q, g, shift))) | _ \<Rightarrow> None
                    else None)
           | _ \<Rightarrow> None
      else None)"

fun tracks_of :: "heap \<Rightarrow> nat list \<Rightarrow> (nat \<times> track) list option" where
  "tracks_of h [] = Some []"
| "tracks_of h (p # ps) = do { t \<leftarrow> track_of h p; ins \<leftarrow> tracks_of h ps; Some ((p, t) # ins) }"

definition clip_of :: "heap \<Rightarrow> nat \<Rightarrow> clip option" where
  "clip_of h p =
     (if p < length h
      then case n_body (h ! p) of
             FileInput f \<Rightarrow> map_option (File_Clip p) (track_of h p)
           | Mixer inputs \<Rightarrow> map_option (Mix_Clip p) (tracks_of h inputs)
           | Delay d \<Rightarrow> if 0 \<le> n_total_frames (h ! p) then Some (Delay_Clip p (nat (n_total_frames (h ! p)))) else None
           | _ \<Rightarrow> None
      else None)"

text \<open>\<open>None\<close>: the targets lead in a circle, or through a node that is no clip.\<close>

fun clips_from :: "nat \<Rightarrow> heap \<Rightarrow> nat option \<Rightarrow> clip list option" where
  "clips_from k h None = Some []"
| "clips_from 0 h (Some p) = None"
| "clips_from (Suc k) h (Some p) = do { c \<leftarrow> clip_of h p; cs \<leftarrow> clips_from k h (n_target (h ! p)); Some (c # cs) }"

definition programme_of :: "graph \<Rightarrow> clip list option" where
  "programme_of g = clips_from (length (g_nodes g)) (g_nodes g) (g_start_node g)"

lemma tracks_of_ok:
  "tracks_of h ps = Some ins \<Longrightarrow> map fst ins = ps \<and> (\<forall>(p, t)\<in>set ins. track_of h p = Some t)"
  by (induction ps arbitrary: ins) (auto split: Option.bind_splits)

lemma clip_of_node: "clip_of h p = Some c \<Longrightarrow> clip_node c = p"
  by (auto simp: clip_of_def split: if_splits node_body.splits)

lemma clips_from_linked:
  assumes "clips_from k h cur = Some cs"
  shows "linked h cs" and "cur = map_option clip_node (if cs = [] then None else Some (hd cs))" and "\<forall>c\<in>set cs. clip_of h (clip_node c) = Some c"
proof -
  have "linked h cs \<and> cur = map_option clip_node (if cs = [] then None else Some (hd cs)) \<and> (\<forall>c\<in>set cs. clip_of h (clip_node c) = Some c)"
    using assms
  proof (induction k h cur arbitrary: cs rule: clips_from.induct)
    case (3 k h p)
    then obtain c cs1 where c: "clip_of h p = Some c" "clips_from k h (n_target (h ! p)) = Some cs1" "cs = c # cs1"
      by (auto split: Option.bind_splits)
    have "linked h cs1 \<and> n_target (h ! p) = map_option clip_node (if cs1 = [] then None else Some (hd cs1)) \<and> (\<forall>c\<in>set cs1. clip_of h (clip_node c) = Some c)"
      using "3.IH" c by blast
    then show ?case using c clip_of_node [OF c(1)] by (cases cs1) simp_all
  qed simp_all
  then show "linked h cs" "cur = map_option clip_node (if cs = [] then None else Some (hd cs))" "\<forall>c\<in>set cs. clip_of h (clip_node c) = Some c"
    by blast+
qed

section \<open>What the parser leaves\<close>

text \<open>No frame has been pulled and no buffer touched.\<close>

definition unplayed :: "node \<Rightarrow> bool" where
  "unplayed nd \<longleftrightarrow> n_processed_frames nd = 0 \<and> n_in_buffer_processed_frames nd = 0 \<and> n_total_frames nd < 2 ^ 31 \<and> (case n_body nd of
     FileInput f \<Rightarrow> \<not> fh_open (fi_handle f) \<and> controller_inv (fi_controller f) \<and> tasks (fi_controller f) = []
       \<and> in_buffer_processed_frames (fi_controller f) = 0 \<and> fi_pitch_shifter f = default_pitch_shifter
   | _ \<Rightarrow> True)"

definition parsed_ok :: "parsing \<Rightarrow> bool" where
  "parsed_ok g \<longleftrightarrow> names_ok g \<and> (\<forall>p < length (g_nodes g). unplayed (g_nodes g ! p) \<and> (kind (g_nodes g ! p) = KMixer \<longrightarrow> p \<in> set (g_mixer_nodes g)))
     \<and> (\<forall>q. g_clients_node g = Some q \<longrightarrow> q < length (g_nodes g))"

lemma factory_unplayed:
  assumes "factory_create builtin_factory pe ty data = Inr (Inr nd)"
  shows "unplayed nd"
proof -
  have "unplayed (new_file_input name path)" for name path
    using fresh_new_file_input [of path name] by (auto simp: unplayed_def fresh_file_input_def new_file_input_def new_node_def)
  moreover have "unplayed new_mixer" "unplayed new_clients" "unplayed (new_clients\<lparr>n_body := Clients cs\<rparr>)"
      "unplayed (new_file_options\<lparr>n_body := FileOptions gn sh\<rparr>)" for cs gn sh
    by (simp_all add: unplayed_def new_mixer_def new_clients_def new_file_options_def new_node_def Let_def)
  moreover have "unplayed nd" if "new_delay rnd ms = Some nd" for rnd ms
    using that by (auto simp: new_delay_def new_node_def unplayed_def cast_i32_def Let_def split: if_splits)
  ultimately show ?thesis
    using assms
    by (auto simp: factory_create_def builtin_creators pbind_ok create_file_input_def create_mixer_def create_delay_def
        create_clients_def create_file_options_def split: if_splits option.splits)
qed

lemma add_node_parsed:
  assumes "add_node i nd g = Inr (Inr g')" and "parsed_ok g" and "unplayed nd"
  shows "parsed_ok g'"
proof -
  have n: "g_nodes g' = g_nodes g @ [nd\<lparr>n_id := i\<rparr>]" "g_node_map g' = AList.update i (length (g_nodes g)) (g_node_map g)"
    using assms(1) by (auto simp: add_node_def Let_def pbind_ok simp del: kind.simps split: if_splits)
  have k: "kind (nd\<lparr>n_id := i\<rparr>) = kind nd" "unplayed (nd\<lparr>n_id := i\<rparr>)" using assms(3) by (simp_all add: unplayed_def)
  have m: "set (g_mixer_nodes g) \<subseteq> set (g_mixer_nodes g')" "kind nd = KMixer \<Longrightarrow> length (g_nodes g) \<in> set (g_mixer_nodes g')"
    using assms(1) k(1) by (auto simp: add_node_def Let_def pbind_ok simp del: kind.simps split: if_splits)
  have c: "q < length (g_nodes g')" if "g_clients_node g' = Some q" for q
    using assms(1,2) that by (auto simp: parsed_ok_def less_SucI add_node_def Let_def pbind_ok simp del: kind.simps split: if_splits)
  show ?thesis
    using assms(2) m k c by (auto simp: parsed_ok_def names_ok_def n nth_append update_conv' less_Suc_eq simp del: kind.simps)
qed

lemma parse_nodes_parsed:
  assumes "parse_nodes builtin_factory pe vs g = Inr (Inr g')" and "parsed_ok g"
  shows "parsed_ok g'"
  using assms
proof (induction vs arbitrary: g)
  case (Cons v vs)
  then obtain i nd g1 ty data where "factory_create builtin_factory pe ty data = Inr (Inr nd)" and a: "add_node i nd g = Inr (Inr g1)"
      and r: "parse_nodes builtin_factory pe vs g1 = Inr (Inr g')"
    by (auto simp: pbind_ok split: option.splits)
  then show ?case using Cons.IH [OF r] add_node_parsed [OF a Cons.prems(2)] factory_unplayed by blast
qed (simp add: pret_def)

lemma connect_input_unplayed:
  assumes "unplayed (h ! p)" and "h' = snd (connect_input self source h)" and "p < length h"
  shows "unplayed (h' ! p)"
proof -
  have wire: "unplayed (wire_standard s source h ! p) = unplayed (h ! p)" for s and h :: heap
    by (cases "source < length h"; cases "p = source") (auto simp: wire_standard_def upd_def set_next_def unplayed_def list_update_beyond)
  have opt: "unplayed (upd self (set_options source) h ! p)"
    using assms(1,3) by (cases "p = self") (auto simp: upd_def set_options_def unplayed_def split: node_body.split)
  have mix: "unplayed (upd self (\<lambda>nd. nd\<lparr>n_body := Mixer inputs\<rparr>) h ! p)" for inputs
    using assms(1,3) by (cases "p = self") (auto simp: upd_def unplayed_def)
  show ?thesis
    using assms wire opt mix by (simp add: connect_input_defs Let_def split: node_body.split del: kind.simps)
qed

lemma add_edge_parsed:
  assumes "add_edge src_id tgt_id g = Inr (Inr g')" and "parsed_ok g"
  shows "parsed_ok g'"
proof -
  obtain src tgt where s: "map_of (g_node_map g) tgt_id = Some tgt" "g' = g\<lparr>g_nodes := snd (connect_input tgt src (g_nodes g))\<rparr>"
    using add_edge_ok [OF assms(1)] by metis
  then have b: "tgt < length (g_nodes g)" using assms(2) by (auto simp: parsed_ok_def names_ok_def)
  have len: "length (g_nodes g') = length (g_nodes g)" using connect_input_frame(1) [OF b b refl] s(2) by simp
  have "unplayed (g_nodes g' ! p) \<and> (kind (g_nodes g' ! p) = KMixer \<longrightarrow> p \<in> set (g_mixer_nodes g'))" if "p < length (g_nodes g)" for p
    using assms(2) that connect_input_unplayed [of "g_nodes g" p, OF _ refl that] connect_input_frame(2) [OF b that refl] s(2)
    by (simp add: parsed_ok_def del: kind.simps)
  then show ?thesis using assms(2) len s(2) by (simp add: parsed_ok_def names_ok_def del: kind.simps)
qed

lemma parse_edges_parsed:
  assumes "parse_edges pe vs g = Inr (Inr g')" and "parsed_ok g"
  shows "parsed_ok g'"
  using assms
proof (induction vs arbitrary: g)
  case (Cons v vs)
  then obtain a b g1 where a: "add_edge a b g = Inr (Inr g1)" and r: "parse_edges pe vs g1 = Inr (Inr g')"
    by (auto simp: pbind_ok split: option.splits)
  then show ?case using Cons.IH [OF r add_edge_parsed [OF a Cons.prems(2)]] by simp
qed simp

lemma parse_graph_parsed:
  assumes "parse_graph builtin_factory pe request = Inr (Inr g)"
  shows "\<forall>p < length (g_nodes g). unplayed (g_nodes g ! p) \<and> (kind (g_nodes g ! p) = KMixer \<longrightarrow> p \<in> set (g_mixer_nodes g))"
    and "g_clients_node g = Some q \<Longrightarrow> q < length (g_nodes g)"
proof -
  obtain flow nodes edges g1 g2 g3 where g1: "parse_nodes builtin_factory pe nodes empty_parsing = Inr (Inr g1)"
      and g2: "set_start_node pe flow g1 = Inr (Inr g2)" and g3: "parse_edges pe edges g2 = Inr (Inr g3)" and g: "g = graph.truncate g3"
    using assms by (auto simp: parse_graph_def pbind_ok)
  have "parsed_ok empty_parsing" by (simp add: parsed_ok_def names_ok_def empty_parsing_def)
  then have "parsed_ok g1" using parse_nodes_parsed [OF g1] by blast
  then have "parsed_ok g2" using g2 by (auto simp: set_start_node_def pbind_ok parsed_ok_def names_ok_def simp del: kind.simps split: option.splits)
  then have "parsed_ok g3" using parse_edges_parsed [OF g3] by blast
  then show "\<forall>p < length (g_nodes g). unplayed (g_nodes g ! p) \<and> (kind (g_nodes g ! p) = KMixer \<longrightarrow> p \<in> set (g_mixer_nodes g))"
      "g_clients_node g = Some q \<Longrightarrow> q < length (g_nodes g)"
    by (simp_all add: g parsed_ok_def graph.truncate_def del: kind.simps)
qed

section \<open>From the request to the rounds\<close>

text \<open>The files can be read and hold a frame, their options are in range, no file is twice in a mixer, and the clip has a frame.\<close>

definition track_playable :: "float_env \<Rightarrow> (string \<Rightarrow> file_io) \<Rightarrow> track \<Rightarrow> bool" where
  "track_playable e env t \<longleftrightarrow> file_ok (env (t_path t)) \<and> 0 < track_frames env t
     \<and> (case t_options t of None \<Rightarrow> True | Some (q, g, shift) \<Rightarrow> options_ok e g shift)"

definition playable :: "float_env \<Rightarrow> (string \<Rightarrow> file_io) \<Rightarrow> clip \<Rightarrow> bool" where
  "playable e env c \<longleftrightarrow> (\<forall>t\<in>set (clip_tracks c). track_playable e env t) \<and> distinct (clip_inputs c) \<and> 0 < clip_frames env c"

lemma track_of_fresh:
  assumes "track_of h p = Some t" and "\<forall>p < length h. unplayed (h ! p)" and "track_playable e env t" and "float_ok e"
  shows "fresh_track e env t h p"
proof -
  obtain f where f: "p < length h" "n_body (h ! p) = FileInput f" "fi_file_path f = t_path t"
      "case t_options t of None \<Rightarrow> fi_options f = None
        | Some (q, g, shift) \<Rightarrow> fi_options f = Some q \<and> q < length h \<and> n_body (h ! q) = FileOptions g shift"
    using assms(1) by (auto simp: track_of_def split: if_splits node_body.splits option.splits)
  have u: "unplayed (h ! p)" using assms(2) f(1) by blast
  have "shifter_inv default_pitch_shifter" by (simp add: inv_intros)
  then have "options_at e env t 0 f" "has_options h t"
    using f u assms(3,4) by (auto simp: options_at_def has_options_def track_playable_def unplayed_def split: option.splits)
  then show ?thesis using f u assms(3) by (auto simp: fresh_track_def unplayed_def track_playable_def)
qed

lemma clip_of_fresh:
  assumes "clip_of (g_nodes g) (clip_node c) = Some c" and "playable e env c" and "float_ok e"
    and nodes: "\<forall>p < length (g_nodes g). unplayed (g_nodes g ! p) \<and> (kind (g_nodes g ! p) = KMixer \<longrightarrow> p \<in> set (g_mixer_nodes g))"
  shows "clip_fresh e env g c"
proof -
  have fresh: "fresh_track e env t (g_nodes g) p" if "track_of (g_nodes g) p = Some t" "t \<in> set (clip_tracks c)" for p t
    using track_of_fresh [OF that(1) _ _ assms(3)] nodes assms(2) that(2) by (auto simp: playable_def)
  show ?thesis
  proof (cases c)
    case (File_Clip p t)
    then have "track_of (g_nodes g) p = Some t" using assms(1) by (auto simp: clip_of_def split: if_splits node_body.splits)
    then show ?thesis using fresh File_Clip by simp
  next
    case (Mix_Clip p ins)
    then obtain ps where c: "p < length (g_nodes g)" "n_body (g_nodes g ! p) = Mixer ps" "tracks_of (g_nodes g) ps = Some ins"
      using assms(1) by (auto simp: clip_of_def split: if_splits node_body.splits)
    note ins = tracks_of_ok [OF c(3)]
    have "fresh_track e env t (g_nodes g) s \<and> 0 < track_frames env t" if "(s, t) \<in> set ins" for s t
    proof -
      have "t \<in> set (clip_tracks c)" using that by (force simp: Mix_Clip)
      then show ?thesis using fresh [of s t] ins that assms(2) by (auto simp: playable_def track_playable_def)
    qed
    moreover have "n_processed_frames (g_nodes g ! p) = 0" "n_in_buffer_processed_frames (g_nodes g ! p) = 0" "p \<in> set (g_mixer_nodes g)"
      using nodes c(1,2) by (auto simp: unplayed_def)
    moreover have "distinct (map fst ins)" using assms(2) by (simp add: playable_def Mix_Clip)
    ultimately show ?thesis using c(1,2) ins assms(3) by (auto simp: Mix_Clip)
  next
    case (Delay_Clip p k)
    then have d: "p < length (g_nodes g)" "\<exists>d. n_body (g_nodes g ! p) = Delay d" "0 \<le> n_total_frames (g_nodes g ! p)"
        "k = nat (n_total_frames (g_nodes g ! p))"
      using assms(1) by (auto simp: clip_of_def split: if_splits node_body.splits)
    have "unplayed (g_nodes g ! p)" using nodes d(1) by blast
    then have "n_processed_frames (g_nodes g ! p) = 0" "n_in_buffer_processed_frames (g_nodes g ! p) = 0" "n_total_frames (g_nodes g ! p) < 2 ^ 31"
      by (simp_all add: unplayed_def)
    then show ?thesis using d by (simp add: Delay_Clip)
  qed
qed

lemma parsed_programme:
  assumes "parse_graph builtin_factory pe request = Inr (Inr g)" and "programme_of g = Some cs" and "cs \<noteq> []" and "apart cs"
    and "\<forall>c\<in>set cs. playable e env c" and "\<forall>c\<in>set (butlast cs). clip_closes env c" and "float_ok e"
  shows "programme_graph e env cs g \<and> g_start_node g = Some (clip_node (hd cs))"
proof -
  note clips = clips_from_linked [OF assms(2) [unfolded programme_of_def]]
  have "\<forall>c\<in>set cs. clip_fresh e env g c \<and> 0 < clip_frames env c"
    using clips(3) assms(5) clip_of_fresh [OF _ _ assms(7) parse_graph_parsed(1) [OF assms(1)]] by (auto simp: playable_def)
  then show ?thesis using clips(1,2) assms(3,4,6) by (simp add: programme_graph_def)
qed

text \<open>The clients of the request that get an endpoint.\<close>

lemma some_client:
  assumes "g_clients_node (x_graph (se_executor s)) = Some q" and "n_body (x_heap (se_executor s) ! q) = Clients ccs"
    and "cc \<in> set ccs" and "lookup_endpoint (v_make_endpoint v) (v_resolve v) (cc_ip cc) (cc_port cc) \<noteq> None" and "\<not> se_is_webrtc s"
    and "configure_streamer_from_graph v s = Some s'"
  shows "s_clients (se_streamer s') \<noteq> []"
proof -
  let ?add = "\<lambda>c. streamer_add_client (v_make_endpoint v) (v_resolve v) (cc_ip c) (cc_port c) (cc_packet_loss_ratio c)"
  have keep: "s_clients st \<noteq> [] \<Longrightarrow> s_clients (fold ?add ccs st) \<noteq> []" for ccs st
    by (induction ccs arbitrary: st) (auto simp: streamer_add_client_def split: option.split)
  have "s_clients (fold ?add ccs st) \<noteq> []" for st
    using assms(3)
  proof (induction ccs arbitrary: st)
    case (Cons c ccs)
    show ?case
    proof (cases "c = cc")
      case True
      then have "s_clients (?add c st) \<noteq> []" using assms(4) by (auto simp: streamer_add_client_def split: if_splits)
      then show ?thesis using keep [of "?add c st" ccs] by simp
    next
      case False
      then show ?thesis using Cons by simp
    qed
  qed simp
  then show ?thesis using assms(1,2,5,6) by (auto simp: configure_streamer_from_graph_def)
qed

text \<open>A client of the graph that has an endpoint is a client of the stream, once the graph is prepared.\<close>

lemma prepared_clients:
  assumes "programme_graph (v_float v) (v_files v) cs (x_graph (se_executor s))" and "x_current_node (se_executor s) = Some (clip_node (hd cs))"
    and "has_value (await_all_dynamic (g_file_nodes (x_graph (se_executor s))) received)" and "\<not> se_is_webrtc s" and "streamer_inv (se_streamer s)"
    and "q < length (x_heap (se_executor s))" and "g_clients_node (x_graph (se_executor s)) = Some q" and "n_body (x_heap (se_executor s) ! q) = Clients ccs"
    and "cc \<in> set ccs" and "lookup_endpoint (v_make_endpoint v) (v_resolve v) (cc_ip cc) (cc_port cc) \<noteq> None"
  shows "s_clients (se_streamer (after_prepare v received (start_session s))) \<noteq> []"
proof -
  obtain x where x: "prepare (v_files v) received (se_executor s) = Some (Inr (), x)" "g_clients_node (x_graph x) = Some q"
      "n_body (x_heap x ! q) = Clients ccs"
    using prepare_programme [OF assms(1-3)] assms(6-8) by auto
  let ?s0 = "(start_session s)\<lparr>se_executor := x\<rparr>"
  have w: "\<not> se_is_webrtc ?s0" "streamer_inv (se_streamer ?s0)" "g_clients_node (x_graph (se_executor ?s0)) = Some q"
      "n_body (x_heap (se_executor ?s0) ! q) = Clients ccs"
    using assms(4,5) x(2,3) by (simp_all add: start_session_def)
  obtain st where st: "configure_streamer_from_graph v ?s0 = Some (?s0\<lparr>se_streamer := st\<rparr>)"
    using configure_stream [OF w(1,2), of v] by blast
  have "s_clients st \<noteq> []" using some_client [OF w(3,4) assms(9,10) w(1) st] by simp
  then show ?thesis using x(1) st by (simp add: after_prepare_def start_session_def)
qed

lemma created_fields:
  assumes "session_create v ident g crypto draws False janus_ip janus_port encrypted = Inr (Inr s)"
  shows "se_control s = NotStarted" and "\<not> se_is_paused s" and "\<not> se_is_webrtc s" and "streamer_inv (se_streamer s)"
    and "x_graph (se_executor s) = g" and "x_current_node (se_executor s) = g_start_node g" and "g_start_node g \<noteq> None"
  using assms
  by (auto simp: session_create_def new_session_def executor_create_def transform_Inr_iff Let_def inv_intros
      split: if_splits intro: streamer_inv_setup_security [OF streamer_inv_create])

section \<open>Properties\<close>

text \<open>C1: What a session of clips sends: every frame but the last. Let a request parse, and a session be made of it that is not for
  WebRTC, secure or not. Follow the targets from the start node, and suppose that they come to an end, that each node on the
  way is a file input, a mixer over file inputs or a delay, and that no node belongs to two of these clips; that the files can be
  read and hold a frame, their options are in range, no file input is twice in a mixer, and each clip has a frame; that the files
  of all clips but the last close without an error, the files have been received, and some client of the request has an endpoint; and
  that no input goes 409 rounds in a row without its refill. Then as many rounds as the clips have frames
  run the session to its end. Every round but the last sends each spared client the next frame, in the order of the clips: a file gives
  the pieces of its audio with its gain and pitch shift, a mixer the clipped sums of the pieces of the inputs that
  still have one, a delay silence; the packets are numbered in order, and sealed if the session is secure. The last
  round sends nothing: the session drops the frame that comes with the end of its graph, so \<open>n\<close> frames make \<open>n - 1\<close> packets.\<close>

theorem request_broadcast:
  assumes "parse_graph builtin_factory pe request = Inr (Inr g)"
    and "session_create v ident g crypto draws False janus_ip janus_port encrypted = Inr (Inr s)"
    and "programme_of g = Some cs" and "apart cs" and "\<forall>c\<in>set cs. playable (v_float v) (v_files v) c"
    and "\<forall>c\<in>set (butlast cs). clip_closes (v_files v) c" and "float_ok (v_float v)"
    and "g_clients_node g = Some q" and "n_body (g_nodes g ! q) = Clients ccs" and "cc \<in> set ccs"
    and "lookup_endpoint (v_make_endpoint v) (v_resolve v) (cc_ip cc) (cc_port cc) \<noteq> None"
    and "has_value (await_all_dynamic (g_file_nodes g) received)"
    and "length rounds = length (programme_frames (v_float v) (v_files v) cs)" and "in_time (programme_inputs cs) rounds"
  shows "let s1 = after_prepare v received (start_session (attach_observer s)); (outs, s') = broadcast v rounds s1;
      pk = s_packetizer (se_streamer s); fs = programme_frames (v_float v) (v_files v) cs
    in session_run v (attach_observer s) (Start # Prepared received # round_labels rounds) s'
     \<and> se_control s' = Finished \<and> length outs = length rounds \<and> last outs = [] \<and> s_clients (se_streamer s1) \<noteq> []
     \<and> (\<forall>i. Suc i < length rounds \<longrightarrow> (\<exists>b pkt. outs ! i = map (\<lambda>ep. (ep, b)) (fan_out (fst (rounds ! i)) 0 (s_clients (se_streamer s1)))
          \<and> from_buffer b = Some pkt \<and> h_payload_type (pkt_header pkt) = p_payload_type pk
          \<and> h_sequence_num (pkt_header pkt) = p_sequence_num pk + of_nat i
          \<and> h_timestamp (pkt_header pkt) = p_timestamp pk + p_timestamp_increment pk * of_nat i \<and> h_ssrc (pkt_header pkt) = p_ssrc pk
          \<and> pkt_payload pkt = alaw_sealed (v_keystream v) (s_encryptor (se_streamer s)) ((next_packet ^^ i) pk) (fs ! i)))"
proof -
  note c = created_fields [OF assms(2)]
  note clips = clips_from_linked [OF assms(3) [unfolded programme_of_def]]
  have ne: "cs \<noteq> []" using clips(2) c(7) by auto
  note prog = parsed_programme [where env = "v_files v", OF assms(1,3) ne assms(4-7)]
  let ?s = "attach_observer s"
  have s: "programme_graph (v_float v) (v_files v) cs (x_graph (se_executor ?s))" "x_current_node (se_executor ?s) = Some (clip_node (hd cs))"
      "has_value (await_all_dynamic (g_file_nodes (x_graph (se_executor ?s))) received)" "se_control ?s = NotStarted" "\<not> se_is_paused ?s"
      "\<not> se_is_webrtc ?s" "streamer_inv (se_streamer ?s)" "se_streamer ?s = se_streamer s"
    using prog c assms(12) by (simp_all add: attach_observer_def)
  define s1 where "s1 = after_prepare v received (start_session ?s)"
  have q: "q < length (x_heap (se_executor ?s))" "g_clients_node (x_graph (se_executor ?s)) = Some q" "n_body (x_heap (se_executor ?s) ! q) = Clients ccs"
    using parse_graph_parsed(2) [OF assms(1,8)] assms(8,9) c(5) by (simp_all add: attach_observer_def)
  have clients: "s_clients (se_streamer s1) \<noteq> []"
    using prepared_clients [OF s(1-3,6,7) q assms(10,11)] by (simp add: s1_def)
  obtain outs s' where b: "broadcast v rounds s1 = (outs, s')" by fastforce
  note run = programme_rounds [OF s(1-7) s1_def clients refl assms(13,14) b]
  let ?pk = "s_packetizer (se_streamer s)"
  have "\<exists>b pkt. outs ! i = map (\<lambda>ep. (ep, b)) (fan_out (fst (rounds ! i)) 0 (s_clients (se_streamer s1)))
      \<and> from_buffer b = Some pkt \<and> h_payload_type (pkt_header pkt) = p_payload_type ?pk \<and> h_sequence_num (pkt_header pkt) = p_sequence_num ?pk + of_nat i
      \<and> h_timestamp (pkt_header pkt) = p_timestamp ?pk + p_timestamp_increment ?pk * of_nat i \<and> h_ssrc (pkt_header pkt) = p_ssrc ?pk
      \<and> pkt_payload pkt = alaw_sealed (v_keystream v) (s_encryptor (se_streamer s)) ((next_packet ^^ i) ?pk) (programme_frames (v_float v) (v_files v) cs ! i)"
    if "Suc i < length rounds" for i
    using run that s(8) by (fastforce simp: frame_out_def stream_packet_def packet_header_def next_packet_funpow mult.commute)
  then show ?thesis using run b clients unfolding s1_def [symmetric] by (simp add: Let_def)
qed

text \<open>Two files mixed, a pause of two frames, a third file at half its volume.\<close>

definition edge_json :: "string \<Rightarrow> string \<Rightarrow> json" where
  "edge_json src tgt = JObject [(''source'', JString src), (''target'', JString tgt)]"

definition node_json :: "string \<Rightarrow> string \<Rightarrow> json_object \<Rightarrow> json" where
  "node_json ident ty data = JObject [(''id'', JString ident), (''type'', JString ty), (''data'', JObject data)]"

definition mixed_request :: json_object where
  "mixed_request = [(''flow'', JObject
     [(''start_node'', JObject [(''id'', JString ''m'')]),
      (''nodes'', JArray
         [node_json ''a'' ''fileInput'' [(''fileName'', JString ''a.wav'')], node_json ''b'' ''fileInput'' [(''fileName'', JString ''b.wav'')],
          node_json ''m'' ''mixer'' [], node_json ''d'' ''delay'' [(''delay'', JInt64 40)],
          node_json ''c'' ''fileInput'' [(''fileName'', JString ''c.wav'')],
          node_json ''g'' ''fileOptions'' [(''gain'', JDouble (1 / 2)), (''pitch_shift'', JInt64 0)],
          node_json ''o'' ''clients'' [(''clients'', JArray [JObject [(''ip'', JString ''127.0.0.1''), (''port'', JInt64 5004)]])]]),
      (''edges'', JArray [edge_json ''a'' ''m'', edge_json ''b'' ''m'', edge_json ''m'' ''d'', edge_json ''d'' ''c'', edge_json ''g'' ''c'', edge_json ''c'' ''o''])])]"

definition mixed_programme :: "clip list" where
  "mixed_programme = [Mix_Clip 2 [(0, Track ''downloads/a.wav'' None), (1, Track ''downloads/b.wav'' None)], Delay_Clip 3 2,
     File_Clip 4 (Track ''downloads/c.wav'' (Some (5, 1 / 2, 0)))]"

lemma mixed_graph:
  "\<exists>g. parse_graph builtin_factory exact_parse_env mixed_request = Inr (Inr g) \<and> programme_of g = Some mixed_programme
     \<and> g_start_node g = Some 2 \<and> g_mixer_nodes g = [2] \<and> g_file_nodes g = [0, 1, 4] \<and> g_clients_node g = Some 6
     \<and> n_body (g_nodes g ! 6) = Clients [\<lparr>cc_ip = ''127.0.0.1'', cc_port = 5004, cc_packet_loss_ratio = 0\<rparr>]"
  by (simp add: mixed_request_def node_json_def edge_json_def parse_eval create_delay_def new_delay_def FRAME_DURATION_def graph.defs
      programme_of_def clip_of_def track_of_def mixed_programme_def loss_of_def truncate_rat_def cast_i32_def)

text \<open>Halving the samples 21845 of the third file gives 10922.\<close>

lemma halved_piece:
  "snd (the (file_effects ideal_float (1 / 2) 0 ps (replicate 320 85))) = concat (replicate 160 [170, 42])"
proof -
  have "apply_gain (\<lambda>x. x) (1 / 2) (as_samples (replicate 320 85)) = Some (replicate 160 10922)" by code_simp
  moreover have "store_samples (replicate 160 10922) (replicate 320 85) = concat (replicate 160 [170, 42])" by code_simp
  ultimately show ?thesis by (simp add: file_effects_def ideal_float_def)
qed

lemma mixed_playable:
  "apart mixed_programme" "\<forall>c\<in>set mixed_programme. playable ideal_float (\<lambda>_. plain_file 1000) c"
  "\<forall>c\<in>set (butlast mixed_programme). clip_closes (\<lambda>_. plain_file 1000) c" "programme_inputs mixed_programme = [0, 1, 4]"
  "length (programme_frames e (\<lambda>_. plain_file 1000) mixed_programme) = 8"
  "programme_frames e (\<lambda>_. plain_file 1000) mixed_programme ! 3 = replicate 320 0"
  "programme_frames ideal_float (\<lambda>_. plain_file 1000) mixed_programme ! 5 = concat (replicate 160 [170, 42])"
proof -
  let ?env = "\<lambda>_ :: string. plain_file 1000" and ?c = "Track ''downloads/c.wav'' (Some (5, 1 / 2, 0))"
  let ?ab = "[Track ''downloads/a.wav'' None, Track ''downloads/b.wav'' None]"
  have io: "file_ok (plain_file 1000)" "file_frames (plain_file 1000) = 3" "audio (plain_file 1000) = replicate 1000 85"
    using plain_file [of 1000] by (simp_all add: file_frames_def)
  have m: "mix_frames ?env ?ab = 3" using io(2) by (simp add: mix_frames_def)
  have frames: "programme_frames e ?env mixed_programme
      = map (mixed_frame e ?env ?ab) [0..<3] @ replicate 2 (replicate 320 0) @ map (track_frame e ?env ?c) [0..<3]" for e
    using io(2) m by (simp add: programme_frames_def mixed_programme_def numeral_eq_Suc)
  show "apart mixed_programme" by (auto simp: mixed_programme_def clip_nodes_def)
  show "\<forall>c\<in>set mixed_programme. playable ideal_float ?env c"
    using io m by (simp add: mixed_programme_def playable_def track_playable_def options_ok_def ideal_float_def)
  show "\<forall>c\<in>set (butlast mixed_programme). clip_closes ?env c" by (simp add: mixed_programme_def plain_file_def clip_closes_def)
  show "programme_inputs mixed_programme = [0, 1, 4]" by (simp add: programme_inputs_def mixed_programme_def)
  show "length (programme_frames e ?env mixed_programme) = 8" unfolding frames by simp
  show "programme_frames e ?env mixed_programme ! 3 = replicate 320 0" unfolding frames by (simp add: nth_append)
  have "piece (plain_file 1000) 0 = replicate 320 85" using io(3) by (simp add: piece_def min_def)
  then have "track_frame ideal_float ?env ?c 0 = concat (replicate 160 [170, 42])" by (simp add: track_frame_def halved_piece)
  then show "programme_frames ideal_float ?env mixed_programme ! 5 = concat (replicate 160 [170, 42])"
    unfolding frames by (simp add: nth_append)
qed

lemma request_broadcast_witness:
  "\<exists>g s outs s' b c pkt pkt' eps. parse_graph builtin_factory exact_parse_env mixed_request = Inr (Inr g)
     \<and> session_create demo_env ''s'' g \<lparr>cf_master_key = [], cf_salt = []\<rparr> \<lparr>dr_ssrc = 1, dr_seq = 65535, dr_ts = 7\<rparr> False '''' None False = Inr (Inr s)
     \<and> broadcast demo_env (replicate 8 (\<lambda>_. 0, False, [])) (after_prepare demo_env (replicate 3 (Some (Inr ()))) (start_session (attach_observer s))) = (outs, s')
     \<and> se_control s' = Finished \<and> length outs = 8
     \<and> outs ! 3 = map (\<lambda>ep. (ep, b)) eps \<and> from_buffer b = Some pkt \<and> h_sequence_num (pkt_header pkt) = 2 \<and> pkt_payload pkt = alaw_codes (replicate 320 0)
     \<and> outs ! 5 = map (\<lambda>ep. (ep, c)) eps \<and> from_buffer c = Some pkt' \<and> h_sequence_num (pkt_header pkt') = 4 \<and> pkt_payload pkt' = alaw_codes (concat (replicate 160 [170, 42]))"
proof -
  obtain g where g: "parse_graph builtin_factory exact_parse_env mixed_request = Inr (Inr g)" "programme_of g = Some mixed_programme"
      "g_start_node g = Some 2" "g_file_nodes g = [0, 1, 4]" "g_clients_node g = Some 6"
      "n_body (g_nodes g ! 6) = Clients [\<lparr>cc_ip = ''127.0.0.1'', cc_port = 5004, cc_packet_loss_ratio = 0\<rparr>]"
    using mixed_graph by blast
  let ?crypto = "\<lparr>cf_master_key = [], cf_salt = []\<rparr>" and ?draws = "\<lparr>dr_ssrc = 1, dr_seq = 65535, dr_ts = 7\<rparr>"
  define s where "s = (requested_session ''s'' g ?crypto ?draws '''' None :: nat session)"
  have made: "session_create demo_env ''s'' g ?crypto ?draws False '''' None False = Inr (Inr s)"
    using session_create_plain [of g demo_env "''s''" ?crypto ?draws "''''" None] g(3) by (simp add: s_def)
  have env: "v_files demo_env = (\<lambda>_. plain_file 1000)" "v_float demo_env = ideal_float" "v_keystream demo_env = (\<lambda>_ _. None)"
    by (simp_all add: demo_env_def)
  have ep: "lookup_endpoint (v_make_endpoint demo_env) (v_resolve demo_env) ip port \<noteq> None" for ip port
    by (simp add: demo_env_def lookup_endpoint_def)
  have rec: "has_value (await_all_dynamic (g_file_nodes g) (replicate 3 (Some (Inr ()))))" by (simp add: g(4) await_all_dynamic_def numeral_eq_Suc)
  have len: "length (replicate 8 ((\<lambda>_. 0) :: nat \<Rightarrow> rat, False, [] :: nat list)) = length (programme_frames (v_float demo_env) (v_files demo_env) mixed_programme)"
    by (simp add: env mixed_playable(5))
  have time: "in_time (programme_inputs mixed_programme) (replicate 8 (\<lambda>_. 0, False, []))" by (simp add: in_time_def)
  let ?s1 = "after_prepare demo_env (replicate 3 (Some (Inr ()))) (start_session (attach_observer s))"
  obtain outs s' where b: "broadcast demo_env (replicate 8 (\<lambda>_. 0, False, [])) ?s1 = (outs, s')" by fastforce
  note r = request_broadcast [where v = demo_env, OF g(1) made g(2) mixed_playable(1) mixed_playable(2,3) [folded env(1,2)] _ g(5,6) _ ep rec len time,
      unfolded b Let_def prod.case]
  have pk: "p_sequence_num (s_packetizer (se_streamer s)) = 65535" "s_encryptor (se_streamer s) = None"
    by (simp_all add: s_def requested_session_def create_streamer_def new_packetizer_def)
  have fin: "se_control s' = Finished" "length outs = 8" using r by (simp_all add: env float_ok_ideal)
  have "\<exists>b pkt. outs ! i = map (\<lambda>ep. (ep, b)) (fan_out (\<lambda>_. 0) 0 (s_clients (se_streamer ?s1))) \<and> from_buffer b = Some pkt
      \<and> h_sequence_num (pkt_header pkt) = 65535 + of_nat i
      \<and> pkt_payload pkt = alaw_codes (programme_frames ideal_float (\<lambda>_. plain_file 1000) mixed_programme ! i)" if "i < 7" for i
    using r that pk by (fastforce simp: env float_ok_ideal alaw_sealed_def sealed_def)
  from this [of 3] this [of 5] show ?thesis
    using g(1) made b fin by (fastforce simp: mixed_playable(6,7))
qed

lemma mixed_frame_sum:
  assumes "float_ok e" and "length ts \<le> 65535" and "j < 160" and each: "\<forall>t\<in>set (active_tracks env ts n). length (track_frame e env t n) = 320"
    and small: "\<bar>\<Sum>t\<leftarrow>active_tracks env ts n. sint (as_samples (track_frame e env t n) ! j)\<bar> \<le> 30000"
  shows "sint (as_samples (mixed_frame e env ts n) ! j) = (\<Sum>t\<leftarrow>active_tracks env ts n. sint (as_samples (track_frame e env t n) ! j))"
proof -
  let ?xss = "map (\<lambda>t. as_samples (track_frame e env t n)) (active_tracks env ts n)"
  have sum: "mix_sum e env ts n = fold (\<lambda>xs acc. sum_buffers acc xs) ?xss (replicate 160 0)" by (simp add: mix_sum_def fold_map comp_def)
  have len: "length ?xss \<le> 65535" using le_trans [OF length_filter_le assms(2)] by (simp add: active_tracks_def)
  have full: "\<forall>xs\<in>set ?xss. length xs = 160" using each by (auto simp: as_samples_def)
  have fl: "rnd_ok (e_rnd e)" "\<And>x. -1 \<le> e_tanhf e x \<and> e_tanhf e x \<le> 1" using assms(1) by (simp_all add: float_ok_def)
  obtain out where out: "compress_and_export (e_rnd e) (e_tanhf e) (mix_sum e env ts n) (replicate 320 0) = Some out"
      "\<forall>i < 160. \<bar>\<Sum>xs\<leftarrow>?xss. sint (xs ! i)\<bar> \<le> 30000 \<longrightarrow> sint (as_samples out ! i) = (\<Sum>xs\<leftarrow>?xss. sint (xs ! i))"
    using mix_within_limit [where rnd = "e_rnd e" and tanhf = "e_tanhf e" and frame_buffer = "replicate 320 0", OF fl len full]
    unfolding sum [symmetric] by auto
  then have "mixed_frame e env ts n = out" by (simp add: mixed_frame_def)
  then show ?thesis using out(2) assms(3) small by (simp add: comp_def)
qed

text \<open>C7: A mixer plays the sum of its inputs. The \<open>n\<close>-th pull from a mixer of fewer than 65536 file inputs
  gives, at every sample whose exact sum lies within the clip limit, the sum of the
  samples of the \<open>n\<close>-th frames of those inputs that have not ended, and the ended ones do not stop it, if
  no input has waited 409 rounds for its refill. Whichever inputs are refilled then, the mixer is ready for its next frame.\<close>

theorem mixer_plays_sum:
  assumes "clip_ready e env (Mix_Clip p ins) since n h" and "n < clip_frames env (Mix_Clip p ins)" and "length ins \<le> 65535"
    and "\<forall>s\<in>fst ` set ins. since s < 409"
  shows "let active = active_tracks env (map snd ins) n; sample = (\<lambda>j. \<Sum>t\<leftarrow>active. sint (as_samples (track_frame e env t n) ! j))
    in active \<noteq> [] \<and> (\<exists>out h1. process_frame e p h (replicate 320 0) = Some (Inr (), out, h1) \<and> length out = 320
         \<and> (\<forall>ps. distinct ps \<longrightarrow> clip_ready e env (Mix_Clip p ins) (waited ps since) (Suc n) (refill_all env ps h1))
         \<and> (\<forall>j < 160. \<bar>sample j\<bar> \<le> 30000 \<longrightarrow> sint (as_samples out ! j) = sample j))"
proof -
  let ?ts = "map snd ins"
  have fl: "float_ok e" and ins: "inputs_at e env ins since n h" using assms(1) by simp_all
  have "active_tracks env ?ts n \<noteq> []" using assms(2) mix_frames_active [of n env ?ts] by simp
  moreover obtain h1 where "process_frame e p h (replicate 320 0) = Some (Inr (), mixed_frame e env ?ts n, h1)"
      "\<forall>ps. distinct ps \<longrightarrow> clip_ready e env (Mix_Clip p ins) (waited ps since) (Suc n) (refill_all env ps h1)"
    using mix_pull [OF assms(1,2,4)] unfolding pull_result_def by blast
  moreover have "length (mixed_frame e env ?ts n) = 320" using mixed_frame_exported [OF fl] by blast
  moreover have "length ?ts \<le> 65535" using assms(3) by simp
  moreover have "length (track_frame e env t n) = 320" if "t \<in> set (active_tracks env ?ts n)" for t
  proof -
    have "t \<in> snd ` set ins" "n < track_frames env t" using that by (simp_all add: active_tracks_def)
    then obtain s where "(s, t) \<in> set ins" "n < track_frames env t" by force
    then show ?thesis using ins track_frame_length [of e env t "since s" n "h ! s" h] by (auto simp: inputs_at_def)
  qed
  ultimately show ?thesis using mixed_frame_sum [OF fl] unfolding Let_def by blast
qed

definition tone_file :: "u8 \<Rightarrow> file_io" where
  "tone_file x = (plain_file 1000)\<lparr>io_content := replicate 1000 x\<rparr>"

lemma tone_files:
  "file_ok (tone_file 5)" "audio (tone_file 5) = replicate 1000 5" "file_ok (tone_file 3)" "audio (tone_file 3) = replicate 1000 3"
proof -
  show "file_ok (tone_file 5)" "file_ok (tone_file 3)" by (simp_all add: file_ok_def tone_file_def plain_file_def)
  have "\<not> bytes_at (replicate 256 5) 0 ''RIFF''" "\<not> bytes_at (replicate 256 3) 0 ''RIFF''" by code_simp+
  then show "audio (tone_file 5) = replicate 1000 5" "audio (tone_file 3) = replicate 1000 3"
    by (simp_all add: audio_def audio_offset_def tone_file_def plain_file_def get_audio_data_offset_def min_def)
qed

lemma mixer_plays_sum_witness:
  "\<exists>g out h1. parse_graph builtin_factory exact_parse_env mixed_request = Inr (Inr g)
     \<and> process_frame ideal_float 2 (update_mixers [2] (initialize_nodes (\<lambda>path. if path = ''downloads/a.wav'' then tone_file 5 else tone_file 3) (g_nodes g)))
         (replicate 320 0) = Some (Inr (), out, h1)
     \<and> sint (as_samples out ! 7) = 1285 + 771"
proof -
  let ?env = "\<lambda>path. if path = ''downloads/a.wav'' then tone_file 5 else tone_file 3"
  let ?ins = "[(0, Track ''downloads/a.wav'' None), (1, Track ''downloads/b.wav'' None)]"
  obtain g where g: "parse_graph builtin_factory exact_parse_env mixed_request = Inr (Inr g)" "programme_of g = Some mixed_programme" "g_mixer_nodes g = [2]"
    using mixed_graph by blast
  have frames: "file_frames (tone_file 5) = 3" "file_frames (tone_file 3) = 3" using tone_files by (simp_all add: file_frames_def)
  have pieces: "piece (tone_file 5) 0 = replicate 320 5" "piece (tone_file 3) 0 = replicate 320 3" using tone_files by (simp_all add: piece_def min_def)
  have "clip_of (g_nodes g) 2 = Some (Mix_Clip 2 ?ins)"
    using clips_from_linked(3) [OF g(2) [unfolded programme_of_def]] by (simp add: mixed_programme_def)
  moreover have play: "playable ideal_float ?env (Mix_Clip 2 ?ins)" using frames tone_files by (simp add: playable_def track_playable_def mix_frames_def)
  ultimately have "clip_fresh ideal_float ?env g (Mix_Clip 2 ?ins)"
    using clip_of_fresh [of g "Mix_Clip 2 ?ins" ideal_float ?env] parse_graph_parsed(1) [OF g(1)] float_ok_ideal by simp
  from fresh_ready [OF this, of "\<lambda>_. 0", unfolded g(3)]
  have ready: "clip_ready ideal_float ?env (Mix_Clip 2 ?ins) (\<lambda>_. 0) 0 (update_mixers [2] (initialize_nodes ?env (g_nodes g)))" .
  have n: "0 < clip_frames ?env (Mix_Clip 2 ?ins)" "length ?ins \<le> 65535" "\<forall>s\<in>fst ` set ?ins. (0 :: nat) < 409" using play by (simp_all add: playable_def)
  have s: "sint (as_samples (replicate 320 5) ! 7) = 1285" "sint (as_samples (replicate 320 3) ! 7) = 771"
    by code_simp+
  obtain out h1 where "process_frame ideal_float 2 (update_mixers [2] (initialize_nodes ?env (g_nodes g))) (replicate 320 0) = Some (Inr (), out, h1)"
      "sint (as_samples out ! 7) = 1285 + 771"
    using mixer_plays_sum [OF ready n] by (auto simp: frames pieces s Let_def active_tracks_def track_frame_def)
  then show ?thesis using g(1) by blast
qed

end
