(* ===== verification/Spec2Isabelle.thy ===== *)
theory Spec2Isabelle
  imports Server_Properties Graph_Types Assets Alaw_Reference Request_Programme
begin

text \<open>
  HermesFlow: a server that plays audio graphs as RTP streams. A request names a graph of nodes (file
  inputs, mixers, delays, clients) in JSON; the server downloads missing files, and a session then sends one
  encoded frame of 20 ms after the other to its clients until the graph ends. This development
  models the C++ sources under \<open>src/src\<close> and proves what makes their parts correct, and what follows for
  the server as a whole. Paths below are relative to \<open>src/src\<close>.

  The parts and their theories, from the bottom.

  \<^item> \<open>Hermes_Prelude\<close>, \<open>Hermes_Types\<close>: shared lemmas and types; the error codes and records of
    \<open>core/config/Types.hpp\<close> and the constants of \<open>Config.hpp\<close>. A \<open>std::expected\<close> is a sum, an integer of
    \<open>w\<close> bits a word, undefined behaviour or a loop without end \<open>None\<close>.
  \<^item> \<open>Alaw\<close>, \<open>Pcm\<close>: \<open>infra/audio/Alaw.cpp\<close>, \<open>PcmCast.hpp\<close>, \<open>CodecStrategy.hpp\<close>. The tables that the code builds at
    compile time; decoding and encoding again is the identity on bytes, and the error of a sample is bounded.
    \<open>Alaw_Reference\<close> states the law of ITU-T G.711 as its table of decision values, which the encoder computes.
  \<^item> \<open>Encryption\<close>, \<open>Rtp_Packet\<close>, \<open>Rtp_Packetizer\<close>, \<open>Rtp_Streamer\<close>: \<open>infra/crypto\<close> and \<open>network/rtp\<close>. Serialising and
    parsing are inverse; the \<open>n\<close>-th frame of a stream is one packet with the \<open>n\<close>-th numbers, sealed under
    its own IV, and reaches every client.
  \<^item> \<open>Float_Ops\<close>, \<open>Audio_Math\<close>, \<open>Pitch_Shifter\<close>, \<open>Wav\<close>: \<open>AudioMath.hpp\<close>, \<open>PitchShifter.cpp\<close>, \<open>WavUtils.hpp\<close>, over any
    rounding that is monotone and exact on small integers.
  \<^item> \<open>Double_Buffer\<close>, \<open>Buffer_Controller\<close>: \<open>DoubleBuffer.cpp\<close>, \<open>infra/io/AsyncBufferController.cpp\<close>. Coroutines are tasks,
    their interleavings a step relation.
  \<^item> \<open>Nodes\<close>, \<open>File_Input\<close>: \<open>core/graph/Node\<close> and \<open>core/graph/nodes\<close>. A graph is a heap, a list of nodes indexed by
    their pointers. A file input delivers exactly the frames of its file and then the end.
  \<^item> \<open>Executor\<close>, \<open>Graph_Safety\<close>, \<open>Playback\<close>, \<open>Prepare_Safety\<close>: \<open>core/graph/AudioExecutor.cpp\<close>. The invariant of a well-formed
    graph, loop detection against the definition of a cycle, and that preparing and pulling frames end
    without undefined behaviour.
  \<^item> \<open>Config\<close>, \<open>Io_Context_Pool\<close>: \<open>core/config/Config.cpp\<close> over a parameter for toml++, \<open>infra/io/IoContextPool.cpp\<close>.
  \<^item> \<open>Session\<close>, \<open>Session_Lifecycle\<close>: \<open>core/session/Session.cpp\<close>. The coroutine is a state machine over its suspension
    points; control calls come between any two steps. No session over a well-formed graph reaches undefined
    behaviour, no resumption is lost, stopping ends it, pausing stops its frames.
  \<^item> \<open>Active_Sessions\<close>: \<open>core/session/ActiveSessions.cpp\<close>, a refinement of a map from identifiers to sessions. Its
    contract with the HTTP side is the locale \<open>session_service\<close>, interpreted on the model.
  \<^item> \<open>Json\<close>, \<open>Json_Graph\<close>, \<open>Json_Properties\<close>: \<open>infra/parsers\<close> and \<open>core/graph/NodeRegistry.cpp\<close>, \<open>NodeFactory.hpp\<close>. An accepted
    request is a well-formed graph, and a session on it is safe. \<open>Graph_Types\<close>: the kinds, identifiers and wiring of
    its nodes never change, so an access by kind stays right in every run of the session.
  \<^item> \<open>Downloads\<close>, \<open>Download_Safety\<close>: \<open>network/http/HttpStreamer.hpp\<close>, \<open>network/s3\<close>, \<open>infra/io/FileSink.hpp\<close> and
    \<open>PartialFileGuard.hpp\<close>, \<open>FileInputNode::ensure_file_exists\<close>. The template parameter \<open>Sink\<close> is a function, its
    contract the locale \<open>byte_sink\<close>, provided by the file sink. A finished download is complete or undone.
    \<open>Assets\<close>: the same download as a coroutine that is suspended where the code awaits, and
    \<open>AudioExecutor::ensure_assets_exist\<close>, which runs one for each file over the shared disk. Alone the coroutine is
    the download; together, with distinct paths, each does what it does alone; a preparation that
    succeeds has its files complete.
  \<^item> \<open>Web_Socket\<close>: \<open>network/websocket\<close>. The queue keeps one write in progress and the order of the messages.
  \<^item> \<open>Http\<close>, \<open>Http_Properties\<close>, \<open>Http_Session\<close>: \<open>response_builder.hpp\<close>, \<open>network/http/Router.cpp\<close>, \<open>HttpSession.cpp\<close>,
    \<open>Listener.cpp\<close>, \<open>Server.cpp\<close>. Every request gets one answer; the control requests change exactly the
    session that they name.
  \<^item> \<open>Entry_Point\<close>: \<open>app/main.cpp\<close>, from reading the configuration to the exit code.
  \<^item> \<open>Server_Runs\<close>, \<open>Server_Properties\<close>: the running server as one step relation, \<open>system_step\<close>. A step accepts a
    connection, serves one request of a connection, resumes the coroutine of a session, ends one, or
    runs a handler of a web socket; steps come in any order. The state is the router with its registry and
    sessions, the connections, the web sockets, and which session reports to which socket. The invariant
    \<open>system_inv\<close> composes those of the parts; from it: no run fails, a client is sent exactly what its session
    reported, and the end of a session is announced once.
  \<^item> \<open>Programme\<close>: what the executor plays. The clips are the nodes that it comes to, file inputs with their gain and
    pitch shift, mixers over such, delays, and the frames that each gives. What lets the executor play a clip is the
    locale \<open>frame_source\<close>, interpreted on all three kinds of node; its client lemmas take the executor from frame to
    frame and from clip to clip.
  \<^item> \<open>Broadcast\<close>, \<open>Request_To_Packets\<close>, \<open>Request_Programme\<close>: what leaves the server. The labels of a session's coroutine are
    arranged in rounds, a tick and then the refills that the I/O threads get to before the next; the rounds of a list of
    clips send their frames, one by one, in packets that parse, and end the session. With the parser in front: from the JSON of a request
    to the datagrams, for a single file in the clear or sealed and opened again by the receiver, and for any accepted
    request whose targets lead to an end, with the clips read off its graph by \<open>programme_of\<close>.
  \<^item> this theory: what holds of the program from its start.

  How they interact: \<open>route_query\<close> parses a body and calls \<open>create_session\<close>, which parses the graph and files a
  session; an upgrade attaches an observer and spawns the session's coroutine, which prepares the graph and then
  pulls a frame in each tick with \<open>get_next_frame\<close> and sends it with \<open>send_frame\<close>; what it tells its observer is
  queued at the web socket. The theorem \<open>accepted_request_never_crashes\<close> follows one session;
  \<open>server_never_fails\<close>,
  \<open>notifications_delivered\<close> and \<open>end_announced\<close> follow everything at once, and their witnesses run one client from its
  request to the messages on its web socket. They are about the runs in which a session gets one web socket
  (\<open>connected_once\<close>): \<open>second_connection_accepted\<close> shows that the code does not ensure that, and about the requests in
  range (\<open>event_in_range\<close>), the numeric options that the nodes can compute with.

  Bounds. A refill may come any number of rounds after the tick that asked for it, as long as no input goes without one for
  409 rounds, the frames of a block (\<open>in_time\<close>); without that bound the old blocks are replayed, which \<open>stalled_refill_replays\<close>
  shows. Recursion along the graph carries fuel: the inputs of a mixer are file inputs, so one level is
  enough, and \<open>set_in_loop\<close>, \<open>close\<close> and \<open>process_frame\<close> run with it; the walk of the loop detection ends because each
  step visits a new node. A mixer with at most 65535 inputs cannot overflow its 32-bit sums; gains up to
  65535 and pitch ratios up to 401 are in range (\<open>options_in_range\<close>), beyond them the code is undefined or
  does not end, which theorems of \<open>Audio_Math\<close> and \<open>Pitch_Shifter\<close> show.

  Assumed of what is not in the repository, always as parameters or named hypotheses: the keystream of AES, HKDF and name
  resolution, the answers of the disk, of the network and of the sockets, floating-point rounding, the
  parsers and printers of Boost and toml++, the request signer, the random draws and the clock.

  Not modelled: logging; the threads beyond one handler at a time for each context; the orders of iteration of
  hash maps, for which association lists stand; the memory of moved-from objects; the time that passes (timers
  fire as events). The steps of the running server take the answers of a session's asset tasks from the label
  of its preparation; \<open>Assets\<close> says what these answers mean. Headers without code of their own are
  declarations of what is modelled.
\<close>

section \<open>Properties of the whole\<close>

text \<open>The program runs with the range of ports of its configuration when there is a configuration in the parent
  directory that names one below 65535, and the address can be bound.\<close>

theorem configured_server_starts:
  assumes "load_config api getenv (files ''../config.toml'') = Inr (Inr cfg)" and "0 < sv_threads (cfg_server cfg)"
    and "j_port_start (cfg_janus cfg) = Some s" and "j_port_end (cfg_janus cfg) = Some e" and "e < 65535"
    and "make_address (sv_address (cfg_server cfg)) = Inr ()" and "listener_create ac = Inr ()"
  shows "\<exists>server :: 'ep server. program_start api getenv files None make_address ac = Some (Inr (builtin_factory, server))
    \<and> as_available_webrtc_ports (ro_active (sr_router server)) = map of_nat [unat s..<Suc (unat e)]"
proof -
  obtain server :: "'ep server" where "server_create None make_address ac cfg = Some (Inr server)"
      "as_available_webrtc_ports (ro_active (sr_router server)) = map of_nat [unat s..<Suc (unat e)]"
    using server_create_configured [where make_address = make_address, OF assms(2-7)] by blast
  then show ?thesis using assms(1)
    by (intro exI [of _ server]) (simp add: program_start_def read_config_def builtin_factory_def del: upt_Suc)
qed

text \<open>Without a configuration in the parent directory the one in the working directory is not read, and the
  program is undefined: the bounds of the ports are not initialised.\<close>

theorem local_config_ignored:
  assumes "files ''../config.toml'' = None"
  shows "read_config api getenv files = Inr (Inr default_config)
    \<and> program_start api getenv files None make_address ac = None"
  using assms
  by (simp add: read_config_def load_config_def program_start_def server_create_def default_config_def pool_create_def)

lemma local_config_ignored_witness:
  "program_start demo_toml (\<lambda>_. None) (\<lambda>p. if p = ''config.toml'' then Some (Inr 0) else None) None (\<lambda>_. Inr ())
     \<lparr>ac_open = None, ac_set_option = None, ac_bind = None, ac_listen = None\<rparr> = None"
  by (rule local_config_ignored [THEN conjunct2]) simp

text \<open>With the default configuration, whose salt is empty, creating an encrypted session reads past the end of the
  salt.\<close>

theorem encryption_needs_config:
  assumes "g_start_node g \<noteq> None"
  shows "session_create v ident g (cfg_crypto default_config) draws webrtc janus_ip janus_port True = Inl UndefinedBehaviour"
  using assms
  by (simp add: session_create_def executor_create_def new_session_def create_streamer_def setup_security_def default_config_def
      Let_def derive_iv_from_ssrc_def new_packetizer_def transform_def ssrc_bytes_def)

lemma encryption_needs_config_witness:
  "session_create demo_env [] (x_graph demo_executor) (cfg_crypto default_config) \<lparr>dr_ssrc = 1, dr_seq = 0, dr_ts = 0\<rparr> False [] None True
     = Inl UndefinedBehaviour"
  by (rule encryption_needs_config) (simp add: demo_executor_def)

section \<open>Witnesses of a start\<close>

definition janus_toml :: "nat toml_api" where
  "janus_toml = demo_toml\<lparr>t_at := (\<lambda>n k. if n = 0 \<and> k = ''janus'' then Some 3 else t_at demo_toml n k)\<rparr>"

definition parent_file :: "string \<Rightarrow> (string, nat) expected option" where
  "parent_file p = (if p = ''../config.toml'' then Some (Inr 0) else None)"

definition good_acceptor :: acceptor_ec where
  "good_acceptor = \<lparr>ac_open = None, ac_set_option = None, ac_bind = None, ac_listen = None\<rparr>"

lemma janus_config_loaded:
  "\<exists>cfg. load_config janus_toml (\<lambda>_. None) (parent_file ''../config.toml'') = Inr (Inr cfg) \<and> sv_threads (cfg_server cfg) = 1
     \<and> j_port_start (cfg_janus cfg) = Some 10000 \<and> j_port_end (cfg_janus cfg) = Some 10200"
  by (simp add: load_config_def parent_file_def janus_toml_def demo_toml_def load_s3_def load_server_def load_janus_def load_crypto_def
      string_or_def u16_or_def hex_to_bytes_def default_config_def and_then_def transform_def Let_def)

lemma good_listener: "listener_create good_acceptor = Inr ()"
  by (simp add: listener_create_def good_acceptor_def run_step_def and_then_def)

lemma configured_server_starts_witness:
  "\<exists>server :: nat server. program_start janus_toml (\<lambda>_. None) parent_file None (\<lambda>_. Inr ()) good_acceptor = Some (Inr (builtin_factory, server))
     \<and> length (as_available_webrtc_ports (ro_active (sr_router server))) = 201"
proof -
  obtain cfg where c: "load_config janus_toml (\<lambda>_. None) (parent_file ''../config.toml'') = Inr (Inr cfg)" "sv_threads (cfg_server cfg) = 1"
      "j_port_start (cfg_janus cfg) = Some 10000" "j_port_end (cfg_janus cfg) = Some 10200" using janus_config_loaded by blast
  obtain server :: "nat server" where "program_start janus_toml (\<lambda>_. None) parent_file None (\<lambda>_. Inr ()) good_acceptor = Some (Inr (builtin_factory, server))"
      "as_available_webrtc_ports (ro_active (sr_router server)) = map of_nat [unat (10000 :: u16)..<Suc (unat (10200 :: u16))]"
    using configured_server_starts [of janus_toml "\<lambda>_. None" parent_file cfg 10000 10200 "\<lambda>_. Inr ()" good_acceptor] c good_listener by auto
  then show ?thesis by (intro exI [of _ server]) (simp del: upt_Suc)
qed

end
